(* ===== verification/HR_Prelude.thy ===== *)
theory HR_Prelude
  imports Main "HOL-Library.Word" "HOL-Library.Monad_Syntax"
begin

text \<open>
  Shared vocabulary of the development: the status codes and configuration constants of
  the kernel, the addresses of the intrusive list nodes, the memory the data-structure
  modules work on, and generic lemmas on options, lists and words.

  A function that changes memory has the type \<open>mem \<Rightarrow> ('a \<times> mem) option\<close>.
  The value \<open>None\<close> stands for a run that does not return: a dereferenced NULL pointer
  (a fault on the target) or a loop that never ends.
\<close>

unbundle bit_operations_syntax

named_theorems hr_frame \<open>what an operation leaves unchanged\<close>
named_theorems hr_op \<open>closed forms of operations on well-formed memory\<close>

section \<open>Status codes and configuration\<close>

datatype hr_status =
    HR_OK
  | HR_ERROR_INVALID_ARGUMENT
  | HR_ERROR_INVALID_STATE
  | HR_ERROR_TIMEOUT
  | HR_ERROR_QUEUE_FULL
  | HR_ERROR_QUEUE_EMPTY
  | HR_ERROR_NO_MEMORY
  | HR_ERROR_NOT_OWNER
  | HR_ERROR_FROM_ISR
  | HR_ERROR_NOT_SUPPORTED
  | HR_ERROR_INTERNAL
  | HR_ERROR_SEMAPHORE_EMPTY
  | HR_ERROR_SEMAPHORE_FULL
  | HR_ERROR_MUTEX_BUSY
  | HR_ERROR_OVERFLOW

type_synonym hr_tick = "32 word"
type_synonym hr_priority = "8 word"

abbreviation (input) HR_CFG_PRIORITY_COUNT :: "'a::numeral" where
  "HR_CFG_PRIORITY_COUNT \<equiv> 8"

abbreviation (input) HR_CFG_IDLE_PRIORITY :: "'a::numeral" where
  "HR_CFG_IDLE_PRIORITY \<equiv> 7"

abbreviation (input) HR_CFG_MAX_TASKS :: nat where
  "HR_CFG_MAX_TASKS \<equiv> 8"

abbreviation (input) HR_WAIT_FOREVER :: hr_tick where
  "HR_WAIT_FOREVER \<equiv> 0xFFFFFFFF"

abbreviation (input) HR_NO_WAIT :: hr_tick where
  "HR_NO_WAIT \<equiv> 0"

abbreviation (input) SIZE_MAX :: nat where
  "SIZE_MAX \<equiv> 4294967295"

abbreviation (input) UINT32_MAX :: "32 word" where
  "UINT32_MAX \<equiv> 0xFFFFFFFF"

text \<open>
  \<open>size_t\<close> counters are natural numbers: they count objects that live in a 32-bit
  address space, so an increment cannot wrap. A decrement at zero does wrap in C, and
  \<open>size_dec\<close> writes that case out.
\<close>

definition size_dec :: "nat \<Rightarrow> nat" where
  "size_dec n = (if n = 0 then SIZE_MAX else n - 1)"

lemma size_dec_pos [simp]: "0 < n \<Longrightarrow> size_dec n = n - 1"
  by (simp add: size_dec_def)

lemma size_dec_Suc [simp]: "size_dec (Suc n) = n"
  by (simp add: size_dec_def)

section \<open>Addresses\<close>

text \<open>
  Objects are identified by the number of their storage. \<open>NULL\<close> is \<open>None\<close> of
  an option. An intrusive node is identified by the object it is embedded in, so
  \<open>HR_CONTAINER_OF\<close> and \<open>&object->node\<close> are the identity on node addresses.
\<close>

type_synonym task_ptr = nat
type_synonym sem_ptr = nat
type_synonym queue_ptr = nat
type_synonym mutex_ptr = nat
type_synonym timer_ptr = nat

datatype rset_addr = G_scheduler

datatype tlist_addr = G_timeout_list | G_timer_timeouts

datatype list_addr =
    ReadyQueue rset_addr nat
  | TimeoutList tlist_addr nat
  | AllTasks
  | ExpiredNodes
  | ExpiredTimers
  | PendingTimers
  | OwnedMutexes task_ptr
  | SemaphoreWaiters sem_ptr
  | SendWaiters queue_ptr
  | ReceiveWaiters queue_ptr
  | MutexWaiters mutex_ptr

datatype node_addr =
    is_root: Root list_addr
  | ReadyNode task_ptr
  | WaitNode task_ptr
  | TimeoutNode task_ptr
  | AllTaskNode task_ptr
  | OwnerNode mutex_ptr
  | TimerNode timer_ptr
  | PendingNode timer_ptr

datatype obj_ptr = Task_obj task_ptr | Mutex_obj mutex_ptr | Timer_obj timer_ptr

section \<open>Memory of the intrusive data structures\<close>

text \<open>
  \<open>hr_list_node_t\<close>, \<open>hr_list_t\<close> (its root node is the node at
  \<open>Root l\<close>, its size is \<open>lsize\<close>), the \<open>priority\<close> member of
  \<open>hr_ready_node_t\<close> and \<open>hr_wait_node_t\<close>, the \<open>wake_tick\<close>
  member of \<open>hr_timeout_node_t\<close>, \<open>hr_ready_set_t\<close> (its queue \<open>i\<close>
  is the list \<open>ReadyQueue r i\<close>) and \<open>hr_timeout_list_t\<close>.
\<close>

record hr_list_node =
  nprevious :: "node_addr option"
  nnext :: "node_addr option"
  nlist :: "list_addr option"
  nowner :: "obj_ptr option"

record hr_ready_set =
  rbitmap :: "32 word"
  rcount :: nat

record hr_timeout_list =
  tcurrent :: "list_addr option"
  toverflow :: "list_addr option"
  tlast_tick :: hr_tick
  tcount :: nat

record mem =
  nodes :: "node_addr \<Rightarrow> hr_list_node"
  lsize :: "list_addr \<Rightarrow> nat"
  npriority :: "node_addr \<Rightarrow> hr_priority"
  nwake_tick :: "node_addr \<Rightarrow> hr_tick"
  ready_sets :: "rset_addr \<Rightarrow> hr_ready_set"
  timeout_lists :: "tlist_addr \<Rightarrow> hr_timeout_list"

text \<open>Static storage before any initialisation: every byte is zero.\<close>

definition zero_node :: hr_list_node where
  "zero_node = \<lparr>nprevious = None, nnext = None, nlist = None, nowner = None\<rparr>"

definition zero_mem :: mem where
  "zero_mem =
     \<lparr>nodes = (\<lambda>_. zero_node), lsize = (\<lambda>_. 0), npriority = (\<lambda>_. 0),
      nwake_tick = (\<lambda>_. 0),
      ready_sets = (\<lambda>_. \<lparr>rbitmap = 0, rcount = 0\<rparr>),
      timeout_lists = (\<lambda>_. \<lparr>tcurrent = None, toverflow = None, tlast_tick = 0, tcount = 0\<rparr>)\<rparr>"

section \<open>Generic lemmas\<close>

lemma unat_lt_8: "unat (p :: 8 word) < 8 \<longleftrightarrow> p < 8"
  by (simp add: word_less_nat_alt)

lemma unat32_lt: "unat (w :: 32 word) < 4294967296"
proof -
  have "unat w < 2 ^ 32" using unsigned_less [of w] by simp
  then show ?thesis by simp
qed

lemma upt_split: "i < n \<Longrightarrow> [0..<n] = [0..<i] @ i # [Suc i..<n]"
  using upt_add_eq_append [of 0 i "n - i"] by (simp add: upt_conv_Cons)

lemma last_root_in: "last (a # xs) \<in> insert a (set xs)"
  by (induction xs arbitrary: a) auto

lemma hd_root_in: "hd (xs @ [b]) \<in> insert b (set xs)"
  by (cases xs) auto


lemma sum_fun_upd:
  "i < k \<Longrightarrow> (\<Sum>j < (k :: nat). if j = i then a else f j) + f i = (\<Sum>j < k. f j) + (a :: nat)"
proof -
  assume i: "i < k"
  have "(\<Sum>j < k. f j) = f i + (\<Sum>j \<in> {..<k} - {i}. f j)"
    using i by (simp add: sum.remove [of _ i])
  moreover have "(\<Sum>j < k. if j = i then a else f j) = a + (\<Sum>j \<in> {..<k} - {i}. f j)"
    using i by (simp add: sum.remove [of _ i])
  ultimately show ?thesis by simp
qed

section \<open>Stable insertion by key\<close>

text \<open>
  The order the ready set, the wait lists and the timeout lists keep: sorted by key, and
  among equal keys in the order of insertion.
\<close>

definition insert_fifo :: "('a \<Rightarrow> 'k::linorder) \<Rightarrow> 'a \<Rightarrow> 'a list \<Rightarrow> 'a list" where
  "insert_fifo key x xs =
     takeWhile (\<lambda>y. key y \<le> key x) xs @ x # dropWhile (\<lambda>y. key y \<le> key x) xs"

lemma insert_fifo_Nil [simp]: "insert_fifo key x [] = [x]"
  by (simp add: insert_fifo_def)

lemma insert_fifo_Cons [simp]:
  "insert_fifo key x (y # ys) = (if key y \<le> key x then y # insert_fifo key x ys else x # y # ys)"
  by (simp add: insert_fifo_def)

lemma set_insert_fifo [simp]: "set (insert_fifo key x xs) = insert x (set xs)"
  by (induction xs) auto

lemma length_insert_fifo [simp]: "length (insert_fifo key x xs) = Suc (length xs)"
  by (induction xs) auto

lemma insert_fifo_neq_Nil [simp]: "insert_fifo key x xs \<noteq> []"
  by (simp add: insert_fifo_def)

lemma distinct_insert_fifo [simp]: "distinct (insert_fifo key x xs) \<longleftrightarrow> x \<notin> set xs \<and> distinct xs"
  by (induction xs) auto

lemma sorted_insert_fifo: "sorted (map key xs) \<Longrightarrow> sorted (map key (insert_fifo key x xs))"
  by (induction xs) auto

text \<open>Elements of one key keep their order and the new one comes last among them.\<close>

lemma filter_insert_fifo:
  "sorted (map key xs) \<Longrightarrow>
   filter (\<lambda>y. key y = k) (insert_fifo key x xs) =
     filter (\<lambda>y. key y = k) xs @ (if key x = k then [x] else [])"
proof (induction xs)
  case (Cons y ys)
  have "filter (\<lambda>z. key z = k) (y # ys) = []" if "\<not> key y \<le> key x" and "key x = k"
    using Cons.prems that by (fastforce simp: filter_empty_conv)
  then show ?case using Cons by auto
qed simp

lemma insert_fifo_append:
  "\<forall>y \<in> set as. key y \<le> key x \<Longrightarrow> insert_fifo key x (as @ bs) = as @ insert_fifo key x bs"
  by (induction as) auto

lemma insert_fifo_before:
  "\<forall>y \<in> set bs. key x < key y \<Longrightarrow> insert_fifo key x bs = x # bs"
  by (cases bs) auto

lemma insert_fifo_append_before:
  "\<forall>y \<in> set bs. key x < key y \<Longrightarrow> insert_fifo key x (as @ bs) = insert_fifo key x as @ bs"
  by (induction as) (simp_all add: insert_fifo_before)

lemma insert_fifo_cong:
  "(\<And>y. y \<in> insert x (set xs) \<Longrightarrow> key y = key' y) \<Longrightarrow> insert_fifo key x xs = insert_fifo key' x xs"
  by (induction xs) auto

end
