(* ===== verification/HR_List.thy ===== *)
theory HR_List
  imports HR_Prelude
begin

text \<open>
  The intrusive doubly linked list of \<open>kernel/src/hr_list.c\<close>: a circular list
  through a root node that is embedded in the list header. The operations below follow
  the source statement by statement on the pointer memory; the second half of the theory
  abstracts a header to the HOL list of the nodes reached from its root and shows that
  each operation acts on that list as a sequence operation.
\<close>

section \<open>Operations\<close>

definition set_node :: "node_addr \<Rightarrow> hr_list_node \<Rightarrow> mem \<Rightarrow> mem" where
  "set_node n x m = m\<lparr>nodes := (nodes m)(n := x)\<rparr>"

definition set_next :: "node_addr \<Rightarrow> node_addr option \<Rightarrow> mem \<Rightarrow> mem" where
  "set_next n a m = set_node n ((nodes m n)\<lparr>nnext := a\<rparr>) m"

definition set_previous :: "node_addr \<Rightarrow> node_addr option \<Rightarrow> mem \<Rightarrow> mem" where
  "set_previous n a m = set_node n ((nodes m n)\<lparr>nprevious := a\<rparr>) m"

definition set_size :: "list_addr \<Rightarrow> nat \<Rightarrow> mem \<Rightarrow> mem" where
  "set_size l k m = m\<lparr>lsize := (lsize m)(l := k)\<rparr>"

definition link_between :: "list_addr \<Rightarrow> node_addr \<Rightarrow> node_addr \<Rightarrow> node_addr \<Rightarrow> mem \<Rightarrow> mem" where
  "link_between l p q n m =
     (let m1 = set_node n ((nodes m n)\<lparr>nprevious := Some p, nnext := Some q, nlist := Some l\<rparr>) m;
          m2 = set_next p (Some n) m1;
          m3 = set_previous q (Some n) m2
      in set_size l (Suc (lsize m3 l)) m3)"

definition hr_list_insert_between ::
  "list_addr option \<Rightarrow> node_addr option \<Rightarrow> node_addr option \<Rightarrow> node_addr option \<Rightarrow> mem \<Rightarrow> (hr_status \<times> mem) option" where
  "hr_list_insert_between list previous nxt node m =
     (case (list, previous, nxt, node) of
        (Some l, Some p, Some q, Some n) \<Rightarrow>
          if nlist (nodes m n) \<noteq> None then Some (HR_ERROR_INVALID_STATE, m)
          else Some (HR_OK, link_between l p q n m)
      | _ \<Rightarrow> Some (HR_ERROR_INVALID_ARGUMENT, m))"

definition hr_list_init :: "list_addr option \<Rightarrow> mem \<Rightarrow> mem" where
  "hr_list_init list m =
     (case list of
        None \<Rightarrow> m
      | Some l \<Rightarrow>
          set_size l 0
            (set_node (Root l)
              \<lparr>nprevious = Some (Root l), nnext = Some (Root l), nlist = Some l, nowner = None\<rparr> m))"

definition hr_list_node_init :: "node_addr option \<Rightarrow> obj_ptr option \<Rightarrow> mem \<Rightarrow> mem" where
  "hr_list_node_init node owner m =
     (case node of
        None \<Rightarrow> m
      | Some n \<Rightarrow> set_node n \<lparr>nprevious = None, nnext = None, nlist = None, nowner = owner\<rparr> m)"

definition hr_list_is_empty :: "list_addr option \<Rightarrow> mem \<Rightarrow> bool" where
  "hr_list_is_empty list m = (case list of None \<Rightarrow> True | Some l \<Rightarrow> lsize m l = 0)"

definition hr_list_size :: "list_addr option \<Rightarrow> mem \<Rightarrow> nat" where
  "hr_list_size list m = (case list of None \<Rightarrow> 0 | Some l \<Rightarrow> lsize m l)"

definition hr_list_node_is_linked :: "node_addr option \<Rightarrow> mem \<Rightarrow> bool" where
  "hr_list_node_is_linked node m = (case node of None \<Rightarrow> False | Some n \<Rightarrow> nlist (nodes m n) \<noteq> None)"

definition hr_list_node_owner :: "node_addr option \<Rightarrow> mem \<Rightarrow> obj_ptr option" where
  "hr_list_node_owner node m = (case node of None \<Rightarrow> None | Some n \<Rightarrow> nowner (nodes m n))"

definition hr_list_front :: "list_addr option \<Rightarrow> mem \<Rightarrow> node_addr option" where
  "hr_list_front list m =
     (case list of
        None \<Rightarrow> None
      | Some l \<Rightarrow> if lsize m l = 0 then None else nnext (nodes m (Root l)))"

definition hr_list_back :: "list_addr option \<Rightarrow> mem \<Rightarrow> node_addr option" where
  "hr_list_back list m =
     (case list of
        None \<Rightarrow> None
      | Some l \<Rightarrow> if lsize m l = 0 then None else nprevious (nodes m (Root l)))"

definition hr_list_next :: "list_addr option \<Rightarrow> node_addr option \<Rightarrow> mem \<Rightarrow> node_addr option" where
  "hr_list_next list node m =
     (case (list, node) of
        (Some l, Some n) \<Rightarrow>
          if nlist (nodes m n) \<noteq> Some l \<or> nnext (nodes m n) = Some (Root l) then None
          else nnext (nodes m n)
      | _ \<Rightarrow> None)"

definition hr_list_previous :: "list_addr option \<Rightarrow> node_addr option \<Rightarrow> mem \<Rightarrow> node_addr option" where
  "hr_list_previous list node m =
     (case (list, node) of
        (Some l, Some n) \<Rightarrow>
          if nlist (nodes m n) \<noteq> Some l \<or> nprevious (nodes m n) = Some (Root l) then None
          else nprevious (nodes m n)
      | _ \<Rightarrow> None)"

definition hr_list_push_front ::
  "list_addr option \<Rightarrow> node_addr option \<Rightarrow> mem \<Rightarrow> (hr_status \<times> mem) option" where
  "hr_list_push_front list node m =
     (case list of
        None \<Rightarrow> Some (HR_ERROR_INVALID_ARGUMENT, m)
      | Some l \<Rightarrow>
          hr_list_insert_between list (Some (Root l)) (nnext (nodes m (Root l))) node m)"

definition hr_list_push_back ::
  "list_addr option \<Rightarrow> node_addr option \<Rightarrow> mem \<Rightarrow> (hr_status \<times> mem) option" where
  "hr_list_push_back list node m =
     (case list of
        None \<Rightarrow> Some (HR_ERROR_INVALID_ARGUMENT, m)
      | Some l \<Rightarrow>
          hr_list_insert_between list (nprevious (nodes m (Root l))) (Some (Root l)) node m)"

definition hr_list_insert_before ::
  "list_addr option \<Rightarrow> node_addr option \<Rightarrow> node_addr option \<Rightarrow> mem \<Rightarrow> (hr_status \<times> mem) option" where
  "hr_list_insert_before list position node m =
     (case (list, position) of
        (Some l, Some q) \<Rightarrow>
          if nlist (nodes m q) \<noteq> Some l then Some (HR_ERROR_INVALID_STATE, m)
          else hr_list_insert_between list (nprevious (nodes m q)) position node m
      | _ \<Rightarrow> Some (HR_ERROR_INVALID_ARGUMENT, m))"

definition hr_list_remove :: "node_addr option \<Rightarrow> mem \<Rightarrow> (hr_status \<times> mem) option" where
  "hr_list_remove node m =
     (case node of
        None \<Rightarrow> Some (HR_ERROR_INVALID_ARGUMENT, m)
      | Some n \<Rightarrow>
          (case nlist (nodes m n) of
             None \<Rightarrow> Some (HR_ERROR_INVALID_STATE, m)
           | Some l \<Rightarrow>
               if n = Root l \<or> lsize m l = 0 then Some (HR_ERROR_INVALID_STATE, m)
               else do {
                 p \<leftarrow> nprevious (nodes m n);
                 let m1 = set_next p (nnext (nodes m n)) m;
                 q \<leftarrow> nnext (nodes m1 n);
                 let m2 = set_previous q (nprevious (nodes m1 n)) m1;
                 let m3 = set_size l (size_dec (lsize m2 l)) m2;
                 Some (HR_OK,
                   set_node n ((nodes m3 n)\<lparr>nprevious := None, nnext := None, nlist := None\<rparr>) m3)
               }))"

definition hr_list_pop_front :: "list_addr option \<Rightarrow> mem \<Rightarrow> (node_addr option \<times> mem) option" where
  "hr_list_pop_front list m =
     (case hr_list_front list m of
        None \<Rightarrow> Some (None, m)
      | Some n \<Rightarrow> do {
          (st, m1) \<leftarrow> hr_list_remove (Some n) m;
          Some (if st \<noteq> HR_OK then None else Some n, m1)
        })"

definition hr_list_pop_back :: "list_addr option \<Rightarrow> mem \<Rightarrow> (node_addr option \<times> mem) option" where
  "hr_list_pop_back list m =
     (case hr_list_back list m of
        None \<Rightarrow> Some (None, m)
      | Some n \<Rightarrow> do {
          (st, m1) \<leftarrow> hr_list_remove (Some n) m;
          Some (if st \<noteq> HR_OK then None else Some n, m1)
        })"

text \<open>
  The traversal of \<open>hr_list_validate\<close> stops on a corrupted list because it counts
  its steps; the loop variables are \<open>previous\<close>, \<open>node\<close> and \<open>count\<close>.
\<close>

function hr_list_validate_loop :: "list_addr \<Rightarrow> node_addr \<Rightarrow> node_addr option \<Rightarrow> nat \<Rightarrow> mem \<Rightarrow> bool" where
  "hr_list_validate_loop l previous node count m =
     (if node \<noteq> Some (Root l) then
        (case node of
           None \<Rightarrow> False
         | Some n \<Rightarrow>
             if nlist (nodes m n) \<noteq> Some l \<or> nprevious (nodes m n) \<noteq> Some previous \<or>
                nnext (nodes m n) = None
             then False
             else if Suc count > lsize m l then False
             else hr_list_validate_loop l n (nnext (nodes m n)) (Suc count) m)
      else
        count = lsize m l \<and> nprevious (nodes m (Root l)) = Some previous \<and>
        nnext (nodes m previous) = Some (Root l))"
  by pat_completeness auto
termination
  by (relation "measure (\<lambda>(l, previous, node, count, m). lsize m l - count)") auto

declare hr_list_validate_loop.simps [simp del]

definition hr_list_validate :: "list_addr option \<Rightarrow> mem \<Rightarrow> bool" where
  "hr_list_validate list m =
     (case list of
        None \<Rightarrow> False
      | Some l \<Rightarrow>
          if nlist (nodes m (Root l)) \<noteq> Some l \<or> nnext (nodes m (Root l)) = None \<or>
             nprevious (nodes m (Root l)) = None
          then False
          else hr_list_validate_loop l (Root l) (nnext (nodes m (Root l))) 0 m)"


section \<open>Abstraction to sequences\<close>

text \<open>
  \<open>seg m a xs b\<close>: the forward and backward links of the path from \<open>a\<close>
  through \<open>xs\<close> to \<open>b\<close> agree. A header abstracts to the nodes met on the walk
  of \<open>lsize\<close> steps from its root; \<open>wf_mem\<close> says that every initialised header is
  such a circular path and that a node is in exactly the list its \<open>list\<close> pointer names.
\<close>

fun seg :: "mem \<Rightarrow> node_addr \<Rightarrow> node_addr list \<Rightarrow> node_addr \<Rightarrow> bool" where
  "seg m a [] b \<longleftrightarrow> nnext (nodes m a) = Some b \<and> nprevious (nodes m b) = Some a"
| "seg m a (x # xs) b \<longleftrightarrow>
     nnext (nodes m a) = Some x \<and> nprevious (nodes m x) = Some a \<and> seg m x xs b"

fun walk :: "mem \<Rightarrow> nat \<Rightarrow> node_addr option \<Rightarrow> node_addr list" where
  "walk m 0 a = []"
| "walk m (Suc k) None = []"
| "walk m (Suc k) (Some a) = a # walk m k (nnext (nodes m a))"

definition nodes_of :: "mem \<Rightarrow> list_addr \<Rightarrow> node_addr list" where
  "nodes_of m l = walk m (lsize m l) (nnext (nodes m (Root l)))"

definition inited :: "mem \<Rightarrow> list_addr \<Rightarrow> bool" where
  "inited m l \<longleftrightarrow> nlist (nodes m (Root l)) = Some l"

definition linked :: "mem \<Rightarrow> list_addr \<Rightarrow> node_addr list \<Rightarrow> bool" where
  "linked m l xs \<longleftrightarrow>
     seg m (Root l) xs (Root l) \<and> distinct xs \<and> length xs = lsize m l \<and>
     (\<forall>x \<in> set xs. \<not> is_root x)"

definition wf_mem :: "mem \<Rightarrow> bool" where
  "wf_mem m \<longleftrightarrow>
     (\<forall>l. inited m l \<longrightarrow> linked m l (nodes_of m l)) \<and>
     (\<forall>n l. \<not> is_root n \<longrightarrow> (nlist (nodes m n) = Some l \<longleftrightarrow> inited m l \<and> n \<in> set (nodes_of m l)))"

lemma Root_notin: "\<forall>x \<in> A. \<not> is_root x \<Longrightarrow> Root l \<notin> A"
  by force

lemma seg_append: "seg m a (xs @ y # ys) b \<longleftrightarrow> seg m a xs y \<and> seg m y ys b"
  by (induction xs arbitrary: a) auto

lemma seg_first: "seg m a xs b \<Longrightarrow> nnext (nodes m a) = Some (hd (xs @ [b]))"
  by (cases xs) auto

lemma seg_last: "seg m a xs b \<Longrightarrow> nprevious (nodes m b) = Some (last (a # xs))"
  by (induction xs arbitrary: a) auto

lemma seg_cong:
  assumes "\<And>x. x \<in> insert a (set xs) \<Longrightarrow> nnext (nodes m' x) = nnext (nodes m x)"
    and "\<And>x. x \<in> insert b (set xs) \<Longrightarrow> nprevious (nodes m' x) = nprevious (nodes m x)"
  shows "seg m' a xs b \<longleftrightarrow> seg m a xs b"
  using assms by (induction xs arbitrary: a) auto

lemma walk_seg: "seg m a xs b \<Longrightarrow> walk m (length xs) (nnext (nodes m a)) = xs"
  by (induction xs arbitrary: a) auto

lemma linked_lists: "linked m l xs \<Longrightarrow> nodes_of m l = xs"
  by (auto simp: linked_def nodes_of_def dest: walk_seg)

lemma wf_memI:
  assumes "\<And>l. inited m l \<Longrightarrow> linked m l (L l)"
    and "\<And>n l. \<not> is_root n \<Longrightarrow> nlist (nodes m n) = Some l \<longleftrightarrow> inited m l \<and> n \<in> set (L l)"
  shows "wf_mem m" and "\<And>l. inited m l \<Longrightarrow> nodes_of m l = L l"
proof -
  show L: "\<And>l. inited m l \<Longrightarrow> nodes_of m l = L l"
    using assms(1) by (rule linked_lists)
  show "wf_mem m"
    unfolding wf_mem_def using assms L by auto
qed

lemma wf_linked: "wf_mem m \<Longrightarrow> inited m l \<Longrightarrow> linked m l (nodes_of m l)"
  by (simp add: wf_mem_def)

lemma wf_nlist:
  "wf_mem m \<Longrightarrow> \<not> is_root n \<Longrightarrow> nlist (nodes m n) = Some l \<longleftrightarrow> inited m l \<and> n \<in> set (nodes_of m l)"
  by (simp add: wf_mem_def)

lemma wf_seg: "wf_mem m \<Longrightarrow> inited m l \<Longrightarrow> seg m (Root l) (nodes_of m l) (Root l)"
  by (drule (1) wf_linked) (simp add: linked_def)

lemma wf_distinct: "wf_mem m \<Longrightarrow> inited m l \<Longrightarrow> distinct (nodes_of m l)"
  by (drule (1) wf_linked) (simp add: linked_def)

lemma wf_lsize: "wf_mem m \<Longrightarrow> inited m l \<Longrightarrow> lsize m l = length (nodes_of m l)"
  by (drule (1) wf_linked) (simp add: linked_def)

lemma wf_not_root: "wf_mem m \<Longrightarrow> inited m l \<Longrightarrow> x \<in> set (nodes_of m l) \<Longrightarrow> \<not> is_root x"
  by (drule (1) wf_linked) (simp add: linked_def)

lemma wf_in_list: "wf_mem m \<Longrightarrow> inited m l \<Longrightarrow> x \<in> set (nodes_of m l) \<Longrightarrow> nlist (nodes m x) = Some l"
  using wf_nlist wf_not_root by blast

lemma wf_disjoint:
  "wf_mem m \<Longrightarrow> inited m l \<Longrightarrow> inited m k \<Longrightarrow> x \<in> set (nodes_of m l) \<Longrightarrow> x \<in> set (nodes_of m k) \<Longrightarrow> l = k"
  by (metis wf_in_list option.inject)

section \<open>Linking and unlinking\<close>

text \<open>The update \<open>hr_list_remove\<close> makes, and insertion between two parts of a list.\<close>

definition unlink :: "node_addr \<Rightarrow> mem \<Rightarrow> mem" where
  "unlink n m = snd (the (hr_list_remove (Some n) m))"

definition link_at :: "list_addr \<Rightarrow> node_addr list \<Rightarrow> node_addr list \<Rightarrow> node_addr \<Rightarrow> mem \<Rightarrow> mem" where
  "link_at l as bs n m = link_between l (last (Root l # as)) (hd (bs @ [Root l])) n m"

lemmas node_upd_defs = set_node_def set_next_def set_previous_def set_size_def

lemma link_between_nodes:
  "nlist (nodes (link_between l p q n m) x) = (if x = n then Some l else nlist (nodes m x))"
  "nowner (nodes (link_between l p q n m) x) = nowner (nodes m x)"
  "p \<noteq> n \<Longrightarrow> q \<noteq> n \<Longrightarrow> nnext (nodes (link_between l p q n m) x) =
     (if x = p then Some n else if x = n then Some q else nnext (nodes m x))"
  "p \<noteq> n \<Longrightarrow> q \<noteq> n \<Longrightarrow> nprevious (nodes (link_between l p q n m) x) =
     (if x = q then Some n else if x = n then Some p else nprevious (nodes m x))"
  "lsize (link_between l p q n m) = (lsize m)(l := Suc (lsize m l))"
  by (auto simp: link_between_def node_upd_defs Let_def)

lemma link_between_frame [hr_frame, simp]:
  "npriority (link_between l p q n m) = npriority m"
  "nwake_tick (link_between l p q n m) = nwake_tick m"
  "ready_sets (link_between l p q n m) = ready_sets m"
  "timeout_lists (link_between l p q n m) = timeout_lists m"
  by (simp_all add: link_between_def node_upd_defs Let_def)

lemma link_at_frame [hr_frame, simp]:
  "npriority (link_at l as bs n m) = npriority m"
  "nwake_tick (link_at l as bs n m) = nwake_tick m"
  "ready_sets (link_at l as bs n m) = ready_sets m"
  "timeout_lists (link_at l as bs n m) = timeout_lists m"
  "nowner (nodes (link_at l as bs n m) x) = nowner (nodes m x)"
  by (simp_all add: link_at_def link_between_nodes)

lemma link_at_nlist [simp]:
  "nlist (nodes (link_at l as bs n m) x) = (if x = n then Some l else nlist (nodes m x))"
  by (simp add: link_at_def link_between_nodes)

lemma link_at_inited [simp]: "\<not> is_root n \<Longrightarrow> inited (link_at l as bs n m) k = inited m k"
  by (auto simp: inited_def)

lemma linked_link_at:
  assumes "linked m l (as @ bs)" and "\<not> is_root n" and "n \<notin> set (as @ bs)"
  shows "linked (link_at l as bs n m) l (as @ n # bs)"
proof -
  define p where "p = last (Root l # as)"
  define q where "q = hd (bs @ [Root l])"
  let ?m = "link_between l p q n m"
  have seg: "seg m (Root l) (as @ bs) (Root l)" and dist: "distinct (as @ bs)"
    and rt: "Root l \<notin> set (as @ bs)"
    using assms(1) Root_notin by (simp_all add: linked_def)
  have pq: "p \<in> insert (Root l) (set as)" "q \<in> insert (Root l) (set bs)"
    unfolding p_def q_def by (rule last_root_in, rule hd_root_in)
  then have pn: "p \<noteq> n" "q \<noteq> n" using assms(2,3) by auto
  note upd = link_between_nodes(3,4) [OF pn, of l m]
  have "seg ?m (Root l) as n"
  proof (cases as rule: rev_cases)
    case Nil
    then have "Root l = p" by (simp add: p_def)
    then show ?thesis using Nil pn by (simp add: upd)
  next
    case (snoc as' a)
    have s: "seg m (Root l) as' a" using seg snoc by (cases bs) (auto simp: seg_append)
    have p: "a = p" using snoc by (simp add: p_def)
    have "seg ?m (Root l) as' a"
      using s by (subst seg_cong [where m = m])
        (use dist rt snoc pq pn p assms(2,3) in \<open>auto simp: upd\<close>)
    then show ?thesis using snoc pn p by (simp add: seg_append upd)
  qed
  moreover have "seg ?m n bs (Root l)"
  proof (cases bs)
    case Nil
    then have "Root l = q" by (simp add: q_def)
    then show ?thesis using Nil pn by (simp add: upd)
  next
    case (Cons b bs')
    have s: "seg m b bs' (Root l)" using seg Cons by (simp add: seg_append)
    have q: "b = q" using Cons by (simp add: q_def)
    have "seg ?m b bs' (Root l)"
      using s by (subst seg_cong [where m = m])
        (use dist rt Cons pq pn q assms(2,3) in \<open>auto simp: upd\<close>)
    then show ?thesis using Cons pn q by (simp add: upd)
  qed
  ultimately show ?thesis
    using assms by (auto simp: linked_def seg_append link_at_def p_def q_def link_between_nodes(5))
qed

lemma linked_link_at_other:
  assumes "linked m k xs" and "k \<noteq> l" and "set xs \<inter> set (as @ bs) = {}"
    and "n \<notin> set xs" and "\<not> is_root n" and "\<forall>x \<in> set (as @ bs). \<not> is_root x"
  shows "linked (link_at l as bs n m) k xs"
proof -
  define p where "p = last (Root l # as)"
  define q where "q = hd (bs @ [Root l])"
  have pq: "p \<in> insert (Root l) (set as)" "q \<in> insert (Root l) (set bs)"
    unfolding p_def q_def by (rule last_root_in, rule hd_root_in)
  have rt: "Root k \<notin> set (as @ bs)" "Root l \<notin> set xs"
    using assms(1,6) Root_notin by (simp_all add: linked_def)
  have notin: "p \<notin> insert (Root k) (set xs)" "q \<notin> insert (Root k) (set xs)"
    "n \<notin> insert (Root k) (set xs)"
    using pq rt assms(2-5) by auto
  then have "seg (link_between l p q n m) (Root k) xs (Root k) \<longleftrightarrow> seg m (Root k) xs (Root k)"
    by (intro seg_cong) (auto simp: link_between_def node_upd_defs Let_def)
  then show ?thesis
    using assms(1,2) by (simp add: linked_def link_at_def p_def q_def link_between_nodes)
qed

lemma wf_link_at:
  assumes "wf_mem m" and "inited m l" and "nodes_of m l = as @ bs"
    and "\<not> is_root n" and "nlist (nodes m n) = None"
  shows "wf_mem (link_at l as bs n m)"
    and "inited m k \<Longrightarrow> nodes_of (link_at l as bs n m) k = (if k = l then as @ n # bs else nodes_of m k)"
proof -
  let ?L = "\<lambda>k. if k = l then as @ n # bs else nodes_of m k"
  have new: "n \<notin> set (nodes_of m k)" if "inited m k" for k
    using wf_in_list [OF assms(1) that] assms(5) by fastforce
  have nr: "\<forall>x \<in> set (as @ bs). \<not> is_root x"
    using wf_not_root [OF assms(1,2)] assms(3) by simp
  have lk: "linked (link_at l as bs n m) k (?L k)" if "inited (link_at l as bs n m) k" for k
  proof (cases "k = l")
    case True
    then show ?thesis
      using linked_link_at [of m l as bs n] wf_linked [OF assms(1,2)] new [OF assms(2)] assms(3,4)
      by simp
  next
    case False
    have i: "inited m k" using that assms(4) by simp
    have "set (nodes_of m k) \<inter> set (as @ bs) = {}"
      using wf_disjoint [OF assms(1,2) i] False assms(3) by auto
    then show ?thesis
      using linked_link_at_other [OF wf_linked [OF assms(1) i] False] new [OF i] assms(4) nr False
      by simp
  qed
  have nl: "nlist (nodes (link_at l as bs n m) x) = Some k \<longleftrightarrow>
      inited (link_at l as bs n m) k \<and> x \<in> set (?L k)" if "\<not> is_root x" for x k
    using wf_nlist [OF assms(1) that] new assms(2-5) by auto
  show "wf_mem (link_at l as bs n m)" by (rule wf_memI(1) [OF lk nl])
  show "inited m k \<Longrightarrow> nodes_of (link_at l as bs n m) k = ?L k"
    using wf_memI(2) [OF lk nl] assms(4) by simp
qed


lemma unlink_eq:
  assumes "nlist (nodes m n) = Some l" and "n \<noteq> Root l" and "lsize m l \<noteq> 0"
    and "nprevious (nodes m n) = Some p" and "nnext (nodes m n) = Some q" and "p \<noteq> n" and "q \<noteq> n"
  shows "hr_list_remove (Some n) m = Some (HR_OK, unlink n m)"
    and "nlist (nodes (unlink n m) x) = (if x = n then None else nlist (nodes m x))"
    and "nowner (nodes (unlink n m) x) = nowner (nodes m x)"
    and "nnext (nodes (unlink n m) x) =
           (if x = n then None else if x = p then Some q else nnext (nodes m x))"
    and "nprevious (nodes (unlink n m) x) =
           (if x = n then None else if x = q then Some p else nprevious (nodes m x))"
    and "lsize (unlink n m) = (lsize m)(l := lsize m l - 1)"
    and "npriority (unlink n m) = npriority m"
    and "nwake_tick (unlink n m) = nwake_tick m"
    and "ready_sets (unlink n m) = ready_sets m"
    and "timeout_lists (unlink n m) = timeout_lists m"
  using assms by (auto simp: unlink_def hr_list_remove_def node_upd_defs Let_def)

lemma linked_unlink:
  assumes "linked m l (as @ n # bs)" and "nlist (nodes m n) = Some l"
  shows "hr_list_remove (Some n) m = Some (HR_OK, unlink n m)"
    and "linked (unlink n m) l (as @ bs)"
    and "\<And>k xs. linked m k xs \<Longrightarrow> k \<noteq> l \<Longrightarrow> set xs \<inter> set (as @ n # bs) = {} \<Longrightarrow> linked (unlink n m) k xs"
    and "nlist (nodes (unlink n m) x) = (if x = n then None else nlist (nodes m x))"
    and "nowner (nodes (unlink n m) x) = nowner (nodes m x)"
    and "npriority (unlink n m) = npriority m"
    and "nwake_tick (unlink n m) = nwake_tick m"
    and "ready_sets (unlink n m) = ready_sets m"
    and "timeout_lists (unlink n m) = timeout_lists m"
proof -
  define p where "p = last (Root l # as)"
  define q where "q = hd (bs @ [Root l])"
  have sega: "seg m (Root l) as n" and segb: "seg m n bs (Root l)"
    and dist: "distinct (as @ n # bs)" and nr: "\<forall>x \<in> set (as @ n # bs). \<not> is_root x"
    and sz: "lsize m l = Suc (length (as @ bs))"
    using assms(1) by (auto simp: linked_def seg_append)
  have rt: "Root k \<notin> set (as @ n # bs)" for k by (rule Root_notin [OF nr])
  have pq: "p \<in> insert (Root l) (set as)" "q \<in> insert (Root l) (set bs)"
    unfolding p_def q_def by (rule last_root_in, rule hd_root_in)
  have np: "nprevious (nodes m n) = Some p" "nnext (nodes m n) = Some q"
    using seg_last [OF sega] seg_first [OF segb] by (simp_all add: p_def q_def)
  have pn: "p \<noteq> n" "q \<noteq> n" "n \<noteq> Root l" using pq dist rt [of l] by auto
  note u = unlink_eq [OF assms(2) pn(3) _ np pn(1,2), unfolded sz, simplified]
  show "hr_list_remove (Some n) m = Some (HR_OK, unlink n m)"
    "nlist (nodes (unlink n m) x) = (if x = n then None else nlist (nodes m x))"
    "nowner (nodes (unlink n m) x) = nowner (nodes m x)"
    "npriority (unlink n m) = npriority m" "nwake_tick (unlink n m) = nwake_tick m"
    "ready_sets (unlink n m) = ready_sets m" "timeout_lists (unlink n m) = timeout_lists m"
    by (rule u)+
  have "seg (unlink n m) (Root l) (as @ bs) (Root l)"
  proof (cases bs)
    case Nil
    show ?thesis
    proof (cases as rule: rev_cases)
      case (snoc as' a)
      have "seg m (Root l) as' a" using sega snoc by (simp add: seg_append)
      then have "seg (unlink n m) (Root l) as' a"
        by (subst seg_cong [where m = m]) (use dist rt [of l] snoc Nil pn in \<open>auto simp: u p_def q_def\<close>)
      then show ?thesis using snoc Nil dist pn rt [of l] by (auto simp: seg_append u p_def q_def)
    qed (use Nil pn in \<open>simp add: u p_def q_def\<close>)
  next
    case (Cons b bs')
    have "seg m b bs' (Root l)" using segb Cons by simp
    then have sb: "seg (unlink n m) b bs' (Root l)"
      by (subst seg_cong [where m = m]) (use dist rt [of l] Cons pq(1) pn in \<open>auto simp: u q_def\<close>)
    have q: "q = b" using Cons by (simp add: q_def)
    have "seg (unlink n m) (Root l) as b"
    proof (cases as rule: rev_cases)
      case (snoc as' a)
      have "seg m (Root l) as' a" using sega snoc by (simp add: seg_append)
      then have "seg (unlink n m) (Root l) as' a"
        by (subst seg_cong [where m = m]) (use dist rt [of l] snoc Cons q pn in \<open>auto simp: u p_def\<close>)
      then show ?thesis using snoc Cons q dist pn by (auto simp: seg_append u p_def)
    qed (use Cons q dist pn rt [of l] in \<open>auto simp: u p_def\<close>)
    then show ?thesis using sb Cons by (simp add: seg_append)
  qed
  then show "linked (unlink n m) l (as @ bs)"
    using assms(1) by (auto simp: linked_def u)
  fix k xs
  assume k: "linked m k xs" "k \<noteq> l" "set xs \<inter> set (as @ n # bs) = {}"
  have "Root l \<notin> set xs" using k(1) Root_notin by (simp add: linked_def)
  then have "p \<notin> insert (Root k) (set xs)" "q \<notin> insert (Root k) (set xs)" "n \<notin> insert (Root k) (set xs)"
    using pq rt [of k] k(2,3) by auto
  then have "seg (unlink n m) (Root k) xs (Root k) \<longleftrightarrow> seg m (Root k) xs (Root k)"
    by (intro seg_cong) (auto simp: u)
  then show "linked (unlink n m) k xs"
    using k(1,2) by (simp add: linked_def u)
qed

lemma wf_unlink:
  assumes "wf_mem m" and "\<not> is_root n" and "nlist (nodes m n) = Some l"
  shows "hr_list_remove (Some n) m = Some (HR_OK, unlink n m)"
    and "wf_mem (unlink n m)"
    and "inited (unlink n m) k = inited m k"
    and "inited m k \<Longrightarrow> nodes_of (unlink n m) k = (if k = l then remove1 n (nodes_of m k) else nodes_of m k)"
    and "nlist (nodes (unlink n m) x) = (if x = n then None else nlist (nodes m x))"
    and "nowner (nodes (unlink n m) x) = nowner (nodes m x)"
    and "npriority (unlink n m) = npriority m"
    and "nwake_tick (unlink n m) = nwake_tick m"
    and "ready_sets (unlink n m) = ready_sets m"
    and "timeout_lists (unlink n m) = timeout_lists m"
proof -
  have il: "inited m l" and inl: "n \<in> set (nodes_of m l)"
    using wf_nlist [OF assms(1,2)] assms(3) by auto
  obtain as bs where ab: "nodes_of m l = as @ n # bs" using split_list [OF inl] by blast
  have lk: "linked m l (as @ n # bs)" using wf_linked [OF assms(1) il] ab by simp
  note u = linked_unlink [OF lk assms(3)]
  have nas: "n \<notin> set as" "n \<notin> set bs" using lk by (auto simp: linked_def)
  then have r1: "remove1 n (nodes_of m l) = as @ bs" by (simp add: ab remove1_append)
  show "hr_list_remove (Some n) m = Some (HR_OK, unlink n m)"
    "nlist (nodes (unlink n m) x) = (if x = n then None else nlist (nodes m x))"
    "nowner (nodes (unlink n m) x) = nowner (nodes m x)"
    "npriority (unlink n m) = npriority m" "nwake_tick (unlink n m) = nwake_tick m"
    "ready_sets (unlink n m) = ready_sets m" "timeout_lists (unlink n m) = timeout_lists m"
    by (rule u)+
  show ini: "inited (unlink n m) k = inited m k" for k
    using assms(2) by (auto simp: inited_def u(4))
  let ?L = "\<lambda>k. if k = l then remove1 n (nodes_of m k) else nodes_of m k"
  have lk': "linked (unlink n m) k (?L k)" if "inited (unlink n m) k" for k
  proof (cases "k = l")
    case True
    then show ?thesis using u(2) r1 by simp
  next
    case False
    have i: "inited m k" using that by (simp add: ini)
    have "set (nodes_of m k) \<inter> set (as @ n # bs) = {}"
      using wf_disjoint [OF assms(1) il i] False unfolding ab [symmetric] by blast
    then show ?thesis using u(3) [OF wf_linked [OF assms(1) i] False] False by simp
  qed
  have nl: "nlist (nodes (unlink n m) x) = Some k \<longleftrightarrow> inited (unlink n m) k \<and> x \<in> set (?L k)"
    if "\<not> is_root x" for x k
  proof (cases "k = l")
    case True
    then show ?thesis
      using wf_nlist [OF assms(1) that, of l] il wf_distinct [OF assms(1) il]
      by (simp add: u(4) ini)
  next
    case False
    have "n \<notin> set (nodes_of m k)" if "inited m k"
      using wf_disjoint [OF assms(1) il that inl] False by blast
    then show ?thesis
      using wf_nlist [OF assms(1) that, of k] False by (auto simp: u(4) ini)
  qed
  show "wf_mem (unlink n m)" by (rule wf_memI(1) [OF lk' nl])
  show "inited m k \<Longrightarrow> nodes_of (unlink n m) k = ?L k"
    using wf_memI(2) [OF lk' nl] ini by simp
qed


section \<open>Closed forms of the operations\<close>

lemma front_wf [hr_op]:
  "wf_mem m \<Longrightarrow> inited m l \<Longrightarrow>
   hr_list_front (Some l) m = (case nodes_of m l of [] \<Rightarrow> None | x # _ \<Rightarrow> Some x)"
  using wf_seg [of m l] wf_lsize [of m l]
  by (auto simp: hr_list_front_def split: list.splits)

lemma back_wf [hr_op]:
  "wf_mem m \<Longrightarrow> inited m l \<Longrightarrow>
   hr_list_back (Some l) m = (if nodes_of m l = [] then None else Some (last (nodes_of m l)))"
  using seg_last [OF wf_seg, of m l] wf_lsize [of m l]
  by (auto simp: hr_list_back_def)

lemma size_wf [hr_op]: "wf_mem m \<Longrightarrow> inited m l \<Longrightarrow> hr_list_size (Some l) m = length (nodes_of m l)"
  by (simp add: hr_list_size_def wf_lsize)

lemma is_empty_wf [hr_op]: "wf_mem m \<Longrightarrow> inited m l \<Longrightarrow> hr_list_is_empty (Some l) m \<longleftrightarrow> nodes_of m l = []"
  by (simp add: hr_list_is_empty_def wf_lsize)

lemma next_wf:
  assumes "wf_mem m" and "inited m l" and "nodes_of m l = as @ x # bs"
  shows "hr_list_next (Some l) (Some x) m = (case bs of [] \<Rightarrow> None | y # _ \<Rightarrow> Some y)"
proof -
  have "seg m x bs (Root l)" using wf_seg [OF assms(1,2)] by (simp add: assms(3) seg_append)
  moreover have "\<forall>y \<in> set bs. \<not> is_root y" using wf_not_root [OF assms(1,2)] assms(3) by simp
  moreover have "nlist (nodes m x) = Some l" using wf_in_list [OF assms(1,2)] assms(3) by simp
  ultimately show ?thesis by (cases bs) (auto simp: hr_list_next_def)
qed

lemma previous_wf:
  assumes "wf_mem m" and "inited m l" and "nodes_of m l = as @ x # bs"
  shows "hr_list_previous (Some l) (Some x) m = (if as = [] then None else Some (last as))"
proof -
  have "seg m (Root l) as x" using wf_seg [OF assms(1,2)] by (simp add: assms(3) seg_append)
  then have p: "nprevious (nodes m x) = Some (last (Root l # as))" by (rule seg_last)
  have "Root l \<notin> set as" using wf_not_root [OF assms(1,2)] assms(3) by (intro Root_notin) simp
  then have "last as \<noteq> Root l" if "as \<noteq> []" using last_in_set [OF that] by auto
  moreover have "nlist (nodes m x) = Some l" using wf_in_list [OF assms(1,2)] assms(3) by simp
  ultimately show ?thesis
    using p by (cases "as = []") (auto simp: hr_list_previous_def)
qed

lemma insert_between_wf:
  assumes "wf_mem m" and "inited m l" and "nodes_of m l = as @ bs"
  shows "hr_list_insert_between (Some l) (nprevious (nodes m (hd (bs @ [Root l]))))
           (Some (hd (bs @ [Root l]))) (Some n) m =
         (if nlist (nodes m n) \<noteq> None then Some (HR_ERROR_INVALID_STATE, m)
          else Some (HR_OK, link_at l as bs n m))"
proof -
  have "seg m (Root l) (as @ bs) (Root l)" using wf_seg [OF assms(1,2)] assms(3) by simp
  then have "seg m (Root l) as (hd (bs @ [Root l]))" by (cases bs) (auto simp: seg_append)
  then have "nprevious (nodes m (hd (bs @ [Root l]))) = Some (last (Root l # as))"
    by (rule seg_last)
  then show ?thesis by (simp add: hr_list_insert_between_def link_at_def)
qed

lemma push_back_wf [hr_op]:
  assumes "wf_mem m" and "inited m l"
  shows "hr_list_push_back (Some l) (Some n) m =
         (if nlist (nodes m n) \<noteq> None then Some (HR_ERROR_INVALID_STATE, m)
          else Some (HR_OK, link_at l (nodes_of m l) [] n m))"
  using insert_between_wf [OF assms, of "nodes_of m l" "[]" n] by (simp add: hr_list_push_back_def)

lemma push_front_wf [hr_op]:
  assumes "wf_mem m" and "inited m l"
  shows "hr_list_push_front (Some l) (Some n) m =
         (if nlist (nodes m n) \<noteq> None then Some (HR_ERROR_INVALID_STATE, m)
          else Some (HR_OK, link_at l [] (nodes_of m l) n m))"
  using seg_first [OF wf_seg [OF assms]]
  by (simp add: hr_list_push_front_def hr_list_insert_between_def link_at_def)

lemma insert_before_wf:
  assumes "wf_mem m" and "inited m l" and "nodes_of m l = as @ q # bs"
  shows "hr_list_insert_before (Some l) (Some q) (Some n) m =
         (if nlist (nodes m n) \<noteq> None then Some (HR_ERROR_INVALID_STATE, m)
          else Some (HR_OK, link_at l as (q # bs) n m))"
proof -
  have "nlist (nodes m q) = Some l" using wf_in_list [OF assms(1,2)] assms(3) by simp
  then show ?thesis
    using insert_between_wf [OF assms(1,2), of as "q # bs" n] assms(3)
    by (simp add: hr_list_insert_before_def)
qed

lemma pop_front_wf [hr_op]:
  assumes "wf_mem m" and "inited m l"
  shows "hr_list_pop_front (Some l) m =
         (case nodes_of m l of [] \<Rightarrow> Some (None, m) | x # _ \<Rightarrow> Some (Some x, unlink x m))"
proof (cases "nodes_of m l")
  case (Cons x xs)
  have "\<not> is_root x" "nlist (nodes m x) = Some l"
    using wf_not_root [OF assms] wf_in_list [OF assms] Cons by auto
  then show ?thesis
    using wf_unlink(1) [OF assms(1)] Cons by (simp add: hr_list_pop_front_def front_wf [OF assms])
qed (simp add: hr_list_pop_front_def front_wf [OF assms])

lemma pop_back_wf [hr_op]:
  assumes "wf_mem m" and "inited m l"
  shows "hr_list_pop_back (Some l) m =
         (if nodes_of m l = [] then Some (None, m)
          else Some (Some (last (nodes_of m l)), unlink (last (nodes_of m l)) m))"
proof (cases "nodes_of m l = []")
  case False
  have "\<not> is_root (last (nodes_of m l))" "nlist (nodes m (last (nodes_of m l))) = Some l"
    using wf_not_root [OF assms] wf_in_list [OF assms] False by auto
  then show ?thesis
    using wf_unlink(1) [OF assms(1)] False by (simp add: hr_list_pop_back_def back_wf [OF assms])
qed (simp add: hr_list_pop_back_def back_wf [OF assms])

lemma init_frame [hr_frame, simp]:
  "npriority (hr_list_init (Some l) m) = npriority m"
  "nwake_tick (hr_list_init (Some l) m) = nwake_tick m"
  "ready_sets (hr_list_init (Some l) m) = ready_sets m"
  "timeout_lists (hr_list_init (Some l) m) = timeout_lists m"
  "nodes (hr_list_init (Some l) m) x =
     (if x = Root l
      then \<lparr>nprevious = Some (Root l), nnext = Some (Root l), nlist = Some l, nowner = None\<rparr>
      else nodes m x)"
  "inited (hr_list_init (Some l) m) k \<longleftrightarrow> k = l \<or> inited m k"
  by (auto simp: hr_list_init_def node_upd_defs inited_def)

lemma wf_list_init:
  assumes "wf_mem m" and "inited m l \<Longrightarrow> nodes_of m l = []"
  shows "wf_mem (hr_list_init (Some l) m)"
    and "inited m k \<or> k = l \<Longrightarrow> nodes_of (hr_list_init (Some l) m) k = (if k = l then [] else nodes_of m k)"
proof -
  let ?m = "hr_list_init (Some l) m" and ?L = "\<lambda>k. if k = l then [] else nodes_of m k"
  have lk: "linked ?m k (?L k)" if "inited ?m k" for k
  proof (cases "k = l")
    case False
    then have "linked m k (nodes_of m k)" using that wf_linked [OF assms(1)] by simp
    moreover from this have "Root l \<notin> set (nodes_of m k)" using Root_notin by (simp add: linked_def)
    then have "seg ?m (Root k) (nodes_of m k) (Root k) \<longleftrightarrow> seg m (Root k) (nodes_of m k) (Root k)"
      using False by (intro seg_cong) auto
    ultimately show ?thesis
      using False by (simp add: linked_def) (simp add: hr_list_init_def node_upd_defs)
  qed (simp add: linked_def, simp add: hr_list_init_def node_upd_defs)
  have nl: "nlist (nodes ?m x) = Some k \<longleftrightarrow> inited ?m k \<and> x \<in> set (?L k)" if "\<not> is_root x" for x k
    using wf_nlist [OF assms(1) that, of k] assms(2) that by (auto split: if_splits)
  show "wf_mem ?m" by (rule wf_memI(1) [OF lk nl])
  show "inited m k \<or> k = l \<Longrightarrow> nodes_of ?m k = ?L k"
    using wf_memI(2) [OF lk nl, of k] by auto
qed

lemma node_init_frame [hr_frame, simp]:
  "npriority (hr_list_node_init (Some n) ow m) = npriority m"
  "nwake_tick (hr_list_node_init (Some n) ow m) = nwake_tick m"
  "ready_sets (hr_list_node_init (Some n) ow m) = ready_sets m"
  "timeout_lists (hr_list_node_init (Some n) ow m) = timeout_lists m"
  "lsize (hr_list_node_init (Some n) ow m) = lsize m"
  "nodes (hr_list_node_init (Some n) ow m) x =
     (if x = n then \<lparr>nprevious = None, nnext = None, nlist = None, nowner = ow\<rparr> else nodes m x)"
  by (auto simp: hr_list_node_init_def node_upd_defs)

lemma node_init_inited [simp]:
  "\<not> is_root n \<Longrightarrow> inited (hr_list_node_init (Some n) ow m) k \<longleftrightarrow> inited m k"
  by (auto simp: inited_def)

lemma wf_node_init:
  assumes "wf_mem m" and "\<not> is_root n" and "nlist (nodes m n) = None"
  shows "wf_mem (hr_list_node_init (Some n) ow m)"
    and "inited m k \<Longrightarrow> nodes_of (hr_list_node_init (Some n) ow m) k = nodes_of m k"
proof -
  let ?m = "hr_list_node_init (Some n) ow m"
  have new: "n \<notin> set (nodes_of m k)" if "inited m k" for k
    using wf_in_list [OF assms(1) that] assms(3) by fastforce
  have lk: "linked ?m k (nodes_of m k)" if "inited ?m k" for k
  proof -
    have i: "inited m k" using that assms(2) by simp
    have "seg ?m (Root k) (nodes_of m k) (Root k) \<longleftrightarrow> seg m (Root k) (nodes_of m k) (Root k)"
      using new [OF i] assms(2) by (intro seg_cong) auto
    then show ?thesis using wf_linked [OF assms(1) i] by (simp add: linked_def)
  qed
  have nl: "nlist (nodes ?m x) = Some k \<longleftrightarrow> inited ?m k \<and> x \<in> set (nodes_of m k)" if "\<not> is_root x" for x k
    using wf_nlist [OF assms(1) that, of k] new assms(2) by auto
  show "wf_mem ?m" by (rule wf_memI(1) [OF lk nl])
  show "inited m k \<Longrightarrow> nodes_of ?m k = nodes_of m k"
    using wf_memI(2) [OF lk nl] assms(2) by simp
qed

lemma wf_zero_mem: "wf_mem zero_mem"
  by (simp add: wf_mem_def inited_def zero_mem_def zero_node_def)


text \<open>Taking the front node and appending it again.\<close>

lemma pop_push_wf:
  assumes "wf_mem m" and "inited m l" and "nodes_of m l = x # xs"
  obtains m1 m2 where "hr_list_pop_front (Some l) m = Some (Some x, m1)"
    and "hr_list_push_back (Some l) (Some x) m1 = Some (HR_OK, m2)"
    and "wf_mem m2" and "inited m2 = inited m"
    and "\<And>k. inited m k \<Longrightarrow> nodes_of m2 k = (if k = l then xs @ [x] else nodes_of m k)"
    and "npriority m2 = npriority m" and "nwake_tick m2 = nwake_tick m"
    and "ready_sets m2 = ready_sets m" and "timeout_lists m2 = timeout_lists m"
    and "\<And>y. nowner (nodes m2 y) = nowner (nodes m y)"
    and "\<And>y. nlist (nodes m2 y) = nlist (nodes m y)"
proof -
  have nr: "\<not> is_root x" and nl: "nlist (nodes m x) = Some l"
    using wf_not_root [OF assms(1,2)] wf_in_list [OF assms(1,2)] assms(3) by auto
  note u = wf_unlink [OF assms(1) nr nl]
  let ?m1 = "unlink x m"
  let ?m2 = "link_at l (nodes_of ?m1 l) [] x ?m1"
  have pop: "hr_list_pop_front (Some l) m = Some (Some x, ?m1)"
    by (simp add: pop_front_wf [OF assms(1,2)] assms(3))
  have push: "hr_list_push_back (Some l) (Some x) ?m1 = Some (HR_OK, ?m2)"
    using u assms(2) by (simp add: push_back_wf)
  have w: "wf_mem ?m2"
    "inited ?m1 k \<Longrightarrow> nodes_of ?m2 k = (if k = l then nodes_of ?m1 l @ [x] else nodes_of ?m1 k)" for k
    using wf_link_at [OF u(2) _ _ nr, of l "nodes_of ?m1 l" "[]"] u(3,5) assms(2) by simp_all
  then have n: "nodes_of ?m2 k = (if k = l then xs @ [x] else nodes_of m k)" if "inited m k" for k
    using that assms(2,3) by (simp add: u(3,4))
  show ?thesis
    using that [OF pop push w(1) _ n] nr nl by (simp add: fun_eq_iff u(3,5-10))
qed

text \<open>The list abstraction depends on the nodes and the sizes only.\<close>

lemma abs_cong:
  assumes "nodes m' = nodes m" and "lsize m' = lsize m"
  shows "nodes_of m' = nodes_of m" and "inited m' = inited m" and "wf_mem m' \<longleftrightarrow> wf_mem m"
proof -
  have w: "walk m' k a = walk m k a" for k a
  proof (induction k arbitrary: a)
    case (Suc k)
    then show ?case by (cases a) (simp_all add: assms)
  qed simp
  then show n: "nodes_of m' = nodes_of m" by (simp add: fun_eq_iff nodes_of_def assms)
  show i: "inited m' = inited m" by (simp add: fun_eq_iff inited_def assms)
  have "seg m' a xs b \<longleftrightarrow> seg m a xs b" for a xs b
    by (rule seg_cong) (simp_all add: assms)
  then show "wf_mem m' \<longleftrightarrow> wf_mem m" by (simp add: wf_mem_def linked_def n i assms)
qed

lemma abs_upd [simp]:
  "nodes_of (m\<lparr>npriority := f\<rparr>) = nodes_of m"
  "nodes_of (m\<lparr>nwake_tick := g\<rparr>) = nodes_of m"
  "nodes_of (m\<lparr>ready_sets := h\<rparr>) = nodes_of m"
  "nodes_of (m\<lparr>timeout_lists := k\<rparr>) = nodes_of m"
  "inited (m\<lparr>npriority := f\<rparr>) = inited m"
  "inited (m\<lparr>nwake_tick := g\<rparr>) = inited m"
  "inited (m\<lparr>ready_sets := h\<rparr>) = inited m"
  "inited (m\<lparr>timeout_lists := k\<rparr>) = inited m"
  "wf_mem (m\<lparr>npriority := f\<rparr>) \<longleftrightarrow> wf_mem m"
  "wf_mem (m\<lparr>nwake_tick := g\<rparr>) \<longleftrightarrow> wf_mem m"
  "wf_mem (m\<lparr>ready_sets := h\<rparr>) \<longleftrightarrow> wf_mem m"
  "wf_mem (m\<lparr>timeout_lists := k\<rparr>) \<longleftrightarrow> wf_mem m"
  by (rule abs_cong; simp)+

section \<open>Validation\<close>

definition sound_list :: "mem \<Rightarrow> list_addr \<Rightarrow> bool" where
  "sound_list m l \<longleftrightarrow>
     inited m l \<and> length (nodes_of m l) = lsize m l \<and> seg m (Root l) (nodes_of m l) (Root l) \<and>
     distinct (Root l # nodes_of m l) \<and> (\<forall>x \<in> set (nodes_of m l). nlist (nodes m x) = Some l)"

lemma validate_loop_seg:
  assumes "seg m a xs (Root l)" and "Root l \<notin> set xs"
    and "\<forall>x \<in> set xs. nlist (nodes m x) = Some l" and "count + length xs = lsize m l"
  shows "hr_list_validate_loop l a (nnext (nodes m a)) count m"
  using assms
proof (induction xs arbitrary: a count)
  case Nil
  then show ?case by (simp add: hr_list_validate_loop.simps)
next
  case (Cons x xs)
  then have "hr_list_validate_loop l x (nnext (nodes m x)) (Suc count) m" by auto
  moreover have "nnext (nodes m x) \<noteq> None" using Cons.prems(1) seg_first by fastforce
  ultimately show ?case
    using Cons.prems by (subst hr_list_validate_loop.simps) auto
qed

lemma validate_loop_sound:
  assumes "hr_list_validate_loop l a node count m" and "node = nnext (nodes m a)"
  shows "\<exists>xs. seg m a xs (Root l) \<and> Root l \<notin> set xs \<and>
    (\<forall>x \<in> set xs. nlist (nodes m x) = Some l) \<and> count + length xs = lsize m l"
  using assms
proof (induction l a node count m rule: hr_list_validate_loop.induct)
  case (1 l a node count m)
  show ?case
  proof (cases "node = Some (Root l)")
    case True
    then have "seg m a [] (Root l) \<and> count + length [] = lsize m l"
      using "1.prems" by (simp add: hr_list_validate_loop.simps [of l a "Some (Root l)" count m])
    then show ?thesis by (intro exI [of _ "[]"]) simp
  next
    case False
    then obtain n where n: "node = Some n"
      using "1.prems"(1) by (auto simp: hr_list_validate_loop.simps [of l a node count m] split: option.splits)
    with "1.prems"(1) False
    have g: "nlist (nodes m n) = Some l" "nprevious (nodes m n) = Some a" "\<not> Suc count > lsize m l"
      and rec: "hr_list_validate_loop l n (nnext (nodes m n)) (Suc count) m"
      and nn: "nnext (nodes m n) \<noteq> None"
      by (auto simp: hr_list_validate_loop.simps [of l a "Some n" count m] split: if_splits)
    then obtain xs where "seg m n xs (Root l) \<and> Root l \<notin> set xs \<and>
        (\<forall>x \<in> set xs. nlist (nodes m x) = Some l) \<and> Suc count + length xs = lsize m l"
      using "1.IH" [OF False n _ g(3) rec] by auto
    then show ?thesis
      using "1.prems"(2) n False g by (intro exI [of _ "n # xs"]) auto
  qed
qed

text \<open>The path to a given end determines its nodes, so a closed path repeats none.\<close>

lemma seg_last_unique:
  assumes "seg m a xs c" and "seg m b ys c" and "a \<notin> set ys" and "b \<notin> set xs"
  shows "a = b \<and> xs = ys"
  using assms
proof (induction xs arbitrary: ys c rule: rev_induct)
  case Nil
  then show ?case
    by (cases ys rule: rev_cases) (auto simp: seg_append)
next
  case (snoc x xs)
  then show ?case
    by (cases ys rule: rev_cases) (auto simp: seg_append)
qed

lemma seg_distinct:
  assumes "seg m a xs b" and "a \<notin> set xs"
  shows "distinct xs"
  using assms
proof (induction xs arbitrary: b rule: rev_induct)
  case (snoc x xs)
  have s: "seg m a xs x" and d: "distinct xs" using snoc by (auto simp: seg_append)
  have "x \<notin> set xs"
  proof
    assume "x \<in> set xs"
    then obtain us vs where uv: "xs = us @ x # vs" using split_list by metis
    then have "seg m a us x" using s by (simp add: seg_append)
    then have "us = xs" using s seg_last_unique [of m a us x a xs] snoc.prems(2) uv by auto
    then show False using uv by simp
  qed
  then show ?case using d by simp
qed simp

lemma validate_iff: "hr_list_validate (Some l) m \<longleftrightarrow> sound_list m l"
proof
  assume v: "hr_list_validate (Some l) m"
  then have i: "inited m l" and lp: "hr_list_validate_loop l (Root l) (nnext (nodes m (Root l))) 0 m"
    by (auto simp: hr_list_validate_def inited_def split: if_splits)
  from validate_loop_sound [OF lp refl] obtain xs where
    xs: "seg m (Root l) xs (Root l)" "Root l \<notin> set xs"
      "\<forall>x \<in> set xs. nlist (nodes m x) = Some l" "length xs = lsize m l"
    by auto
  have "nodes_of m l = xs" using walk_seg [OF xs(1)] xs(4) by (simp add: nodes_of_def)
  then show "sound_list m l"
    using i xs seg_distinct [OF xs(1,2)] by (simp add: sound_list_def)
next
  assume "sound_list m l"
  then have i: "inited m l" and s: "seg m (Root l) (nodes_of m l) (Root l)"
    and rest: "Root l \<notin> set (nodes_of m l)" "\<forall>x \<in> set (nodes_of m l). nlist (nodes m x) = Some l"
      "length (nodes_of m l) = lsize m l"
    by (auto simp: sound_list_def)
  show "hr_list_validate (Some l) m"
    using i seg_first [OF s] seg_last [OF s] validate_loop_seg [OF s rest(1,2), of 0] rest(3)
    by (simp add: hr_list_validate_def inited_def)
qed

lemma wf_validate [hr_op]: "wf_mem m \<Longrightarrow> inited m l \<Longrightarrow> hr_list_validate (Some l) m"
  using wf_seg [of m l] wf_distinct [of m l] wf_lsize [of m l] wf_in_list [of m l]
    Root_notin [of "set (nodes_of m l)" l] wf_not_root [of m l]
  by (auto simp: validate_iff sound_list_def)


section \<open>Interface of the list module\<close>

text \<open>
  What the scheduler, the wait lists, the timeout lists and the kernel rely on: a memory
  holds sequences, \<open>push_back\<close> appends a free element, \<open>pop_front\<close> takes the
  first one and frees it, and neither touches another sequence.
\<close>

locale fifo_lists =
  fixes inv :: "'s \<Rightarrow> bool"
    and live :: "'s \<Rightarrow> 'l \<Rightarrow> bool"
    and seqof :: "'s \<Rightarrow> 'l \<Rightarrow> 'n list"
    and free :: "'s \<Rightarrow> 'n \<Rightarrow> bool"
    and push_back :: "'l option \<Rightarrow> 'n option \<Rightarrow> 's \<Rightarrow> (hr_status \<times> 's) option"
    and pop_front :: "'l option \<Rightarrow> 's \<Rightarrow> ('n option \<times> 's) option"
  assumes push_back_free: "inv s \<Longrightarrow> live s l \<Longrightarrow> free s n \<Longrightarrow>
      \<exists>s'. push_back (Some l) (Some n) s = Some (HR_OK, s') \<and> inv s' \<and> live s' = live s \<and>
        (\<forall>k. live s k \<longrightarrow> seqof s' k = (if k = l then seqof s l @ [n] else seqof s k))"
    and pop_front_Nil: "inv s \<Longrightarrow> live s l \<Longrightarrow> seqof s l = [] \<Longrightarrow> pop_front (Some l) s = Some (None, s)"
    and pop_front_Cons: "inv s \<Longrightarrow> live s l \<Longrightarrow> seqof s l = x # xs \<Longrightarrow>
      \<exists>s'. pop_front (Some l) s = Some (Some x, s') \<and> inv s' \<and> live s' = live s \<and> free s' x \<and>
        (\<forall>k. live s k \<longrightarrow> seqof s' k = (if k = l then xs else seqof s k))"
begin

text \<open>Taking the first element and appending it rotates the sequence by one.\<close>

lemma rotate:
  assumes "inv s" and "live s l" and "seqof s l = x # xs"
  obtains s1 s2 where "pop_front (Some l) s = Some (Some x, s1)"
    and "push_back (Some l) (Some x) s1 = Some (HR_OK, s2)"
    and "inv s2" and "live s2 = live s"
    and "\<And>k. live s k \<Longrightarrow> seqof s2 k = (if k = l then rotate1 (seqof s l) else seqof s k)"
proof -
  obtain s1 where s1: "pop_front (Some l) s = Some (Some x, s1)" "inv s1" "live s1 = live s" "free s1 x"
    "\<And>k. live s k \<Longrightarrow> seqof s1 k = (if k = l then xs else seqof s k)"
    using pop_front_Cons [OF assms] by auto
  obtain s2 where s2: "push_back (Some l) (Some x) s1 = Some (HR_OK, s2)" "inv s2" "live s2 = live s1"
    "\<And>k. live s1 k \<Longrightarrow> seqof s2 k = (if k = l then seqof s1 l @ [x] else seqof s1 k)"
    using push_back_free [of s1 l x] s1 assms(2) by auto
  show ?thesis
    using that [OF s1(1) s2(1,2)] s1 s2 assms(2,3) by auto
qed

text \<open>What is appended to an empty sequence is the next element taken.\<close>

lemma push_pop:
  assumes "inv s" and "live s l" and "free s n" and "seqof s l = []"
  obtains s1 s2 where "push_back (Some l) (Some n) s = Some (HR_OK, s1)"
    and "pop_front (Some l) s1 = Some (Some n, s2)" and "inv s2"
    and "\<And>k. live s k \<Longrightarrow> seqof s2 k = seqof s k"
proof -
  obtain s1 where s1: "push_back (Some l) (Some n) s = Some (HR_OK, s1)" "inv s1" "live s1 = live s"
    "\<And>k. live s k \<Longrightarrow> seqof s1 k = (if k = l then seqof s l @ [n] else seqof s k)"
    using push_back_free [OF assms(1-3)] by auto
  obtain s2 where s2: "pop_front (Some l) s1 = Some (Some n, s2)" "inv s2"
    "\<And>k. live s1 k \<Longrightarrow> seqof s2 k = (if k = l then [] else seqof s1 k)"
    using pop_front_Cons [of s1 l n "[]"] s1 assms by auto
  show ?thesis using that [OF s1(1) s2(1,2)] s1 s2 assms by auto
qed

end

interpretation hr_lists: fifo_lists wf_mem inited nodes_of
  "\<lambda>m n. \<not> is_root n \<and> nlist (nodes m n) = None" hr_list_push_back hr_list_pop_front
proof unfold_locales
  fix m l n
  assume "wf_mem m" "inited m l" and n: "\<not> is_root n \<and> nlist (nodes m n) = None"
  then show "\<exists>m'. hr_list_push_back (Some l) (Some n) m = Some (HR_OK, m') \<and> wf_mem m' \<and>
      inited m' = inited m \<and>
      (\<forall>k. inited m k \<longrightarrow> nodes_of m' k = (if k = l then nodes_of m l @ [n] else nodes_of m k))"
    using wf_link_at [of m l "nodes_of m l" "[]" n]
    by (simp add: push_back_wf fun_eq_iff)
next
  fix m l x xs
  assume m: "wf_mem m" "inited m l" "nodes_of m l = x # xs"
  then have x: "\<not> is_root x" "nlist (nodes m x) = Some l"
    using wf_not_root wf_in_list by auto
  show "\<exists>m'. hr_list_pop_front (Some l) m = Some (Some x, m') \<and> wf_mem m' \<and> inited m' = inited m \<and>
      (\<not> is_root x \<and> nlist (nodes m' x) = None) \<and>
      (\<forall>k. inited m k \<longrightarrow> nodes_of m' k = (if k = l then xs else nodes_of m k))"
    using m x by (simp add: pop_front_wf wf_unlink [OF m(1) x] fun_eq_iff)
qed (simp_all add: pop_front_wf)

end
