(* ===== verification/HR_Scheduler.thy ===== *)
theory HR_Scheduler
  imports HR_List
begin

text \<open>
  The ready set and the fixed-priority policy of \<open>kernel/src/hr_scheduler.c\<close>: one FIFO
  list per priority, a bitmap of the non-empty ones and a counter. \<open>hr_scheduler_t\<close> has
  the ready set as its only member, so \<open>&scheduler->ready\<close> is the same address.
\<close>

section \<open>Ready-set operations\<close>

definition hr_priority_is_valid :: "hr_priority \<Rightarrow> bool" where
  "hr_priority_is_valid p \<longleftrightarrow> p < HR_CFG_PRIORITY_COUNT"

definition hr_priority_mask :: "hr_priority \<Rightarrow> 32 word" where
  "hr_priority_mask p = push_bit (unat p) 1"

function highest_priority_loop :: "32 word \<Rightarrow> hr_priority \<Rightarrow> hr_priority" where
  "highest_priority_loop b p =
     (if p < HR_CFG_PRIORITY_COUNT then
        if b AND hr_priority_mask p \<noteq> 0 then p else highest_priority_loop b (p + 1)
      else HR_CFG_PRIORITY_COUNT)"
  by pat_completeness auto
termination
proof (relation "measure (\<lambda>(b, p). 8 - unat p)")
  fix b :: "32 word" and p :: hr_priority
  assume "p < 8"
  then have "unat p < 8" by (simp add: word_less_nat_alt)
  then have "unat (p + 1) = unat p + 1" by (simp add: unat_word_ariths)
  then show "((b, p + 1), b, p) \<in> measure (\<lambda>(b, p). 8 - unat p)"
    using \<open>unat p < 8\<close> by simp
qed simp

declare highest_priority_loop.simps [simp del]

definition hr_ready_set_highest_priority :: "rset_addr \<Rightarrow> mem \<Rightarrow> hr_priority" where
  "hr_ready_set_highest_priority r m = highest_priority_loop (rbitmap (ready_sets m r)) 0"

definition hr_ready_node_init :: "node_addr option \<Rightarrow> obj_ptr option \<Rightarrow> hr_priority \<Rightarrow> mem \<Rightarrow> mem" where
  "hr_ready_node_init node owner priority m =
     (case node of
        None \<Rightarrow> m
      | Some n \<Rightarrow>
          (let m1 = hr_list_node_init (Some n) owner m
           in m1\<lparr>npriority := (npriority m1)(n := priority)\<rparr>))"

definition set_rset :: "rset_addr \<Rightarrow> hr_ready_set \<Rightarrow> mem \<Rightarrow> mem" where
  "set_rset r x m = m\<lparr>ready_sets := (ready_sets m)(r := x)\<rparr>"

definition hr_ready_set_init :: "rset_addr option \<Rightarrow> mem \<Rightarrow> mem" where
  "hr_ready_set_init st m =
     (case st of
        None \<Rightarrow> m
      | Some r \<Rightarrow>
          set_rset r \<lparr>rbitmap = 0, rcount = 0\<rparr>
            (fold (\<lambda>index. hr_list_init (Some (ReadyQueue r index))) [0..<HR_CFG_PRIORITY_COUNT] m))"

definition hr_ready_set_is_empty :: "rset_addr option \<Rightarrow> mem \<Rightarrow> bool" where
  "hr_ready_set_is_empty st m = (case st of None \<Rightarrow> True | Some r \<Rightarrow> rcount (ready_sets m r) = 0)"

definition hr_ready_set_size :: "rset_addr option \<Rightarrow> mem \<Rightarrow> nat" where
  "hr_ready_set_size st m = (case st of None \<Rightarrow> 0 | Some r \<Rightarrow> rcount (ready_sets m r))"

definition hr_ready_set_bitmap :: "rset_addr option \<Rightarrow> mem \<Rightarrow> 32 word" where
  "hr_ready_set_bitmap st m = (case st of None \<Rightarrow> 0 | Some r \<Rightarrow> rbitmap (ready_sets m r))"

definition hr_ready_set_insert ::
  "rset_addr option \<Rightarrow> node_addr option \<Rightarrow> mem \<Rightarrow> (hr_status \<times> mem) option" where
  "hr_ready_set_insert st node m =
     (case (st, node) of
        (Some r, Some n) \<Rightarrow>
          if \<not> hr_priority_is_valid (npriority m n) then Some (HR_ERROR_INVALID_ARGUMENT, m)
          else do {
            let queue = ReadyQueue r (unat (npriority m n));
            (status, m) \<leftarrow> hr_list_push_back (Some queue) (Some n) m;
            if status \<noteq> HR_OK then Some (status, m)
            else Some (HR_OK,
              set_rset r
                \<lparr>rbitmap = rbitmap (ready_sets m r) OR hr_priority_mask (npriority m n),
                 rcount = rcount (ready_sets m r) + 1\<rparr> m)
          }
      | _ \<Rightarrow> Some (HR_ERROR_INVALID_ARGUMENT, m))"

definition hr_ready_set_remove ::
  "rset_addr option \<Rightarrow> node_addr option \<Rightarrow> mem \<Rightarrow> (hr_status \<times> mem) option" where
  "hr_ready_set_remove st node m =
     (case (st, node) of
        (Some r, Some n) \<Rightarrow>
          if \<not> hr_priority_is_valid (npriority m n) then Some (HR_ERROR_INVALID_ARGUMENT, m)
          else do {
            let queue = ReadyQueue r (unat (npriority m n));
            if nlist (nodes m n) \<noteq> Some queue then Some (HR_ERROR_INVALID_STATE, m)
            else do {
              (status, m) \<leftarrow> hr_list_remove (Some n) m;
              if status \<noteq> HR_OK then Some (status, m)
              else Some (HR_OK,
                set_rset r
                  \<lparr>rbitmap =
                     (if hr_list_is_empty (Some queue) m
                      then rbitmap (ready_sets m r) AND NOT (hr_priority_mask (npriority m n))
                      else rbitmap (ready_sets m r)),
                   rcount = size_dec (rcount (ready_sets m r))\<rparr> m)
            }
          }
      | _ \<Rightarrow> Some (HR_ERROR_INVALID_ARGUMENT, m))"

definition hr_ready_set_peek_highest :: "rset_addr option \<Rightarrow> mem \<Rightarrow> node_addr option" where
  "hr_ready_set_peek_highest st m =
     (case st of
        None \<Rightarrow> None
      | Some r \<Rightarrow>
          if rcount (ready_sets m r) = 0 then None
          else
            (let priority = hr_ready_set_highest_priority r m
             in if \<not> hr_priority_is_valid priority then None
                else hr_list_front (Some (ReadyQueue r (unat priority))) m))"

definition hr_ready_set_rotate_highest :: "rset_addr option \<Rightarrow> mem \<Rightarrow> (hr_status \<times> mem) option" where
  "hr_ready_set_rotate_highest st m =
     (case st of
        None \<Rightarrow> Some (HR_ERROR_INVALID_ARGUMENT, m)
      | Some r \<Rightarrow>
          if rcount (ready_sets m r) = 0 then Some (HR_ERROR_INVALID_STATE, m)
          else
            (let priority = hr_ready_set_highest_priority r m
             in if \<not> hr_priority_is_valid priority then Some (HR_ERROR_INTERNAL, m)
                else
                  (let queue = ReadyQueue r (unat priority)
                   in if hr_list_size (Some queue) m < 2 then Some (HR_OK, m)
                      else do {
                        (node, m) \<leftarrow> hr_list_pop_front (Some queue) m;
                        if node = None then Some (HR_ERROR_INTERNAL, m)
                        else hr_list_push_back (Some queue) node m
                      })))"

text \<open>The loop of \<open>hr_ready_set_validate\<close> with its variables \<open>total\<close> and \<open>expected_bitmap\<close>.\<close>

fun ready_set_validate_loop :: "rset_addr \<Rightarrow> nat list \<Rightarrow> nat \<Rightarrow> 32 word \<Rightarrow> mem \<Rightarrow> bool" where
  "ready_set_validate_loop r [] tot expected_bitmap m \<longleftrightarrow>
     tot = rcount (ready_sets m r) \<and> expected_bitmap = rbitmap (ready_sets m r)"
| "ready_set_validate_loop r (index # rest) tot expected_bitmap m \<longleftrightarrow>
     (let queue = Some (ReadyQueue r index)
      in if \<not> hr_list_validate queue m then False
         else ready_set_validate_loop r rest (tot + hr_list_size queue m)
                (if \<not> hr_list_is_empty queue m then expected_bitmap OR push_bit index 1
                 else expected_bitmap) m)"

definition hr_ready_set_validate :: "rset_addr option \<Rightarrow> mem \<Rightarrow> bool" where
  "hr_ready_set_validate st m =
     (case st of
        None \<Rightarrow> False
      | Some r \<Rightarrow> ready_set_validate_loop r [0..<HR_CFG_PRIORITY_COUNT] 0 0 m)"

section \<open>Scheduler policy\<close>

definition hr_scheduler_init :: "rset_addr option \<Rightarrow> mem \<Rightarrow> mem" where
  "hr_scheduler_init scheduler m = (if scheduler = None then m else hr_ready_set_init scheduler m)"

definition hr_scheduler_add_ready ::
  "rset_addr option \<Rightarrow> node_addr option \<Rightarrow> mem \<Rightarrow> (hr_status \<times> mem) option" where
  "hr_scheduler_add_ready scheduler node m =
     (if scheduler = None then Some (HR_ERROR_INVALID_ARGUMENT, m)
      else hr_ready_set_insert scheduler node m)"

definition hr_scheduler_remove_ready ::
  "rset_addr option \<Rightarrow> node_addr option \<Rightarrow> mem \<Rightarrow> (hr_status \<times> mem) option" where
  "hr_scheduler_remove_ready scheduler node m =
     (if scheduler = None then Some (HR_ERROR_INVALID_ARGUMENT, m)
      else hr_ready_set_remove scheduler node m)"

definition hr_scheduler_select_highest :: "rset_addr option \<Rightarrow> mem \<Rightarrow> node_addr option" where
  "hr_scheduler_select_highest scheduler m =
     (if scheduler = None then None else hr_ready_set_peek_highest scheduler m)"

definition hr_scheduler_yield_current ::
  "rset_addr option \<Rightarrow> node_addr option \<Rightarrow> mem \<Rightarrow> (hr_status \<times> mem) option" where
  "hr_scheduler_yield_current scheduler current m =
     (if scheduler = None \<or> current = None then Some (HR_ERROR_INVALID_ARGUMENT, m)
      else if hr_scheduler_select_highest scheduler m \<noteq> current then Some (HR_ERROR_INVALID_STATE, m)
      else hr_ready_set_rotate_highest scheduler m)"

definition hr_scheduler_should_preempt :: "rset_addr option \<Rightarrow> node_addr option \<Rightarrow> mem \<Rightarrow> bool" where
  "hr_scheduler_should_preempt scheduler current m =
     (case (scheduler, current) of
        (Some r, Some c) \<Rightarrow>
          if \<not> hr_priority_is_valid (npriority m c) then False
          else
            (case hr_scheduler_select_highest scheduler m of
               None \<Rightarrow> False
             | Some selected \<Rightarrow> npriority m selected < npriority m c)
      | _ \<Rightarrow> False)"

definition hr_scheduler_has_equal_priority_peer :: "rset_addr option \<Rightarrow> node_addr option \<Rightarrow> mem \<Rightarrow> bool" where
  "hr_scheduler_has_equal_priority_peer scheduler current m =
     (case (scheduler, current) of
        (Some r, Some c) \<Rightarrow>
          if \<not> hr_priority_is_valid (npriority m c) then False
          else
            (let queue = ReadyQueue r (unat (npriority m c))
             in nlist (nodes m c) = Some queue \<and> hr_list_size (Some queue) m > 1)
      | _ \<Rightarrow> False)"

definition hr_scheduler_ready_count :: "rset_addr option \<Rightarrow> mem \<Rightarrow> nat" where
  "hr_scheduler_ready_count scheduler m = (if scheduler = None then 0 else hr_ready_set_size scheduler m)"

definition hr_scheduler_ready_bitmap :: "rset_addr option \<Rightarrow> mem \<Rightarrow> 32 word" where
  "hr_scheduler_ready_bitmap scheduler m = (if scheduler = None then 0 else hr_ready_set_bitmap scheduler m)"

definition hr_scheduler_validate :: "rset_addr option \<Rightarrow> mem \<Rightarrow> bool" where
  "hr_scheduler_validate scheduler m \<longleftrightarrow> scheduler \<noteq> None \<and> hr_ready_set_validate scheduler m"


section \<open>Well-formed ready sets\<close>

abbreviation ready_queue :: "mem \<Rightarrow> rset_addr \<Rightarrow> nat \<Rightarrow> node_addr list" where
  "ready_queue m r i \<equiv> nodes_of m (ReadyQueue r i)"

definition ready_ok :: "mem \<Rightarrow> rset_addr \<Rightarrow> bool" where
  "ready_ok m r \<longleftrightarrow>
     (\<forall>i < HR_CFG_PRIORITY_COUNT. inited m (ReadyQueue r i)) \<and>
     (\<forall>i < HR_CFG_PRIORITY_COUNT. \<forall>x \<in> set (ready_queue m r i). unat (npriority m x) = i) \<and>
     (\<forall>i. bit (rbitmap (ready_sets m r)) i \<longleftrightarrow> i < HR_CFG_PRIORITY_COUNT \<and> ready_queue m r i \<noteq> []) \<and>
     rcount (ready_sets m r) = (\<Sum>i < HR_CFG_PRIORITY_COUNT. length (ready_queue m r i))"

lemma ready_okD:
  assumes "ready_ok m r"
  shows "i < 8 \<Longrightarrow> inited m (ReadyQueue r i)"
    and "i < 8 \<Longrightarrow> x \<in> set (ready_queue m r i) \<Longrightarrow> unat (npriority m x) = i"
    and "bit (rbitmap (ready_sets m r)) i \<longleftrightarrow> i < 8 \<and> ready_queue m r i \<noteq> []"
    and "rcount (ready_sets m r) = (\<Sum>i < 8. length (ready_queue m r i))"
  using assms unfolding ready_ok_def by blast+

lemma rcount_0: "ready_ok m r \<Longrightarrow> rcount (ready_sets m r) = 0 \<longleftrightarrow> (\<forall>i < 8. ready_queue m r i = [])"
  by (auto simp: ready_okD(4))

lemma mask_bit [simp]: "b AND hr_priority_mask p \<noteq> 0 \<longleftrightarrow> bit b (unat p)"
  by (simp add: hr_priority_mask_def push_bit_of_1 and_exp_eq_0_iff_not_bit)

lemma bit_mask: "bit (hr_priority_mask p) i \<longleftrightarrow> i = unat p \<and> i < 32"
  by (auto simp: hr_priority_mask_def bit_simps)

lemma unat_Suc_lt_8: "p < (8 :: hr_priority) \<Longrightarrow> unat (p + 1) = Suc (unat p)"
  by (simp add: word_less_nat_alt unat_word_ariths)

text \<open>The bit scan returns the least set bit at or above its start.\<close>

lemma highest_priority_loop_least:
  "(if \<exists>i. unat p \<le> i \<and> i < 8 \<and> bit b i
    then unat (highest_priority_loop b p) = (LEAST i. unat p \<le> i \<and> bit b i) \<and>
         highest_priority_loop b p < 8
    else highest_priority_loop b p = 8)"
proof (induction b p rule: highest_priority_loop.induct)
  case (1 b p)
  show ?case
  proof (cases "p < 8 \<and> \<not> bit b (unat p)")
    case True
    have eq: "(unat (p + 1) \<le> i \<and> bit b i) \<longleftrightarrow> (unat p \<le> i \<and> bit b i)" for i
      using True unat_Suc_lt_8 [of p] by (metis Suc_leD Suc_leI le_neq_implies_less)
    then have ex: "(\<exists>i. unat (p + 1) \<le> i \<and> i < 8 \<and> bit b i) \<longleftrightarrow> (\<exists>i. unat p \<le> i \<and> i < 8 \<and> bit b i)"
      by blast
    show ?thesis
      using 1 True unfolding highest_priority_loop.simps [of b p] ex eq by simp
  next
    case False
    then consider "\<not> p < 8" | "p < 8" "bit b (unat p)" by blast
    then show ?thesis
    proof cases
      case 1
      then have "\<not> unat p < 8" by (simp add: unat_lt_8)
      then have "\<not> (\<exists>i. unat p \<le> i \<and> i < 8 \<and> bit b i)" by auto
      then show ?thesis using 1 by (simp add: highest_priority_loop.simps [of b p])
    next
      case 2
      then have "unat p < 8" by (simp add: unat_lt_8)
      then have "\<exists>i. unat p \<le> i \<and> i < 8 \<and> bit b i" using 2 by blast
      moreover have "(LEAST i. unat p \<le> i \<and> bit b i) = unat p"
        using 2 by (intro Least_equality) auto
      ultimately show ?thesis using 2 by (simp add: highest_priority_loop.simps [of b p])
    qed
  qed
qed

text \<open>The queue the policy serves: the least priority with a ready node.\<close>

lemma highest_priority:
  assumes "ready_ok m r" and "rcount (ready_sets m r) \<noteq> 0"
  obtains i where "i < 8" and "hr_ready_set_highest_priority r m = of_nat i"
    and "unat (hr_ready_set_highest_priority r m) = i"
    and "hr_ready_set_highest_priority r m < 8"
    and "ready_queue m r i \<noteq> []" and "\<And>j. j < i \<Longrightarrow> ready_queue m r j = []"
proof -
  let ?b = "rbitmap (ready_sets m r)" and ?h = "hr_ready_set_highest_priority r m"
  obtain j where j: "j < 8" "ready_queue m r j \<noteq> []"
    using assms(2) rcount_0 [OF assms(1)] by auto
  then have "\<exists>i. unat (0 :: hr_priority) \<le> i \<and> i < 8 \<and> bit ?b i" using ready_okD(3) [OF assms(1)] by auto
  then have h: "unat ?h = (LEAST i. bit ?b i)" "?h < 8"
    using highest_priority_loop_least [of 0 ?b] by (auto simp: hr_ready_set_highest_priority_def)
  have bj: "bit ?b j" using j ready_okD(3) [OF assms(1)] by blast
  have "bit ?b (unat ?h)" using LeastI [of "bit ?b", OF bj] h(1) by simp
  then have i: "unat ?h < 8" "ready_queue m r (unat ?h) \<noteq> []"
    using ready_okD(3) [OF assms(1)] by blast+
  have "ready_queue m r k = []" if "k < unat ?h" for k
    using not_less_Least [of k "bit ?b"] that h(1) i(1) ready_okD(3) [OF assms(1), of k] by auto
  then show ?thesis using that [of "unat ?h"] i h(2) by simp
qed

definition ready_seq :: "mem \<Rightarrow> rset_addr \<Rightarrow> node_addr list" where
  "ready_seq m r = concat (map (ready_queue m r) [0..<HR_CFG_PRIORITY_COUNT])"

lemma ready_seq_split:
  "i < 8 \<Longrightarrow> ready_seq m r = concat (map (ready_queue m r) [0..<i]) @ ready_queue m r i @
     concat (map (ready_queue m r) [Suc i..<8])"
  by (simp add: ready_seq_def upt_split)

lemma set_ready_seq: "x \<in> set (ready_seq m r) \<longleftrightarrow> (\<exists>i < 8. x \<in> set (ready_queue m r i))"
  by (auto simp: ready_seq_def simp del: upt_rec_numeral)

lemma ready_seq_Nil: "ready_seq m r = [] \<longleftrightarrow> (\<forall>i < 8. ready_queue m r i = [])"
  by (auto simp: ready_seq_def simp del: upt_rec_numeral)

lemma peek_highest_wf [hr_op]:
  assumes "wf_mem m" and "ready_ok m r"
  shows "hr_ready_set_peek_highest (Some r) m = (case ready_seq m r of [] \<Rightarrow> None | x # _ \<Rightarrow> Some x)"
proof (cases "rcount (ready_sets m r) = 0")
  case True
  then have "ready_seq m r = []"
    using rcount_0 [OF assms(2)] by (simp add: ready_seq_Nil)
  then show ?thesis using True by (simp add: hr_ready_set_peek_highest_def)
next
  case False
  obtain i where i: "i < 8" "unat (hr_ready_set_highest_priority r m) = i"
    "hr_ready_set_highest_priority r m < 8" "ready_queue m r i \<noteq> []"
    "\<And>j. j < i \<Longrightarrow> ready_queue m r j = []"
    using highest_priority [OF assms(2) False] by metis
  have "concat (map (ready_queue m r) [0..<i]) = []"
    using i(5) by (subst concat_eq_Nil_conv) auto
  then have "ready_seq m r = ready_queue m r i @ concat (map (ready_queue m r) [Suc i..<8])"
    using ready_seq_split [OF i(1), of m r] by simp
  then show ?thesis
    using False i(2-4) front_wf [OF assms(1) ready_okD(1) [OF assms(2) i(1)]]
    by (auto simp: hr_ready_set_peek_highest_def hr_priority_is_valid_def Let_def split: list.splits)
qed


section \<open>Effect of insertion, removal and rotation\<close>

definition ready_link :: "rset_addr \<Rightarrow> node_addr \<Rightarrow> mem \<Rightarrow> mem" where
  "ready_link r n m = snd (the (hr_ready_set_insert (Some r) (Some n) m))"

definition ready_unlink :: "rset_addr \<Rightarrow> node_addr \<Rightarrow> mem \<Rightarrow> mem" where
  "ready_unlink r n m = snd (the (hr_ready_set_remove (Some r) (Some n) m))"

lemma set_rset_simps [simp]:
  "nodes (set_rset r x m) = nodes m" "lsize (set_rset r x m) = lsize m"
  "npriority (set_rset r x m) = npriority m" "nwake_tick (set_rset r x m) = nwake_tick m"
  "ready_sets (set_rset r x m) = (ready_sets m)(r := x)"
  "timeout_lists (set_rset r x m) = timeout_lists m"
  "nodes_of (set_rset r x m) = nodes_of m" "inited (set_rset r x m) = inited m"
  "wf_mem (set_rset r x m) \<longleftrightarrow> wf_mem m"
  by (simp_all add: set_rset_def)

lemma ready_insert_wf:
  assumes "wf_mem m" and "ready_ok m r" and "\<not> is_root n" and "nlist (nodes m n) = None"
    and "npriority m n < 8"
  shows "hr_ready_set_insert (Some r) (Some n) m = Some (HR_OK, ready_link r n m)"
    and "wf_mem (ready_link r n m)"
    and "ready_ok (ready_link r n m) r"
    and "inited (ready_link r n m) = inited m"
    and "inited m l \<Longrightarrow> nodes_of (ready_link r n m) l =
           (if l = ReadyQueue r (unat (npriority m n)) then nodes_of m l @ [n] else nodes_of m l)"
    and "nlist (nodes (ready_link r n m) x) =
           (if x = n then Some (ReadyQueue r (unat (npriority m n))) else nlist (nodes m x))"
    and "nowner (nodes (ready_link r n m) x) = nowner (nodes m x)"
    and "npriority (ready_link r n m) = npriority m"
    and "nwake_tick (ready_link r n m) = nwake_tick m"
    and "timeout_lists (ready_link r n m) = timeout_lists m"
proof -
  let ?i = "unat (npriority m n)"
  let ?q = "ReadyQueue r ?i"
  let ?m1 = "link_at ?q (nodes_of m ?q) [] n m"
  let ?x = "\<lparr>rbitmap = rbitmap (ready_sets m r) OR hr_priority_mask (npriority m n),
             rcount = rcount (ready_sets m r) + 1\<rparr>"
  have i: "?i < 8" using assms(5) by (simp add: unat_lt_8)
  have q: "inited m ?q" by (rule ready_okD(1) [OF assms(2) i])
  have ins: "hr_ready_set_insert (Some r) (Some n) m = Some (HR_OK, set_rset r ?x ?m1)"
    using assms(4,5) by (simp add: hr_ready_set_insert_def hr_priority_is_valid_def
      push_back_wf [OF assms(1) q])
  then have eq: "ready_link r n m = set_rset r ?x ?m1" by (simp add: ready_link_def)
  note w = wf_link_at [OF assms(1) q _ assms(3,4), of "nodes_of m ?q" "[]", simplified]
  show "hr_ready_set_insert (Some r) (Some n) m = Some (HR_OK, ready_link r n m)"
    using ins eq by simp
  show wf: "wf_mem (ready_link r n m)" using w(1) by (simp add: eq)
  show ini: "inited (ready_link r n m) = inited m" using assms(3) by (simp add: eq fun_eq_iff)
  show no: "inited m l \<Longrightarrow> nodes_of (ready_link r n m) l =
      (if l = ?q then nodes_of m l @ [n] else nodes_of m l)" for l
    using w(2) by (simp add: eq)
  show "nlist (nodes (ready_link r n m) x) = (if x = n then Some ?q else nlist (nodes m x))"
    "nowner (nodes (ready_link r n m) x) = nowner (nodes m x)"
    "npriority (ready_link r n m) = npriority m" "nwake_tick (ready_link r n m) = nwake_tick m"
    "timeout_lists (ready_link r n m) = timeout_lists m"
    by (simp_all add: eq)
  have rq: "ready_queue (ready_link r n m) r j =
      (if j = ?i then ready_queue m r j @ [n] else ready_queue m r j)" if "j < 8" for j
    using no [OF ready_okD(1) [OF assms(2) that]] by simp
  have "(\<Sum>j < 8. length (ready_queue (ready_link r n m) r j)) =
      (\<Sum>j < 8. if j = ?i then Suc (length (ready_queue m r ?i)) else length (ready_queue m r j))"
    by (rule sum.cong) (auto simp: rq)
  then have "(\<Sum>j < 8. length (ready_queue (ready_link r n m) r j)) =
      Suc (\<Sum>j < 8. length (ready_queue m r j))"
    using sum_fun_upd [OF i, of "Suc (length (ready_queue m r ?i))" "\<lambda>j. length (ready_queue m r j)"]
    by simp
  then have cnt: "rcount (ready_sets (ready_link r n m) r) =
      (\<Sum>j < 8. length (ready_queue (ready_link r n m) r j))"
    using ready_okD(4) [OF assms(2)] by (simp add: eq)
  have bits: "bit (rbitmap (ready_sets (ready_link r n m) r)) j \<longleftrightarrow>
      j < 8 \<and> ready_queue (ready_link r n m) r j \<noteq> []" for j
    using ready_okD(3) [OF assms(2), of j] i rq [of j]
    by (cases "j < 8") (auto simp: eq bit_or_iff bit_mask)
  show "ready_ok (ready_link r n m) r"
    unfolding ready_ok_def
    using bits cnt rq ready_okD(1,2) [OF assms(2)] by (simp add: ini) (auto simp: eq)
qed

lemma ready_remove_wf:
  assumes "wf_mem m" and "ready_ok m r" and "\<not> is_root n" and "npriority m n < 8"
    and "nlist (nodes m n) = Some (ReadyQueue r (unat (npriority m n)))"
  shows "hr_ready_set_remove (Some r) (Some n) m = Some (HR_OK, ready_unlink r n m)"
    and "wf_mem (ready_unlink r n m)"
    and "ready_ok (ready_unlink r n m) r"
    and "inited (ready_unlink r n m) = inited m"
    and "inited m l \<Longrightarrow> nodes_of (ready_unlink r n m) l =
           (if l = ReadyQueue r (unat (npriority m n)) then remove1 n (nodes_of m l) else nodes_of m l)"
    and "nlist (nodes (ready_unlink r n m) x) = (if x = n then None else nlist (nodes m x))"
    and "nowner (nodes (ready_unlink r n m) x) = nowner (nodes m x)"
    and "npriority (ready_unlink r n m) = npriority m"
    and "nwake_tick (ready_unlink r n m) = nwake_tick m"
    and "timeout_lists (ready_unlink r n m) = timeout_lists m"
proof -
  let ?i = "unat (npriority m n)"
  let ?q = "ReadyQueue r ?i"
  have i: "?i < 8" using assms(4) by (simp add: unat_lt_8)
  have q: "inited m ?q" by (rule ready_okD(1) [OF assms(2) i])
  note u = wf_unlink [OF assms(1,3,5)]
  let ?x = "\<lparr>rbitmap = (if nodes_of (unlink n m) ?q = []
      then rbitmap (ready_sets m r) AND NOT (hr_priority_mask (npriority m n))
      else rbitmap (ready_sets m r)), rcount = size_dec (rcount (ready_sets m r))\<rparr>"
  have em: "hr_list_is_empty (Some ?q) (unlink n m) \<longleftrightarrow> nodes_of (unlink n m) ?q = []"
    by (rule is_empty_wf) (simp_all add: u(2,3) q)
  have rem: "hr_ready_set_remove (Some r) (Some n) m = Some (HR_OK, set_rset r ?x (unlink n m))"
    using assms(4,5) by (simp add: hr_ready_set_remove_def hr_priority_is_valid_def u(1,7,9) em)
  then have eq: "ready_unlink r n m = set_rset r ?x (unlink n m)" by (simp add: ready_unlink_def)
  show "hr_ready_set_remove (Some r) (Some n) m = Some (HR_OK, ready_unlink r n m)"
    using rem eq by simp
  show wf: "wf_mem (ready_unlink r n m)" using u(2) by (simp add: eq)
  show ini: "inited (ready_unlink r n m) = inited m" using u(3) by (simp add: eq fun_eq_iff)
  show no: "inited m l \<Longrightarrow> nodes_of (ready_unlink r n m) l =
      (if l = ?q then remove1 n (nodes_of m l) else nodes_of m l)" for l
    using u(4) by (simp add: eq)
  show "nlist (nodes (ready_unlink r n m) x) = (if x = n then None else nlist (nodes m x))"
    "nowner (nodes (ready_unlink r n m) x) = nowner (nodes m x)"
    "npriority (ready_unlink r n m) = npriority m" "nwake_tick (ready_unlink r n m) = nwake_tick m"
    "timeout_lists (ready_unlink r n m) = timeout_lists m"
    by (simp_all add: eq u(5-10))
  have rq: "ready_queue (ready_unlink r n m) r j =
      (if j = ?i then remove1 n (ready_queue m r j) else ready_queue m r j)" if "j < 8" for j
    using no [OF ready_okD(1) [OF assms(2) that]] by simp
  have nin: "n \<in> set (ready_queue m r ?i)" using wf_nlist [OF assms(1,3)] assms(5) by blast
  then have pos: "0 < length (ready_queue m r ?i)" by (cases "ready_queue m r ?i") auto
  have "(\<Sum>j < 8. length (ready_queue (ready_unlink r n m) r j)) =
      (\<Sum>j < 8. if j = ?i then length (ready_queue m r ?i) - 1 else length (ready_queue m r j))"
    by (rule sum.cong) (auto simp: rq length_remove1 nin)
  then have s: "Suc (\<Sum>j < 8. length (ready_queue (ready_unlink r n m) r j)) =
      (\<Sum>j < 8. length (ready_queue m r j))"
    using pos sum_fun_upd [OF i, of "length (ready_queue m r ?i) - 1" "\<lambda>j. length (ready_queue m r j)"]
    by linarith
  have cnt: "rcount (ready_sets (ready_unlink r n m) r) =
      (\<Sum>j < 8. length (ready_queue (ready_unlink r n m) r j))"
    using ready_okD(4) [OF assms(2)] by (simp add: eq s [unfolded eq, symmetric])
  have bits: "bit (rbitmap (ready_sets (ready_unlink r n m) r)) j \<longleftrightarrow>
      j < 8 \<and> ready_queue (ready_unlink r n m) r j \<noteq> []" for j
    using ready_okD(3) [OF assms(2), of j] i nin rq [of j] rq [OF i]
    by (cases "j < 8") (auto simp: eq bit_and_iff bit_not_iff bit_mask)
  have "unat (npriority m y) = j" if "j < 8" "y \<in> set (ready_queue (ready_unlink r n m) r j)" for y j
    using that rq [OF that(1)] ready_okD(2) [OF assms(2) that(1), of y] set_remove1_subset [of n]
    by (auto split: if_splits)
  then show "ready_ok (ready_unlink r n m) r"
    unfolding ready_ok_def
    using bits cnt ready_okD(1) [OF assms(2)] by (simp add: ini) (simp add: eq u(7))
qed


lemma scheduler_add_wf: "hr_scheduler_add_ready (Some r) node m = hr_ready_set_insert (Some r) node m"
  by (simp add: hr_scheduler_add_ready_def)

lemma scheduler_remove_wf: "hr_scheduler_remove_ready (Some r) node m = hr_ready_set_remove (Some r) node m"
  by (simp add: hr_scheduler_remove_ready_def)

lemma select_highest_wf [hr_op]:
  "wf_mem m \<Longrightarrow> ready_ok m r \<Longrightarrow>
   hr_scheduler_select_highest (Some r) m = (case ready_seq m r of [] \<Rightarrow> None | x # _ \<Rightarrow> Some x)"
  by (simp add: hr_scheduler_select_highest_def peek_highest_wf)

text \<open>The nodes of a ready set in the order the policy would run them are sorted by priority.\<close>

lemma sorted_concat_ready:
  assumes "ready_ok m r" and "k \<le> 8"
  shows "sorted (map (npriority m) (concat (map (ready_queue m r) [0..<k])))"
  using assms(2)
proof (induction k)
  case (Suc k)
  have eq: "npriority m x = npriority m (hd (ready_queue m r k))" if "x \<in> set (ready_queue m r k)" for x
  proof -
    have "hd (ready_queue m r k) \<in> set (ready_queue m r k)" using that by (intro hd_in_set) auto
    then show ?thesis
      using ready_okD(2) [OF assms(1), of k] that Suc.prems by (simp add: word_unat_eq_iff)
  qed
  have "npriority m x \<le> npriority m y" if "j < k" "x \<in> set (ready_queue m r j)" "y \<in> set (ready_queue m r k)" for j x y
    using ready_okD(2) [OF assms(1), of j x] ready_okD(2) [OF assms(1), of k y] that Suc.prems
    by (simp add: word_le_nat_alt)
  moreover have "sorted (map (npriority m) (ready_queue m r k))"
    by (simp add: eq map_replicate_const cong: map_cong)
  ultimately show ?case using Suc by (auto simp: sorted_append)
qed simp

lemma sorted_ready_seq: "ready_ok m r \<Longrightarrow> sorted (map (npriority m) (ready_seq m r))"
  unfolding ready_seq_def by (rule sorted_concat_ready) simp_all

lemma ready_seq_distinct:
  assumes "wf_mem m" and "ready_ok m r"
  shows "distinct (ready_seq m r)"
proof -
  have "distinct (concat (map (ready_queue m r) [0..<k]))" if "k \<le> 8" for k
    using that
  proof (induction k)
    case (Suc k)
    have "x \<in> set (ready_queue m r j) \<Longrightarrow> x \<notin> set (ready_queue m r k)" if "j < k" for j x
      using wf_disjoint [OF assms(1), of "ReadyQueue r j" "ReadyQueue r k" x] that Suc.prems
        ready_okD(1) [OF assms(2)] by auto
    then show ?case
      using Suc wf_distinct [OF assms(1) ready_okD(1) [OF assms(2), of k]] by auto
  qed simp
  then show ?thesis by (simp add: ready_seq_def)
qed

text \<open>Insertion is stable insertion by priority into that order; removal deletes the node from it.\<close>

lemma ready_seq_link:
  assumes "wf_mem m" and "ready_ok m r" and "\<not> is_root n" and "nlist (nodes m n) = None"
    and "npriority m n < 8"
  shows "ready_seq (ready_link r n m) r = insert_fifo (npriority m) n (ready_seq m r)"
proof -
  let ?i = "unat (npriority m n)"
  have i: "?i < 8" using assms(5) by (simp add: unat_lt_8)
  note w = ready_insert_wf [OF assms]
  have rq: "ready_queue (ready_link r n m) r j =
      (if j = ?i then ready_queue m r j @ [n] else ready_queue m r j)" if "j < 8" for j
    using w(5) [OF ready_okD(1) [OF assms(2) that]] by simp
  define A where "A = concat (map (ready_queue m r) [0..<?i]) @ ready_queue m r ?i"
  define B where "B = concat (map (ready_queue m r) [Suc ?i..<8])"
  have old: "ready_seq m r = A @ B" using ready_seq_split [OF i] by (simp add: A_def B_def)
  have lo: "map (ready_queue (ready_link r n m) r) [0..<?i] = map (ready_queue m r) [0..<?i]"
    using i by (intro map_cong) (auto simp: rq)
  have hi: "map (ready_queue (ready_link r n m) r) [Suc ?i..<8] = map (ready_queue m r) [Suc ?i..<8]"
    by (intro map_cong) (auto simp: rq)
  have new: "ready_seq (ready_link r n m) r = A @ n # B"
    using ready_seq_split [OF i, of "ready_link r n m" r] by (simp add: rq [OF i] A_def B_def lo hi)
  have "\<forall>y \<in> set A. npriority m y \<le> npriority m n"
  proof
    fix y assume "y \<in> set A"
    then have "\<exists>j \<le> ?i. y \<in> set (ready_queue m r j)"
      by (auto simp: A_def) (metis less_imp_le_nat)
    then obtain j where "j \<le> ?i" "y \<in> set (ready_queue m r j)" by blast
    then show "npriority m y \<le> npriority m n"
      using ready_okD(2) [OF assms(2), of j y] i by (simp add: word_le_nat_alt)
  qed
  moreover have "\<forall>y \<in> set B. npriority m n < npriority m y"
    using ready_okD(2) [OF assms(2)] by (auto simp: B_def word_less_nat_alt)
  ultimately show ?thesis using old new by (simp add: insert_fifo_append insert_fifo_before)
qed

lemma ready_seq_unlink:
  assumes "wf_mem m" and "ready_ok m r" and "\<not> is_root n" and "npriority m n < 8"
    and "nlist (nodes m n) = Some (ReadyQueue r (unat (npriority m n)))"
  shows "ready_seq (ready_unlink r n m) r = remove1 n (ready_seq m r)"
proof -
  let ?i = "unat (npriority m n)"
  have i: "?i < 8" using assms(4) by (simp add: unat_lt_8)
  note w = ready_remove_wf [OF assms]
  have rq: "ready_queue (ready_unlink r n m) r j =
      (if j = ?i then remove1 n (ready_queue m r j) else ready_queue m r j)" if "j < 8" for j
    using w(5) [OF ready_okD(1) [OF assms(2) that]] by simp
  have lo: "map (ready_queue (ready_unlink r n m) r) [0..<?i] = map (ready_queue m r) [0..<?i]"
    using i by (intro map_cong) (auto simp: rq)
  have hi: "map (ready_queue (ready_unlink r n m) r) [Suc ?i..<8] = map (ready_queue m r) [Suc ?i..<8]"
    by (intro map_cong) (auto simp: rq)
  have nin: "n \<in> set (ready_queue m r ?i)" using wf_nlist [OF assms(1,3)] assms(5) by blast
  have "n \<notin> set (ready_queue m r j)" if "j < ?i" for j
    using ready_okD(2) [OF assms(2), of j n] that i by auto
  then have "n \<notin> set (concat (map (ready_queue m r) [0..<?i]))" by auto
  then show ?thesis
    using ready_seq_split [OF i, of m r] ready_seq_split [OF i, of "ready_unlink r n m" r] nin
    by (simp add: rq [OF i] lo hi remove1_append)
qed


text \<open>Rotation moves the node that would run next behind the ready nodes of its priority.\<close>

definition rotate_ready :: "('a \<Rightarrow> 'k::linorder) \<Rightarrow> 'a list \<Rightarrow> 'a list" where
  "rotate_ready key xs = (case xs of [] \<Rightarrow> [] | x # ys \<Rightarrow> insert_fifo key x ys)"

lemma ready_ok_perm:
  assumes "ready_ok m r" and "inited m' = inited m" and "ready_sets m' = ready_sets m"
    and "npriority m' = npriority m"
    and "\<And>j. j < 8 \<Longrightarrow> set (ready_queue m' r j) = set (ready_queue m r j)"
    and "\<And>j. j < 8 \<Longrightarrow> length (ready_queue m' r j) = length (ready_queue m r j)"
  shows "ready_ok m' r"
proof -
  have "j < 8 \<and> ready_queue m' r j \<noteq> [] \<longleftrightarrow> j < 8 \<and> ready_queue m r j \<noteq> []" for j
    using assms(5) by (metis set_empty)
  moreover have "(\<Sum>j < 8. length (ready_queue m' r j)) = (\<Sum>j < 8. length (ready_queue m r j))"
    using assms(6) by (intro sum.cong) auto
  ultimately show ?thesis
    using assms(1) unfolding ready_ok_def by (simp add: assms)
qed

text \<open>The front of the ready order, with the queue it heads.\<close>

lemma ready_front:
  assumes "ready_ok m r" and "ready_seq m r \<noteq> []"
  obtains i x xs where "i < 8" and "unat (hr_ready_set_highest_priority r m) = i"
    and "hr_ready_set_highest_priority r m < 8" and "rcount (ready_sets m r) \<noteq> 0"
    and "ready_queue m r i = x # xs"
    and "concat (map (ready_queue m r) [0..<i]) = []"
    and "ready_seq m r = x # xs @ concat (map (ready_queue m r) [Suc i..<8])"
    and "insert_fifo (npriority m) x (xs @ concat (map (ready_queue m r) [Suc i..<8])) =
           xs @ x # concat (map (ready_queue m r) [Suc i..<8])"
proof -
  let ?h = "hr_ready_set_highest_priority r m"
  have c0: "rcount (ready_sets m r) \<noteq> 0"
    using assms(2) rcount_0 [OF assms(1)] by (simp add: ready_seq_Nil)
  obtain i where i: "i < 8" "unat ?h = i" "?h < 8" "ready_queue m r i \<noteq> []"
    "\<And>j. j < i \<Longrightarrow> ready_queue m r j = []"
    using highest_priority [OF assms(1) c0] by metis
  obtain x xs where xs: "ready_queue m r i = x # xs" using i(4) by (cases "ready_queue m r i") auto
  have lo: "concat (map (ready_queue m r) [0..<i]) = []"
    using i(5) by (subst concat_eq_Nil_conv) auto
  have sq: "ready_seq m r = x # xs @ concat (map (ready_queue m r) [Suc i..<8])"
    using ready_seq_split [OF i(1), of m r] lo xs by simp
  have "\<forall>y \<in> set xs. npriority m y \<le> npriority m x"
    using ready_okD(2) [OF assms(1) i(1)] xs by (simp add: word_le_nat_alt)
  moreover have "\<forall>y \<in> set (concat (map (ready_queue m r) [Suc i..<8])). npriority m x < npriority m y"
    using ready_okD(2) [OF assms(1)] i(1) xs by (fastforce simp: word_less_nat_alt)
  ultimately have "insert_fifo (npriority m) x (xs @ concat (map (ready_queue m r) [Suc i..<8])) =
      xs @ x # concat (map (ready_queue m r) [Suc i..<8])"
    by (simp add: insert_fifo_append insert_fifo_before)
  then show ?thesis using that [OF i(1-3) c0 xs lo sq] by blast
qed

lemma rotate_highest_wf:
  assumes "wf_mem m" and "ready_ok m r" and "ready_seq m r \<noteq> []"
  obtains m' where "hr_ready_set_rotate_highest (Some r) m = Some (HR_OK, m')"
    and "wf_mem m'" and "ready_ok m' r" and "inited m' = inited m"
    and "ready_seq m' r = rotate_ready (npriority m) (ready_seq m r)"
    and "\<And>l. inited m l \<Longrightarrow> (\<And>i. l \<noteq> ReadyQueue r i) \<Longrightarrow> nodes_of m' l = nodes_of m l"
    and "\<And>i. i < 8 \<Longrightarrow> set (ready_queue m' r i) = set (ready_queue m r i)"
    and "npriority m' = npriority m" and "nwake_tick m' = nwake_tick m"
    and "timeout_lists m' = timeout_lists m"
    and "\<And>x. nowner (nodes m' x) = nowner (nodes m x)"
    and "\<And>x. nlist (nodes m' x) = nlist (nodes m x)"
proof -
  obtain i x xs where i: "i < 8" "unat (hr_ready_set_highest_priority r m) = i"
    "hr_ready_set_highest_priority r m < 8" "rcount (ready_sets m r) \<noteq> 0"
    and xs: "ready_queue m r i = x # xs" and lo: "concat (map (ready_queue m r) [0..<i]) = []"
    and sq: "ready_seq m r = x # xs @ concat (map (ready_queue m r) [Suc i..<8])"
    and ins: "insert_fifo (npriority m) x (xs @ concat (map (ready_queue m r) [Suc i..<8])) =
      xs @ x # concat (map (ready_queue m r) [Suc i..<8])"
    using ready_front [OF assms(2,3)] by metis
  let ?q = "ReadyQueue r i"
  have q: "inited m ?q" by (rule ready_okD(1) [OF assms(2) i(1)])
  have def: "hr_ready_set_rotate_highest (Some r) m =
      (if length (x # xs) < 2 then Some (HR_OK, m)
       else do {
         (node, m) \<leftarrow> hr_list_pop_front (Some ?q) m;
         if node = None then Some (HR_ERROR_INTERNAL, m) else hr_list_push_back (Some ?q) node m
       })"
    using i(2-4) xs
    by (simp add: hr_ready_set_rotate_highest_def hr_priority_is_valid_def Let_def size_wf [OF assms(1) q])
  show ?thesis
  proof (cases "xs = []")
    case True
    then show ?thesis
      using that [of m] def assms(1,2) ins sq by (simp add: rotate_ready_def)
  next
    case False
    obtain m1 m2 where pop: "hr_list_pop_front (Some ?q) m = Some (Some x, m1)"
      and push: "hr_list_push_back (Some ?q) (Some x) m1 = Some (HR_OK, m2)"
      and w: "wf_mem m2" "inited m2 = inited m"
      and n2: "\<And>k. inited m k \<Longrightarrow> nodes_of m2 k = (if k = ?q then xs @ [x] else nodes_of m k)"
      and fr: "npriority m2 = npriority m" "nwake_tick m2 = nwake_tick m"
        "ready_sets m2 = ready_sets m" "timeout_lists m2 = timeout_lists m"
        "\<And>y. nowner (nodes m2 y) = nowner (nodes m y)" "\<And>y. nlist (nodes m2 y) = nlist (nodes m y)"
      using pop_push_wf [OF assms(1) q xs] by metis
    have rq: "ready_queue m2 r j = (if j = i then xs @ [x] else ready_queue m r j)" if "j < 8" for j
      using n2 [OF ready_okD(1) [OF assms(2) that]] by simp
    have ok: "ready_ok m2 r"
      by (rule ready_ok_perm [OF assms(2) w(2) fr(3,1)]) (auto simp: rq xs)
    have mp: "map (ready_queue m2 r) [0..<i] = map (ready_queue m r) [0..<i]"
      "map (ready_queue m2 r) [Suc i..<8] = map (ready_queue m r) [Suc i..<8]"
      using i(1) by (auto simp: rq)
    have "ready_seq m2 r = xs @ x # concat (map (ready_queue m r) [Suc i..<8])"
      unfolding ready_seq_split [OF i(1), of m2 r] mp lo by (simp add: rq [OF i(1)])
    then show ?thesis
      using that [of m2] def pop push False ok w fr ins sq n2 rq xs by (simp add: rotate_ready_def)
  qed
qed

lemma should_preempt_wf [hr_op]:
  assumes "wf_mem m" and "ready_ok m r" and "npriority m c < 8"
  shows "hr_scheduler_should_preempt (Some r) (Some c) m \<longleftrightarrow>
    (\<exists>y \<in> set (ready_seq m r). npriority m y < npriority m c)"
proof (cases "ready_seq m r")
  case Nil
  then show ?thesis
    using assms by (simp add: hr_scheduler_should_preempt_def select_highest_wf)
next
  case (Cons x xs)
  then have "\<forall>y \<in> set xs. npriority m x \<le> npriority m y"
    using sorted_ready_seq [OF assms(2)] by simp
  then show ?thesis
    using assms Cons by (fastforce simp: hr_scheduler_should_preempt_def select_highest_wf hr_priority_is_valid_def)
qed

lemma equal_peer_wf [hr_op]:
  assumes "wf_mem m" and "ready_ok m r" and "npriority m c < 8" and "\<not> is_root c"
  shows "hr_scheduler_has_equal_priority_peer (Some r) (Some c) m \<longleftrightarrow>
    (\<exists>y. y \<noteq> c \<and> {c, y} \<subseteq> set (ready_queue m r (unat (npriority m c))))"
proof -
  let ?q = "ReadyQueue r (unat (npriority m c))"
  have q: "inited m ?q" using assms(3) by (intro ready_okD(1) [OF assms(2)]) (simp add: unat_lt_8)
  have "hr_scheduler_has_equal_priority_peer (Some r) (Some c) m \<longleftrightarrow>
      c \<in> set (nodes_of m ?q) \<and> 1 < length (nodes_of m ?q)"
    using assms(3) q wf_nlist [OF assms(1,4), of ?q]
    by (simp add: hr_scheduler_has_equal_priority_peer_def hr_priority_is_valid_def Let_def size_wf [OF assms(1) q])
  also have "\<dots> \<longleftrightarrow> (\<exists>y. y \<noteq> c \<and> {c, y} \<subseteq> set (nodes_of m ?q))"
  proof
    assume c: "c \<in> set (nodes_of m ?q) \<and> 1 < length (nodes_of m ?q)"
    have "card (set (nodes_of m ?q)) = length (nodes_of m ?q)"
      using wf_distinct [OF assms(1) q] by (simp add: distinct_card)
    then have "\<not> set (nodes_of m ?q) \<subseteq> {c}"
      using c card_mono [of "{c}" "set (nodes_of m ?q)"] by auto
    then show "\<exists>y. y \<noteq> c \<and> {c, y} \<subseteq> set (nodes_of m ?q)" using c by auto
  next
    assume "\<exists>y. y \<noteq> c \<and> {c, y} \<subseteq> set (nodes_of m ?q)"
    then obtain y where y: "y \<noteq> c" "{c, y} \<subseteq> set (nodes_of m ?q)" by blast
    then have "card {c, y} \<le> card (set (nodes_of m ?q))" by (intro card_mono) auto
    then show "c \<in> set (nodes_of m ?q) \<and> 1 < length (nodes_of m ?q)"
      using y card_length [of "nodes_of m ?q"] by auto
  qed
  finally show ?thesis .
qed

section \<open>Initialisation, validation and yielding\<close>

lemma inits_wf:
  assumes "wf_mem m" and "\<forall>l \<in> set ls. inited m l \<longrightarrow> nodes_of m l = []"
  defines "m' \<equiv> fold (\<lambda>l. hr_list_init (Some l)) ls m"
  shows "wf_mem m' \<and> (\<forall>k. inited m' k \<longleftrightarrow> inited m k \<or> k \<in> set ls) \<and>
    (\<forall>k. inited m' k \<longrightarrow> nodes_of m' k = (if k \<in> set ls then [] else nodes_of m k)) \<and>
    npriority m' = npriority m \<and> nwake_tick m' = nwake_tick m \<and> ready_sets m' = ready_sets m \<and>
    timeout_lists m' = timeout_lists m \<and> (\<forall>x. \<not> is_root x \<longrightarrow> nodes m' x = nodes m x)"
  using assms(1,2) unfolding m'_def
proof (induction ls arbitrary: m)
  case (Cons l ls)
  have w: "wf_mem (hr_list_init (Some l) m)"
    "inited m k \<or> k = l \<Longrightarrow> nodes_of (hr_list_init (Some l) m) k = (if k = l then [] else nodes_of m k)" for k
    using wf_list_init [OF Cons.prems(1), of l] Cons.prems(2) by simp_all
  have "\<forall>k \<in> set ls. inited (hr_list_init (Some l) m) k \<longrightarrow> nodes_of (hr_list_init (Some l) m) k = []"
    using w(2) Cons.prems(2) by auto
  note IH = Cons.IH [OF w(1) this]
  then show ?case using w(2) by auto
qed simp

lemma ready_init_wf:
  assumes "wf_mem m" and "\<And>i. inited m (ReadyQueue r i) \<Longrightarrow> nodes_of m (ReadyQueue r i) = []"
  defines "m' \<equiv> hr_ready_set_init (Some r) m"
  shows "wf_mem m'" and "ready_ok m' r" and "ready_seq m' r = []"
    and "inited m' l \<longleftrightarrow> inited m l \<or> (\<exists>i < 8. l = ReadyQueue r i)"
    and "inited m' l \<Longrightarrow> nodes_of m' l = (if \<exists>i < 8. l = ReadyQueue r i then [] else nodes_of m l)"
    and "npriority m' = npriority m" and "nwake_tick m' = nwake_tick m"
    and "timeout_lists m' = timeout_lists m" and "\<not> is_root x \<Longrightarrow> nodes m' x = nodes m x"
proof -
  let ?ls = "map (ReadyQueue r) [0..<8]" and ?x = "\<lparr>rbitmap = 0, rcount = 0\<rparr>"
  have eq: "m' = set_rset r ?x (fold (\<lambda>l. hr_list_init (Some l)) ?ls m)"
    by (simp add: m'_def hr_ready_set_init_def fold_map comp_def del: upt_rec_numeral)
  have mem: "l \<in> set ?ls \<longleftrightarrow> (\<exists>i < 8. l = ReadyQueue r i)" for l by (auto simp del: upt_rec_numeral)
  have "\<forall>l \<in> set ?ls. inited m l \<longrightarrow> nodes_of m l = []" using assms(2) unfolding mem by auto
  note i = inits_wf [OF assms(1) this, folded eq]
  show "wf_mem m'" "npriority m' = npriority m" "nwake_tick m' = nwake_tick m"
    "timeout_lists m' = timeout_lists m" "\<not> is_root x \<Longrightarrow> nodes m' x = nodes m x"
    using i unfolding eq by simp_all
  show ini: "inited m' l \<longleftrightarrow> inited m l \<or> (\<exists>i < 8. l = ReadyQueue r i)" for l
    using i unfolding eq mem by simp
  show no: "inited m' l \<Longrightarrow> nodes_of m' l = (if \<exists>i < 8. l = ReadyQueue r i then [] else nodes_of m l)" for l
    using i unfolding eq mem by simp
  have "ready_queue m' r i = []" if "i < 8" for i using no [of "ReadyQueue r i"] ini that by auto
  then show "ready_ok m' r" and "ready_seq m' r = []"
    unfolding ready_ok_def ready_seq_Nil using ini by (auto simp: eq)
qed

text \<open>The consistency check of the source holds on every well-formed ready set.\<close>

lemma validate_loop_wf:
  assumes "wf_mem m" and "ready_ok m r" and "k \<le> 8"
    and "tot = (\<Sum>i < k. length (ready_queue m r i))"
    and "\<forall>i. bit b i \<longleftrightarrow> i < k \<and> ready_queue m r i \<noteq> []"
  shows "ready_set_validate_loop r [k..<8] tot b m"
  using assms(3-5)
proof (induction "8 - k" arbitrary: k tot b)
  case 0
  then have k: "k = 8" by simp
  have "b = rbitmap (ready_sets m r)"
    using 0 by (intro bit_word_eqI) (simp add: k ready_okD(3) [OF assms(2)])
  then show ?case using 0 ready_okD(4) [OF assms(2)] by (simp add: k)
next
  case (Suc d)
  then have k: "k < 8" by simp
  have q: "inited m (ReadyQueue r k)" by (rule ready_okD(1) [OF assms(2) k])
  have "bit (b OR push_bit k 1) i \<longleftrightarrow> bit b i \<or> i = k" for i
    using k by (auto simp: bit_simps)
  then have "ready_set_validate_loop r [Suc k..<8] (tot + length (ready_queue m r k))
      (if ready_queue m r k \<noteq> [] then b OR push_bit k 1 else b) m"
    using Suc.hyps(2) Suc.prems k by (intro Suc.hyps(1)) (auto simp: less_Suc_eq)
  then show ?case
    unfolding upt_conv_Cons [OF k] ready_set_validate_loop.simps Let_def
    using wf_validate [OF assms(1) q] size_wf [OF assms(1) q] is_empty_wf [OF assms(1) q]
    by (simp del: upt_rec_numeral)
qed

lemma ready_validate_wf: "wf_mem m \<Longrightarrow> ready_ok m r \<Longrightarrow> hr_ready_set_validate (Some r) m"
  using validate_loop_wf [of m r 0 0 0] by (simp add: hr_ready_set_validate_def del: upt_rec_numeral)

lemma scheduler_validate_wf [hr_op]: "wf_mem m \<Longrightarrow> ready_ok m r \<Longrightarrow> hr_scheduler_validate (Some r) m"
  by (simp add: hr_scheduler_validate_def ready_validate_wf)

lemma yield_current_eq [hr_op]:
  assumes "wf_mem m" and "ready_ok m r"
  shows "hr_scheduler_yield_current (Some r) (Some c) m =
    (case ready_seq m r of
       [] \<Rightarrow> Some (HR_ERROR_INVALID_STATE, m)
     | x # _ \<Rightarrow> if x \<noteq> c then Some (HR_ERROR_INVALID_STATE, m) else hr_ready_set_rotate_highest (Some r) m)"
  using assms by (simp add: hr_scheduler_yield_current_def select_highest_wf split: list.splits)

end
