(* ===== verification/HR_Ordered.thy ===== *)
theory HR_Ordered
  imports HR_List
begin

text \<open>
  The two loops that the wait lists (\<open>hr_wait.c\<close>) and the timeout lists
  (\<open>hr_timeout.c\<close>) share: the search for the place of a new node in a list sorted by
  a key, and the check that a list is sorted. Each loop is a locale whose only law is the
  loop's unfolding; the two modules interpret both with their own loops and keys.
\<close>

section \<open>Sound lists are traversed to their end\<close>

lemma wf_sound: "wf_mem m \<Longrightarrow> inited m l \<Longrightarrow> sound_list m l"
  using wf_validate validate_iff by blast

lemma front_sound:
  assumes "sound_list m l"
  shows "hr_list_front (Some l) m = (case nodes_of m l of [] \<Rightarrow> None | x # _ \<Rightarrow> Some x)"
proof -
  have "nnext (nodes m (Root l)) = Some (hd (nodes_of m l @ [Root l]))"
    using assms by (intro seg_first) (simp add: sound_list_def)
  then show ?thesis
    using assms by (cases "nodes_of m l") (auto simp: hr_list_front_def sound_list_def)
qed

lemma next_sound:
  assumes "sound_list m l" and "nodes_of m l = as @ x # bs"
  shows "hr_list_next (Some l) (Some x) m = (case bs of [] \<Rightarrow> None | y # _ \<Rightarrow> Some y)"
proof -
  have "seg m x bs (Root l)" and "Root l \<notin> set bs" and "nlist (nodes m x) = Some l"
    using assms by (auto simp: sound_list_def seg_append)
  then show ?thesis by (cases bs) (auto simp: hr_list_next_def)
qed

section \<open>Insertion at the place the key asks for\<close>

definition fifo_link :: "(node_addr \<Rightarrow> 'k::linorder) \<Rightarrow> list_addr \<Rightarrow> node_addr \<Rightarrow> mem \<Rightarrow> mem" where
  "fifo_link key l n m =
     link_at l (takeWhile (\<lambda>y. key y \<le> key n) (nodes_of m l))
       (dropWhile (\<lambda>y. key y \<le> key n) (nodes_of m l)) n m"

lemma fifo_link_frame [hr_frame, simp]:
  "npriority (fifo_link key l n m) = npriority m"
  "nwake_tick (fifo_link key l n m) = nwake_tick m"
  "ready_sets (fifo_link key l n m) = ready_sets m"
  "timeout_lists (fifo_link key l n m) = timeout_lists m"
  "nowner (nodes (fifo_link key l n m) x) = nowner (nodes m x)"
  "nlist (nodes (fifo_link key l n m) x) = (if x = n then Some l else nlist (nodes m x))"
  "\<not> is_root n \<Longrightarrow> inited (fifo_link key l n m) = inited m"
  by (simp_all add: fifo_link_def fun_eq_iff)

lemma fifo_link_wf:
  assumes "wf_mem m" and "inited m l" and "\<not> is_root n" and "nlist (nodes m n) = None"
  shows "wf_mem (fifo_link key l n m)"
    and "inited m k \<Longrightarrow>
      nodes_of (fifo_link key l n m) k = (if k = l then insert_fifo key n (nodes_of m l) else nodes_of m k)"
proof -
  note w = wf_link_at [OF assms(1,2) _ assms(3,4), of "takeWhile (\<lambda>y. key y \<le> key n) (nodes_of m l)"
      "dropWhile (\<lambda>y. key y \<le> key n) (nodes_of m l)"]
  show "wf_mem (fifo_link key l n m)" using w(1) by (simp add: fifo_link_def)
  show "inited m k \<Longrightarrow>
      nodes_of (fifo_link key l n m) k = (if k = l then insert_fifo key n (nodes_of m l) else nodes_of m k)"
    using w(2) by (simp add: fifo_link_def insert_fifo_def)
qed

locale sorted_insert_loop =
  fixes key :: "mem \<Rightarrow> node_addr \<Rightarrow> 'k::linorder"
    and loop :: "list_addr option \<Rightarrow> node_addr \<Rightarrow> node_addr option \<Rightarrow> mem \<Rightarrow> (hr_status \<times> mem) option"
  assumes loop_unfold: "loop list n position m =
    (case position of
       None \<Rightarrow> hr_list_push_back list (Some n) m
     | Some q \<Rightarrow>
         if key m n < key m q then hr_list_insert_before list (Some q) (Some n) m
         else loop list n (hr_list_next list (Some q) m) m)"
begin

lemma loop_from:
  assumes "wf_mem m" and "inited m l" and "nlist (nodes m n) = None"
    and "nodes_of m l = as @ bs" and "\<forall>y \<in> set as. key m y \<le> key m n"
  shows "loop (Some l) n (case bs of [] \<Rightarrow> None | y # _ \<Rightarrow> Some y) m =
    Some (HR_OK, fifo_link (key m) l n m)"
  using assms(4,5)
proof (induction bs arbitrary: as)
  case Nil
  then have "takeWhile (\<lambda>y. key m y \<le> key m n) (nodes_of m l) = nodes_of m l"
    "dropWhile (\<lambda>y. key m y \<le> key m n) (nodes_of m l) = []" by simp_all
  then have "fifo_link (key m) l n m = link_at l (nodes_of m l) [] n m"
    unfolding fifo_link_def by (simp only:)
  then show ?case
    using assms(3) by (subst loop_unfold) (simp add: push_back_wf [OF assms(1,2)])
next
  case (Cons q bs)
  show ?case
  proof (cases "key m n < key m q")
    case True
    then have "takeWhile (\<lambda>y. key m y \<le> key m n) (nodes_of m l) = as"
      "dropWhile (\<lambda>y. key m y \<le> key m n) (nodes_of m l) = q # bs"
      using Cons.prems by simp_all
    then show ?thesis
      using True assms(3)
      by (subst loop_unfold) (simp add: insert_before_wf [OF assms(1,2) Cons.prems(1)] fifo_link_def)
  next
    case False
    then have "loop (Some l) n (case bs of [] \<Rightarrow> None | y # _ \<Rightarrow> Some y) m =
        Some (HR_OK, fifo_link (key m) l n m)"
      using Cons.prems by (intro Cons.IH [of "as @ [q]"]) auto
    then show ?thesis
      using False by (subst loop_unfold) (simp add: next_wf [OF assms(1,2) Cons.prems(1)])
  qed
qed

lemma loop_front:
  assumes "wf_mem m" and "inited m l" and "nlist (nodes m n) = None"
  shows "loop (Some l) n (hr_list_front (Some l) m) m = Some (HR_OK, fifo_link (key m) l n m)"
  using loop_from [OF assms, of "[]" "nodes_of m l"] by (simp add: front_wf [OF assms(1,2)])

end

section \<open>The sortedness check\<close>

locale order_check_loop =
  fixes key :: "mem \<Rightarrow> node_addr \<Rightarrow> 'k::linorder"
    and check :: "list_addr option \<Rightarrow> node_addr option \<Rightarrow> 'k \<Rightarrow> bool \<Rightarrow> mem \<Rightarrow> bool option"
  assumes check_unfold: "check list position previous first m =
    (case position of
       None \<Rightarrow> Some True
     | Some q \<Rightarrow>
         if \<not> first \<and> key m q < previous then Some False
         else check list (hr_list_next list (Some q) m) (key m q) False m)"
begin

lemma check_from:
  assumes "sound_list m l" and "nodes_of m l = as @ bs"
  shows "check (Some l) (case bs of [] \<Rightarrow> None | y # _ \<Rightarrow> Some y) previous first m =
    Some (sorted ((if first then [] else [previous]) @ map (key m) bs))"
  using assms(2)
proof (induction bs arbitrary: as previous first)
  case Nil
  then show ?case by (subst check_unfold) simp
next
  case (Cons q bs)
  have "check (Some l) (case bs of [] \<Rightarrow> None | y # _ \<Rightarrow> Some y) (key m q) False m =
      Some (sorted (key m q # map (key m) bs))"
    using Cons.IH [of "as @ [q]"] Cons.prems by simp
  then show ?case
    by (subst check_unfold) (auto simp: next_sound [OF assms(1) Cons.prems])
qed

lemma check_front:
  assumes "sound_list m l"
  shows "check (Some l) (hr_list_front (Some l) m) previous True m = Some (sorted (map (key m) (nodes_of m l)))"
  using check_from [OF assms, of "[]" "nodes_of m l"] by (simp add: front_sound [OF assms])

end

end
