(* ===== verification/HR_Wait.thy ===== *)
theory HR_Wait
  imports HR_Ordered
begin

text \<open>
  The wait lists of \<open>kernel/src/hr_wait.c\<close>: tasks blocked on a synchronisation object,
  by priority and in order of arrival among equal priorities. A \<open>hr_wait_list_t\<close> is a
  wrapped \<open>hr_list_t\<close>, so it has the same address, and a \<open>hr_wait_node_t\<close> is its
  list node with the \<open>npriority\<close> of that address.
\<close>

section \<open>Operations\<close>

definition hr_wait_node_init :: "node_addr option \<Rightarrow> obj_ptr option \<Rightarrow> hr_priority \<Rightarrow> mem \<Rightarrow> mem" where
  "hr_wait_node_init node owner priority m =
     (case node of
        None \<Rightarrow> m
      | Some n \<Rightarrow>
          (let m1 = hr_list_node_init (Some n) owner m
           in m1\<lparr>npriority := (npriority m1)(n := priority)\<rparr>))"

definition hr_wait_list_init :: "list_addr option \<Rightarrow> mem \<Rightarrow> mem" where
  "hr_wait_list_init list m = (if list \<noteq> None then hr_list_init list m else m)"

definition hr_wait_list_is_empty :: "list_addr option \<Rightarrow> mem \<Rightarrow> bool" where
  "hr_wait_list_is_empty list m \<longleftrightarrow> list = None \<or> hr_list_is_empty list m"

definition hr_wait_list_size :: "list_addr option \<Rightarrow> mem \<Rightarrow> nat" where
  "hr_wait_list_size list m = (if list = None then 0 else hr_list_size list m)"

partial_function (option) wait_list_insert_loop ::
  "list_addr option \<Rightarrow> node_addr \<Rightarrow> node_addr option \<Rightarrow> mem \<Rightarrow> (hr_status \<times> mem) option" where
  "wait_list_insert_loop list n position m =
     (case position of
        None \<Rightarrow> hr_list_push_back list (Some n) m
      | Some q \<Rightarrow>
          if npriority m n < npriority m q then hr_list_insert_before list (Some q) (Some n) m
          else wait_list_insert_loop list n (hr_list_next list (Some q) m) m)"

definition hr_wait_list_insert ::
  "list_addr option \<Rightarrow> node_addr option \<Rightarrow> mem \<Rightarrow> (hr_status \<times> mem) option" where
  "hr_wait_list_insert list node m =
     (case (list, node) of
        (Some l, Some n) \<Rightarrow>
          if hr_list_node_is_linked node m then Some (HR_ERROR_INVALID_STATE, m)
          else wait_list_insert_loop list n (hr_list_front list m) m
      | _ \<Rightarrow> Some (HR_ERROR_INVALID_ARGUMENT, m))"

definition hr_wait_list_remove ::
  "list_addr option \<Rightarrow> node_addr option \<Rightarrow> mem \<Rightarrow> (hr_status \<times> mem) option" where
  "hr_wait_list_remove list node m =
     (case (list, node) of
        (Some l, Some n) \<Rightarrow>
          if nlist (nodes m n) \<noteq> Some l then Some (HR_ERROR_INVALID_STATE, m)
          else hr_list_remove node m
      | _ \<Rightarrow> Some (HR_ERROR_INVALID_ARGUMENT, m))"

definition hr_wait_list_peek :: "list_addr option \<Rightarrow> mem \<Rightarrow> node_addr option" where
  "hr_wait_list_peek list m = (if list = None then None else hr_list_front list m)"

definition hr_wait_list_pop :: "list_addr option \<Rightarrow> mem \<Rightarrow> (node_addr option \<times> mem) option" where
  "hr_wait_list_pop list m = (if list = None then Some (None, m) else hr_list_pop_front list m)"

partial_function (option) wait_list_validate_loop ::
  "list_addr option \<Rightarrow> node_addr option \<Rightarrow> hr_priority \<Rightarrow> bool \<Rightarrow> mem \<Rightarrow> bool option" where
  "wait_list_validate_loop list node previous_priority first m =
     (case node of
        None \<Rightarrow> Some True
      | Some q \<Rightarrow>
          if \<not> first \<and> npriority m q < previous_priority then Some False
          else wait_list_validate_loop list (hr_list_next list (Some q) m) (npriority m q) False m)"

definition hr_wait_list_validate :: "list_addr option \<Rightarrow> mem \<Rightarrow> bool option" where
  "hr_wait_list_validate list m =
     (if list = None \<or> \<not> hr_list_validate list m then Some False
      else wait_list_validate_loop list (hr_list_front list m) 0 True m)"

section \<open>Behaviour\<close>

interpretation wait_insert: sorted_insert_loop npriority wait_list_insert_loop
  by unfold_locales (rule wait_list_insert_loop.simps)

interpretation wait_check: order_check_loop npriority wait_list_validate_loop
  by unfold_locales (rule wait_list_validate_loop.simps)

lemma wait_insert_wf [hr_op]:
  assumes "wf_mem m" and "inited m l"
  shows "hr_wait_list_insert (Some l) (Some n) m =
    (if nlist (nodes m n) \<noteq> None then Some (HR_ERROR_INVALID_STATE, m)
     else Some (HR_OK, fifo_link (npriority m) l n m))"
  using wait_insert.loop_front [OF assms]
  by (simp add: hr_wait_list_insert_def hr_list_node_is_linked_def)

lemma wait_remove_wf [hr_op]:
  assumes "wf_mem m" and "\<not> is_root n"
  shows "hr_wait_list_remove (Some l) (Some n) m =
    (if nlist (nodes m n) \<noteq> Some l then Some (HR_ERROR_INVALID_STATE, m) else Some (HR_OK, unlink n m))"
  using wf_unlink(1) [OF assms] by (simp add: hr_wait_list_remove_def)

lemma wait_peek_wf [hr_op]:
  "wf_mem m \<Longrightarrow> inited m l \<Longrightarrow>
   hr_wait_list_peek (Some l) m = (case nodes_of m l of [] \<Rightarrow> None | x # _ \<Rightarrow> Some x)"
  by (simp add: hr_wait_list_peek_def front_wf)

lemma wait_pop_wf [hr_op]:
  "wf_mem m \<Longrightarrow> inited m l \<Longrightarrow>
   hr_wait_list_pop (Some l) m =
     (case nodes_of m l of [] \<Rightarrow> Some (None, m) | x # _ \<Rightarrow> Some (Some x, unlink x m))"
  by (simp add: hr_wait_list_pop_def pop_front_wf)

lemma wait_size_wf [hr_op]:
  "wf_mem m \<Longrightarrow> inited m l \<Longrightarrow> hr_wait_list_size (Some l) m = length (nodes_of m l)"
  "wf_mem m \<Longrightarrow> inited m l \<Longrightarrow> hr_wait_list_is_empty (Some l) m \<longleftrightarrow> nodes_of m l = []"
  by (simp_all add: hr_wait_list_size_def hr_wait_list_is_empty_def size_wf is_empty_wf)

text \<open>The validation returns on every memory, corrupted lists included.\<close>

lemma wait_validate_eq:
  "hr_wait_list_validate (Some l) m =
     Some (sound_list m l \<and> sorted (map (npriority m) (nodes_of m l)))"
  using wait_check.check_front [of m l 0]
  by (auto simp: hr_wait_list_validate_def validate_iff)

end
