(* ===== verification/HR_Timeout.thy ===== *)
theory HR_Timeout
  imports HR_Ordered
begin

text \<open>
  The timeout lists of \<open>kernel/src/hr_timeout.c\<close>: two lists sorted by the absolute
  32-bit wake tick, one for the current tick cycle and one for the wake ticks beyond the
  wrap-around, which trade places when the tick counter wraps. The second half shows that
  the pair behaves as one queue sorted by the number of ticks left.
\<close>

section \<open>Operations\<close>

definition set_tlist :: "tlist_addr \<Rightarrow> hr_timeout_list \<Rightarrow> mem \<Rightarrow> mem" where
  "set_tlist t x m = m\<lparr>timeout_lists := (timeout_lists m)(t := x)\<rparr>"

partial_function (option) timeout_insert_sorted_loop ::
  "list_addr option \<Rightarrow> node_addr \<Rightarrow> node_addr option \<Rightarrow> mem \<Rightarrow> (hr_status \<times> mem) option" where
  "timeout_insert_sorted_loop list n position m =
     (case position of
        None \<Rightarrow> hr_list_push_back list (Some n) m
      | Some q \<Rightarrow>
          if nwake_tick m n < nwake_tick m q then hr_list_insert_before list (Some q) (Some n) m
          else timeout_insert_sorted_loop list n (hr_list_next list (Some q) m) m)"

definition hr_timeout_insert_sorted ::
  "list_addr option \<Rightarrow> node_addr \<Rightarrow> mem \<Rightarrow> (hr_status \<times> mem) option" where
  "hr_timeout_insert_sorted list n m = timeout_insert_sorted_loop list n (hr_list_front list m) m"

partial_function (option) timeout_order_loop ::
  "list_addr option \<Rightarrow> node_addr option \<Rightarrow> hr_tick \<Rightarrow> bool \<Rightarrow> mem \<Rightarrow> bool option" where
  "timeout_order_loop list position previous first m =
     (case position of
        None \<Rightarrow> Some True
      | Some q \<Rightarrow>
          if \<not> first \<and> nwake_tick m q < previous then Some False
          else timeout_order_loop list (hr_list_next list (Some q) m) (nwake_tick m q) False m)"

definition hr_timeout_order_is_valid :: "list_addr option \<Rightarrow> mem \<Rightarrow> bool option" where
  "hr_timeout_order_is_valid list m = timeout_order_loop list (hr_list_front list m) 0 True m"

definition hr_timeout_node_init :: "node_addr option \<Rightarrow> obj_ptr option \<Rightarrow> mem \<Rightarrow> mem" where
  "hr_timeout_node_init node owner m =
     (case node of
        None \<Rightarrow> m
      | Some n \<Rightarrow>
          (let m1 = hr_list_node_init (Some n) owner m
           in m1\<lparr>nwake_tick := (nwake_tick m1)(n := 0)\<rparr>))"

definition hr_timeout_list_init :: "tlist_addr option \<Rightarrow> hr_tick \<Rightarrow> mem \<Rightarrow> mem" where
  "hr_timeout_list_init list start_tick m =
     (case list of
        None \<Rightarrow> m
      | Some t \<Rightarrow>
          (let m1 = hr_list_init (Some (TimeoutList t 0)) m;
               m2 = hr_list_init (Some (TimeoutList t 1)) m1
           in set_tlist t
                \<lparr>tcurrent = Some (TimeoutList t 0), toverflow = Some (TimeoutList t 1),
                 tlast_tick = start_tick, tcount = 0\<rparr> m2))"

definition hr_timeout_list_is_empty :: "tlist_addr option \<Rightarrow> mem \<Rightarrow> bool" where
  "hr_timeout_list_is_empty list m = (case list of None \<Rightarrow> True | Some t \<Rightarrow> tcount (timeout_lists m t) = 0)"

definition hr_timeout_list_size :: "tlist_addr option \<Rightarrow> mem \<Rightarrow> nat" where
  "hr_timeout_list_size list m = (case list of None \<Rightarrow> 0 | Some t \<Rightarrow> tcount (timeout_lists m t))"

definition hr_timeout_list_last_tick :: "tlist_addr option \<Rightarrow> mem \<Rightarrow> hr_tick" where
  "hr_timeout_list_last_tick list m = (case list of None \<Rightarrow> 0 | Some t \<Rightarrow> tlast_tick (timeout_lists m t))"

definition hr_timeout_list_insert ::
  "tlist_addr option \<Rightarrow> node_addr option \<Rightarrow> hr_tick \<Rightarrow> mem \<Rightarrow> (hr_status \<times> mem) option" where
  "hr_timeout_list_insert list node delay_ticks m =
     (case (list, node) of
        (Some t, Some n) \<Rightarrow>
          if delay_ticks = HR_WAIT_FOREVER then Some (HR_ERROR_INVALID_ARGUMENT, m)
          else if hr_list_node_is_linked node m then Some (HR_ERROR_INVALID_STATE, m)
          else do {
            let wake_tick = tlast_tick (timeout_lists m t) + delay_ticks;
            let m = m\<lparr>nwake_tick := (nwake_tick m)(n := wake_tick)\<rparr>;
            let target = (if wake_tick < tlast_tick (timeout_lists m t)
                          then toverflow (timeout_lists m t) else tcurrent (timeout_lists m t));
            (status, m) \<leftarrow> hr_timeout_insert_sorted target n m;
            if status = HR_OK
            then Some (status, set_tlist t ((timeout_lists m t)\<lparr>tcount := tcount (timeout_lists m t) + 1\<rparr>) m)
            else Some (status, m)
          }
      | _ \<Rightarrow> Some (HR_ERROR_INVALID_ARGUMENT, m))"

definition hr_timeout_list_remove ::
  "tlist_addr option \<Rightarrow> node_addr option \<Rightarrow> mem \<Rightarrow> (hr_status \<times> mem) option" where
  "hr_timeout_list_remove list node m =
     (case (list, node) of
        (Some t, Some n) \<Rightarrow>
          if nlist (nodes m n) \<noteq> tcurrent (timeout_lists m t) \<and>
             nlist (nodes m n) \<noteq> toverflow (timeout_lists m t)
          then Some (HR_ERROR_INVALID_STATE, m)
          else do {
            (status, m) \<leftarrow> hr_list_remove node m;
            if status = HR_OK
            then Some (status,
              set_tlist t ((timeout_lists m t)\<lparr>tcount := size_dec (tcount (timeout_lists m t))\<rparr>) m)
            else Some (status, m)
          }
      | _ \<Rightarrow> Some (HR_ERROR_INVALID_ARGUMENT, m))"

partial_function (option) timeout_advance_loop ::
  "tlist_addr \<Rightarrow> hr_tick \<Rightarrow> list_addr option \<Rightarrow> node_addr option \<Rightarrow> mem \<Rightarrow> (hr_status \<times> mem) option" where
  "timeout_advance_loop t now expired_nodes front m =
     (case front of
        None \<Rightarrow> Some (HR_OK, m)
      | Some n \<Rightarrow>
          if nwake_tick m n > now then Some (HR_OK, m)
          else do {
            let front = hr_list_next (tcurrent (timeout_lists m t)) (Some n) m;
            (status, m) \<leftarrow> hr_list_remove (Some n) m;
            if status \<noteq> HR_OK then Some (HR_ERROR_INTERNAL, m)
            else do {
              (status, m) \<leftarrow> hr_list_push_back expired_nodes (Some n) m;
              if status \<noteq> HR_OK then Some (HR_ERROR_INTERNAL, m)
              else timeout_advance_loop t now expired_nodes front
                (set_tlist t ((timeout_lists m t)\<lparr>tcount := size_dec (tcount (timeout_lists m t))\<rparr>) m)
            }
          })"

definition hr_timeout_list_advance ::
  "tlist_addr option \<Rightarrow> hr_tick \<Rightarrow> list_addr option \<Rightarrow> mem \<Rightarrow> (hr_status \<times> mem) option" where
  "hr_timeout_list_advance list now expired_nodes m =
     (case (list, expired_nodes) of
        (Some t, Some e) \<Rightarrow>
          if \<not> hr_list_is_empty (Some e) m then Some (HR_ERROR_INVALID_STATE, m)
          else do {
            let tl = timeout_lists m t;
            let tl = (if now < tlast_tick tl
                      then tl\<lparr>tcurrent := toverflow tl, toverflow := tcurrent tl\<rparr> else tl);
            let m = set_tlist t (tl\<lparr>tlast_tick := now\<rparr>) m;
            timeout_advance_loop t now (Some e) (hr_list_front (tcurrent (timeout_lists m t)) m) m
          }
      | _ \<Rightarrow> Some (HR_ERROR_INVALID_ARGUMENT, m))"

definition hr_timeout_list_validate :: "tlist_addr option \<Rightarrow> mem \<Rightarrow> bool option" where
  "hr_timeout_list_validate list m =
     (case list of
        None \<Rightarrow> Some False
      | Some t \<Rightarrow>
          (let current = tcurrent (timeout_lists m t); ovf = toverflow (timeout_lists m t)
           in if current = None \<or> ovf = None \<or> current = ovf then Some False
              else if \<not> hr_list_validate current m \<or> \<not> hr_list_validate ovf m then Some False
              else do {
                current_ok \<leftarrow> hr_timeout_order_is_valid current m;
                if \<not> current_ok then Some False
                else do {
                  overflow_ok \<leftarrow> hr_timeout_order_is_valid ovf m;
                  if \<not> overflow_ok then Some False
                  else Some (hr_list_size current m + hr_list_size ovf m = tcount (timeout_lists m t))
                }
              }))"

section \<open>Well-formed timeout lists\<close>

interpretation timeout_insert: sorted_insert_loop nwake_tick timeout_insert_sorted_loop
  by unfold_locales (rule timeout_insert_sorted_loop.simps)

interpretation timeout_check: order_check_loop nwake_tick timeout_order_loop
  by unfold_locales (rule timeout_order_loop.simps)

lemma set_tlist_simps [simp]:
  "nodes (set_tlist t x m) = nodes m" "lsize (set_tlist t x m) = lsize m"
  "npriority (set_tlist t x m) = npriority m" "nwake_tick (set_tlist t x m) = nwake_tick m"
  "timeout_lists (set_tlist t x m) = (timeout_lists m)(t := x)"
  "ready_sets (set_tlist t x m) = ready_sets m"
  "nodes_of (set_tlist t x m) = nodes_of m" "inited (set_tlist t x m) = inited m"
  "wf_mem (set_tlist t x m) \<longleftrightarrow> wf_mem m"
  by (simp_all add: set_tlist_def)

text \<open>
  The two list headers are the current and the overflow list in one of the two orders; the
  current list holds wake ticks ahead of the last processed tick, the overflow list wake
  ticks that lie behind it because they belong to the next cycle.
\<close>

abbreviation last_tick :: "mem \<Rightarrow> tlist_addr \<Rightarrow> hr_tick" where
  "last_tick m t \<equiv> tlast_tick (timeout_lists m t)"

definition current_of :: "mem \<Rightarrow> tlist_addr \<Rightarrow> list_addr" where
  "current_of m t = the (tcurrent (timeout_lists m t))"

definition overflow_of :: "mem \<Rightarrow> tlist_addr \<Rightarrow> list_addr" where
  "overflow_of m t = the (toverflow (timeout_lists m t))"

definition timeout_ok :: "mem \<Rightarrow> tlist_addr \<Rightarrow> bool" where
  "timeout_ok m t \<longleftrightarrow>
     (tcurrent (timeout_lists m t), toverflow (timeout_lists m t)) \<in>
       {(Some (TimeoutList t 0), Some (TimeoutList t 1)), (Some (TimeoutList t 1), Some (TimeoutList t 0))} \<and>
     inited m (TimeoutList t 0) \<and> inited m (TimeoutList t 1) \<and>
     sorted (map (nwake_tick m) (nodes_of m (current_of m t))) \<and>
     sorted (map (nwake_tick m) (nodes_of m (overflow_of m t))) \<and>
     (\<forall>x \<in> set (nodes_of m (current_of m t)). last_tick m t < nwake_tick m x) \<and>
     (\<forall>x \<in> set (nodes_of m (overflow_of m t)). nwake_tick m x < last_tick m t) \<and>
     tcount (timeout_lists m t) = length (nodes_of m (current_of m t)) + length (nodes_of m (overflow_of m t))"

lemma timeout_okD:
  assumes "timeout_ok m t"
  shows "tcurrent (timeout_lists m t) = Some (current_of m t)"
    and "toverflow (timeout_lists m t) = Some (overflow_of m t)"
    and "current_of m t \<noteq> overflow_of m t"
    and "l = current_of m t \<or> l = overflow_of m t \<longleftrightarrow> l = TimeoutList t 0 \<or> l = TimeoutList t 1"
    and "inited m (current_of m t)" and "inited m (overflow_of m t)"
    and "sorted (map (nwake_tick m) (nodes_of m (current_of m t)))"
    and "sorted (map (nwake_tick m) (nodes_of m (overflow_of m t)))"
    and "x \<in> set (nodes_of m (current_of m t)) \<Longrightarrow> last_tick m t < nwake_tick m x"
    and "x \<in> set (nodes_of m (overflow_of m t)) \<Longrightarrow> nwake_tick m x < last_tick m t"
    and "tcount (timeout_lists m t) =
      length (nodes_of m (current_of m t)) + length (nodes_of m (overflow_of m t))"
  using assms unfolding timeout_ok_def by (auto simp: current_of_def overflow_of_def)

text \<open>One queue, sorted by the ticks left until the wake tick.\<close>

definition remaining :: "mem \<Rightarrow> tlist_addr \<Rightarrow> node_addr \<Rightarrow> hr_tick" where
  "remaining m t x = nwake_tick m x - last_tick m t"

definition timeout_seq :: "mem \<Rightarrow> tlist_addr \<Rightarrow> node_addr list" where
  "timeout_seq m t = nodes_of m (current_of m t) @ nodes_of m (overflow_of m t)"

lemma unat_sub_over: "w < l \<Longrightarrow> unat (w - l :: 32 word) = unat w + 4294967296 - unat l"
  by (simp add: unat_sub_if' word_less_nat_alt)

lemma remaining_le:
  assumes "(l < w \<and> l < v) \<or> (w < l \<and> v < l)"
  shows "w - l \<le> v - l \<longleftrightarrow> w \<le> (v :: 32 word)"
proof -
  show ?thesis
    using assms unat32_lt [of w] unat32_lt [of v] unat32_lt [of l]
    by (auto simp: word_le_nat_alt word_less_nat_alt unat_sub_if')
qed

lemma remaining_less: "l < w \<Longrightarrow> v < l \<Longrightarrow> w - l < v - (l :: 32 word)"
proof -
  assume *: "l < w" "v < l"
  then show "w - l < v - l"
    using unat32_lt [of w] by (auto simp: word_less_nat_alt unat_sub_if')
qed

lemma remaining_pos: "w \<noteq> l \<Longrightarrow> (w - l :: 32 word) \<noteq> 0"
  by simp

lemma sorted_remaining:
  assumes "sorted (map w xs)" and "(\<forall>x \<in> set xs. (l :: 32 word) < w x) \<or> (\<forall>x \<in> set xs. w x < l)"
  shows "sorted (map (\<lambda>x. w x - l) xs)"
  using assms
proof (induction xs)
  case (Cons x xs)
  then show ?case using remaining_le by auto
qed simp

lemma sorted_timeout_seq:
  assumes "timeout_ok m t"
  shows "sorted (map (remaining m t) (timeout_seq m t))"
proof -
  have "sorted (map (remaining m t) (nodes_of m (current_of m t)))"
    "sorted (map (remaining m t) (nodes_of m (overflow_of m t)))"
    unfolding remaining_def using timeout_okD(7-10) [OF assms] by (auto intro!: sorted_remaining)
  moreover have "remaining m t x < remaining m t y"
    if "x \<in> set (nodes_of m (current_of m t))" "y \<in> set (nodes_of m (overflow_of m t))" for x y
    unfolding remaining_def using remaining_less timeout_okD(9,10) [OF assms] that by blast
  ultimately show ?thesis
    by (auto simp: timeout_seq_def sorted_append intro: less_imp_le)
qed

lemma timeout_seq_linked:
  assumes "wf_mem m" and "timeout_ok m t" and "\<not> is_root n"
  shows "n \<in> set (timeout_seq m t) \<longleftrightarrow> (\<exists>i < 2. nlist (nodes m n) = Some (TimeoutList t i))"
proof -
  have "n \<in> set (timeout_seq m t) \<longleftrightarrow>
      nlist (nodes m n) = Some (current_of m t) \<or> nlist (nodes m n) = Some (overflow_of m t)"
    using wf_nlist [OF assms(1,3)] timeout_okD(5,6) [OF assms(2)] by (auto simp: timeout_seq_def)
  also have "\<dots> \<longleftrightarrow> nlist (nodes m n) = Some (TimeoutList t 0) \<or> nlist (nodes m n) = Some (TimeoutList t 1)"
    using timeout_okD(4) [OF assms(2)] by (metis option.sel)
  finally show ?thesis by (auto simp: less_2_cases_iff)
qed

lemma sorted_least:
  fixes f :: "'a \<Rightarrow> 'b :: linorder"
  assumes "sorted (map f xs)" and "\<forall>x \<in> set xs. a \<le> f x"
  shows "takeWhile (\<lambda>x. f x = a) xs = filter (\<lambda>x. f x = a) xs"
    and "dropWhile (\<lambda>x. f x = a) xs = filter (\<lambda>x. f x \<noteq> a) xs"
proof -
  have "\<forall>x \<in> set xs. f x \<noteq> a" if "sorted (map f (y # xs))" "f y \<noteq> a" "a \<le> f y" for y xs
    using that by fastforce
  then show "takeWhile (\<lambda>x. f x = a) xs = filter (\<lambda>x. f x = a) xs"
    "dropWhile (\<lambda>x. f x = a) xs = filter (\<lambda>x. f x \<noteq> a) xs"
    using assms by (induction xs) (auto simp: filter_empty_conv filter_id_conv)
qed

lemma remaining_least:
  assumes "timeout_ok m t"
  shows "\<forall>x \<in> set (timeout_seq m t). 1 \<le> remaining m t x"
proof
  fix x assume "x \<in> set (timeout_seq m t)"
  then have "nwake_tick m x \<noteq> last_tick m t"
    using timeout_okD(9,10) [OF assms, of x] by (auto simp: timeout_seq_def)
  then have "remaining m t x \<noteq> 0" by (simp add: remaining_def)
  then show "1 \<le> remaining m t x" by (simp add: word_le_nat_alt Suc_le_eq unat_gt_0)
qed

section \<open>Effect of insertion and removal\<close>

definition timeout_link :: "tlist_addr \<Rightarrow> node_addr \<Rightarrow> hr_tick \<Rightarrow> mem \<Rightarrow> mem" where
  "timeout_link t n d m = snd (the (hr_timeout_list_insert (Some t) (Some n) d m))"

definition timeout_unlink :: "tlist_addr \<Rightarrow> node_addr \<Rightarrow> mem \<Rightarrow> mem" where
  "timeout_unlink t n m = snd (the (hr_timeout_list_remove (Some t) (Some n) m))"

definition timeout_target :: "mem \<Rightarrow> tlist_addr \<Rightarrow> hr_tick \<Rightarrow> list_addr" where
  "timeout_target m t d = (if last_tick m t + d < last_tick m t then overflow_of m t else current_of m t)"

lemma timeout_insert_eq:
  assumes "wf_mem m" and "timeout_ok m t" and "nlist (nodes m n) = None" and "d \<noteq> 0xFFFFFFFF"
  defines "m1 \<equiv> m\<lparr>nwake_tick := (nwake_tick m)(n := last_tick m t + d)\<rparr>"
  defines "m2 \<equiv> fifo_link (nwake_tick m1) (timeout_target m t d) n m1"
  shows "hr_timeout_list_insert (Some t) (Some n) d m = Some (HR_OK, timeout_link t n d m)"
    and "timeout_link t n d m =
      set_tlist t ((timeout_lists m t)\<lparr>tcount := tcount (timeout_lists m t) + 1\<rparr>) m2"
proof -
  have i: "inited m1 (timeout_target m t d)"
    using timeout_okD(5,6) [OF assms(2)] by (simp add: m1_def timeout_target_def)
  have w: "wf_mem m1" "nlist (nodes m1 n) = None" using assms(1,3) by (simp_all add: m1_def)
  have "hr_timeout_insert_sorted (Some (timeout_target m t d)) n m1 = Some (HR_OK, m2)"
    unfolding hr_timeout_insert_sorted_def m2_def by (rule timeout_insert.loop_front [OF w(1) i w(2)])
  moreover have "timeout_lists m2 = timeout_lists m" "timeout_lists m1 = timeout_lists m"
    by (simp_all add: m2_def m1_def)
  ultimately have "hr_timeout_list_insert (Some t) (Some n) d m =
      Some (HR_OK, set_tlist t ((timeout_lists m t)\<lparr>tcount := tcount (timeout_lists m t) + 1\<rparr>) m2)"
    using assms(3,4) timeout_okD(1,2) [OF assms(2)]
    by (simp add: hr_timeout_list_insert_def hr_list_node_is_linked_def Let_def timeout_target_def
        m1_def [symmetric] split: if_splits)
  then show "hr_timeout_list_insert (Some t) (Some n) d m = Some (HR_OK, timeout_link t n d m)"
    and "timeout_link t n d m =
      set_tlist t ((timeout_lists m t)\<lparr>tcount := tcount (timeout_lists m t) + 1\<rparr>) m2"
    by (simp_all add: timeout_link_def)
qed

lemma timeout_wake_bounds:
  assumes "d \<noteq> 0" and "\<not> l + d < (l :: 32 word)"
  shows "l < l + d"
  using assms by (metis add_cancel_left_right linorder_neqE)

lemma timeout_insert_wf:
  assumes "wf_mem m" and "timeout_ok m t" and "\<not> is_root n" and "nlist (nodes m n) = None"
    and "d \<noteq> 0xFFFFFFFF" and "d \<noteq> 0"
  shows "hr_timeout_list_insert (Some t) (Some n) d m = Some (HR_OK, timeout_link t n d m)"
    and "wf_mem (timeout_link t n d m)"
    and "inited (timeout_link t n d m) = inited m"
    and "inited m l \<Longrightarrow> nodes_of (timeout_link t n d m) l =
           (if l = timeout_target m t d
            then insert_fifo (nwake_tick (timeout_link t n d m)) n (nodes_of m l) else nodes_of m l)"
    and "nlist (nodes (timeout_link t n d m) x) =
           (if x = n then Some (timeout_target m t d) else nlist (nodes m x))"
    and "nowner (nodes (timeout_link t n d m) x) = nowner (nodes m x)"
    and "npriority (timeout_link t n d m) = npriority m"
    and "nwake_tick (timeout_link t n d m) = (nwake_tick m)(n := last_tick m t + d)"
    and "ready_sets (timeout_link t n d m) = ready_sets m"
    and "timeout_lists (timeout_link t n d m) =
      (timeout_lists m)(t := (timeout_lists m t)\<lparr>tcount := tcount (timeout_lists m t) + 1\<rparr>)"
proof -
  note eq = timeout_insert_eq [OF assms(1,2,4,5)]
  let ?m1 = "m\<lparr>nwake_tick := (nwake_tick m)(n := last_tick m t + d)\<rparr>"
  have i: "inited ?m1 (timeout_target m t d)" and w: "wf_mem ?m1" "nlist (nodes ?m1 n) = None"
    using timeout_okD(5,6) [OF assms(2)] assms(1,4) by (simp_all add: timeout_target_def)
  note f = fifo_link_wf [OF w(1) i assms(3) w(2)]
  show "hr_timeout_list_insert (Some t) (Some n) d m = Some (HR_OK, timeout_link t n d m)" by (rule eq(1))
  show "wf_mem (timeout_link t n d m)" using f(1) by (simp add: eq(2))
  show "inited (timeout_link t n d m) = inited m" using assms(3) by (simp add: eq(2))
  show "inited m l \<Longrightarrow> nodes_of (timeout_link t n d m) l =
      (if l = timeout_target m t d
       then insert_fifo (nwake_tick (timeout_link t n d m)) n (nodes_of m l) else nodes_of m l)"
    by (simp add: eq(2) f(2))
  show "nlist (nodes (timeout_link t n d m) x) =
      (if x = n then Some (timeout_target m t d) else nlist (nodes m x))"
    "nowner (nodes (timeout_link t n d m) x) = nowner (nodes m x)"
    "npriority (timeout_link t n d m) = npriority m"
    "nwake_tick (timeout_link t n d m) = (nwake_tick m)(n := last_tick m t + d)"
    "ready_sets (timeout_link t n d m) = ready_sets m"
    "timeout_lists (timeout_link t n d m) =
      (timeout_lists m)(t := (timeout_lists m t)\<lparr>tcount := tcount (timeout_lists m t) + 1\<rparr>)"
    by (simp_all add: eq(2))
qed

lemma insert_fifo_remaining:
  assumes "\<forall>x \<in> insert n (set xs). l < w x \<or> (\<forall>x \<in> insert n (set xs). w x < (l :: 32 word))"
  shows "insert_fifo w n xs = insert_fifo (\<lambda>x. w x - l) n xs"
  using assms
proof (induction xs)
  case (Cons x xs)
  then have "w x - l \<le> w n - l \<longleftrightarrow> w x \<le> w n" by (intro remaining_le) auto
  then show ?case using Cons by auto
qed simp

lemma two_cycle_insert:
  assumes "\<forall>x \<in> set cs. l < w x" and "\<forall>x \<in> set os. w x < (l :: 32 word)"
  shows "w n < l \<Longrightarrow> cs @ insert_fifo w n os = insert_fifo (\<lambda>x. w x - l) n (cs @ os)"
    and "l < w n \<Longrightarrow> insert_fifo w n cs @ os = insert_fifo (\<lambda>x. w x - l) n (cs @ os)"
proof -
  assume n: "w n < l"
  have "\<forall>y \<in> set cs. w y - l \<le> w n - l"
    using assms(1) n remaining_less less_imp_le by blast
  then show "cs @ insert_fifo w n os = insert_fifo (\<lambda>x. w x - l) n (cs @ os)"
    using assms(2) n insert_fifo_remaining [of n os l w] by (simp add: insert_fifo_append)
next
  assume n: "l < w n"
  have "\<forall>y \<in> set os. w n - l < w y - l" using assms(2) n remaining_less by blast
  then show "insert_fifo w n cs @ os = insert_fifo (\<lambda>x. w x - l) n (cs @ os)"
    using assms(1) n insert_fifo_remaining [of n cs l w] by (simp add: insert_fifo_append_before)
qed

text \<open>
  Insertion with delay \<open>d\<close> is the stable insertion of the node with \<open>d\<close> ticks
  left, whether or not the wake tick wraps.
\<close>

lemma timeout_insert_seq:
  assumes "wf_mem m" and "timeout_ok m t" and "\<not> is_root n" and "nlist (nodes m n) = None"
    and "d \<noteq> 0xFFFFFFFF" and "d \<noteq> 0"
  defines "m' \<equiv> timeout_link t n d m"
  shows "timeout_seq m' t = insert_fifo (remaining m' t) n (timeout_seq m t)"
    and "remaining m' t = (remaining m t)(n := d)"
    and "timeout_ok m' t"
proof -
  note w = timeout_insert_wf [OF assms(1-6), folded m'_def] and ok = timeout_okD [OF assms(2)]
  let ?l = "last_tick m t" and ?C = "nodes_of m (current_of m t)" and ?O = "nodes_of m (overflow_of m t)"
  show "remaining m' t = (remaining m t)(n := d)"
    by (auto simp: remaining_def w fun_eq_iff)
  have rem: "remaining m' t = (\<lambda>x. nwake_tick m' x - ?l)" by (simp add: remaining_def [abs_def] w(10))
  have cur: "current_of m' t = current_of m t" "overflow_of m' t = overflow_of m t"
    by (simp_all add: current_of_def overflow_of_def w)
  have new: "n \<notin> set ?C" "n \<notin> set ?O"
    using wf_in_list [OF assms(1)] ok(5,6) assms(4) by fastforce+
  have wake: "nwake_tick m' x = nwake_tick m x" if "x \<noteq> n" for x using that by (simp add: w)
  have bounds: "\<forall>x \<in> set ?C. ?l < nwake_tick m' x" "\<forall>x \<in> set ?O. nwake_tick m' x < ?l"
    using ok(9,10) new wake by metis+
  have srt: "sorted (map (nwake_tick m') ?C)" "sorted (map (nwake_tick m') ?O)"
    using ok(7,8) new wake by (metis map_cong)+
  have wn: "nwake_tick m' n = ?l + d" by (simp add: w)
  have base: "timeout_ok m' t \<longleftrightarrow> sorted (map (nwake_tick m') (nodes_of m' (current_of m t))) \<and>
      sorted (map (nwake_tick m') (nodes_of m' (overflow_of m t))) \<and>
      (\<forall>x \<in> set (nodes_of m' (current_of m t)). ?l < nwake_tick m' x) \<and>
      (\<forall>x \<in> set (nodes_of m' (overflow_of m t)). nwake_tick m' x < ?l) \<and>
      Suc (length ?C + length ?O) =
        length (nodes_of m' (current_of m t)) + length (nodes_of m' (overflow_of m t))"
    using assms(2) unfolding timeout_ok_def cur by (auto simp: w(3,10))
  have "if ?l + d < ?l then nodes_of m' (current_of m t) = ?C \<and>
      nodes_of m' (overflow_of m t) = insert_fifo (nwake_tick m') n ?O
    else ?l < ?l + d \<and> nodes_of m' (current_of m t) = insert_fifo (nwake_tick m') n ?C \<and>
      nodes_of m' (overflow_of m t) = ?O"
    using ok(3,5,6) timeout_wake_bounds [OF assms(6)] by (auto simp: w(4) timeout_target_def)
  then show "timeout_seq m' t = insert_fifo (remaining m' t) n (timeout_seq m t)" and "timeout_ok m' t"
    unfolding base timeout_seq_def cur rem using two_cycle_insert [OF bounds, of n] bounds srt wn
    by (auto intro: sorted_insert_fifo split: if_splits)
qed

lemma sorted_map_remove1: "sorted (map f xs) \<Longrightarrow> sorted (map f (remove1 x xs))"
  by (induction xs) (auto dest: notin_set_remove1 [rotated])

lemma sorted_dropWhile_greater:
  "sorted (map f xs) \<Longrightarrow> x \<in> set (dropWhile (\<lambda>x. f x \<le> a) xs) \<Longrightarrow> (a :: 'a :: linorder) < f x"
  by (induction xs) (auto split: if_splits)

lemma Suc_length_remove1: "x \<in> set xs \<Longrightarrow> Suc (length (remove1 x xs)) = length xs"
  by (induction xs) auto

lemma timeout_remove_wf:
  assumes "wf_mem m" and "timeout_ok m t" and "\<not> is_root n" and "n \<in> set (timeout_seq m t)"
  defines "m' \<equiv> timeout_unlink t n m"
  shows "hr_timeout_list_remove (Some t) (Some n) m = Some (HR_OK, m')"
    and "wf_mem m'" and "inited m' = inited m"
    and "inited m l \<Longrightarrow> nodes_of m' l = (if nlist (nodes m n) = Some l then remove1 n (nodes_of m l) else nodes_of m l)"
    and "nlist (nodes m' x) = (if x = n then None else nlist (nodes m x))"
    and "nowner (nodes m' x) = nowner (nodes m x)"
    and "npriority m' = npriority m" and "nwake_tick m' = nwake_tick m"
    and "ready_sets m' = ready_sets m"
    and "timeout_lists m' =
      (timeout_lists m)(t := (timeout_lists m t)\<lparr>tcount := tcount (timeout_lists m t) - 1\<rparr>)"
proof -
  note ok = timeout_okD [OF assms(2)]
  obtain k where k: "nlist (nodes m n) = Some k" "k = current_of m t \<or> k = overflow_of m t" "inited m k"
    using assms(4) wf_in_list [OF assms(1) ok(5)] wf_in_list [OF assms(1) ok(6)] ok(5,6)
    by (auto simp: timeout_seq_def)
  note u = wf_unlink [OF assms(1,3) k(1)]
  have "tcount (timeout_lists m t) \<noteq> 0" using assms(4) ok(11) by (auto simp: timeout_seq_def)
  then have r: "hr_timeout_list_remove (Some t) (Some n) m = Some (HR_OK,
      set_tlist t ((timeout_lists m t)\<lparr>tcount := tcount (timeout_lists m t) - 1\<rparr>) (unlink n m))"
    using k(2) ok(1,2) by (auto simp: hr_timeout_list_remove_def u k(1))
  then show "hr_timeout_list_remove (Some t) (Some n) m = Some (HR_OK, m')"
    by (simp add: m'_def timeout_unlink_def)
  have eq: "m' = set_tlist t ((timeout_lists m t)\<lparr>tcount := tcount (timeout_lists m t) - 1\<rparr>) (unlink n m)"
    using r by (simp add: m'_def timeout_unlink_def)
  show "wf_mem m'" "inited m' = inited m"
    "nlist (nodes m' x) = (if x = n then None else nlist (nodes m x))"
    "nowner (nodes m' x) = nowner (nodes m x)"
    "npriority m' = npriority m" "nwake_tick m' = nwake_tick m" "ready_sets m' = ready_sets m"
    "timeout_lists m' =
      (timeout_lists m)(t := (timeout_lists m t)\<lparr>tcount := tcount (timeout_lists m t) - 1\<rparr>)"
    by (simp_all add: eq u fun_eq_iff)
  show "inited m l \<Longrightarrow> nodes_of m' l =
      (if nlist (nodes m n) = Some l then remove1 n (nodes_of m l) else nodes_of m l)"
    by (simp add: eq u k(1))
qed

lemma timeout_remove_seq:
  assumes "wf_mem m" and "timeout_ok m t" and "\<not> is_root n" and "n \<in> set (timeout_seq m t)"
  defines "m' \<equiv> timeout_unlink t n m"
  shows "timeout_seq m' t = remove1 n (timeout_seq m t)"
    and "remaining m' t = remaining m t"
    and "timeout_ok m' t"
proof -
  note w = timeout_remove_wf [OF assms(1-4), folded m'_def] and ok = timeout_okD [OF assms(2)]
  let ?C = "nodes_of m (current_of m t)" and ?O = "nodes_of m (overflow_of m t)"
  have cur: "current_of m' t = current_of m t" "overflow_of m' t = overflow_of m t"
    by (simp_all add: current_of_def overflow_of_def w)
  show "remaining m' t = remaining m t" by (simp add: remaining_def fun_eq_iff w)
  have "if n \<in> set ?C then n \<notin> set ?O \<and> nlist (nodes m n) = Some (current_of m t)
    else n \<in> set ?O \<and> nlist (nodes m n) = Some (overflow_of m t)"
    using assms(4) wf_in_list [OF assms(1)] wf_disjoint [OF assms(1)] ok(3,5,6)
    by (auto simp: timeout_seq_def)
  then have n: "if n \<in> set ?C
    then n \<notin> set ?O \<and> nodes_of m' (current_of m t) = remove1 n ?C \<and> nodes_of m' (overflow_of m t) = ?O
    else n \<in> set ?O \<and> nodes_of m' (current_of m t) = ?C \<and> nodes_of m' (overflow_of m t) = remove1 n ?O"
    using ok(3,5,6) by (auto simp: w(4) split: if_splits)
  then show "timeout_seq m' t = remove1 n (timeout_seq m t)"
    by (auto simp: timeout_seq_def cur remove1_append split: if_splits)
  have cnt: "length ?C + length ?O =
      Suc (length (nodes_of m' (current_of m t)) + length (nodes_of m' (overflow_of m t)))"
    using n by (auto simp: Suc_length_remove1 [symmetric] split: if_splits)
  have sub: "set (nodes_of m' (current_of m t)) \<subseteq> set ?C" "set (nodes_of m' (overflow_of m t)) \<subseteq> set ?O"
    using n set_remove1_subset [of n ?C] set_remove1_subset [of n ?O] by (auto split: if_splits)
  have "sorted (map (nwake_tick m) (nodes_of m' (current_of m t)))"
    "sorted (map (nwake_tick m) (nodes_of m' (overflow_of m t)))"
    using n ok(7,8) sorted_map_remove1 by (auto split: if_splits)
  then show "timeout_ok m' t"
    using assms(2) sub cnt unfolding timeout_ok_def cur by (auto simp: w(3,8,10))
qed

section \<open>Advancing the tick\<close>

text \<open>\<open>moved ts l e t m m'\<close>: the front nodes \<open>ts\<close> of \<open>l\<close> went to the end of \<open>e\<close>.\<close>

definition moved :: "node_addr list \<Rightarrow> list_addr \<Rightarrow> list_addr \<Rightarrow> tlist_addr \<Rightarrow> mem \<Rightarrow> mem \<Rightarrow> bool" where
  "moved ts l e t m m' \<longleftrightarrow>
     wf_mem m' \<and> inited m' = inited m \<and>
     (\<forall>k. inited m k \<longrightarrow> nodes_of m' k =
        (if k = l then drop (length ts) (nodes_of m l)
         else if k = e then nodes_of m e @ ts else nodes_of m k)) \<and>
     (\<forall>x. nlist (nodes m' x) = (if x \<in> set ts then Some e else nlist (nodes m x))) \<and>
     (\<forall>x. nowner (nodes m' x) = nowner (nodes m x)) \<and>
     npriority m' = npriority m \<and> nwake_tick m' = nwake_tick m \<and> ready_sets m' = ready_sets m \<and>
     timeout_lists m' =
       (timeout_lists m)(t := (timeout_lists m t)\<lparr>tcount := tcount (timeout_lists m t) - length ts\<rparr>)"

lemma moved_Nil: "wf_mem m \<Longrightarrow> moved [] l e t m m"
  by (simp add: moved_def)

lemma moved_Cons:
  assumes "moved [n] l e t m m1" and "moved ts l e t m1 m2" and "inited m l" and "inited m e" and "l \<noteq> e"
  shows "moved (n # ts) l e t m m2"
  using assms by (auto simp: moved_def)

lemma moved_one:
  assumes "wf_mem m" and "inited m l" and "inited m e" and "l \<noteq> e" and "nodes_of m l = n # ns"
    and "tcount (timeout_lists m t) \<noteq> 0"
  obtains m1 m2 m3 where "hr_list_remove (Some n) m = Some (HR_OK, m1)"
    and "hr_list_push_back (Some e) (Some n) m1 = Some (HR_OK, m2)"
    and "moved [n] l e t m m3" and "m3 =
      set_tlist t ((timeout_lists m2 t)\<lparr>tcount := size_dec (tcount (timeout_lists m2 t))\<rparr>) m2"
proof -
  have nr: "\<not> is_root n" and nl: "nlist (nodes m n) = Some l"
    using wf_not_root [OF assms(1,2)] wf_in_list [OF assms(1,2)] assms(5) by simp_all
  note u = wf_unlink [OF assms(1) nr nl]
  let ?m1 = "unlink n m" and ?m2 = "link_at e (nodes_of (unlink n m) e) [] n (unlink n m)"
  have push: "hr_list_push_back (Some e) (Some n) ?m1 = Some (HR_OK, ?m2)"
    using u assms(3) by (simp add: push_back_wf)
  have w: "wf_mem ?m2" "inited ?m1 k \<Longrightarrow> nodes_of ?m2 k =
      (if k = e then nodes_of ?m1 e @ [n] else nodes_of ?m1 k)" for k
    using wf_link_at [OF u(2) _ _ nr, of e "nodes_of ?m1 e" "[]"] u(3,5) assms(3) by simp_all
  then have "nodes_of ?m2 k = (if k = l then ns else if k = e then nodes_of m e @ [n] else nodes_of m k)"
    if "inited m k" for k
    using that assms(2-5) by (simp add: u(3,4))
  then have "moved [n] l e t m
      (set_tlist t ((timeout_lists ?m2 t)\<lparr>tcount := size_dec (tcount (timeout_lists ?m2 t))\<rparr>) ?m2)"
    using assms(5,6) nr w(1) by (simp add: moved_def u fun_eq_iff)
  then show ?thesis using that [OF u(1) push] by blast
qed

lemma advance_loop_wf:
  assumes "wf_mem m" and "tcurrent (timeout_lists m t) = Some l" and "inited m l" and "inited m e" and "l \<noteq> e"
    and "length (nodes_of m l) \<le> tcount (timeout_lists m t)"
  shows "\<exists>m'. timeout_advance_loop t now (Some e) (hr_list_front (Some l) m) m = Some (HR_OK, m') \<and>
    moved (takeWhile (\<lambda>x. nwake_tick m x \<le> now) (nodes_of m l)) l e t m m'"
  using assms
proof (induction "nodes_of m l" arbitrary: m)
  case Nil
  then show ?case
    by (simp add: front_wf timeout_advance_loop.simps [of t now "Some e" None] moved_Nil)
next
  case (Cons n ns)
  note prems = Cons.prems and n = Cons.hyps(2) [symmetric]
  have fr: "hr_list_front (Some l) m = Some n" by (simp add: front_wf prems n)
  show ?case
  proof (cases "nwake_tick m n \<le> now")
    case False
    then show ?thesis
      using prems(1) by (auto simp: fr n timeout_advance_loop.simps [of t now "Some e" "Some n"] moved_Nil not_le dest: leD)
  next
    case True
    obtain m1 m2 m3 where rm: "hr_list_remove (Some n) m = Some (HR_OK, m1)"
      and push: "hr_list_push_back (Some e) (Some n) m1 = Some (HR_OK, m2)"
      and mv: "moved [n] l e t m m3" and m3: "m3 =
        set_tlist t ((timeout_lists m2 t)\<lparr>tcount := size_dec (tcount (timeout_lists m2 t))\<rparr>) m2"
      by (rule moved_one [OF prems(1,3-5) n, of t]) (use prems(6) n in auto)
    have w3: "wf_mem m3" "inited m3 = inited m" "nodes_of m3 l = ns" "nwake_tick m3 = nwake_tick m"
      "timeout_lists m3 t = (timeout_lists m t)\<lparr>tcount := tcount (timeout_lists m t) - 1\<rparr>"
      using mv prems(3) n by (auto simp: moved_def)
    have cnt: "length (nodes_of m3 l) \<le> tcount (timeout_lists m3 t)" using w3(3,5) prems(6) n by auto
    have "hr_list_next (Some l) (Some n) m = hr_list_front (Some l) m3"
      using next_wf [OF prems(1,3), of "[]" n ns] front_wf [of m3 l] w3(1-3) prems(3) n by simp
    then have loop: "timeout_advance_loop t now (Some e) (Some n) m =
        timeout_advance_loop t now (Some e) (hr_list_front (Some l) m3) m3"
      using True prems(2) by (subst timeout_advance_loop.simps) (simp add: rm push m3 not_less [symmetric])
    obtain m' where "timeout_advance_loop t now (Some e) (hr_list_front (Some l) m3) m3 = Some (HR_OK, m')"
      and "moved (takeWhile (\<lambda>x. nwake_tick m3 x \<le> now) (nodes_of m3 l)) l e t m3 m'"
      using Cons.hyps(1) [of m3] cnt w3 prems n by auto
    then show ?thesis
      using moved_Cons [OF mv] prems(3-5) loop True n fr w3(3,4) by auto
  qed
qed

text \<open>
  One tick: with \<open>now = last_tick + 1\<close>, the wrap from the largest tick to zero included,
  exactly the nodes with one tick left expire, in their order, and every other node has one
  tick less to wait.
\<close>

definition expire_ready :: "mem \<Rightarrow> tlist_addr \<Rightarrow> list_addr \<Rightarrow> bool" where
  "expire_ready m t e \<longleftrightarrow> inited m e \<and> nodes_of m e = [] \<and> (\<forall>i. e \<noteq> TimeoutList t i)"

lemma advance_wf:
  fixes now :: hr_tick
  assumes "wf_mem m" and "timeout_ok m t" and "expire_ready m t e"
  defines "c \<equiv> (if now < last_tick m t then overflow_of m t else current_of m t)"
  defines "v \<equiv> (if now < last_tick m t then current_of m t else overflow_of m t)"
  defines "m1 \<equiv> set_tlist t ((timeout_lists m t)\<lparr>tcurrent := Some c, toverflow := Some v, tlast_tick := now\<rparr>) m"
  obtains m' where "hr_timeout_list_advance (Some t) now (Some e) m = Some (HR_OK, m')"
    and "moved (takeWhile (\<lambda>x. nwake_tick m x \<le> now) (nodes_of m c)) c e t m1 m'"
proof -
  note ok = timeout_okD [OF assms(2)]
  have c: "inited m c" "c = TimeoutList t 0 \<or> c = TimeoutList t 1" "tcurrent (timeout_lists m1 t) = Some c"
    using ok(4-6) by (auto simp: c_def m1_def)
  have ce: "c \<noteq> e" using c(2) assms(3) by (auto simp: expire_ready_def)
  have "length (nodes_of m1 c) \<le> tcount (timeout_lists m1 t)"
    using ok(11) by (simp add: m1_def c_def)
  then obtain m' where lp: "timeout_advance_loop t now (Some e) (hr_list_front (Some c) m1) m1 = Some (HR_OK, m')"
    and mv: "moved (takeWhile (\<lambda>x. nwake_tick m1 x \<le> now) (nodes_of m1 c)) c e t m1 m'"
    using advance_loop_wf [of m1 t c e now] assms(1,3) c ce by (auto simp: m1_def expire_ready_def)
  have tl: "(timeout_lists m t)\<lparr>tlast_tick := now\<rparr> = (timeout_lists m t)
      \<lparr>tcurrent := Some (current_of m t), toverflow := Some (overflow_of m t), tlast_tick := now\<rparr>"
    by (rule hr_timeout_list.equality) (simp_all add: ok(1,2))
  have "hr_timeout_list_advance (Some t) now (Some e) m =
      timeout_advance_loop t now (Some e) (hr_list_front (Some c) m1) m1"
    using assms(3) ok(1,2) is_empty_wf [OF assms(1), of e]
    by (simp add: hr_timeout_list_advance_def Let_def expire_ready_def m1_def c_def v_def tl [symmetric])
  then show ?thesis using that lp mv by (simp add: m1_def)
qed

lemma max_tick_unat: "w = (0xFFFFFFFF :: 32 word) \<longleftrightarrow> unat w = 0xFFFFFFFF"
  by (simp add: word_unat_eq_iff)

lemma unat_next: "unat (w + 1 :: 32 word) = (if w = 0xFFFFFFFF then 0 else Suc (unat w))"
  unfolding max_tick_unat using unat32_lt [of w] by (auto simp: unat_word_ariths)

lemma less_next: "w < w + 1 \<longleftrightarrow> w \<noteq> (0xFFFFFFFF :: 32 word)"
  by (auto simp: word_less_nat_alt unat_next)

lemma one_left:
  assumes "l \<noteq> (0xFFFFFFFF :: 32 word)"
  shows "l < w \<Longrightarrow> w \<le> l + 1 \<longleftrightarrow> w - l = 1"
    and "w < l \<Longrightarrow> w - l \<noteq> 1"
    and "l < w \<Longrightarrow> w - l \<noteq> 1 \<Longrightarrow> l + 1 < w"
    and "w < l \<Longrightarrow> w < l + 1"
proof -
  have "unat l \<noteq> 0xFFFFFFFF" using assms by (simp add: max_tick_unat)
  then show "l < w \<Longrightarrow> w \<le> l + 1 \<longleftrightarrow> w - l = 1" "w < l \<Longrightarrow> w - l \<noteq> 1"
    "l < w \<Longrightarrow> w - l \<noteq> 1 \<Longrightarrow> l + 1 < w" "w < l \<Longrightarrow> w < l + 1"
    using assms unat32_lt [of l]
    by (auto simp: word_le_nat_alt word_less_nat_alt unat_next unat_sub_if' word_unat_eq_iff [of "w - l"])
qed

lemma takeWhile_only_front:
  assumes "\<forall>x \<in> set os. \<not> P x"
  shows "takeWhile P (cs @ os) = takeWhile P cs" and "dropWhile P (cs @ os) = dropWhile P cs @ os"
  using assms by (induction cs; cases os; simp)+

text \<open>The lists after the swap that a wrapped tick makes: what expires is what has one tick left.\<close>

lemma tick_split:
  assumes "timeout_ok m t"
  defines "now \<equiv> last_tick m t + 1"
  defines "c \<equiv> (if now < last_tick m t then overflow_of m t else current_of m t)"
  defines "v \<equiv> (if now < last_tick m t then current_of m t else overflow_of m t)"
  shows "takeWhile (\<lambda>x. nwake_tick m x \<le> now) (nodes_of m c) =
      takeWhile (\<lambda>x. remaining m t x = 1) (timeout_seq m t)"
    and "dropWhile (\<lambda>x. nwake_tick m x \<le> now) (nodes_of m c) @ nodes_of m v =
      dropWhile (\<lambda>x. remaining m t x = 1) (timeout_seq m t)"
    and "\<forall>x \<in> set (dropWhile (\<lambda>x. nwake_tick m x \<le> now) (nodes_of m c)). now < nwake_tick m x"
    and "\<forall>x \<in> set (nodes_of m v). nwake_tick m x < now"
    and "sorted (map (nwake_tick m) (nodes_of m c))" and "sorted (map (nwake_tick m) (nodes_of m v))"
proof -
  note ok = timeout_okD [OF assms(1)]
  let ?l = "last_tick m t" and ?C = "nodes_of m (current_of m t)" and ?O = "nodes_of m (overflow_of m t)"
  show srt: "sorted (map (nwake_tick m) (nodes_of m c))" "sorted (map (nwake_tick m) (nodes_of m v))"
    using ok(7,8) by (simp_all add: c_def v_def)
  then show "\<forall>x \<in> set (dropWhile (\<lambda>x. nwake_tick m x \<le> now) (nodes_of m c)). now < nwake_tick m x"
    by (intro ballI) (rule sorted_dropWhile_greater)
  have "takeWhile (\<lambda>x. nwake_tick m x \<le> now) (nodes_of m c) =
      takeWhile (\<lambda>x. remaining m t x = 1) (timeout_seq m t) \<and>
    dropWhile (\<lambda>x. nwake_tick m x \<le> now) (nodes_of m c) @ nodes_of m v =
      dropWhile (\<lambda>x. remaining m t x = 1) (timeout_seq m t) \<and>
    (\<forall>x \<in> set (nodes_of m v). nwake_tick m x < now)"
  proof (cases "?l = 0xFFFFFFFF")
    case True
    have "?C = []"
    proof (rule ccontr)
      assume "?C \<noteq> []"
      then have "?l < nwake_tick m (hd ?C)" using ok(9) hd_in_set by blast
      then show False using unat32_lt [of "nwake_tick m (hd ?C)"] by (simp add: True word_less_nat_alt)
    qed
    moreover have zero: "(4294967296 :: hr_tick) = 0" by simp
    have "nwake_tick m x \<le> 0 \<longleftrightarrow> remaining m t x = 1" for x
      by (simp add: remaining_def True zero)
    ultimately show ?thesis
      by (simp add: c_def v_def now_def timeout_seq_def True zero)
  next
    case False
    note one = one_left [OF False]
    have nw: "\<not> now < ?l" "now \<noteq> 0" using False less_next [of ?l] by (auto simp: now_def)
    have tw: "takeWhile (\<lambda>x. nwake_tick m x \<le> now) ?C = takeWhile (\<lambda>x. remaining m t x = 1) ?C"
      "dropWhile (\<lambda>x. nwake_tick m x \<le> now) ?C = dropWhile (\<lambda>x. remaining m t x = 1) ?C"
      using ok(9) one(1) by (auto simp: now_def remaining_def intro!: takeWhile_cong dropWhile_cong)
    have "\<forall>x \<in> set ?O. remaining m t x \<noteq> 1" using ok(10) one(2) by (auto simp: remaining_def)
    note takeWhile_only_front [where P = "\<lambda>x. remaining m t x = 1", OF this]
    then show ?thesis
      using nw(1) tw ok(10) one(4) by (auto simp: c_def v_def timeout_seq_def now_def)
  qed
  then show "takeWhile (\<lambda>x. nwake_tick m x \<le> now) (nodes_of m c) =
      takeWhile (\<lambda>x. remaining m t x = 1) (timeout_seq m t)"
    "dropWhile (\<lambda>x. nwake_tick m x \<le> now) (nodes_of m c) @ nodes_of m v =
      dropWhile (\<lambda>x. remaining m t x = 1) (timeout_seq m t)"
    "\<forall>x \<in> set (nodes_of m v). nwake_tick m x < now" by blast+
qed

lemma tick_wf:
  assumes "wf_mem m" and "timeout_ok m t" and "expire_ready m t e"
  obtains m' where "hr_timeout_list_advance (Some t) (last_tick m t + 1) (Some e) m = Some (HR_OK, m')"
    and "wf_mem m'" and "inited m' = inited m" and "timeout_ok m' t"
    and "last_tick m' t = last_tick m t + 1"
    and "nodes_of m' e = takeWhile (\<lambda>x. remaining m t x = 1) (timeout_seq m t)"
    and "timeout_seq m' t = dropWhile (\<lambda>x. remaining m t x = 1) (timeout_seq m t)"
    and "\<And>x. remaining m' t x = remaining m t x - 1"
    and "\<And>k. inited m k \<Longrightarrow> k \<noteq> e \<Longrightarrow> (\<And>i. k \<noteq> TimeoutList t i) \<Longrightarrow> nodes_of m' k = nodes_of m k"
    and "\<And>x. nlist (nodes m' x) = (if x \<in> set (nodes_of m' e) then Some e else nlist (nodes m x))"
    and "\<And>x. nowner (nodes m' x) = nowner (nodes m x)"
    and "npriority m' = npriority m" and "nwake_tick m' = nwake_tick m" and "ready_sets m' = ready_sets m"
    and "\<And>u. u \<noteq> t \<Longrightarrow> timeout_lists m' u = timeout_lists m u"
proof -
  note ok = timeout_okD [OF assms(2)]
  define now where "now = last_tick m t + 1"
  define c where "c = (if now < last_tick m t then overflow_of m t else current_of m t)"
  define v where "v = (if now < last_tick m t then current_of m t else overflow_of m t)"
  define ts where "ts = takeWhile (\<lambda>x. nwake_tick m x \<le> now) (nodes_of m c)"
  define ds where "ds = dropWhile (\<lambda>x. nwake_tick m x \<le> now) (nodes_of m c)"
  note sp = tick_split [OF assms(2), folded now_def, folded c_def v_def, folded ts_def ds_def]
  obtain m' where adv: "hr_timeout_list_advance (Some t) now (Some e) m = Some (HR_OK, m')"
    and mv: "moved ts c e t (set_tlist t ((timeout_lists m t)
      \<lparr>tcurrent := Some c, toverflow := Some v, tlast_tick := now\<rparr>) m) m'"
    unfolding ts_def c_def v_def by (rule advance_wf [OF assms(1-3)])
  have cv: "c \<noteq> v" "c = TimeoutList t 0 \<or> c = TimeoutList t 1" "v = TimeoutList t 0 \<or> v = TimeoutList t 1"
    "inited m c" "inited m v" "inited m e" "nodes_of m e = []" "c \<noteq> e" "v \<noteq> e"
    "tcount (timeout_lists m t) = length (nodes_of m c) + length (nodes_of m v)"
    using ok(3-6,11) assms(3) by (auto simp: c_def v_def expire_ready_def)
  have app: "ts @ ds = nodes_of m c" by (simp add: ts_def ds_def)
  then have "drop (length ts) (nodes_of m c) = ds" by (metis append_eq_conv_conj)
  then have n: "nodes_of m' c = ds" "nodes_of m' v = nodes_of m v" "nodes_of m' e = ts"
    "current_of m' t = c" "overflow_of m' t = v"
    using mv cv by (simp_all add: moved_def current_of_def overflow_of_def)
  have srt: "sorted (map (nwake_tick m) ds)" using sp(5) app by (metis map_append sorted_append)
  have len: "length (nodes_of m c) = length ts + length ds" by (simp add: app [symmetric])
  have okm: "timeout_ok m' t"
    using mv cv srt sp(3,4,6) len unfolding timeout_ok_def n by (auto simp: moved_def)
  show ?thesis
    by (rule that [of m', folded now_def])
      (use adv mv okm n sp(1,2) cv in
        \<open>auto simp: moved_def timeout_seq_def remaining_def now_def\<close>)
qed

section \<open>Initialisation and validation\<close>

lemma timeout_init_wf:
  fixes start :: hr_tick
  assumes "wf_mem m" and "\<And>i. inited m (TimeoutList t i) \<Longrightarrow> nodes_of m (TimeoutList t i) = []"
  defines "m' \<equiv> hr_timeout_list_init (Some t) start m"
  shows "wf_mem m'" and "timeout_ok m' t" and "timeout_seq m' t = []" and "last_tick m' t = start"
    and "inited m' l \<longleftrightarrow> inited m l \<or> l = TimeoutList t 0 \<or> l = TimeoutList t 1"
    and "inited m l \<Longrightarrow> (\<And>i. l \<noteq> TimeoutList t i) \<Longrightarrow> nodes_of m' l = nodes_of m l"
    and "npriority m' = npriority m" and "nwake_tick m' = nwake_tick m"
    and "ready_sets m' = ready_sets m" and "u \<noteq> t \<Longrightarrow> timeout_lists m' u = timeout_lists m u"
    and "\<not> is_root x \<Longrightarrow> nodes m' x = nodes m x"
proof -
  let ?m1 = "hr_list_init (Some (TimeoutList t 0)) m"
  let ?m2 = "hr_list_init (Some (TimeoutList t 1)) ?m1"
  note a = wf_list_init [OF assms(1), of "TimeoutList t 0", OF assms(2)]
  have "inited ?m1 (TimeoutList t 1) \<Longrightarrow> nodes_of ?m1 (TimeoutList t 1) = []"
    using a(2) [of "TimeoutList t 1"] assms(2) by auto
  note b = wf_list_init [OF a(1) this]
  have n: "nodes_of ?m2 (TimeoutList t 0) = []" "nodes_of ?m2 (TimeoutList t 1) = []"
    using a(2) [of "TimeoutList t 0"] b(2) [of "TimeoutList t 0"] b(2) [of "TimeoutList t 1"] by simp_all
  have eq: "m' = set_tlist t \<lparr>tcurrent = Some (TimeoutList t 0), toverflow = Some (TimeoutList t 1),
      tlast_tick = start, tcount = 0\<rparr> ?m2"
    by (simp add: m'_def hr_timeout_list_init_def Let_def)
  show "wf_mem m'" "last_tick m' t = start" "npriority m' = npriority m" "nwake_tick m' = nwake_tick m"
    "ready_sets m' = ready_sets m" "u \<noteq> t \<Longrightarrow> timeout_lists m' u = timeout_lists m u"
    "\<not> is_root x \<Longrightarrow> nodes m' x = nodes m x"
    "inited m' l \<longleftrightarrow> inited m l \<or> l = TimeoutList t 0 \<or> l = TimeoutList t 1"
    using b(1) by (auto simp: eq)
  show "timeout_ok m' t" "timeout_seq m' t = []"
    using n by (auto simp: timeout_ok_def timeout_seq_def current_of_def overflow_of_def eq)
  show "inited m l \<Longrightarrow> (\<And>i. l \<noteq> TimeoutList t i) \<Longrightarrow> nodes_of m' l = nodes_of m l"
    using a(2) [of l] b(2) [of l] by (simp add: eq)
qed

lemma timeout_validate_wf [hr_op]:
  assumes "wf_mem m" and "timeout_ok m t"
  shows "hr_timeout_list_validate (Some t) m = Some True"
proof -
  note ok = timeout_okD [OF assms(2)]
  have "hr_timeout_order_is_valid (Some (current_of m t)) m = Some True"
    "hr_timeout_order_is_valid (Some (overflow_of m t)) m = Some True"
    unfolding hr_timeout_order_is_valid_def
    using timeout_check.check_front [OF wf_sound [OF assms(1)]] ok(5-8) by simp_all
  then show ?thesis
    using ok(1-3,11) wf_validate [OF assms(1)] size_wf [OF assms(1)] ok(5,6)
    by (simp add: hr_timeout_list_validate_def Let_def)
qed

end
