(* ===== verification/HR_Port_Stack.thy ===== *)
theory HR_Port_Stack
  imports HR_Prelude
begin

text \<open>
  The initial stack frame of \<open>arch/arm/cortex-m3/hr_port_stack.c\<close>. Stack memory maps the
  byte address of a word to its contents; \<open>uintptr_t\<close> arithmetic is 32-bit arithmetic.
\<close>

type_synonym stack_memory = "32 word \<Rightarrow> 32 word"

abbreviation (input) HR_PORT_INITIAL_FRAME_WORDS :: nat where
  "HR_PORT_INITIAL_FRAME_WORDS \<equiv> 16"

definition hr_port_align_down :: "32 word \<Rightarrow> 32 word \<Rightarrow> 32 word" where
  "hr_port_align_down value alignment = value AND NOT (alignment - 1)"

definition hr_port_initialize_stack_raw ::
  "32 word option \<Rightarrow> nat \<Rightarrow> 32 word \<Rightarrow> 32 word \<Rightarrow> 32 word \<Rightarrow> stack_memory \<Rightarrow> 32 word option \<times> stack_memory" where
  "hr_port_initialize_stack_raw stack_low stack_words entry_address argument_address exit_address sm =
     (case stack_low of
        None \<Rightarrow> (None, sm)
      | Some low_address \<Rightarrow>
          if stack_words < HR_PORT_INITIAL_FRAME_WORDS then (None, sm)
          else
            (let top_address = low_address + 4 * of_nat stack_words;
                 aligned_top_address = hr_port_align_down top_address 8
             in if aligned_top_address \<le> low_address then (None, sm)
                else
                  (let available_words = unat (aligned_top_address - low_address) div 4
                   in if available_words < HR_PORT_INITIAL_FRAME_WORDS then (None, sm)
                      else
                        (let sp = aligned_top_address - 4 * of_nat HR_PORT_INITIAL_FRAME_WORDS
                         in (Some sp,
                             sm(sp + 4 * 0 := 0x44444444, sp + 4 * 1 := 0x55555555,
                                sp + 4 * 2 := 0x66666666, sp + 4 * 3 := 0x77777777,
                                sp + 4 * 4 := 0x88888888, sp + 4 * 5 := 0x99999999,
                                sp + 4 * 6 := 0xAAAAAAAA, sp + 4 * 7 := 0xBBBBBBBB,
                                sp + 4 * 8 := argument_address, sp + 4 * 9 := 0x11111111,
                                sp + 4 * 10 := 0x22222222, sp + 4 * 11 := 0x33333333,
                                sp + 4 * 12 := 0x12121212, sp + 4 * 13 := exit_address OR 1,
                                sp + 4 * 14 := entry_address AND 0xFFFFFFFE,
                                sp + 4 * 15 := 0x01000000))))))"

definition hr_port_initialize_stack ::
  "32 word option \<Rightarrow> nat \<Rightarrow> 32 word \<Rightarrow> 32 word \<Rightarrow> 32 word \<Rightarrow> stack_memory \<Rightarrow> 32 word option \<times> stack_memory" where
  "hr_port_initialize_stack stack_low stack_words entry argument exit_handler sm =
     hr_port_initialize_stack_raw stack_low stack_words entry argument exit_handler sm"

section \<open>Alignment\<close>

lemma align_down_unat: "unat (hr_port_align_down v 8) = unat v - unat v mod 8"
proof -
  have "hr_port_align_down v 8 = v AND NOT (mask 3)"
    by (simp add: hr_port_align_down_def mask_eq_exp_minus_1)
  also have "\<dots> = push_bit 3 (drop_bit 3 v)"
    by (rule bit_word_eqI) (auto simp: bit_simps)
  finally have "hr_port_align_down v 8 = push_bit 3 (drop_bit 3 v)" .
  moreover have "unat (drop_bit 3 v) = unat v div 8" by (simp add: drop_bit_eq_div unat_div)
  moreover have "unat v div 8 * 8 < 4294967296" using unat32_lt [of v] by linarith
  ultimately have "unat (hr_port_align_down v 8) = unat v div 8 * 8"
    by (simp add: push_bit_eq_mult unat_word_ariths)
  then show ?thesis by (metis minus_mod_eq_div_mult)
qed

text \<open>
  On a word-aligned stack of at least 17 words that does not wrap around the address space the
  frame is built: one word may be lost to the 8-byte alignment of the top.
\<close>

lemma initial_top:
  assumes "unat low mod 4 = 0" and "unat low + 4 * n < 4294967296" and "17 \<le> n"
  defines "atop \<equiv> hr_port_align_down (low + 4 * of_nat n) 8"
  shows "unat atop mod 8 = 0" and "unat atop \<le> unat low + 4 * n" and "unat low + 4 * n < unat atop + 8"
    and "low < atop" and "16 \<le> unat (atop - low) div 4" and "unat (atop - 64) = unat atop - 64"
    and "unat low + 64 \<le> unat atop"
proof -
  have "unat (4 * of_nat n :: 32 word) = 4 * n"
    using assms(2) by (simp add: unat_word_ariths unat_of_nat take_bit_nat_eq_self)
  then have tp: "unat (low + 4 * of_nat n) = unat low + 4 * n"
    using assms(2) by (simp add: unat_word_ariths)
  have m: "(unat low + 4 * n) mod 4 = 0" using assms(1) by (simp add: mod_add_eq [symmetric, of _ _ 4])
  have lt: "(unat low + 4 * n) mod 8 < 8" by simp
  have le4: "(unat low + 4 * n) mod 8 \<le> 4" using m by presburger
  have ut: "unat atop = unat low + 4 * n - (unat low + 4 * n) mod 8"
    by (simp add: atop_def align_down_unat tp)
  show "unat atop mod 8 = 0" unfolding ut by (simp add: minus_mod_eq_mult_div)
  show "unat atop \<le> unat low + 4 * n" "unat low + 4 * n < unat atop + 8"
    using lt by (simp_all add: ut)
  show ge: "unat low + 64 \<le> unat atop" using le4 assms(3) by (simp add: ut)
  then show "low < atop" by (simp add: word_less_nat_alt)
  then have "unat (atop - low) = unat atop - unat low" by (intro unat_sub less_imp_le)
  then show "16 \<le> unat (atop - low) div 4" using ge by simp
  have "(64 :: 32 word) \<le> atop" using ge by (simp add: word_le_nat_alt)
  then show "unat (atop - 64) = unat atop - 64" by (simp add: unat_sub)
qed

lemma frame_outside:
  fixes sp :: "32 word"
  assumes "unat sp + 64 \<le> 4294967296" and "c < 64" and "\<not> (unat sp \<le> unat a \<and> unat a < unat sp + 64)"
  shows "a \<noteq> sp + word_of_nat c"
proof
  assume "a = sp + word_of_nat c"
  then have "unat a = unat sp + c"
    using assms(1,2) by (simp add: unat_word_ariths unat_of_nat take_bit_nat_eq_self)
  then show False using assms(2,3) by simp
qed

lemma initialize_stack_frame:
  assumes "unat low mod 4 = 0" and "unat low + 4 * n < 4294967296" and "17 \<le> n"
  obtains sp sm' where
    "hr_port_initialize_stack_raw (Some low) n entry arg exit_addr sm = (Some sp, sm')"
    and "unat sp mod 8 = 0" and "unat low \<le> unat sp" and "unat sp + 64 \<le> unat low + 4 * n"
    and "unat low + 4 * n < unat sp + 72"
    and "sm' (sp + 32) = arg" and "sm' (sp + 52) = exit_addr OR 1"
    and "sm' (sp + 56) = entry AND 0xFFFFFFFE" and "sm' (sp + 60) = 0x01000000"
    and "\<And>a. \<not> (unat sp \<le> unat a \<and> unat a < unat sp + 64) \<Longrightarrow> sm' a = sm a"
proof -
  define atop where "atop = hr_port_align_down (low + 4 * of_nat n) 8"
  note t = initial_top [OF assms, folded atop_def]
  let ?sp = "atop - 64"
  define sm' where "sm' = snd (hr_port_initialize_stack_raw (Some low) n entry arg exit_addr sm)"
  have "\<not> atop \<le> low" using t(4) by simp
  then have eq: "hr_port_initialize_stack_raw (Some low) n entry arg exit_addr sm = (Some ?sp, sm')"
    using assms(3) t(5) by (simp add: hr_port_initialize_stack_raw_def sm'_def atop_def [symmetric] Let_def)
  have frame: "sm' (?sp + 32) = arg" "sm' (?sp + 52) = exit_addr OR 1"
    "sm' (?sp + 56) = entry AND 0xFFFFFFFE" "sm' (?sp + 60) = 0x01000000"
    using assms(3) t(5) \<open>\<not> atop \<le> low\<close>
    by (simp_all add: sm'_def hr_port_initialize_stack_raw_def atop_def [symmetric] Let_def)
  have u: "unat ?sp + 64 = unat atop" using t(6,7) by simp
  have out: "sm' a = sm a" if a: "\<not> (unat ?sp \<le> unat a \<and> unat a < unat ?sp + 64)" for a
  proof -
    have ne: "a \<noteq> ?sp + word_of_nat c" if "c < 64" for c
      using frame_outside [OF _ that a] u unat32_lt [of atop] by simp
    show ?thesis
      using assms(3) t(5) \<open>\<not> atop \<le> low\<close> ne [of 0] ne [of 4] ne [of 8] ne [of 12] ne [of 16] ne [of 20]
        ne [of 24] ne [of 28] ne [of 32] ne [of 36] ne [of 40] ne [of 44] ne [of 48] ne [of 52] ne [of 56] ne [of 60]
      by (simp add: sm'_def hr_port_initialize_stack_raw_def atop_def [symmetric] Let_def)
  qed
  have "unat ?sp mod 8 = 0" using t(1,6,7) by presburger
  then show ?thesis
    using that [OF eq _ _ _ _ frame out] t(2,3,7) u by simp
qed

end
