(* ===== verification/HR_Data_Properties.thy ===== *)
theory HR_Data_Properties
  imports HR_Scheduler HR_Wait HR_Timeout HR_Port_Stack
begin

text \<open>
  What the data-structure modules promise the kernel: the list operations are the sequence
  operations, the ready set is a stable priority queue, wait lists are sorted and stable,
  timeout lists expire exactly the nodes whose delay has passed, and the initial stack frame
  stays inside the stack.
\<close>

section \<open>Lists\<close>

text \<open>
  C31. The consistency check of a list returns true exactly on the sound lists: the header is
  initialised and the walk from its root visits as many distinct nodes as the size says, each
  linked both ways and marked with the list.
\<close>

theorem list_validate_exact: "hr_list_validate (Some l) m \<longleftrightarrow> sound_list m l"
  by (rule validate_iff)


text \<open>A list with one member, for the witnesses.\<close>

definition one_list :: mem where
  "one_list = snd (the (hr_list_push_back (Some AllTasks) (Some (AllTaskNode 1)) (hr_list_init (Some AllTasks) zero_mem)))"

lemma zero_mem_links [simp]: "nlist (nodes zero_mem n) = None" "\<not> inited zero_mem l"
  by (simp_all add: zero_mem_def zero_node_def inited_def)

lemma one_list_wf:
  "wf_mem one_list" "inited one_list AllTasks" "nodes_of one_list AllTasks = [AllTaskNode 1]"
  "nlist (nodes one_list (AllTaskNode 2)) = None"
proof -
  let ?m = "hr_list_init (Some AllTasks) zero_mem"
  have i: "wf_mem ?m" "inited ?m AllTasks" "nodes_of ?m AllTasks = []"
    using wf_list_init [OF wf_zero_mem, of AllTasks] by simp_all
  have n: "nlist (nodes ?m (AllTaskNode 1)) = None" by simp
  have eq: "one_list = link_at AllTasks [] [] (AllTaskNode 1) ?m"
    using push_back_wf [OF i(1,2), of "AllTaskNode 1"] n i(3) by (simp add: one_list_def)
  note w = wf_link_at [OF i(1,2) _ _ n, of "[]" "[]", simplified i(3)]
  show "wf_mem one_list" "inited one_list AllTasks" "nodes_of one_list AllTasks = [AllTaskNode 1]"
    "nlist (nodes one_list (AllTaskNode 2)) = None"
    using w i by (simp_all add: eq)
qed


text \<open>
  C29. Removing a member of a list succeeds, takes it out of the sequence of that list, leaves the
  other lists alone and keeps the memory well-formed; removing a node that is in no list is refused
  and changes nothing.
\<close>

theorem list_remove_refines:
  assumes "wf_mem m" and "\<not> is_root n"
  shows "case nlist (nodes m n) of
      None \<Rightarrow> hr_list_remove (Some n) m = Some (HR_ERROR_INVALID_STATE, m)
    | Some l \<Rightarrow> n \<in> set (nodes_of m l) \<and>
        (\<exists>m'. hr_list_remove (Some n) m = Some (HR_OK, m') \<and> wf_mem m' \<and> nlist (nodes m' n) = None \<and>
          (\<forall>k. inited m k \<longrightarrow> nodes_of m' k = (if k = l then remove1 n (nodes_of m k) else nodes_of m k)))"
proof (cases "nlist (nodes m n)")
  case None
  then show ?thesis by (simp add: hr_list_remove_def)
next
  case (Some l)
  note u = wf_unlink [OF assms Some]
  have "n \<in> set (nodes_of m l)" using wf_nlist [OF assms] Some by blast
  then show ?thesis using Some u by auto
qed

theorem list_remove_refines_witness:
  "\<exists>m'. hr_list_remove (Some (AllTaskNode 1)) one_list = Some (HR_OK, m') \<and> nodes_of m' AllTasks = []"
proof -
  have "nlist (nodes one_list (AllTaskNode 1)) = Some AllTasks"
    using wf_nlist [OF one_list_wf(1), of "AllTaskNode 1" AllTasks] one_list_wf by simp
  then show ?thesis
    using list_remove_refines [OF one_list_wf(1), of "AllTaskNode 1"] one_list_wf by auto
qed

text \<open>
  C30. Taking the first node off a non-empty list and appending it again rotates the sequence by
  one and changes no other list.
\<close>

theorem list_pop_push_rotates:
  assumes "wf_mem m" and "inited m l" and "nodes_of m l = x # xs"
  shows "\<exists>m1 m2. hr_list_pop_front (Some l) m = Some (Some x, m1) \<and>
    hr_list_push_back (Some l) (Some x) m1 = Some (HR_OK, m2) \<and> wf_mem m2 \<and>
    (\<forall>k. inited m k \<longrightarrow> nodes_of m2 k = (if k = l then rotate1 (nodes_of m l) else nodes_of m k))"
  using hr_lists.rotate [OF assms] by metis

theorem list_pop_push_rotates_witness:
  "\<exists>m1 m2. hr_list_pop_front (Some AllTasks) one_list = Some (Some (AllTaskNode 1), m1) \<and>
     hr_list_push_back (Some AllTasks) (Some (AllTaskNode 1)) m1 = Some (HR_OK, m2) \<and>
     nodes_of m2 AllTasks = [AllTaskNode 1]"
  using list_pop_push_rotates [OF one_list_wf(1-3)] one_list_wf by auto

section \<open>Ready set\<close>

text \<open>
  C21. Adding a ready node of a valid priority succeeds and inserts it, in the order the policy runs
  the nodes, behind all nodes of the same or a higher priority; bitmap, counter and queues stay
  consistent.
\<close>

theorem ready_insert_stable:
  assumes "wf_mem m" and "ready_ok m r" and "\<not> is_root n" and "nlist (nodes m n) = None" and "npriority m n < 8"
  shows "\<exists>m'. hr_scheduler_add_ready (Some r) (Some n) m = Some (HR_OK, m') \<and> wf_mem m' \<and> ready_ok m' r \<and>
    ready_seq m' r = insert_fifo (npriority m) n (ready_seq m r)"
  using ready_insert_wf(1-3) [OF assms] ready_seq_link [OF assms] by (auto simp: scheduler_add_wf)

text \<open>A ready set with one node of priority 3 and free nodes of priorities 3 and 2.\<close>

definition some_priorities :: mem where
  "some_priorities = (hr_scheduler_init (Some G_scheduler) zero_mem)
     \<lparr>npriority := (\<lambda>_. 0)(ReadyNode 4 := 3, ReadyNode 2 := 3, ReadyNode 3 := 2)\<rparr>"

definition one_ready :: mem where
  "one_ready = snd (the (hr_scheduler_add_ready (Some G_scheduler) (Some (ReadyNode 4)) some_priorities))"

lemma some_priorities_wf:
  "wf_mem some_priorities" "ready_ok some_priorities G_scheduler" "ready_seq some_priorities G_scheduler = []"
  "nlist (nodes some_priorities (ReadyNode t)) = None"
  "npriority some_priorities (ReadyNode 4) = 3" "npriority some_priorities (ReadyNode 2) = 3"
  "npriority some_priorities (ReadyNode 3) = 2"
proof -
  note i = ready_init_wf [OF wf_zero_mem, of G_scheduler, simplified]
  show "wf_mem some_priorities" "nlist (nodes some_priorities (ReadyNode t)) = None"
    "npriority some_priorities (ReadyNode 4) = 3" "npriority some_priorities (ReadyNode 2) = 3"
    "npriority some_priorities (ReadyNode 3) = 2"
    using i(1,9) by (simp_all add: some_priorities_def hr_scheduler_init_def)
  have q: "ready_queue (hr_ready_set_init (Some G_scheduler) zero_mem) G_scheduler j = []" if "j < 8" for j
    using i(4,5) that by auto
  then show "ready_ok some_priorities G_scheduler" "ready_seq some_priorities G_scheduler = []"
    using i(2) unfolding ready_ok_def ready_seq_Nil
    by (simp_all add: some_priorities_def hr_scheduler_init_def)
qed

lemma one_ready_wf:
  "wf_mem one_ready" "ready_ok one_ready G_scheduler" "ready_seq one_ready G_scheduler = [ReadyNode 4]"
  "nlist (nodes one_ready (ReadyNode 2)) = None" "nlist (nodes one_ready (ReadyNode 3)) = None"
  "nlist (nodes one_ready (ReadyNode 4)) = Some (ReadyQueue G_scheduler 3)"
  "npriority one_ready = npriority some_priorities"
proof -
  note s = some_priorities_wf
  have p: "npriority some_priorities (ReadyNode 4) < 8" by (simp add: s(5))
  note w = ready_insert_wf [OF s(1,2) _ s(4) p, simplified]
  have eq: "one_ready = ready_link G_scheduler (ReadyNode 4) some_priorities"
    using w(1) by (simp add: one_ready_def scheduler_add_wf)
  show "wf_mem one_ready" "ready_ok one_ready G_scheduler" "npriority one_ready = npriority some_priorities"
    "nlist (nodes one_ready (ReadyNode 2)) = None" "nlist (nodes one_ready (ReadyNode 3)) = None"
    "nlist (nodes one_ready (ReadyNode 4)) = Some (ReadyQueue G_scheduler 3)"
    using w(2,3,6,8) s(4) by (simp_all add: eq s(5))
  show "ready_seq one_ready G_scheduler = [ReadyNode 4]"
    using ready_seq_link [OF s(1,2) _ s(4) p] s(3) by (simp add: eq)
qed

theorem ready_insert_stable_witness:
  "(\<exists>m'. hr_scheduler_add_ready (Some G_scheduler) (Some (ReadyNode 2)) one_ready = Some (HR_OK, m') \<and>
      ready_seq m' G_scheduler = [ReadyNode 4, ReadyNode 2]) \<and>
   (\<exists>m'. hr_scheduler_add_ready (Some G_scheduler) (Some (ReadyNode 3)) one_ready = Some (HR_OK, m') \<and>
      ready_seq m' G_scheduler = [ReadyNode 3, ReadyNode 4])"
  using ready_insert_stable [OF one_ready_wf(1,2) _ one_ready_wf(4)]
    ready_insert_stable [OF one_ready_wf(1,2) _ one_ready_wf(5)]
  by (auto simp: one_ready_wf(3,7) some_priorities_wf(5-7))

text \<open>
  C22. Removing a ready node succeeds, deletes it from the order and keeps bitmap, counter and queues
  consistent.
\<close>

theorem ready_remove_refines:
  assumes "wf_mem m" and "ready_ok m r" and "\<not> is_root n" and "npriority m n < 8"
    and "nlist (nodes m n) = Some (ReadyQueue r (unat (npriority m n)))"
  shows "\<exists>m'. hr_scheduler_remove_ready (Some r) (Some n) m = Some (HR_OK, m') \<and> wf_mem m' \<and> ready_ok m' r \<and>
    ready_seq m' r = remove1 n (ready_seq m r)"
  using ready_remove_wf(1-3) [OF assms] ready_seq_unlink [OF assms] by (auto simp: scheduler_remove_wf)

theorem ready_remove_refines_witness:
  "\<exists>m'. hr_scheduler_remove_ready (Some G_scheduler) (Some (ReadyNode 4)) one_ready = Some (HR_OK, m') \<and>
      ready_seq m' G_scheduler = []"
  using ready_remove_refines [OF one_ready_wf(1,2), of "ReadyNode 4"]
  by (auto simp: one_ready_wf some_priorities_wf(5))

text \<open>
  C20. The policy selects a node exactly when one is ready; the selected node has the highest priority
  (the least number) and is the first of its priority in insertion order.
\<close>

theorem select_highest_first:
  assumes "wf_mem m" and "ready_ok m r"
  shows "case hr_scheduler_select_highest (Some r) m of
      None \<Rightarrow> ready_seq m r = []
    | Some x \<Rightarrow> x \<in> set (ready_seq m r) \<and> (\<forall>y \<in> set (ready_seq m r). npriority m x \<le> npriority m y) \<and>
        hd (ready_queue m r (unat (npriority m x))) = x"
proof (cases "ready_seq m r")
  case Nil
  then show ?thesis using select_highest_wf [OF assms] by simp
next
  case (Cons x xs)
  obtain i y ys where y: "i < 8" "ready_queue m r i = y # ys"
      "ready_seq m r = y # ys @ concat (map (ready_queue m r) [Suc i..<8])"
    using ready_front [OF assms(2), of thesis] Cons by (metis list.discI)
  then have "x = y" "unat (npriority m y) = i" using Cons ready_okD(2) [OF assms(2) y(1)] by simp_all
  then show ?thesis
    using select_highest_wf [OF assms] sorted_ready_seq [OF assms(2)] Cons y by simp
qed

theorem select_highest_first_witness:
  "hr_scheduler_select_highest (Some G_scheduler) one_ready = Some (ReadyNode 4) \<and>
   hd (ready_queue one_ready G_scheduler 3) = ReadyNode 4"
proof -
  have "hr_scheduler_select_highest (Some G_scheduler) one_ready = Some (ReadyNode 4)"
    using select_highest_wf [OF one_ready_wf(1,2)] by (simp add: one_ready_wf(3))
  then show ?thesis
    using select_highest_first [OF one_ready_wf(1,2)] by (simp add: one_ready_wf(7) some_priorities_wf(5))
qed

text \<open>
  C26. When the running node is the one the policy would select, yielding moves it behind the other
  ready nodes of its priority and leaves the rest of the order alone; otherwise yielding is refused.
\<close>

theorem yield_rotates:
  assumes "wf_mem m" and "ready_ok m r"
  shows "case ready_seq m r of
      [] \<Rightarrow> hr_scheduler_yield_current (Some r) (Some c) m = Some (HR_ERROR_INVALID_STATE, m)
    | x # xs \<Rightarrow>
        if x = c
        then \<exists>m'. hr_scheduler_yield_current (Some r) (Some c) m = Some (HR_OK, m') \<and> wf_mem m' \<and> ready_ok m' r \<and>
               ready_seq m' r = insert_fifo (npriority m) c xs
        else hr_scheduler_yield_current (Some r) (Some c) m = Some (HR_ERROR_INVALID_STATE, m)"
proof (cases "ready_seq m r")
  case Nil
  then show ?thesis using yield_current_eq [OF assms, of c] by simp
next
  case (Cons x xs)
  then have ne: "ready_seq m r \<noteq> []" by simp
  show ?thesis
    by (rule rotate_highest_wf [OF assms ne])
      (use yield_current_eq [OF assms, of c] Cons in \<open>simp add: rotate_ready_def\<close>)
qed

theorem yield_rotates_witness:
  "\<exists>m'. hr_scheduler_yield_current (Some G_scheduler) (Some (ReadyNode 4)) one_ready = Some (HR_OK, m') \<and>
      ready_seq m' G_scheduler = [ReadyNode 4]"
  using yield_rotates [OF one_ready_wf(1,2), of "ReadyNode 4"] by (auto simp: one_ready_wf(3))

text \<open>
  C27. The preemption test is true exactly when some ready node has a higher priority than the running
  one.
\<close>

theorem preempt_iff_higher_ready:
  assumes "wf_mem m" and "ready_ok m r" and "npriority m c < 8"
  shows "hr_scheduler_should_preempt (Some r) (Some c) m \<longleftrightarrow> (\<exists>y \<in> set (ready_seq m r). npriority m y < npriority m c)"
  by (rule should_preempt_wf [OF assms])

theorem preempt_iff_higher_ready_witness:
  "hr_scheduler_should_preempt (Some G_scheduler) (Some (ReadyNode 4)) one_ready \<longleftrightarrow>
     (\<exists>y \<in> {ReadyNode 4}. npriority one_ready y < 3)"
  using preempt_iff_higher_ready [OF one_ready_wf(1,2), of "ReadyNode 4"]
  by (simp add: one_ready_wf(3,7) some_priorities_wf(5))

section \<open>Wait lists\<close>

text \<open>
  C23. Inserting a free waiter into a wait list succeeds, keeps the list sorted by priority, and puts
  the waiter behind those of the same priority.
\<close>

theorem wait_insert_stable:
  assumes "wf_mem m" and "inited m l" and "\<not> is_root n" and "nlist (nodes m n) = None"
    and "sorted (map (npriority m) (nodes_of m l))"
  shows "\<exists>m'. hr_wait_list_insert (Some l) (Some n) m = Some (HR_OK, m') \<and> wf_mem m' \<and>
    nodes_of m' l = insert_fifo (npriority m) n (nodes_of m l) \<and> sorted (map (npriority m') (nodes_of m' l)) \<and>
    filter (\<lambda>y. npriority m' y = npriority m' n) (nodes_of m' l) =
      filter (\<lambda>y. npriority m y = npriority m n) (nodes_of m l) @ [n]"
  using fifo_link_wf [OF assms(1-4), where key = "npriority m"] assms(2,4,5)
  by (auto simp: wait_insert_wf [OF assms(1,2)] sorted_insert_fifo filter_insert_fifo)

definition one_waiter :: mem where
  "one_waiter = (snd (the (hr_wait_list_insert (Some (SemaphoreWaiters 5)) (Some (WaitNode 4))
     ((hr_wait_list_init (Some (SemaphoreWaiters 5)) zero_mem)\<lparr>npriority := (\<lambda>_. 3)\<rparr>))))"

lemma one_waiter_wf:
  "wf_mem one_waiter" "inited one_waiter (SemaphoreWaiters 5)" "nodes_of one_waiter (SemaphoreWaiters 5) = [WaitNode 4]"
  "nlist (nodes one_waiter (WaitNode 6)) = None" "npriority one_waiter = (\<lambda>_. 3)"
proof -
  let ?l = "SemaphoreWaiters 5"
  let ?m = "(hr_wait_list_init (Some ?l) zero_mem)\<lparr>npriority := (\<lambda>_. 3)\<rparr>"
  have i: "wf_mem ?m" "inited ?m ?l" "nodes_of ?m ?l = []"
    using wf_list_init [OF wf_zero_mem, of ?l] by (simp_all add: hr_wait_list_init_def)
  have n: "nlist (nodes ?m (WaitNode t)) = None" for t by (simp add: hr_wait_list_init_def)
  have eq: "one_waiter = fifo_link (npriority ?m) ?l (WaitNode 4) ?m"
    using wait_insert_wf [OF i(1,2), of "WaitNode 4"] n [of 4] by (simp add: one_waiter_def)
  note w = fifo_link_wf [OF i(1,2) _ n [of 4], where key = "npriority ?m", simplified]
  show "wf_mem one_waiter" "inited one_waiter ?l" "nodes_of one_waiter ?l = [WaitNode 4]"
    "nlist (nodes one_waiter (WaitNode 6)) = None" "npriority one_waiter = (\<lambda>_. 3)"
    using w i n [of 6] by (simp_all add: eq)
qed

theorem wait_insert_stable_witness:
  "\<exists>m'. hr_wait_list_insert (Some (SemaphoreWaiters 5)) (Some (WaitNode 6)) one_waiter = Some (HR_OK, m') \<and>
     nodes_of m' (SemaphoreWaiters 5) = [WaitNode 4, WaitNode 6]"
  using wait_insert_stable [OF one_waiter_wf(1,2) _ one_waiter_wf(4)] by (auto simp: one_waiter_wf)

text \<open>
  C32. The consistency check of a wait list always returns, and returns true exactly when the list is
  sound and sorted by priority.
\<close>

theorem wait_validate_exact:
  "hr_wait_list_validate (Some l) m = Some (sound_list m l \<and> sorted (map (npriority m) (nodes_of m l)))"
  by (rule wait_validate_eq)

section \<open>Timeout lists\<close>

text \<open>
  C24. Arming a timeout of \<open>d\<close> ticks, for \<open>0 < d < 0xFFFFFFFF\<close> and at any tick value,
  wrap-around included, puts the node behind all nodes that have at most \<open>d\<close> ticks left; the
  node then has exactly \<open>d\<close> ticks left and no other node's rest changes.
\<close>

theorem timeout_insert_delta:
  assumes "wf_mem m" and "timeout_ok m t" and "\<not> is_root n" and "nlist (nodes m n) = None"
    and "d \<noteq> HR_WAIT_FOREVER" and "d \<noteq> 0"
  shows "\<exists>m'. hr_timeout_list_insert (Some t) (Some n) d m = Some (HR_OK, m') \<and> wf_mem m' \<and> timeout_ok m' t \<and>
    remaining m' t = (remaining m t)(n := d) \<and>
    timeout_seq m' t = insert_fifo (remaining m' t) n (timeout_seq m t)"
  using timeout_insert_wf(1,2) [OF assms] timeout_insert_seq [OF assms] by blast

text \<open>An empty timeout list at the last tick before the wrap, and one with a timeout of one tick armed.\<close>

definition near_wrap :: mem where
  "near_wrap = hr_list_init (Some ExpiredNodes) (hr_timeout_list_init (Some G_timeout_list) 0xFFFFFFFF zero_mem)"

definition armed :: mem where
  "armed = snd (the (hr_timeout_list_insert (Some G_timeout_list) (Some (TimeoutNode 4)) 1 near_wrap))"

lemma near_wrap_wf:
  "wf_mem near_wrap" "timeout_ok near_wrap G_timeout_list" "timeout_seq near_wrap G_timeout_list = []"
  "nlist (nodes near_wrap (TimeoutNode x)) = None" "last_tick near_wrap G_timeout_list = 0xFFFFFFFF"
  "inited near_wrap ExpiredNodes" "nodes_of near_wrap ExpiredNodes = []"
proof -
  let ?m = "hr_timeout_list_init (Some G_timeout_list) 0xFFFFFFFF zero_mem"
  note i = timeout_init_wf [OF wf_zero_mem, where t = G_timeout_list and start = "0xFFFFFFFF", simplified]
  note w = wf_list_init [OF i(1), of ExpiredNodes, simplified i(5)]
  show "wf_mem near_wrap" "inited near_wrap ExpiredNodes" "nodes_of near_wrap ExpiredNodes = []"
    "last_tick near_wrap G_timeout_list = 0xFFFFFFFF" "nlist (nodes near_wrap (TimeoutNode x)) = None"
    using w i(4,11) by (simp_all add: near_wrap_def)
  have n: "nodes_of near_wrap (TimeoutList G_timeout_list j) = nodes_of ?m (TimeoutList G_timeout_list j)" if "j < 2" for j
    using w(2) [of "TimeoutList G_timeout_list j"] that i(5) by (auto simp: near_wrap_def less_2_cases_iff)
  have e: "current_of near_wrap G_timeout_list = current_of ?m G_timeout_list"
    "overflow_of near_wrap G_timeout_list = overflow_of ?m G_timeout_list"
    by (simp_all add: near_wrap_def current_of_def overflow_of_def)
  obtain a b where ab: "current_of ?m G_timeout_list = TimeoutList G_timeout_list a"
    "overflow_of ?m G_timeout_list = TimeoutList G_timeout_list b" "a < 2" "b < 2"
    using timeout_okD(4) [OF i(2), of "current_of ?m G_timeout_list"]
      timeout_okD(4) [OF i(2), of "overflow_of ?m G_timeout_list"] by (auto simp: less_2_cases_iff)
  then have s: "nodes_of ?m (current_of ?m G_timeout_list) = []" "nodes_of ?m (overflow_of ?m G_timeout_list) = []"
    using i(3) by (simp_all add: timeout_seq_def)
  show "timeout_seq near_wrap G_timeout_list = []" using s n ab by (simp add: timeout_seq_def e)
  show "timeout_ok near_wrap G_timeout_list"
    using i(2) s n ab unfolding timeout_ok_def e by (simp add: near_wrap_def)
qed

lemma armed_wf:
  "wf_mem armed" "timeout_ok armed G_timeout_list" "timeout_seq armed G_timeout_list = [TimeoutNode 4]"
  "remaining armed G_timeout_list (TimeoutNode 4) = 1" "last_tick armed G_timeout_list = 0xFFFFFFFF"
  "inited armed ExpiredNodes" "nodes_of armed ExpiredNodes = []"
proof -
  note n = near_wrap_wf
  note w = timeout_insert_wf [OF n(1,2) _ n(4), of 4 1, simplified]
    and s = timeout_insert_seq [OF n(1,2) _ n(4), of 4 1, simplified]
  have eq: "armed = timeout_link G_timeout_list (TimeoutNode 4) 1 near_wrap" by (simp add: armed_def w(1))
  obtain i where "timeout_target near_wrap G_timeout_list 1 = TimeoutList G_timeout_list i"
    using timeout_okD(4) [OF n(2), of "timeout_target near_wrap G_timeout_list 1"]
    by (auto simp: timeout_target_def split: if_splits)
  then show "inited armed ExpiredNodes" "nodes_of armed ExpiredNodes = []"
    using w(3,4) n(6,7) by (simp_all add: eq)
  show "wf_mem armed" "timeout_ok armed G_timeout_list" "timeout_seq armed G_timeout_list = [TimeoutNode 4]"
    "remaining armed G_timeout_list (TimeoutNode 4) = 1" "last_tick armed G_timeout_list = 0xFFFFFFFF"
    using w(2,10) s n(3,5) by (simp_all add: eq)
qed

theorem timeout_insert_delta_witness:
  "\<exists>m'. hr_timeout_list_insert (Some G_timeout_list) (Some (TimeoutNode 4)) 3 near_wrap = Some (HR_OK, m') \<and>
     timeout_seq m' G_timeout_list = [TimeoutNode 4] \<and> remaining m' G_timeout_list (TimeoutNode 4) = 3"
  using timeout_insert_delta [OF near_wrap_wf(1,2) _ near_wrap_wf(4), of 4 3] by (auto simp: near_wrap_wf(3))

text \<open>
  C19. Advancing the time by one tick, also across the wrap of the counter, moves exactly the nodes
  with one tick left to the list of expired nodes, in their order; every other node keeps its place
  and has one tick less left.
\<close>

theorem timeout_tick_exact:
  assumes "wf_mem m" and "timeout_ok m t" and "expire_ready m t e"
  shows "\<exists>m'. hr_timeout_list_advance (Some t) (last_tick m t + 1) (Some e) m = Some (HR_OK, m') \<and>
    wf_mem m' \<and> timeout_ok m' t \<and> last_tick m' t = last_tick m t + 1 \<and>
    nodes_of m' e = filter (\<lambda>x. remaining m t x = 1) (timeout_seq m t) \<and>
    timeout_seq m' t = filter (\<lambda>x. remaining m t x \<noteq> 1) (timeout_seq m t) \<and>
    (\<forall>x. remaining m' t x = remaining m t x - 1)"
proof (rule tick_wf [OF assms])
  note f = sorted_least [OF sorted_timeout_seq [OF assms(2)] remaining_least [OF assms(2)]]
  fix m' assume "hr_timeout_list_advance (Some t) (last_tick m t + 1) (Some e) m = Some (HR_OK, m')"
    and "wf_mem m'" and "timeout_ok m' t" and "last_tick m' t = last_tick m t + 1"
    and "nodes_of m' e = takeWhile (\<lambda>x. remaining m t x = 1) (timeout_seq m t)"
    and "timeout_seq m' t = dropWhile (\<lambda>x. remaining m t x = 1) (timeout_seq m t)"
    and "\<And>x. remaining m' t x = remaining m t x - 1"
  then show ?thesis unfolding f by (intro exI [of _ m']) simp
qed

theorem timeout_tick_exact_witness:
  "\<exists>m'. hr_timeout_list_advance (Some G_timeout_list) 0 (Some ExpiredNodes) armed = Some (HR_OK, m') \<and>
     nodes_of m' ExpiredNodes = [TimeoutNode 4] \<and> timeout_seq m' G_timeout_list = []"
proof -
  have "last_tick armed G_timeout_list + 1 = 0" by (simp add: armed_wf(5) word_unat_eq_iff)
  then show ?thesis
    using timeout_tick_exact [OF armed_wf(1,2), of ExpiredNodes] armed_wf(3,4,6,7)
    by (auto simp: expire_ready_def)
qed



section \<open>Initial stack frame\<close>

text \<open>
  C33. For a word-aligned stack of at least 17 words inside the address space, the frame of sixteen
  words the port builds is aligned to eight bytes and lies inside the stack with less than eight
  bytes above it; it holds the argument, the entry address without its Thumb bit, the exit
  handler with it and the initial program status; no other word of memory changes.
\<close>

theorem initial_frame_inside_stack:
  assumes "unat low mod 4 = 0" and "unat low + 4 * n < 2 ^ 32" and "17 \<le> n"
  shows "\<exists>sp sm'. hr_port_initialize_stack (Some low) n entry arg exit_addr sm = (Some sp, sm') \<and>
    unat sp mod 8 = 0 \<and> unat low \<le> unat sp \<and> unat sp + 64 \<le> unat low + 4 * n \<and> unat low + 4 * n < unat sp + 72 \<and>
    sm' (sp + 32) = arg \<and> sm' (sp + 52) = exit_addr OR 1 \<and> sm' (sp + 56) = entry AND 0xFFFFFFFE \<and>
    sm' (sp + 60) = 0x01000000 \<and> (\<forall>a. \<not> (unat sp \<le> unat a \<and> unat a < unat sp + 64) \<longrightarrow> sm' a = sm a)"
proof -
  have l: "unat low + 4 * n < 4294967296" using assms(2) by simp
  show ?thesis
    unfolding hr_port_initialize_stack_def
    by (rule initialize_stack_frame [OF assms(1) l assms(3), of entry arg exit_addr sm]) (intro exI conjI allI impI)
qed

theorem initial_frame_inside_stack_witness:
  "\<exists>sp sm'. hr_port_initialize_stack (Some 0x20000004) 32 0x08000101 7 0x08000200 (\<lambda>_. 0) = (Some sp, sm') \<and>
     unat sp mod 8 = 0 \<and> sm' (sp + 32) = 7 \<and> sm' (sp + 56) = 0x08000100"
  using initial_frame_inside_stack [where low = "0x20000004" and n = 32 and entry = "0x08000101" and arg = 7
      and exit_addr = "0x08000200" and sm = "\<lambda>_. 0"] by auto

end
