(* ===== verification/HR_State.thy ===== *)
theory HR_State
  imports HR_Wait HR_Timeout HR_Scheduler HR_Port_Stack
begin

text \<open>
  The state of the kernel: the control blocks of tasks, semaphores, queues, mutexes and
  timers, the globals of \<open>hr_kernel.c\<close> and \<open>hr_timer.c\<close>, the byte memory queue items
  are copied in, the stack memory, and the port state that \<open>arch/arm/cortex-m3/hr_port.c\<close>
  reads and writes. Embedded list nodes and list headers of a control block live in
  \<open>kmem\<close> at their addresses (\<open>ReadyNode t\<close>, \<open>MutexWaiters x\<close> and so on).
\<close>

section \<open>Types of the control blocks\<close>

datatype hr_task_state =
    HR_TASK_STATE_INVALID
  | HR_TASK_STATE_CREATED
  | HR_TASK_STATE_READY
  | HR_TASK_STATE_RUNNING
  | HR_TASK_STATE_BLOCKED
  | HR_TASK_STATE_SUSPENDED

datatype hr_kernel_state =
    HR_KERNEL_STATE_RESET
  | HR_KERNEL_STATE_INITIALIZED
  | HR_KERNEL_STATE_RUNNING
  | HR_KERNEL_STATE_PANIC

datatype hr_task_wait_kind =
    HR_TASK_WAIT_NONE
  | HR_TASK_WAIT_DELAY
  | HR_TASK_WAIT_QUEUE_SEND
  | HR_TASK_WAIT_QUEUE_RECEIVE
  | HR_TASK_WAIT_SEMAPHORE_TAKE
  | HR_TASK_WAIT_MUTEX_LOCK

text \<open>
  A \<open>void *\<close> to the object a task waits for, a pointer into byte memory (buffer and
  offset), and the only wait clean-up function of the kernel.
\<close>

datatype wait_object =
    Obj_timeout_list
  | Obj_semaphore sem_ptr
  | Obj_queue queue_ptr
  | Obj_mutex mutex_ptr

type_synonym byte_ptr = "nat \<times> nat"

datatype wait_cleanup = Cleanup_mutex

type_synonym stack_address = "32 word"

record hr_task_control_block =
  tstack_pointer :: "stack_address option"
  tstack_low :: "stack_address option"
  tstack_high :: "stack_address option"
  tname :: "string option"
  tentry :: "stack_address option"
  targument :: "stack_address"
  tstate :: hr_task_state
  tsuspended_resume_state :: hr_task_state
  tbase_priority :: hr_priority
  teffective_priority :: hr_priority
  twake_tick :: hr_tick
  ttime_slice_remaining :: hr_tick
  twaiting_object :: "wait_object option"
  tblocked_wait_list :: "list_addr option"
  twait_buffer :: "byte_ptr option"
  twait_cleanup :: "wait_cleanup option"
  twait_result :: hr_status
  twait_kind :: hr_task_wait_kind
  towned_mutex_count :: nat
  tstack_words :: nat
  tcritical_nesting :: "32 word"
  truntime_counter :: "32 word"
  tmagic :: "32 word"

record hr_semaphore_control_block =
  scount :: "32 word"
  smax_count :: "32 word"
  smagic :: "32 word"

record hr_queue_control_block =
  qstorage :: "byte_ptr option"
  qitem_size :: nat
  qcapacity :: nat
  qhead :: nat
  qtail :: nat
  qcount :: nat
  qmagic :: "32 word"

record hr_mutex_control_block =
  mowner :: "task_ptr option"
  mrecursion_count :: "32 word"
  mrecursive :: bool
  mmagic :: "32 word"

record hr_timer_control_block =
  tmname :: "string option"
  tmcallback :: "nat option"
  tmargument :: nat
  tmperiod_ticks :: hr_tick
  tmpending_count :: "32 word"
  tmmagic :: "32 word"
  tmauto_reload :: bool
  tmactive :: bool
  tmcallback_running :: bool

text \<open>The control blocks with every byte zero.\<close>

definition zero_tcb :: hr_task_control_block where
  "zero_tcb =
     \<lparr>tstack_pointer = None, tstack_low = None, tstack_high = None, tname = None, tentry = None,
      targument = 0, tstate = HR_TASK_STATE_INVALID, tsuspended_resume_state = HR_TASK_STATE_INVALID,
      tbase_priority = 0, teffective_priority = 0, twake_tick = 0, ttime_slice_remaining = 0,
      twaiting_object = None, tblocked_wait_list = None, twait_buffer = None, twait_cleanup = None,
      twait_result = HR_OK, twait_kind = HR_TASK_WAIT_NONE, towned_mutex_count = 0, tstack_words = 0,
      tcritical_nesting = 0, truntime_counter = 0, tmagic = 0\<rparr>"

definition zero_scb :: hr_semaphore_control_block where
  "zero_scb = \<lparr>scount = 0, smax_count = 0, smagic = 0\<rparr>"

definition zero_qcb :: hr_queue_control_block where
  "zero_qcb =
     \<lparr>qstorage = None, qitem_size = 0, qcapacity = 0, qhead = 0, qtail = 0, qcount = 0, qmagic = 0\<rparr>"

definition zero_mcb :: hr_mutex_control_block where
  "zero_mcb = \<lparr>mowner = None, mrecursion_count = 0, mrecursive = False, mmagic = 0\<rparr>"

definition zero_tmcb :: hr_timer_control_block where
  "zero_tmcb =
     \<lparr>tmname = None, tmcallback = None, tmargument = 0, tmperiod_ticks = 0, tmpending_count = 0,
      tmmagic = 0, tmauto_reload = False, tmactive = False, tmcallback_running = False\<rparr>"

section \<open>The kernel state\<close>

text \<open>
  \<open>pendsv\<close> is the pending bit of the PendSV exception, \<open>primask\<close> and
  \<open>inside_isr\<close> the processor state the port reads; \<open>exit_handler\<close> is the address
  the linker gives \<open>hr_task_exit_error\<close>.
\<close>

record hr_kernel =
  kmem :: mem
  tcb :: "task_ptr \<Rightarrow> hr_task_control_block"
  scb :: "sem_ptr \<Rightarrow> hr_semaphore_control_block"
  qcb :: "queue_ptr \<Rightarrow> hr_queue_control_block"
  mcb :: "mutex_ptr \<Rightarrow> hr_mutex_control_block"
  tmcb :: "timer_ptr \<Rightarrow> hr_timer_control_block"
  bytes :: "nat \<Rightarrow> nat \<Rightarrow> 8 word"
  stack_mem :: "stack_address \<Rightarrow> 32 word"
  g_kernel_state :: hr_kernel_state
  g_current_task :: "task_ptr option"
  g_hr_current_task_control_block :: "task_ptr option"
  g_task_count :: nat
  g_kernel_tick :: hr_tick
  g_switch_reasons :: "32 word"
  g_timer_system_initialized :: bool
  primask :: "32 word"
  inside_isr :: bool
  pendsv :: bool
  exit_handler :: stack_address

text \<open>The statically allocated tasks and the semaphore of the timer service.\<close>

abbreviation (input) g_idle_task :: task_ptr where
  "g_idle_task \<equiv> 0"

abbreviation (input) g_timer_service_task :: task_ptr where
  "g_timer_service_task \<equiv> 1"

abbreviation (input) g_timer_signal :: sem_ptr where
  "g_timer_signal \<equiv> 0"

abbreviation (input) HR_CFG_TASK_MAGIC :: "32 word" where
  "HR_CFG_TASK_MAGIC \<equiv> 0x48525453"

abbreviation (input) HR_CFG_SEMAPHORE_MAGIC :: "32 word" where
  "HR_CFG_SEMAPHORE_MAGIC \<equiv> 0x48525345"

abbreviation (input) HR_CFG_QUEUE_MAGIC :: "32 word" where
  "HR_CFG_QUEUE_MAGIC \<equiv> 0x48525155"

abbreviation (input) HR_CFG_MUTEX_MAGIC :: "32 word" where
  "HR_CFG_MUTEX_MAGIC \<equiv> 0x48524D58"

abbreviation (input) HR_CFG_TIMER_MAGIC :: "32 word" where
  "HR_CFG_TIMER_MAGIC \<equiv> 0x4852544D"

abbreviation (input) HR_CFG_TIME_SLICE_TICKS :: hr_tick where
  "HR_CFG_TIME_SLICE_TICKS \<equiv> 1"

definition reset_kernel :: "stack_address \<Rightarrow> hr_kernel" where
  "reset_kernel exit_addr =
     \<lparr>kmem = zero_mem, tcb = (\<lambda>_. zero_tcb), scb = (\<lambda>_. zero_scb), qcb = (\<lambda>_. zero_qcb),
      mcb = (\<lambda>_. zero_mcb), tmcb = (\<lambda>_. zero_tmcb), bytes = (\<lambda>_ _. 0), stack_mem = (\<lambda>_. 0),
      g_kernel_state = HR_KERNEL_STATE_RESET, g_current_task = None,
      g_hr_current_task_control_block = None, g_task_count = 0, g_kernel_tick = 0,
      g_switch_reasons = 0, g_timer_system_initialized = False, primask = 0, inside_isr = False,
      pendsv = False, exit_handler = exit_addr\<rparr>"

text \<open>Running a data-structure operation on the memory of the kernel, and updating one control block.\<close>

definition on_mem :: "(mem \<Rightarrow> ('a \<times> mem) option) \<Rightarrow> hr_kernel \<Rightarrow> ('a \<times> hr_kernel) option" where
  "on_mem f k = (case f (kmem k) of None \<Rightarrow> None | Some (x, m) \<Rightarrow> Some (x, k\<lparr>kmem := m\<rparr>))"

definition upd_tcb :: "task_ptr \<Rightarrow> (hr_task_control_block \<Rightarrow> hr_task_control_block) \<Rightarrow> hr_kernel \<Rightarrow> hr_kernel" where
  "upd_tcb t f k = k\<lparr>tcb := (tcb k)(t := f (tcb k t))\<rparr>"

text \<open>The outcome of a blocking call: it returned, or its caller is switched out and the call
  returns the task's \<open>wait_result\<close> once the task runs again.\<close>

datatype outcome = Returned hr_status | Blocked task_ptr

section \<open>Port\<close>

definition hr_port_request_context_switch :: "hr_kernel \<Rightarrow> hr_kernel" where
  "hr_port_request_context_switch k = k\<lparr>pendsv := True\<rparr>"

definition hr_port_enter_critical :: "hr_kernel \<Rightarrow> 32 word \<times> hr_kernel" where
  "hr_port_enter_critical k = (primask k, k\<lparr>primask := 1\<rparr>)"

definition hr_port_exit_critical :: "32 word \<Rightarrow> hr_kernel \<Rightarrow> hr_kernel" where
  "hr_port_exit_critical irq_state k = k\<lparr>primask := irq_state\<rparr>"

definition hr_port_is_inside_isr :: "hr_kernel \<Rightarrow> bool" where
  "hr_port_is_inside_isr k = inside_isr k"

definition hr_port_yield_from_isr :: "bool \<Rightarrow> hr_kernel \<Rightarrow> hr_kernel" where
  "hr_port_yield_from_isr required k = (if required then hr_port_request_context_switch k else k)"

end
