(* ===== verification/HR_Task.thy ===== *)
theory HR_Task
  imports HR_State
begin

text \<open>
  Creation, validity and accessors of tasks (\<open>kernel/src/hr_task.c\<close> up to the stack
  checks). A \<open>hr_task_t\<close> and its control block have the same address.
\<close>

definition hr_task_zero_control_block :: "task_ptr \<Rightarrow> hr_kernel \<Rightarrow> hr_kernel" where
  "hr_task_zero_control_block t k =
     (let m = kmem k;
          own = {ReadyNode t, WaitNode t, TimeoutNode t, AllTaskNode t, Root (OwnedMutexes t)}
      in k\<lparr>tcb := (tcb k)(t := zero_tcb),
           kmem := m\<lparr>nodes := (\<lambda>x. if x \<in> own then zero_node else nodes m x),
                     lsize := (lsize m)(OwnedMutexes t := 0),
                     npriority := (\<lambda>x. if x \<in> own then 0 else npriority m x),
                     nwake_tick := (\<lambda>x. if x \<in> own then 0 else nwake_tick m x)\<rparr>\<rparr>)"

definition hr_task_fill_stack :: "32 word \<Rightarrow> nat \<Rightarrow> stack_memory \<Rightarrow> stack_memory" where
  "hr_task_fill_stack stack stack_words sm =
     (fold (\<lambda>index sm. sm(stack + 4 * of_nat index := 0xA5A5A5A5)) [0..<stack_words] sm)
       (stack := 0xDEADBEEF)"

definition hr_task_control_block :: "task_ptr option \<Rightarrow> task_ptr option" where
  [simp]: "hr_task_control_block task = task"

definition hr_task_control_block_const :: "task_ptr option \<Rightarrow> task_ptr option" where
  [simp]: "hr_task_control_block_const task = task"

definition hr_task_is_valid :: "task_ptr option \<Rightarrow> hr_kernel \<Rightarrow> bool" where
  "hr_task_is_valid task k =
     (case hr_task_control_block_const task of
        None \<Rightarrow> False
      | Some t \<Rightarrow> tmagic (tcb k t) = HR_CFG_TASK_MAGIC)"

definition hr_task_transition_state ::
  "task_ptr option \<Rightarrow> hr_task_state \<Rightarrow> hr_task_state \<Rightarrow> hr_kernel \<Rightarrow> hr_status \<times> hr_kernel" where
  "hr_task_transition_state task expected nxt k =
     (case task of
        None \<Rightarrow> (HR_ERROR_INVALID_ARGUMENT, k)
      | Some t \<Rightarrow>
          if \<not> hr_task_is_valid task k then (HR_ERROR_INVALID_ARGUMENT, k)
          else if tstate (tcb k t) \<noteq> expected then (HR_ERROR_INVALID_STATE, k)
          else (HR_OK, upd_tcb t (\<lambda>c. c\<lparr>tstate := nxt\<rparr>) k))"

text \<open>The initialisation of the control block between the port call and the return.\<close>

definition task_init_fields ::
  "task_ptr \<Rightarrow> string \<Rightarrow> 32 word \<Rightarrow> 32 word \<Rightarrow> 32 word \<Rightarrow> nat \<Rightarrow> hr_priority \<Rightarrow> 32 word \<Rightarrow> hr_kernel \<Rightarrow> hr_kernel" where
  "task_init_fields t name entry argument stack stack_words priority sp k =
     upd_tcb t (\<lambda>c. c\<lparr>tstack_pointer := Some sp, tstack_low := Some stack,
       tstack_high := Some (stack + 4 * (of_nat stack_words - 1)),
       tname := Some name, tentry := Some entry, targument := argument,
       tstate := HR_TASK_STATE_CREATED, tsuspended_resume_state := HR_TASK_STATE_INVALID,
       tbase_priority := priority, teffective_priority := priority,
       twake_tick := 0, ttime_slice_remaining := HR_CFG_TIME_SLICE_TICKS,
       twaiting_object := None, tblocked_wait_list := None, twait_buffer := None,
       twait_cleanup := None, twait_result := HR_OK, twait_kind := HR_TASK_WAIT_NONE,
       towned_mutex_count := 0, tstack_words := stack_words, tcritical_nesting := 0,
       truntime_counter := 0\<rparr>) k"

definition task_init_nodes :: "task_ptr \<Rightarrow> hr_priority \<Rightarrow> mem \<Rightarrow> mem" where
  "task_init_nodes t priority m =
     (let ow = Some (Task_obj t);
          m = hr_list_init (Some (OwnedMutexes t)) m;
          m = hr_ready_node_init (Some (ReadyNode t)) ow priority m;
          m = hr_wait_node_init (Some (WaitNode t)) ow priority m;
          m = hr_timeout_node_init (Some (TimeoutNode t)) ow m
      in hr_list_node_init (Some (AllTaskNode t)) ow m)"

definition hr_task_create_static ::
  "task_ptr option \<Rightarrow> string option \<Rightarrow> 32 word option \<Rightarrow> 32 word \<Rightarrow> 32 word option \<Rightarrow> nat \<Rightarrow> hr_priority \<Rightarrow>
   hr_kernel \<Rightarrow> hr_status \<times> hr_kernel" where
  "hr_task_create_static task name entry argument stack stack_words priority k =
     (case (task, name, entry, stack) of
        (Some t, Some nm, Some en, Some sk) \<Rightarrow>
          if hr_task_is_valid task k then (HR_ERROR_INVALID_STATE, k)
          else if stack_words < 32 \<or> priority \<ge> HR_CFG_PRIORITY_COUNT
          then (HR_ERROR_INVALID_ARGUMENT, k)
          else
            (let k = hr_task_zero_control_block t k;
                 k = k\<lparr>stack_mem := hr_task_fill_stack sk stack_words (stack_mem k)\<rparr>;
                 (sp, sm) = hr_port_initialize_stack stack stack_words en argument (exit_handler k) (stack_mem k);
                 k = k\<lparr>stack_mem := sm\<rparr>
             in case sp of
                  None \<Rightarrow> (HR_ERROR_INVALID_STATE, k)
                | Some initial_stack_pointer \<Rightarrow>
                    (let k = task_init_fields t nm en argument sk stack_words priority initial_stack_pointer k;
                         k = k\<lparr>kmem := task_init_nodes t priority (kmem k)\<rparr>
                     in (HR_OK, upd_tcb t (\<lambda>c. c\<lparr>tmagic := HR_CFG_TASK_MAGIC\<rparr>) k)))
      | _ \<Rightarrow> (HR_ERROR_INVALID_ARGUMENT, k))"

definition hr_task_get_name :: "task_ptr option \<Rightarrow> hr_kernel \<Rightarrow> string option" where
  "hr_task_get_name task k = (if hr_task_is_valid task k then tname (tcb k (the task)) else None)"

definition hr_task_get_state :: "task_ptr option \<Rightarrow> hr_kernel \<Rightarrow> hr_task_state" where
  "hr_task_get_state task k =
     (if hr_task_is_valid task k then tstate (tcb k (the task)) else HR_TASK_STATE_INVALID)"

definition hr_task_get_base_priority :: "task_ptr option \<Rightarrow> hr_kernel \<Rightarrow> hr_priority" where
  "hr_task_get_base_priority task k = (if hr_task_is_valid task k then tbase_priority (tcb k (the task)) else 0)"

definition hr_task_get_effective_priority :: "task_ptr option \<Rightarrow> hr_kernel \<Rightarrow> hr_priority" where
  "hr_task_get_effective_priority task k =
     (if hr_task_is_valid task k then teffective_priority (tcb k (the task)) else 0)"

definition hr_task_get_stack_words :: "task_ptr option \<Rightarrow> hr_kernel \<Rightarrow> nat" where
  "hr_task_get_stack_words task k = (if hr_task_is_valid task k then tstack_words (tcb k (the task)) else 0)"

text \<open>The loop counts the untouched fill words above the guard word.\<close>

definition hr_task_get_stack_high_watermark :: "task_ptr option \<Rightarrow> hr_kernel \<Rightarrow> nat" where
  "hr_task_get_stack_high_watermark task k =
     (if \<not> hr_task_is_valid task k then 0
      else
        (case tstack_low (tcb k (the task)) of
           None \<Rightarrow> 0
         | Some low \<Rightarrow>
             length (takeWhile (\<lambda>index. stack_mem k (low + 4 * of_nat index) = 0xA5A5A5A5)
               [1..<tstack_words (tcb k (the task))])))"

definition hr_task_stack_guard_is_valid :: "task_ptr option \<Rightarrow> hr_kernel \<Rightarrow> bool" where
  "hr_task_stack_guard_is_valid task k \<longleftrightarrow>
     hr_task_is_valid task k \<and>
     (case tstack_low (tcb k (the task)) of
        None \<Rightarrow> False
      | Some low \<Rightarrow> stack_mem k low = 0xDEADBEEF)"

end
