(* ===== verification/HR_Priority.thy ===== *)
theory HR_Priority
  imports HR_Task
begin

text \<open>
  Priority inheritance: the change of a task's effective priority
  (\<open>hr_kernel_set_task_effective_priority\<close> of \<open>hr_kernel.c\<close>) and its computation
  along the chain of mutex owners (\<open>hr_mutex.c\<close>). The kernel calls back into this part
  when a wait on a mutex times out, so it precedes the rest of the kernel.
\<close>

section \<open>Casts from \<open>void *\<close>\<close>

text \<open>
  A pointer that is used as a task or as a mutex. The value \<open>None\<close> is the access to an object
  through the wrong type; NULL is \<open>Some None\<close>.
\<close>

definition as_task :: "obj_ptr option \<Rightarrow> task_ptr option option" where
  "as_task p = (case p of None \<Rightarrow> Some None | Some (Task_obj t) \<Rightarrow> Some (Some t) | _ \<Rightarrow> None)"

definition as_mutex :: "obj_ptr option \<Rightarrow> mutex_ptr option option" where
  "as_mutex p = (case p of None \<Rightarrow> Some None | Some (Mutex_obj x) \<Rightarrow> Some (Some x) | _ \<Rightarrow> None)"

definition as_timer :: "obj_ptr option \<Rightarrow> timer_ptr option option" where
  "as_timer p = (case p of None \<Rightarrow> Some None | Some (Timer_obj x) \<Rightarrow> Some (Some x) | _ \<Rightarrow> None)"

definition wait_object_mutex :: "wait_object \<Rightarrow> mutex_ptr option" where
  "wait_object_mutex ob = (case ob of Obj_mutex x \<Rightarrow> Some x | _ \<Rightarrow> None)"

section \<open>Changing the effective priority\<close>

abbreviation add_ready :: "task_ptr \<Rightarrow> hr_kernel \<Rightarrow> (hr_status \<times> hr_kernel) option" where
  "add_ready t \<equiv> on_mem (hr_scheduler_add_ready (Some G_scheduler) (Some (ReadyNode t)))"

abbreviation remove_ready :: "task_ptr \<Rightarrow> hr_kernel \<Rightarrow> (hr_status \<times> hr_kernel) option" where
  "remove_ready t \<equiv> on_mem (hr_scheduler_remove_ready (Some G_scheduler) (Some (ReadyNode t)))"

definition set_node_priorities :: "task_ptr \<Rightarrow> hr_priority \<Rightarrow> hr_kernel \<Rightarrow> hr_kernel" where
  "set_node_priorities t priority k =
     (upd_tcb t (\<lambda>c. c\<lparr>teffective_priority := priority\<rparr>) k)
       \<lparr>kmem := (kmem k)\<lparr>npriority := (npriority (kmem k))
          (ReadyNode t := priority, WaitNode t := priority)\<rparr>\<rparr>"

definition hr_kernel_set_task_effective_priority ::
  "task_ptr option \<Rightarrow> hr_priority \<Rightarrow> hr_kernel \<Rightarrow> (hr_status \<times> hr_kernel) option" where
  "hr_kernel_set_task_effective_priority control_block priority k =
     (case control_block of
        None \<Rightarrow> Some (HR_ERROR_INVALID_ARGUMENT, k)
      | Some t \<Rightarrow>
          if priority \<ge> HR_CFG_IDLE_PRIORITY then Some (HR_ERROR_INVALID_ARGUMENT, k)
          else if teffective_priority (tcb k t) = priority then Some (HR_OK, k)
          else do {
            let ready_linked = hr_list_node_is_linked (Some (ReadyNode t)) (kmem k);
            let wait_linked = hr_list_node_is_linked (Some (WaitNode t)) (kmem k);
            let wait_list = tblocked_wait_list (tcb k t);
            (status, k) \<leftarrow> (if ready_linked then remove_ready t k else Some (HR_OK, k));
            if status \<noteq> HR_OK then Some (status, k)
            else do {
              (status, k) \<leftarrow>
                (if \<not> wait_linked then Some (HR_OK, k)
                 else if wait_list = None then do {
                   (_, k) \<leftarrow> (if ready_linked then add_ready t k else Some (HR_OK, k));
                   Some (HR_ERROR_INTERNAL, k)
                 }
                 else do {
                   (status, k) \<leftarrow> on_mem (hr_wait_list_remove wait_list (Some (WaitNode t))) k;
                   if status \<noteq> HR_OK then do {
                     (_, k) \<leftarrow> (if ready_linked then add_ready t k else Some (HR_OK, k));
                     Some (status, k)
                   }
                   else Some (HR_OK, k)
                 });
              if status \<noteq> HR_OK then Some (status, k)
              else do {
                let k = set_node_priorities t priority k;
                (status, k) \<leftarrow> (if ready_linked then add_ready t k else Some (HR_OK, k));
                if status \<noteq> HR_OK then Some (status, k)
                else if wait_linked then on_mem (hr_wait_list_insert wait_list (Some (WaitNode t))) k
                else Some (HR_OK, k)
              }
            }
          })"

section \<open>Required priority of a mutex owner\<close>

definition hr_mutex_control_block :: "mutex_ptr option \<Rightarrow> mutex_ptr option" where
  [simp]: "hr_mutex_control_block mutex = mutex"

definition hr_mutex_control_block_const :: "mutex_ptr option \<Rightarrow> mutex_ptr option" where
  [simp]: "hr_mutex_control_block_const mutex = mutex"

partial_function (option) required_priority_loop ::
  "task_ptr \<Rightarrow> node_addr option \<Rightarrow> hr_priority \<Rightarrow> hr_kernel \<Rightarrow> hr_priority option" where
  "required_priority_loop t node priority k =
     (case node of
        None \<Rightarrow> Some priority
      | Some n \<Rightarrow> do {
          mutex_object \<leftarrow> as_mutex (hr_list_node_owner node (kmem k));
          (case hr_mutex_control_block_const mutex_object of
             None \<Rightarrow> Some (tbase_priority (tcb k t))
           | Some x \<Rightarrow>
               if mmagic (mcb k x) \<noteq> HR_CFG_MUTEX_MAGIC then Some (tbase_priority (tcb k t))
               else do {
                 let priority =
                   (case hr_wait_list_peek (Some (MutexWaiters x)) (kmem k) of
                      None \<Rightarrow> priority
                    | Some waiter \<Rightarrow>
                        if npriority (kmem k) waiter < priority then npriority (kmem k) waiter else priority);
                 required_priority_loop t (hr_list_next (Some (OwnedMutexes t)) node (kmem k)) priority k
               })
        })"

definition hr_mutex_required_priority :: "task_ptr \<Rightarrow> hr_kernel \<Rightarrow> hr_priority option" where
  "hr_mutex_required_priority t k =
     required_priority_loop t (hr_list_front (Some (OwnedMutexes t)) (kmem k)) (tbase_priority (tcb k t)) k"

text \<open>
  The recursion along the owners: the first argument is the number of calls that the depth
  limit still allows, \<open>HR_CFG_MAX_TASKS + 1 - depth\<close>.
\<close>

fun recompute_loop :: "nat \<Rightarrow> task_ptr option \<Rightarrow> hr_kernel \<Rightarrow> (hr_status \<times> hr_kernel) option" where
  "recompute_loop 0 task k = Some (HR_ERROR_INTERNAL, k)"
| "recompute_loop (Suc room) None k = Some (HR_ERROR_INTERNAL, k)"
| "recompute_loop (Suc room) (Some t) k = do {
     required \<leftarrow> hr_mutex_required_priority t k;
     (status, k) \<leftarrow> hr_kernel_set_task_effective_priority (Some t) required k;
     if status \<noteq> HR_OK then Some (status, k)
     else if (tstate (tcb k t) = HR_TASK_STATE_BLOCKED \<or>
              (tstate (tcb k t) = HR_TASK_STATE_SUSPENDED \<and>
               tsuspended_resume_state (tcb k t) = HR_TASK_STATE_BLOCKED)) \<and>
             twait_kind (tcb k t) = HR_TASK_WAIT_MUTEX_LOCK \<and> twaiting_object (tcb k t) \<noteq> None
     then do {
       x \<leftarrow> wait_object_mutex (the (twaiting_object (tcb k t)));
       if mmagic (mcb k x) = HR_CFG_MUTEX_MAGIC \<and> mowner (mcb k x) \<noteq> None \<and>
          hr_task_is_valid (mowner (mcb k x)) k \<and> mowner (mcb k x) \<noteq> Some t
       then recompute_loop room (mowner (mcb k x)) k
       else Some (HR_OK, k)
     }
     else Some (HR_OK, k)
   }"

definition hr_mutex_recompute_task_priority ::
  "task_ptr option \<Rightarrow> nat \<Rightarrow> hr_kernel \<Rightarrow> (hr_status \<times> hr_kernel) option" where
  "hr_mutex_recompute_task_priority task depth k = recompute_loop (HR_CFG_MAX_TASKS + 1 - depth) task k"

definition hr_mutex_recompute_owner_priority ::
  "mutex_ptr option \<Rightarrow> hr_kernel \<Rightarrow> (hr_status \<times> hr_kernel) option" where
  "hr_mutex_recompute_owner_priority mutex k =
     (case mutex of
        None \<Rightarrow> Some (HR_ERROR_INVALID_ARGUMENT, k)
      | Some x \<Rightarrow>
          if mmagic (mcb k x) \<noteq> HR_CFG_MUTEX_MAGIC then Some (HR_ERROR_INVALID_ARGUMENT, k)
          else if mowner (mcb k x) = None then Some (HR_OK, k)
          else if \<not> hr_task_is_valid (mowner (mcb k x)) k then Some (HR_ERROR_INTERNAL, k)
          else hr_mutex_recompute_task_priority (mowner (mcb k x)) 0 k)"

definition hr_mutex_wait_cleanup :: "task_ptr option \<Rightarrow> hr_status \<Rightarrow> hr_kernel \<Rightarrow> hr_kernel option" where
  "hr_mutex_wait_cleanup task result k =
     (case task of
        None \<Rightarrow> Some k
      | Some t \<Rightarrow>
          if result \<noteq> HR_ERROR_TIMEOUT \<or> twait_kind (tcb k t) \<noteq> HR_TASK_WAIT_MUTEX_LOCK \<or>
             twaiting_object (tcb k t) = None
          then Some k
          else do {
            x \<leftarrow> wait_object_mutex (the (twaiting_object (tcb k t)));
            (_, k) \<leftarrow> hr_mutex_recompute_owner_priority (Some x) k;
            Some k
          })"

text \<open>The call through the clean-up pointer of a control block.\<close>

definition call_cleanup :: "wait_cleanup \<Rightarrow> task_ptr \<Rightarrow> hr_status \<Rightarrow> hr_kernel \<Rightarrow> hr_kernel option" where
  "call_cleanup c t result k = (case c of Cleanup_mutex \<Rightarrow> hr_mutex_wait_cleanup (Some t) result k)"

end
