(* ===== verification/HR_Kernel.thy ===== *)
theory HR_Kernel
  imports HR_Priority
begin

text \<open>
  The kernel operations of \<open>kernel/src/hr_kernel.c\<close> up to the PendSV selection, and the task
  calls of \<open>hr_task.c\<close> that lead to them. The tick handler needs the software timers and
  follows in \<open>HR_Tick\<close>. An out-parameter \<open>bool *\<close> is an \<open>bool option\<close> that
  goes in and comes out: \<open>None\<close> is the NULL pointer.
\<close>

section \<open>Switch reasons and time slices\<close>

abbreviation (input) HR_SWITCH_REASON_NONE :: "32 word" where "HR_SWITCH_REASON_NONE \<equiv> 0"
abbreviation (input) HR_SWITCH_REASON_YIELD :: "32 word" where "HR_SWITCH_REASON_YIELD \<equiv> 1"
abbreviation (input) HR_SWITCH_REASON_BLOCK :: "32 word" where "HR_SWITCH_REASON_BLOCK \<equiv> 2"
abbreviation (input) HR_SWITCH_REASON_PREEMPT :: "32 word" where "HR_SWITCH_REASON_PREEMPT \<equiv> 4"
abbreviation (input) HR_SWITCH_REASON_TIME_SLICE :: "32 word" where "HR_SWITCH_REASON_TIME_SLICE \<equiv> 8"

definition hr_kernel_panic :: "hr_kernel \<Rightarrow> hr_kernel" where
  "hr_kernel_panic k = k\<lparr>g_kernel_state := HR_KERNEL_STATE_PANIC\<rparr>"

definition hr_kernel_mark_switch_reason :: "32 word \<Rightarrow> hr_kernel \<Rightarrow> hr_kernel" where
  "hr_kernel_mark_switch_reason reason k = k\<lparr>g_switch_reasons := g_switch_reasons k OR reason\<rparr>"

definition hr_kernel_reload_time_slice :: "task_ptr option \<Rightarrow> hr_kernel \<Rightarrow> hr_kernel" where
  "hr_kernel_reload_time_slice control_block k =
     (case control_block of
        None \<Rightarrow> k
      | Some t \<Rightarrow> upd_tcb t (\<lambda>c. c\<lparr>ttime_slice_remaining := HR_CFG_TIME_SLICE_TICKS\<rparr>) k)"

definition hr_kernel_is_running :: "hr_kernel \<Rightarrow> bool" where
  "hr_kernel_is_running k \<longleftrightarrow> g_kernel_state k = HR_KERNEL_STATE_RUNNING"

definition hr_kernel_get_state :: "hr_kernel \<Rightarrow> hr_kernel_state" where
  "hr_kernel_get_state k = g_kernel_state k"

definition hr_kernel_get_tick :: "hr_kernel \<Rightarrow> hr_tick" where
  "hr_kernel_get_tick k = g_kernel_tick k"

definition hr_kernel_get_task_count :: "hr_kernel \<Rightarrow> nat" where
  "hr_kernel_get_task_count k = g_task_count k"

definition hr_kernel_current_task_internal :: "hr_kernel \<Rightarrow> task_ptr option" where
  "hr_kernel_current_task_internal k = g_current_task k"

definition hr_task_current :: "hr_kernel \<Rightarrow> task_ptr option" where
  "hr_task_current k = hr_kernel_current_task_internal k"

section \<open>Registration and start\<close>

definition hr_kernel_register_task :: "task_ptr option \<Rightarrow> hr_kernel \<Rightarrow> (hr_status \<times> hr_kernel) option" where
  "hr_kernel_register_task task k =
     (case task of
        None \<Rightarrow> Some (HR_ERROR_INVALID_STATE, k)
      | Some t \<Rightarrow>
          if g_kernel_state k \<noteq> HR_KERNEL_STATE_INITIALIZED \<or> \<not> hr_task_is_valid task k
          then Some (HR_ERROR_INVALID_STATE, k)
          else if g_task_count k \<ge> HR_CFG_MAX_TASKS then Some (HR_ERROR_NO_MEMORY, k)
          else if t \<noteq> g_idle_task \<and> teffective_priority (tcb k t) = HR_CFG_IDLE_PRIORITY
          then Some (HR_ERROR_INVALID_ARGUMENT, k)
          else if tstate (tcb k t) \<noteq> HR_TASK_STATE_CREATED \<or>
                  hr_list_node_is_linked (Some (ReadyNode t)) (kmem k) \<or>
                  hr_list_node_is_linked (Some (AllTaskNode t)) (kmem k)
          then Some (HR_ERROR_INVALID_STATE, k)
          else do {
            (status, k) \<leftarrow> add_ready t k;
            if status \<noteq> HR_OK then Some (status, k)
            else do {
              (status, k) \<leftarrow> on_mem (hr_list_push_back (Some AllTasks) (Some (AllTaskNode t))) k;
              if status \<noteq> HR_OK then do {
                (_, k) \<leftarrow> remove_ready t k;
                Some (status, k)
              }
              else do {
                let (status, k) = hr_task_transition_state task HR_TASK_STATE_CREATED HR_TASK_STATE_READY k;
                if status \<noteq> HR_OK then do {
                  (_, k) \<leftarrow> on_mem (hr_list_remove (Some (AllTaskNode t))) k;
                  (_, k) \<leftarrow> remove_ready t k;
                  Some (status, k)
                }
                else do {
                  let k = hr_kernel_reload_time_slice task k;
                  Some (HR_OK, k\<lparr>g_task_count := g_task_count k + 1\<rparr>)
                }
              }
            }
          })"

definition hr_task_start :: "task_ptr option \<Rightarrow> hr_kernel \<Rightarrow> (hr_status \<times> hr_kernel) option" where
  "hr_task_start task k =
     (if \<not> hr_task_is_valid task k then Some (HR_ERROR_INVALID_ARGUMENT, k)
      else hr_kernel_register_task task k)"

text \<open>
  The addresses of the idle task's entry function and stack come from the linker and are
  arguments.
\<close>

definition hr_kernel_init :: "32 word \<Rightarrow> 32 word \<Rightarrow> hr_kernel \<Rightarrow> (hr_status \<times> hr_kernel) option" where
  "hr_kernel_init idle_entry idle_stack k =
     (if g_kernel_state k \<noteq> HR_KERNEL_STATE_RESET then Some (HR_ERROR_INVALID_STATE, k)
      else do {
        let m = hr_scheduler_init (Some G_scheduler) (kmem k);
        let m = hr_list_init (Some AllTasks) m;
        let m = hr_timeout_list_init (Some G_timeout_list) 0 m;
        let k = k\<lparr>kmem := m, g_current_task := None, g_hr_current_task_control_block := None,
                 g_task_count := 0, g_kernel_tick := 0, g_switch_reasons := HR_SWITCH_REASON_NONE,
                 g_timer_system_initialized := False, g_kernel_state := HR_KERNEL_STATE_INITIALIZED\<rparr>;
        let (status, k) = hr_task_create_static (Some g_idle_task) (Some ''idle'') (Some idle_entry) 0
                            (Some idle_stack) 128 HR_CFG_IDLE_PRIORITY k;
        if status \<noteq> HR_OK then Some (status, hr_kernel_panic k)
        else do {
          (status, k) \<leftarrow> hr_task_start (Some g_idle_task) k;
          if status \<noteq> HR_OK then Some (status, hr_kernel_panic k)
          else Some (HR_OK, k)
        }
      })"

definition hr_kernel_prepare_start :: "hr_kernel \<Rightarrow> (hr_status \<times> hr_kernel) option" where
  "hr_kernel_prepare_start k =
     (if g_kernel_state k \<noteq> HR_KERNEL_STATE_INITIALIZED then Some (HR_ERROR_INVALID_STATE, k)
      else
        (case hr_scheduler_select_highest (Some G_scheduler) (kmem k) of
           None \<Rightarrow> Some (HR_ERROR_INTERNAL, k)
         | Some ready_node \<Rightarrow> do {
             selected_task \<leftarrow> as_task (hr_list_node_owner (Some ready_node) (kmem k));
             (case selected_task of
                None \<Rightarrow> Some (HR_ERROR_INTERNAL, k)
              | Some t \<Rightarrow>
                  if \<not> hr_task_is_valid selected_task k then Some (HR_ERROR_INTERNAL, k)
                  else if tstate (tcb k t) \<noteq> HR_TASK_STATE_READY then Some (HR_ERROR_INVALID_STATE, k)
                  else do {
                    let (status, k) = hr_task_transition_state selected_task HR_TASK_STATE_READY HR_TASK_STATE_RUNNING k;
                    if status \<noteq> HR_OK then Some (HR_ERROR_INVALID_STATE, k)
                    else do {
                      let k = hr_kernel_reload_time_slice selected_task k;
                      Some (HR_OK, k\<lparr>g_current_task := selected_task,
                                     g_hr_current_task_control_block := selected_task,
                                     g_kernel_state := HR_KERNEL_STATE_RUNNING\<rparr>)
                    }
                  })
           }))"

section \<open>Yield, delay, suspension and resumption\<close>

definition hr_kernel_request_yield :: "hr_kernel \<Rightarrow> hr_kernel" where
  "hr_kernel_request_yield k =
     (let (irq_state, k) = hr_port_enter_critical k;
          request_switch = (g_kernel_state k = HR_KERNEL_STATE_RUNNING \<and>
            (case g_current_task k of None \<Rightarrow> False | Some t \<Rightarrow> tstate (tcb k t) = HR_TASK_STATE_RUNNING));
          k = (if request_switch then hr_kernel_mark_switch_reason HR_SWITCH_REASON_YIELD k else k);
          k = hr_port_exit_critical irq_state k
      in if request_switch then hr_port_request_context_switch k else k)"

definition hr_kernel_delay_current :: "hr_tick \<Rightarrow> hr_kernel \<Rightarrow> (hr_status \<times> hr_kernel) option" where
  "hr_kernel_delay_current delay_ticks k =
     (case g_current_task k of
        None \<Rightarrow> Some (HR_ERROR_INVALID_STATE, k)
      | Some t \<Rightarrow>
          if g_kernel_state k \<noteq> HR_KERNEL_STATE_RUNNING \<or> t = g_idle_task \<or> delay_ticks = 0 \<or>
             delay_ticks = HR_WAIT_FOREVER
          then Some (HR_ERROR_INVALID_STATE, k)
          else if tstate (tcb k t) \<noteq> HR_TASK_STATE_RUNNING \<or>
                  \<not> hr_list_node_is_linked (Some (ReadyNode t)) (kmem k) \<or>
                  hr_list_node_is_linked (Some (TimeoutNode t)) (kmem k)
          then Some (HR_ERROR_INVALID_STATE, k)
          else do {
            (status, k) \<leftarrow> remove_ready t k;
            if status \<noteq> HR_OK then Some (status, k)
            else do {
              (status, k) \<leftarrow> on_mem (hr_timeout_list_insert (Some G_timeout_list) (Some (TimeoutNode t)) delay_ticks) k;
              if status \<noteq> HR_OK then do {
                (_, k) \<leftarrow> add_ready t k;
                Some (status, k)
              }
              else do {
                let (status, k) = hr_task_transition_state (Some t) HR_TASK_STATE_RUNNING HR_TASK_STATE_BLOCKED k;
                if status \<noteq> HR_OK then do {
                  (_, k) \<leftarrow> on_mem (hr_timeout_list_remove (Some G_timeout_list) (Some (TimeoutNode t))) k;
                  (_, k) \<leftarrow> add_ready t k;
                  Some (status, k)
                }
                else do {
                  let k = upd_tcb t (\<lambda>c. c\<lparr>twake_tick := g_kernel_tick k + delay_ticks,
                    twaiting_object := Some Obj_timeout_list, tblocked_wait_list := None,
                    twait_buffer := None, twait_result := HR_OK, twait_kind := HR_TASK_WAIT_DELAY\<rparr>) k;
                  let k = hr_kernel_reload_time_slice (Some t) k;
                  Some (HR_OK, hr_kernel_mark_switch_reason HR_SWITCH_REASON_BLOCK k)
                }
              }
            }
          })"

definition hr_kernel_suspend_task ::
  "task_ptr option \<Rightarrow> bool option \<Rightarrow> hr_kernel \<Rightarrow> ((hr_status \<times> bool option) \<times> hr_kernel) option" where
  "hr_kernel_suspend_task task switch_required k =
     (let sw = map_option (\<lambda>_. False) switch_required
      in case task of
        None \<Rightarrow> Some ((HR_ERROR_INVALID_STATE, sw), k)
      | Some t \<Rightarrow>
          if g_kernel_state k \<noteq> HR_KERNEL_STATE_RUNNING \<or> \<not> hr_task_is_valid task k \<or> t = g_idle_task
          then Some ((HR_ERROR_INVALID_STATE, sw), k)
          else
            (case tstate (tcb k t) of
               HR_TASK_STATE_READY \<Rightarrow>
                 if \<not> hr_list_node_is_linked (Some (ReadyNode t)) (kmem k)
                 then Some ((HR_ERROR_INTERNAL, sw), k)
                 else do {
                   (status, k) \<leftarrow> remove_ready t k;
                   if status \<noteq> HR_OK then Some ((status, sw), k)
                   else do {
                     let (status, k) = hr_task_transition_state task HR_TASK_STATE_READY HR_TASK_STATE_SUSPENDED k;
                     if status \<noteq> HR_OK then do {
                       (_, k) \<leftarrow> add_ready t k;
                       Some ((status, sw), k)
                     }
                     else Some ((HR_OK, sw),
                       upd_tcb t (\<lambda>c. c\<lparr>tsuspended_resume_state := HR_TASK_STATE_READY\<rparr>) k)
                   }
                 }
             | HR_TASK_STATE_RUNNING \<Rightarrow>
                 if task \<noteq> g_current_task k \<or> \<not> hr_list_node_is_linked (Some (ReadyNode t)) (kmem k)
                 then Some ((HR_ERROR_INVALID_STATE, sw), k)
                 else do {
                   (status, k) \<leftarrow> remove_ready t k;
                   if status \<noteq> HR_OK then Some ((status, sw), k)
                   else do {
                     let (status, k) = hr_task_transition_state task HR_TASK_STATE_RUNNING HR_TASK_STATE_SUSPENDED k;
                     if status \<noteq> HR_OK then do {
                       (_, k) \<leftarrow> add_ready t k;
                       Some ((status, sw), k)
                     }
                     else do {
                       let k = upd_tcb t (\<lambda>c. c\<lparr>tsuspended_resume_state := HR_TASK_STATE_READY\<rparr>) k;
                       let k = hr_kernel_reload_time_slice task k;
                       let k = hr_kernel_mark_switch_reason HR_SWITCH_REASON_BLOCK k;
                       Some ((HR_OK, map_option (\<lambda>_. True) sw), k)
                     }
                   }
                 }
             | HR_TASK_STATE_BLOCKED \<Rightarrow>
                 if twait_kind (tcb k t) = HR_TASK_WAIT_NONE \<or> twaiting_object (tcb k t) = None \<or>
                    hr_list_node_is_linked (Some (ReadyNode t)) (kmem k)
                 then Some ((HR_ERROR_INTERNAL, sw), k)
                 else
                   (let (status, k) = hr_task_transition_state task HR_TASK_STATE_BLOCKED HR_TASK_STATE_SUSPENDED k
                    in if status \<noteq> HR_OK then Some ((status, sw), k)
                       else Some ((HR_OK, sw),
                         upd_tcb t (\<lambda>c. c\<lparr>tsuspended_resume_state := HR_TASK_STATE_BLOCKED\<rparr>) k))
             | _ \<Rightarrow> Some ((HR_ERROR_INVALID_STATE, sw), k)))"

definition hr_kernel_resume_task ::
  "task_ptr option \<Rightarrow> bool option \<Rightarrow> hr_kernel \<Rightarrow> ((hr_status \<times> bool option) \<times> hr_kernel) option" where
  "hr_kernel_resume_task task switch_required k =
     (let sw = map_option (\<lambda>_. False) switch_required
      in case task of
        None \<Rightarrow> Some ((HR_ERROR_INVALID_STATE, sw), k)
      | Some t \<Rightarrow>
          if g_kernel_state k \<noteq> HR_KERNEL_STATE_RUNNING \<or> \<not> hr_task_is_valid task k \<or> t = g_idle_task
          then Some ((HR_ERROR_INVALID_STATE, sw), k)
          else if tstate (tcb k t) \<noteq> HR_TASK_STATE_SUSPENDED then Some ((HR_ERROR_INVALID_STATE, sw), k)
          else if tsuspended_resume_state (tcb k t) = HR_TASK_STATE_BLOCKED then
            (let (status, k) = hr_task_transition_state task HR_TASK_STATE_SUSPENDED HR_TASK_STATE_BLOCKED k;
                 k = (if status = HR_OK
                      then upd_tcb t (\<lambda>c. c\<lparr>tsuspended_resume_state := HR_TASK_STATE_INVALID\<rparr>) k else k)
             in Some ((status, sw), k))
          else if tsuspended_resume_state (tcb k t) \<noteq> HR_TASK_STATE_READY
          then Some ((HR_ERROR_INTERNAL, sw), k)
          else do {
            (status, k) \<leftarrow> add_ready t k;
            if status \<noteq> HR_OK then Some ((status, sw), k)
            else do {
              let (status, k) = hr_task_transition_state task HR_TASK_STATE_SUSPENDED HR_TASK_STATE_READY k;
              if status \<noteq> HR_OK then do {
                (_, k) \<leftarrow> remove_ready t k;
                Some ((status, sw), k)
              }
              else do {
                let k = upd_tcb t (\<lambda>c. c\<lparr>tsuspended_resume_state := HR_TASK_STATE_INVALID\<rparr>) k;
                let k = hr_kernel_reload_time_slice task k;
                (case g_current_task k of
                   None \<Rightarrow> Some ((HR_OK, sw), k)
                 | Some cur \<Rightarrow>
                     if hr_task_is_valid (g_current_task k) k \<and> tstate (tcb k cur) = HR_TASK_STATE_RUNNING \<and>
                        teffective_priority (tcb k t) < teffective_priority (tcb k cur)
                     then Some ((HR_OK, map_option (\<lambda>_. True) sw),
                       hr_kernel_mark_switch_reason HR_SWITCH_REASON_PREEMPT k)
                     else Some ((HR_OK, sw), k))
              }
            }
          })"

section \<open>Blocking and unblocking\<close>

text \<open>The fields of the control block that end a wait.\<close>

definition clear_wait :: "hr_status \<Rightarrow> hr_task_control_block \<Rightarrow> hr_task_control_block" where
  "clear_wait result c = c\<lparr>twaiting_object := None, tblocked_wait_list := None, twait_buffer := None,
     twait_cleanup := None, twait_result := result, twait_kind := HR_TASK_WAIT_NONE\<rparr>"

definition suspended_wait :: "hr_task_control_block \<Rightarrow> bool" where
  "suspended_wait c \<longleftrightarrow>
     tstate c = HR_TASK_STATE_SUSPENDED \<and> tsuspended_resume_state c = HR_TASK_STATE_BLOCKED"

definition hr_kernel_make_task_ready ::
  "task_ptr option \<Rightarrow> hr_status \<Rightarrow> bool option \<Rightarrow> hr_kernel \<Rightarrow> ((hr_status \<times> bool option) \<times> hr_kernel) option" where
  "hr_kernel_make_task_ready control_block result woken k =
     (case control_block of
        None \<Rightarrow> Some ((HR_ERROR_INVALID_STATE, woken), k)
      | Some t \<Rightarrow>
          (let sus = suspended_wait (tcb k t)
           in if tstate (tcb k t) \<noteq> HR_TASK_STATE_BLOCKED \<and> \<not> sus
              then Some ((HR_ERROR_INVALID_STATE, woken), k)
              else do {
                task \<leftarrow> as_task (hr_list_node_owner (Some (ReadyNode t)) (kmem k));
                if \<not> hr_task_is_valid task k then Some ((HR_ERROR_INTERNAL, woken), k)
                else do {
                  let cleanup = twait_cleanup (tcb k t);
                  (status, k) \<leftarrow>
                    (if tblocked_wait_list (tcb k t) \<noteq> None
                     then on_mem (hr_wait_list_remove (tblocked_wait_list (tcb k t)) (Some (WaitNode t))) k
                     else Some (HR_OK, k));
                  if status \<noteq> HR_OK then Some ((status, woken), k)
                  else do {
                    (status, k) \<leftarrow>
                      (if hr_list_node_is_linked (Some (TimeoutNode t)) (kmem k)
                       then on_mem (hr_timeout_list_remove (Some G_timeout_list) (Some (TimeoutNode t))) k
                       else Some (HR_OK, k));
                    if status \<noteq> HR_OK then Some ((status, woken), k)
                    else do {
                      k \<leftarrow> (case cleanup of None \<Rightarrow> Some k | Some c \<Rightarrow> call_cleanup c t result k);
                      let k = upd_tcb t (clear_wait result) k;
                      let k = hr_kernel_reload_time_slice (Some t) k;
                      if sus
                      then Some ((HR_OK, map_option (\<lambda>_. False) woken),
                        upd_tcb t (\<lambda>c. c\<lparr>tsuspended_resume_state := HR_TASK_STATE_READY\<rparr>) k)
                      else do {
                        (status, k) \<leftarrow> add_ready t k;
                        if status \<noteq> HR_OK then Some ((status, woken), k)
                        else do {
                          let (status, k) = hr_task_transition_state task HR_TASK_STATE_BLOCKED HR_TASK_STATE_READY k;
                          if status \<noteq> HR_OK then do {
                            (_, k) \<leftarrow> remove_ready t k;
                            Some ((status, woken), k)
                          }
                          else Some ((HR_OK,
                            map_option (\<lambda>_.
                              case g_current_task k of
                                None \<Rightarrow> False
                              | Some cur \<Rightarrow>
                                  hr_task_is_valid (g_current_task k) k \<and>
                                  tstate (tcb k cur) = HR_TASK_STATE_RUNNING \<and>
                                  teffective_priority (tcb k t) < teffective_priority (tcb k cur)) woken), k)
                        }
                      }
                    }
                  }
                }
              }))"

definition hr_kernel_block_current_on_wait_list_ex ::
  "list_addr option \<Rightarrow> wait_object option \<Rightarrow> hr_task_wait_kind \<Rightarrow> byte_ptr option \<Rightarrow> hr_tick \<Rightarrow>
   wait_cleanup option \<Rightarrow> hr_kernel \<Rightarrow> (hr_status \<times> hr_kernel) option" where
  "hr_kernel_block_current_on_wait_list_ex wait_list object wait_kind buffer timeout cleanup k =
     (case g_current_task k of
        None \<Rightarrow> Some (HR_ERROR_INVALID_ARGUMENT, k)
      | Some t \<Rightarrow>
          if g_kernel_state k \<noteq> HR_KERNEL_STATE_RUNNING \<or> t = g_idle_task \<or> wait_list = None \<or> object = None \<or>
             (wait_kind \<noteq> HR_TASK_WAIT_QUEUE_SEND \<and> wait_kind \<noteq> HR_TASK_WAIT_QUEUE_RECEIVE \<and>
              wait_kind \<noteq> HR_TASK_WAIT_SEMAPHORE_TAKE \<and> wait_kind \<noteq> HR_TASK_WAIT_MUTEX_LOCK) \<or>
             ((wait_kind = HR_TASK_WAIT_QUEUE_SEND \<or> wait_kind = HR_TASK_WAIT_QUEUE_RECEIVE) \<and> buffer = None) \<or>
             timeout = HR_NO_WAIT
          then Some (HR_ERROR_INVALID_ARGUMENT, k)
          else if tstate (tcb k t) \<noteq> HR_TASK_STATE_RUNNING \<or>
                  \<not> hr_list_node_is_linked (Some (ReadyNode t)) (kmem k) \<or>
                  hr_list_node_is_linked (Some (WaitNode t)) (kmem k) \<or>
                  hr_list_node_is_linked (Some (TimeoutNode t)) (kmem k)
          then Some (HR_ERROR_INVALID_STATE, k)
          else do {
            (status, k) \<leftarrow> remove_ready t k;
            if status \<noteq> HR_OK then Some (status, k)
            else do {
              (status, k) \<leftarrow> on_mem (hr_wait_list_insert wait_list (Some (WaitNode t))) k;
              if status \<noteq> HR_OK then do {
                (_, k) \<leftarrow> add_ready t k;
                Some (status, k)
              }
              else do {
                (status, k) \<leftarrow>
                  (if timeout \<noteq> HR_WAIT_FOREVER
                   then on_mem (hr_timeout_list_insert (Some G_timeout_list) (Some (TimeoutNode t)) timeout) k
                   else Some (HR_OK, k));
                if status \<noteq> HR_OK then do {
                  (_, k) \<leftarrow> on_mem (hr_wait_list_remove wait_list (Some (WaitNode t))) k;
                  (_, k) \<leftarrow> add_ready t k;
                  Some (status, k)
                }
                else do {
                  let (status, k) = hr_task_transition_state (Some t) HR_TASK_STATE_RUNNING HR_TASK_STATE_BLOCKED k;
                  if status \<noteq> HR_OK then do {
                    (_, k) \<leftarrow>
                      (if hr_list_node_is_linked (Some (TimeoutNode t)) (kmem k)
                       then on_mem (hr_timeout_list_remove (Some G_timeout_list) (Some (TimeoutNode t))) k
                       else Some (HR_OK, k));
                    (_, k) \<leftarrow> on_mem (hr_wait_list_remove wait_list (Some (WaitNode t))) k;
                    (_, k) \<leftarrow> add_ready t k;
                    Some (status, k)
                  }
                  else do {
                    let k = upd_tcb t (\<lambda>c. c\<lparr>
                      twake_tick := (if timeout = HR_WAIT_FOREVER then 0 else g_kernel_tick k + timeout),
                      twaiting_object := object, tblocked_wait_list := wait_list, twait_buffer := buffer,
                      twait_cleanup := cleanup, twait_result := HR_ERROR_INTERNAL, twait_kind := wait_kind\<rparr>) k;
                    let k = hr_kernel_reload_time_slice (Some t) k;
                    Some (HR_OK, hr_kernel_mark_switch_reason HR_SWITCH_REASON_BLOCK k)
                  }
                }
              }
            }
          })"

definition hr_kernel_block_current_on_wait_list ::
  "list_addr option \<Rightarrow> wait_object option \<Rightarrow> hr_task_wait_kind \<Rightarrow> byte_ptr option \<Rightarrow> hr_tick \<Rightarrow>
   hr_kernel \<Rightarrow> (hr_status \<times> hr_kernel) option" where
  "hr_kernel_block_current_on_wait_list wait_list object wait_kind buffer timeout k =
     hr_kernel_block_current_on_wait_list_ex wait_list object wait_kind buffer timeout None k"

definition hr_kernel_unblock_waiter ::
  "node_addr option \<Rightarrow> hr_status \<Rightarrow> bool option \<Rightarrow> hr_kernel \<Rightarrow> ((hr_status \<times> bool option) \<times> hr_kernel) option" where
  "hr_kernel_unblock_waiter wait_node result woken k =
     (case wait_node of
        None \<Rightarrow> Some ((HR_ERROR_INVALID_ARGUMENT, woken), k)
      | Some n \<Rightarrow> do {
          task \<leftarrow> as_task (hr_list_node_owner (Some n) (kmem k));
          if \<not> hr_task_is_valid task k then Some ((HR_ERROR_INTERNAL, woken), k)
          else hr_kernel_make_task_ready (hr_task_control_block task) result woken k
        })"

section \<open>Selection of the next task\<close>

text \<open>
  The first half of \<open>hr_kernel_select_next_from_pendsv\<close>: what happens to the current task
  before the selection. The boolean is false when the kernel panicked.
\<close>

definition pendsv_current :: "task_ptr \<Rightarrow> 32 word \<Rightarrow> hr_kernel \<Rightarrow> (bool \<times> hr_kernel) option" where
  "pendsv_current cur switch_reasons k =
     (case tstate (tcb k cur) of
        HR_TASK_STATE_RUNNING \<Rightarrow>
          (case hr_scheduler_select_highest (Some G_scheduler) (kmem k) of
             None \<Rightarrow> Some (False, hr_kernel_panic k)
           | Some selected \<Rightarrow>
               if hr_list_node_owner (Some selected) (kmem k) = Some (Task_obj cur) \<and>
                  switch_reasons AND (HR_SWITCH_REASON_YIELD OR HR_SWITCH_REASON_TIME_SLICE) \<noteq> 0
               then do {
                 let k = (if switch_reasons AND HR_SWITCH_REASON_YIELD \<noteq> 0
                          then hr_kernel_reload_time_slice (Some cur) k else k);
                 (status, k) \<leftarrow> on_mem (hr_scheduler_yield_current (Some G_scheduler) (Some (ReadyNode cur))) k;
                 if status \<noteq> HR_OK then Some (False, hr_kernel_panic k) else Some (True, k)
               }
               else Some (True, k))
      | HR_TASK_STATE_READY \<Rightarrow> Some (True, k)
      | HR_TASK_STATE_BLOCKED \<Rightarrow> Some (True, k)
      | HR_TASK_STATE_SUSPENDED \<Rightarrow> Some (True, k)
      | _ \<Rightarrow> Some (False, hr_kernel_panic k))"

text \<open>The second half: the highest ready task becomes the current one.\<close>

definition pendsv_switch :: "task_ptr \<Rightarrow> hr_kernel \<Rightarrow> hr_kernel option" where
  "pendsv_switch cur k =
     (case hr_scheduler_select_highest (Some G_scheduler) (kmem k) of
        None \<Rightarrow> Some (hr_kernel_panic k)
      | Some next_ready_node \<Rightarrow> do {
          next_task \<leftarrow> as_task (hr_list_node_owner (Some next_ready_node) (kmem k));
          (case next_task of
             None \<Rightarrow> Some (hr_kernel_panic k)
           | Some nxt \<Rightarrow>
               if \<not> hr_task_is_valid next_task k then Some (hr_kernel_panic k)
               else if nxt \<noteq> cur then
                 (if tstate (tcb k nxt) \<noteq> HR_TASK_STATE_READY then Some (hr_kernel_panic k)
                  else do {
                    let (st1, k) =
                      (if tstate (tcb k cur) = HR_TASK_STATE_RUNNING
                       then hr_task_transition_state (Some cur) HR_TASK_STATE_RUNNING HR_TASK_STATE_READY k
                       else (HR_OK, k));
                    if st1 \<noteq> HR_OK then Some (hr_kernel_panic k)
                    else do {
                      let (st2, k) = hr_task_transition_state next_task HR_TASK_STATE_READY HR_TASK_STATE_RUNNING k;
                      if st2 \<noteq> HR_OK then Some (hr_kernel_panic k)
                      else Some (k\<lparr>g_current_task := next_task, g_hr_current_task_control_block := next_task\<rparr>)
                    }
                  })
               else do {
                 let (st, k) =
                   (if tstate (tcb k cur) = HR_TASK_STATE_READY
                    then hr_task_transition_state (Some cur) HR_TASK_STATE_READY HR_TASK_STATE_RUNNING k
                    else (HR_OK, k));
                 if st \<noteq> HR_OK then Some (hr_kernel_panic k)
                 else Some (k\<lparr>g_current_task := next_task, g_hr_current_task_control_block := next_task\<rparr>)
               })
        })"

definition hr_kernel_select_next_from_pendsv :: "hr_kernel \<Rightarrow> hr_kernel option" where
  "hr_kernel_select_next_from_pendsv k =
     (let switch_reasons = g_switch_reasons k;
          k = k\<lparr>g_switch_reasons := HR_SWITCH_REASON_NONE\<rparr>
      in case g_current_task k of
           None \<Rightarrow> Some (hr_kernel_panic k)
         | Some cur \<Rightarrow>
             if g_kernel_state k \<noteq> HR_KERNEL_STATE_RUNNING \<or> g_hr_current_task_control_block k = None
             then Some (hr_kernel_panic k)
             else do {
               (ok, k) \<leftarrow> pendsv_current cur switch_reasons k;
               if ok then pendsv_switch cur k else Some k
             })"

text \<open>The PendSV exception: the pending bit is cleared on entry, then the handler selects.\<close>

definition pendsv_exception :: "hr_kernel \<Rightarrow> hr_kernel option" where
  "pendsv_exception k = hr_kernel_select_next_from_pendsv (k\<lparr>pendsv := False\<rparr>)"

definition hr_kernel_current_should_preempt :: "hr_kernel \<Rightarrow> bool" where
  "hr_kernel_current_should_preempt k =
     (case g_current_task k of
        None \<Rightarrow> False
      | Some cur \<Rightarrow>
          g_kernel_state k = HR_KERNEL_STATE_RUNNING \<and> hr_task_is_valid (g_current_task k) k \<and>
          tstate (tcb k cur) = HR_TASK_STATE_RUNNING \<and>
          hr_scheduler_should_preempt (Some G_scheduler) (Some (ReadyNode cur)) (kmem k))"

section \<open>Task calls\<close>

definition hr_task_yield :: "hr_kernel \<Rightarrow> hr_kernel" where
  "hr_task_yield k =
     (if hr_kernel_is_running k \<and> \<not> hr_port_is_inside_isr k then hr_kernel_request_yield k else k)"

definition hr_task_delay :: "hr_tick \<Rightarrow> hr_kernel \<Rightarrow> (hr_status \<times> hr_kernel) option" where
  "hr_task_delay ticks k =
     (if \<not> hr_kernel_is_running k \<or> hr_port_is_inside_isr k then Some (HR_ERROR_INVALID_STATE, k)
      else if ticks = 0 then Some (HR_OK, hr_task_yield k)
      else if ticks = HR_WAIT_FOREVER then Some (HR_ERROR_INVALID_ARGUMENT, k)
      else do {
        let (irq_state, k) = hr_port_enter_critical k;
        (status, k) \<leftarrow> hr_kernel_delay_current ticks k;
        let k = hr_port_exit_critical irq_state k;
        Some (status, if status = HR_OK then hr_port_request_context_switch k else k)
      })"

definition hr_task_delay_until ::
  "hr_tick option \<Rightarrow> hr_tick \<Rightarrow> hr_kernel \<Rightarrow> ((hr_status \<times> hr_tick option) \<times> hr_kernel) option" where
  "hr_task_delay_until last_wake_tick period k =
     (case last_wake_tick of
        None \<Rightarrow> Some ((HR_ERROR_INVALID_ARGUMENT, None), k)
      | Some lw \<Rightarrow>
          if \<not> hr_kernel_is_running k \<or> hr_port_is_inside_isr k
          then Some ((HR_ERROR_INVALID_STATE, last_wake_tick), k)
          else if period = 0 \<or> period > 0x7FFFFFFF
          then Some ((HR_ERROR_INVALID_ARGUMENT, last_wake_tick), k)
          else do {
            let (irq_state, k) = hr_port_enter_critical k;
            let now = hr_kernel_get_tick k;
            let next_wake = lw + period;
            let remaining_ticks = next_wake - now;
            let should_block = (remaining_ticks \<noteq> 0 \<and> remaining_ticks \<le> 0x7FFFFFFF);
            (status, k) \<leftarrow> (if should_block then hr_kernel_delay_current remaining_ticks k else Some (HR_OK, k));
            let lw = (if status = HR_OK then next_wake else lw);
            let k = hr_port_exit_critical irq_state k;
            Some ((status, Some lw),
              if status = HR_OK \<and> should_block then hr_port_request_context_switch k else k)
          })"

definition hr_task_suspend :: "task_ptr option \<Rightarrow> hr_kernel \<Rightarrow> (hr_status \<times> hr_kernel) option" where
  "hr_task_suspend task k =
     (if \<not> hr_task_is_valid task k then Some (HR_ERROR_INVALID_ARGUMENT, k)
      else if \<not> hr_kernel_is_running k \<or> hr_port_is_inside_isr k
      then Some (if hr_port_is_inside_isr k then HR_ERROR_FROM_ISR else HR_ERROR_INVALID_STATE, k)
      else do {
        let (irq_state, k) = hr_port_enter_critical k;
        ((status, switch_required), k) \<leftarrow> hr_kernel_suspend_task task (Some False) k;
        let k = hr_port_exit_critical irq_state k;
        Some (status, if status = HR_OK \<and> switch_required = Some True
                      then hr_port_request_context_switch k else k)
      })"

definition hr_task_resume :: "task_ptr option \<Rightarrow> hr_kernel \<Rightarrow> (hr_status \<times> hr_kernel) option" where
  "hr_task_resume task k =
     (if \<not> hr_task_is_valid task k then Some (HR_ERROR_INVALID_ARGUMENT, k)
      else if \<not> hr_kernel_is_running k \<or> hr_port_is_inside_isr k
      then Some (if hr_port_is_inside_isr k then HR_ERROR_FROM_ISR else HR_ERROR_INVALID_STATE, k)
      else do {
        let (irq_state, k) = hr_port_enter_critical k;
        ((status, switch_required), k) \<leftarrow> hr_kernel_resume_task task (Some False) k;
        let k = hr_port_exit_critical irq_state k;
        Some (status, if status = HR_OK \<and> switch_required = Some True
                      then hr_port_request_context_switch k else k)
      })"

section \<open>Inspection\<close>

record hr_kernel_internal_snapshot =
  snap_task_count :: nat
  snap_ready_task_count :: nat
  snap_timeout_task_count :: nat
  snap_ready_bitmap :: "32 word"
  snap_current_task :: "task_ptr option"

definition hr_kernel_get_internal_snapshot ::
  "hr_kernel_internal_snapshot option \<Rightarrow> hr_kernel \<Rightarrow> hr_status \<times> hr_kernel_internal_snapshot option" where
  "hr_kernel_get_internal_snapshot snapshot k =
     (case snapshot of
        None \<Rightarrow> (HR_ERROR_INVALID_ARGUMENT, None)
      | Some _ \<Rightarrow>
          (HR_OK,
           Some \<lparr>snap_task_count = g_task_count k,
                 snap_ready_task_count = hr_scheduler_ready_count (Some G_scheduler) (kmem k),
                 snap_timeout_task_count = hr_timeout_list_size (Some G_timeout_list) (kmem k),
                 snap_ready_bitmap = hr_scheduler_ready_bitmap (Some G_scheduler) (kmem k),
                 snap_current_task = g_current_task k\<rparr>))"

partial_function (option) task_by_index_loop ::
  "nat \<Rightarrow> nat \<Rightarrow> node_addr option \<Rightarrow> hr_kernel \<Rightarrow> obj_ptr option option" where
  "task_by_index_loop index current_index node k =
     (case node of
        None \<Rightarrow> Some None
      | Some n \<Rightarrow>
          if current_index = index then Some (hr_list_node_owner node (kmem k))
          else task_by_index_loop index (current_index + 1) (hr_list_next (Some AllTasks) node (kmem k)) k)"

definition hr_kernel_get_task_by_index_internal :: "nat \<Rightarrow> hr_kernel \<Rightarrow> obj_ptr option option" where
  "hr_kernel_get_task_by_index_internal index k =
     (if index \<ge> g_task_count k then Some None
      else task_by_index_loop index 0 (hr_list_front (Some AllTasks) (kmem k)) k)"

text \<open>The loop of \<open>hr_kernel_validate_internal\<close> over the registered tasks, with its three counters.\<close>

definition validate_task :: "task_ptr \<Rightarrow> hr_kernel \<Rightarrow> bool" where
  "validate_task t k \<longleftrightarrow>
     (let c = tcb k t;
          ready_linked = hr_list_node_is_linked (Some (ReadyNode t)) (kmem k);
          wait_linked = hr_list_node_is_linked (Some (WaitNode t)) (kmem k);
          timeout_linked = hr_list_node_is_linked (Some (TimeoutNode t)) (kmem k)
      in nlist (nodes (kmem k) (AllTaskNode t)) = Some AllTasks \<and>
         npriority (kmem k) (ReadyNode t) = teffective_priority c \<and>
         npriority (kmem k) (WaitNode t) = teffective_priority c \<and>
         (case tstate c of
            HR_TASK_STATE_READY \<Rightarrow>
              ready_linked \<and> \<not> wait_linked \<and> \<not> timeout_linked \<and> twait_kind c = HR_TASK_WAIT_NONE
          | HR_TASK_STATE_RUNNING \<Rightarrow>
              ready_linked \<and> \<not> wait_linked \<and> \<not> timeout_linked \<and> twait_kind c = HR_TASK_WAIT_NONE \<and>
              g_current_task k = Some t
          | HR_TASK_STATE_BLOCKED \<Rightarrow>
              \<not> ready_linked \<and> twait_kind c \<noteq> HR_TASK_WAIT_NONE \<and> twaiting_object c \<noteq> None \<and>
              (if twait_kind c = HR_TASK_WAIT_DELAY then \<not> wait_linked \<and> timeout_linked else wait_linked)
          | HR_TASK_STATE_SUSPENDED \<Rightarrow>
              \<not> ready_linked \<and>
              (if tsuspended_resume_state c = HR_TASK_STATE_READY
               then \<not> wait_linked \<and> \<not> timeout_linked \<and> twait_kind c = HR_TASK_WAIT_NONE
               else tsuspended_resume_state c = HR_TASK_STATE_BLOCKED \<and>
                    twait_kind c \<noteq> HR_TASK_WAIT_NONE \<and> twaiting_object c \<noteq> None \<and>
                    (if twait_kind c = HR_TASK_WAIT_DELAY then \<not> wait_linked \<and> timeout_linked
                     else wait_linked))
          | _ \<Rightarrow> False))"

partial_function (option) validate_tasks_loop ::
  "node_addr option \<Rightarrow> nat \<Rightarrow> nat \<Rightarrow> nat \<Rightarrow> hr_kernel \<Rightarrow> (bool \<times> nat \<times> nat \<times> nat) option" where
  "validate_tasks_loop node registered_count ready_state_count running_count k =
     (case node of
        None \<Rightarrow> Some (True, registered_count, ready_state_count, running_count)
      | Some n \<Rightarrow> do {
          task \<leftarrow> as_task (hr_list_node_owner node (kmem k));
          (case task of
             None \<Rightarrow> Some (False, registered_count, ready_state_count, running_count)
           | Some t \<Rightarrow>
               if \<not> hr_task_is_valid task k \<or> \<not> validate_task t k
               then Some (False, registered_count, ready_state_count, running_count)
               else validate_tasks_loop (hr_list_next (Some AllTasks) node (kmem k)) (registered_count + 1)
                 (if tstate (tcb k t) = HR_TASK_STATE_READY \<or> tstate (tcb k t) = HR_TASK_STATE_RUNNING
                  then ready_state_count + 1 else ready_state_count)
                 (if tstate (tcb k t) = HR_TASK_STATE_RUNNING then running_count + 1 else running_count) k)
        })"

definition hr_kernel_validate_internal :: "hr_kernel \<Rightarrow> bool option" where
  "hr_kernel_validate_internal k =
     (if \<not> hr_scheduler_validate (Some G_scheduler) (kmem k) \<or> \<not> hr_list_validate (Some AllTasks) (kmem k)
      then Some False
      else do {
        timeouts_ok \<leftarrow> hr_timeout_list_validate (Some G_timeout_list) (kmem k);
        if \<not> timeouts_ok \<or> hr_list_size (Some AllTasks) (kmem k) \<noteq> g_task_count k then Some False
        else do {
          (ok, registered_count, ready_state_count, running_count) \<leftarrow>
            validate_tasks_loop (hr_list_front (Some AllTasks) (kmem k)) 0 0 0 k;
          if \<not> ok \<or> registered_count \<noteq> g_task_count k \<or>
             ready_state_count \<noteq> hr_scheduler_ready_count (Some G_scheduler) (kmem k)
          then Some False
          else if g_kernel_state k = HR_KERNEL_STATE_RUNNING
          then Some (running_count = 1 \<and> g_current_task k \<noteq> None \<and>
                     g_hr_current_task_control_block k = hr_task_control_block (g_current_task k))
          else Some (running_count = 0)
        }
      })"

end
