(* ===== verification/HR_Kernel_Lists.thy ===== *)
theory HR_Kernel_Lists
  imports HR_Kernel
begin

text \<open>
  The lists of the kernel taken together: which node may be in which list, that the ready set,
  the timeout lists and the wait lists stay well-formed under the operations the kernel calls,
  and what a task sees of an operation. A task's view is what its control block says about its
  four embedded list nodes.
\<close>

section \<open>Which node goes where\<close>

fun is_wait_list :: "list_addr \<Rightarrow> bool" where
  "is_wait_list (SemaphoreWaiters s) = True"
| "is_wait_list (SendWaiters q) = True"
| "is_wait_list (ReceiveWaiters q) = True"
| "is_wait_list (MutexWaiters x) = True"
| "is_wait_list _ = False"

fun node_fits :: "node_addr \<Rightarrow> list_addr \<Rightarrow> bool" where
  "node_fits (Root k) l = (l = k)"
| "node_fits (ReadyNode t) l = (case l of ReadyQueue r i \<Rightarrow> i < 8 | _ \<Rightarrow> False)"
| "node_fits (WaitNode t) l = is_wait_list l"
| "node_fits (TimeoutNode t) l =
     (case l of TimeoutList a i \<Rightarrow> a = G_timeout_list \<and> i < 2 | ExpiredNodes \<Rightarrow> True | _ \<Rightarrow> False)"
| "node_fits (AllTaskNode t) l = (l = AllTasks)"
| "node_fits (OwnerNode x) l = (case l of OwnedMutexes t \<Rightarrow> True | _ \<Rightarrow> False)"
| "node_fits (TimerNode x) l =
     (case l of TimeoutList a i \<Rightarrow> a = G_timer_timeouts \<and> i < 2 | ExpiredTimers \<Rightarrow> True | _ \<Rightarrow> False)"
| "node_fits (PendingNode x) l = (l = PendingTimers)"

definition mem_ok :: "mem \<Rightarrow> bool" where
  "mem_ok m \<longleftrightarrow>
     wf_mem m \<and> ready_ok m G_scheduler \<and> inited m AllTasks \<and>
     tcurrent (timeout_lists m G_timeout_list) \<noteq> None \<and>
     (\<forall>a. tcurrent (timeout_lists m a) \<noteq> None \<longrightarrow> timeout_ok m a) \<and>
     (\<forall>x l. nlist (nodes m x) = Some l \<longrightarrow> node_fits x l) \<and>
     (\<forall>l. is_wait_list l \<longrightarrow> inited m l \<longrightarrow> sorted (map (npriority m) (nodes_of m l)))"

lemma mem_okD:
  assumes "mem_ok m"
  shows "wf_mem m" and "ready_ok m G_scheduler" and "inited m AllTasks"
    and "timeout_ok m G_timeout_list"
    and "tcurrent (timeout_lists m a) \<noteq> None \<Longrightarrow> timeout_ok m a"
    and "nlist (nodes m x) = Some l \<Longrightarrow> node_fits x l"
    and "is_wait_list l \<Longrightarrow> inited m l \<Longrightarrow> sorted (map (npriority m) (nodes_of m l))"
  using assms unfolding mem_ok_def by blast+

lemma member_fits: "mem_ok m \<Longrightarrow> inited m l \<Longrightarrow> x \<in> set (nodes_of m l) \<Longrightarrow> node_fits x l"
  using mem_okD(1,6) wf_in_list by blast

lemma ready_node_list:
  assumes "mem_ok m" and "nlist (nodes m (ReadyNode t)) = Some l"
  shows "l = ReadyQueue G_scheduler (unat (npriority m (ReadyNode t)))" and "npriority m (ReadyNode t) < 8"
proof -
  obtain r i where l: "l = ReadyQueue r i" "i < 8"
    using mem_okD(6) [OF assms] by (auto split: list_addr.splits)
  have "ReadyNode t \<in> set (nodes_of m l)"
    using assms wf_nlist [of m "ReadyNode t" l] mem_okD(1) by simp
  then have "unat (npriority m (ReadyNode t)) = i"
    using ready_okD(2) [OF mem_okD(2) [OF assms(1)] l(2)] l by (cases r) simp
  then show "l = ReadyQueue G_scheduler (unat (npriority m (ReadyNode t)))" "npriority m (ReadyNode t) < 8"
    using l by (cases r, simp, simp add: word_less_nat_alt)
qed

lemma wait_node_list:
  "mem_ok m \<Longrightarrow> nlist (nodes m (WaitNode t)) = Some l \<Longrightarrow> is_wait_list l \<and> inited m l"
  using mem_okD(1,6) wf_nlist [of m "WaitNode t" l] by fastforce

section \<open>What is not touched stays well-formed\<close>

lemma ready_ok_frame:
  assumes "ready_ok m r" and "\<And>l. inited m l \<Longrightarrow> inited m' l" and "ready_sets m' = ready_sets m"
    and "\<And>i. i < 8 \<Longrightarrow> ready_queue m' r i = ready_queue m r i"
    and "\<And>i x. i < 8 \<Longrightarrow> x \<in> set (ready_queue m r i) \<Longrightarrow> npriority m' x = npriority m x"
  shows "ready_ok m' r"
proof -
  have "(\<Sum>i < 8. length (ready_queue m' r i)) = (\<Sum>i < 8. length (ready_queue m r i))"
    using assms(4) by (intro sum.cong) auto
  moreover have "i < 8 \<and> ready_queue m' r i \<noteq> [] \<longleftrightarrow> i < 8 \<and> ready_queue m r i \<noteq> []" for i
    using assms(4) by auto
  ultimately show ?thesis
    using assms(1,5) unfolding ready_ok_def by (simp add: assms(2-4))
qed

lemma timeout_lists_of:
  assumes "timeout_ok m a"
  obtains i j where "current_of m a = TimeoutList a i" and "overflow_of m a = TimeoutList a j" and "i < 2" and "j < 2"
  using timeout_okD(4) [OF assms, of "current_of m a"] timeout_okD(4) [OF assms, of "overflow_of m a"]
  by (auto simp: less_2_cases_iff)

lemma timeout_ok_frame:
  assumes "timeout_ok m a" and "\<And>l. inited m l \<Longrightarrow> inited m' l" and "timeout_lists m' a = timeout_lists m a"
    and "\<And>i. i < 2 \<Longrightarrow> nodes_of m' (TimeoutList a i) = nodes_of m (TimeoutList a i)"
    and "\<And>i x. i < 2 \<Longrightarrow> x \<in> set (nodes_of m (TimeoutList a i)) \<Longrightarrow> nwake_tick m' x = nwake_tick m x"
  shows "timeout_ok m' a"
proof -
  have eq: "current_of m' a = current_of m a" "overflow_of m' a = overflow_of m a"
    by (simp_all add: current_of_def overflow_of_def assms(3))
  obtain i j where ij: "current_of m a = TimeoutList a i" "overflow_of m a = TimeoutList a j" "i < 2" "j < 2"
    using timeout_lists_of [OF assms(1)] by blast
  have n: "nodes_of m' (current_of m a) = nodes_of m (current_of m a)"
    "nodes_of m' (overflow_of m a) = nodes_of m (overflow_of m a)"
    using assms(4) ij by simp_all
  have w: "\<forall>x \<in> set (nodes_of m (current_of m a)). nwake_tick m' x = nwake_tick m x"
    "\<forall>x \<in> set (nodes_of m (overflow_of m a)). nwake_tick m' x = nwake_tick m x"
    using assms(5) ij by auto
  have mp: "map (nwake_tick m') (nodes_of m (current_of m a)) = map (nwake_tick m) (nodes_of m (current_of m a))"
    "map (nwake_tick m') (nodes_of m (overflow_of m a)) = map (nwake_tick m) (nodes_of m (overflow_of m a))"
    using w by simp_all
  show ?thesis
    using assms(1) w unfolding timeout_ok_def eq n mp by (simp add: assms(2,3))
qed

lemma timeout_inited: "timeout_ok m a \<Longrightarrow> i < 2 \<Longrightarrow> inited m (TimeoutList a i)"
  unfolding timeout_ok_def less_2_cases_iff by auto

text \<open>Operations that leave the timeout lists alone.\<close>

definition same_timeouts :: "mem \<Rightarrow> mem \<Rightarrow> bool" where
  "same_timeouts m m' \<longleftrightarrow>
     inited m' = inited m \<and> timeout_lists m' = timeout_lists m \<and> nwake_tick m' = nwake_tick m \<and>
     (\<forall>a i. inited m (TimeoutList a i) \<longrightarrow> nodes_of m' (TimeoutList a i) = nodes_of m (TimeoutList a i))"

lemma same_timeouts_ok:
  assumes "same_timeouts m m'" and "timeout_ok m a"
  shows "timeout_ok m' a" and "timeout_seq m' a = timeout_seq m a" and "remaining m' a = remaining m a"
proof -
  show "timeout_ok m' a"
    using assms(1) timeout_inited [OF assms(2)]
    by (intro timeout_ok_frame [OF assms(2)]) (auto simp: same_timeouts_def)
  obtain i j where "current_of m a = TimeoutList a i" "overflow_of m a = TimeoutList a j" "i < 2" "j < 2"
    using timeout_lists_of [OF assms(2)] by blast
  moreover have "current_of m' a = current_of m a" "overflow_of m' a = overflow_of m a"
    using assms(1) by (simp_all add: same_timeouts_def current_of_def overflow_of_def)
  ultimately show "timeout_seq m' a = timeout_seq m a"
    using assms(1) timeout_inited [OF assms(2)] by (simp add: timeout_seq_def same_timeouts_def)
  show "remaining m' a = remaining m a"
    using assms(1) by (simp add: remaining_def fun_eq_iff same_timeouts_def)
qed

text \<open>Operations that leave the ready set alone; the priorities of unlinked nodes may change.\<close>

definition same_ready :: "mem \<Rightarrow> mem \<Rightarrow> bool" where
  "same_ready m m' \<longleftrightarrow>
     inited m' = inited m \<and> ready_sets m' = ready_sets m \<and>
     (\<forall>r i. inited m (ReadyQueue r i) \<longrightarrow> nodes_of m' (ReadyQueue r i) = nodes_of m (ReadyQueue r i)) \<and>
     (\<forall>x. nlist (nodes m x) \<noteq> None \<longrightarrow> npriority m' x = npriority m x)"

lemma same_ready_ok:
  assumes "same_ready m m'" and "wf_mem m" and "ready_ok m r"
  shows "ready_ok m' r" and "ready_seq m' r = ready_seq m r"
proof -
  have q: "ready_queue m' r i = ready_queue m r i" if "i < 8" for i
    using assms(1) ready_okD(1) [OF assms(3) that] by (simp add: same_ready_def)
  show "ready_ok m' r"
    using assms(1) q wf_in_list [OF assms(2) ready_okD(1) [OF assms(3)]]
    by (intro ready_ok_frame [OF assms(3)]) (auto simp: same_ready_def)
  have "map (ready_queue m' r) [0..<8] = map (ready_queue m r) [0..<8]"
    using q by (simp del: upt_rec_numeral)
  then show "ready_seq m' r = ready_seq m r" unfolding ready_seq_def by (simp only:)
qed

section \<open>What a task sees\<close>

record task_view =
  vready :: "list_addr option"
  vwait :: "list_addr option"
  vtimeout :: "list_addr option"
  vall :: "list_addr option"
  vowned :: bool
  vrprio :: hr_priority
  vwprio :: hr_priority

definition view :: "mem \<Rightarrow> task_ptr \<Rightarrow> task_view" where
  "view m t =
     \<lparr>vready = nlist (nodes m (ReadyNode t)), vwait = nlist (nodes m (WaitNode t)),
      vtimeout = nlist (nodes m (TimeoutNode t)), vall = nlist (nodes m (AllTaskNode t)),
      vowned = (nowner (nodes m (ReadyNode t)) = Some (Task_obj t) \<and>
                nowner (nodes m (WaitNode t)) = Some (Task_obj t) \<and>
                nowner (nodes m (TimeoutNode t)) = Some (Task_obj t) \<and>
                nowner (nodes m (AllTaskNode t)) = Some (Task_obj t)),
      vrprio = npriority m (ReadyNode t), vwprio = npriority m (WaitNode t)\<rparr>"

text \<open>What the other objects see: mutex owner nodes, timer nodes, and the plain lists.\<close>

fun task_node :: "node_addr \<Rightarrow> bool" where
  "task_node (ReadyNode t) = True"
| "task_node (WaitNode t) = True"
| "task_node (TimeoutNode t) = True"
| "task_node (AllTaskNode t) = True"
| "task_node _ = False"

fun plain_list :: "list_addr \<Rightarrow> bool" where
  "plain_list AllTasks = True"
| "plain_list (OwnedMutexes t) = True"
| "plain_list PendingTimers = True"
| "plain_list ExpiredNodes = True"
| "plain_list ExpiredTimers = True"
| "plain_list _ = False"

lemma wait_not_plain: "is_wait_list l \<Longrightarrow> \<not> plain_list l"
  by (cases l) auto

definition same_others :: "mem \<Rightarrow> mem \<Rightarrow> bool" where
  "same_others m m' \<longleftrightarrow>
     inited m' = inited m \<and>
     (\<forall>x. \<not> task_node x \<longrightarrow> nlist (nodes m' x) = nlist (nodes m x) \<and> nwake_tick m' x = nwake_tick m x) \<and>
     (\<forall>x. nowner (nodes m' x) = nowner (nodes m x)) \<and>
     (\<forall>a. tlast_tick (timeout_lists m' a) = tlast_tick (timeout_lists m a) \<and>
          tcurrent (timeout_lists m' a) = tcurrent (timeout_lists m a)) \<and>
     (\<forall>l. plain_list l \<longrightarrow> inited m l \<longrightarrow> nodes_of m' l = nodes_of m l)"

lemma same_others_refl [simp]: "same_others m m"
  by (simp add: same_others_def)

lemma same_others_trans: "same_others m m1 \<Longrightarrow> same_others m1 m2 \<Longrightarrow> same_others m m2"
  by (simp add: same_others_def)

lemma mem_ok_step:
  assumes "mem_ok m" and "wf_mem m'" and "inited m' = inited m"
    and "\<And>a. tcurrent (timeout_lists m' a) = tcurrent (timeout_lists m a)"
    and "\<And>x l. nlist (nodes m' x) = Some l \<Longrightarrow> node_fits x l"
    and "ready_ok m' G_scheduler"
    and "\<And>a. timeout_ok m a \<Longrightarrow> timeout_ok m' a"
    and "\<And>l. is_wait_list l \<Longrightarrow> inited m l \<Longrightarrow> sorted (map (npriority m') (nodes_of m' l))"
  shows "mem_ok m'"
  using assms unfolding mem_ok_def by simp

section \<open>The operations the kernel calls\<close>

text \<open>Removing and adding the ready node of a task.\<close>

lemma mem_ready_remove:
  assumes "mem_ok m" and "nlist (nodes m (ReadyNode t)) \<noteq> None"
  defines "m' \<equiv> ready_unlink G_scheduler (ReadyNode t) m"
  shows "hr_scheduler_remove_ready (Some G_scheduler) (Some (ReadyNode t)) m = Some (HR_OK, m')"
    and "mem_ok m'" and "view m' = (view m)(t := (view m t)\<lparr>vready := None\<rparr>)" and "same_others m m'"
    and "ready_seq m' G_scheduler = remove1 (ReadyNode t) (ready_seq m G_scheduler)"
    and "is_wait_list l \<Longrightarrow> inited m l \<Longrightarrow> nodes_of m' l = nodes_of m l"
    and "npriority m' = npriority m" and "same_timeouts m m'"
proof -
  obtain l where l: "nlist (nodes m (ReadyNode t)) = Some l" using assms(2) by blast
  note p = ready_node_list [OF assms(1) l]
  have l': "nlist (nodes m (ReadyNode t)) = Some (ReadyQueue G_scheduler (unat (npriority m (ReadyNode t))))"
    using l p(1) by simp
  note w = ready_remove_wf [OF mem_okD(1,2) [OF assms(1)] _ p(2) l', folded m'_def, simplified]
  show "hr_scheduler_remove_ready (Some G_scheduler) (Some (ReadyNode t)) m = Some (HR_OK, m')"
    by (simp add: scheduler_remove_wf w(1))
  show "npriority m' = npriority m" by (rule w)
  have no: "nodes_of m' k = nodes_of m k" if "inited m k" "\<And>i. k \<noteq> ReadyQueue G_scheduler i" for k
    using w(5) [OF that(1)] that(2) by simp
  show wl: "is_wait_list k \<Longrightarrow> inited m k \<Longrightarrow> nodes_of m' k = nodes_of m k" for k
    by (rule no) auto
  show tm: "same_timeouts m m'" by (simp add: same_timeouts_def w no)
  show "view m' = (view m)(t := (view m t)\<lparr>vready := None\<rparr>)"
    by (auto simp: view_def fun_eq_iff w)
  show "same_others m m'" by (auto simp: same_others_def w no)
  show "mem_ok m'"
    by (rule mem_ok_step [OF assms(1)])
      (use mem_okD(6,7) [OF assms(1)] same_timeouts_ok [OF tm] in
        \<open>auto simp: w wl split: if_splits\<close>)
  show "ready_seq m' G_scheduler = remove1 (ReadyNode t) (ready_seq m G_scheduler)"
    unfolding m'_def by (rule ready_seq_unlink [OF mem_okD(1,2) [OF assms(1)] _ p(2) l']) simp
qed

lemma mem_ready_add:
  assumes "mem_ok m" and "nlist (nodes m (ReadyNode t)) = None" and "npriority m (ReadyNode t) < 8"
  defines "m' \<equiv> ready_link G_scheduler (ReadyNode t) m"
  shows "hr_scheduler_add_ready (Some G_scheduler) (Some (ReadyNode t)) m = Some (HR_OK, m')"
    and "mem_ok m'"
    and "view m' = (view m)(t := (view m t)
      \<lparr>vready := Some (ReadyQueue G_scheduler (unat (npriority m (ReadyNode t))))\<rparr>)"
    and "same_others m m'"
    and "ready_seq m' G_scheduler = insert_fifo (npriority m) (ReadyNode t) (ready_seq m G_scheduler)"
    and "is_wait_list l \<Longrightarrow> inited m l \<Longrightarrow> nodes_of m' l = nodes_of m l"
    and "npriority m' = npriority m" and "same_timeouts m m'"
proof -
  note w = ready_insert_wf [OF mem_okD(1,2) [OF assms(1)] _ assms(2,3), folded m'_def, simplified]
  show "hr_scheduler_add_ready (Some G_scheduler) (Some (ReadyNode t)) m = Some (HR_OK, m')"
    by (simp add: scheduler_add_wf w(1))
  show "npriority m' = npriority m" by (rule w)
  have i8: "unat (npriority m (ReadyNode t)) < 8" using assms(3) by (simp add: unat_lt_8)
  have no: "nodes_of m' k = nodes_of m k" if "inited m k" "\<And>i. k \<noteq> ReadyQueue G_scheduler i" for k
    using w(5) [OF that(1)] that(2) by simp
  show wl: "is_wait_list k \<Longrightarrow> inited m k \<Longrightarrow> nodes_of m' k = nodes_of m k" for k
    by (rule no) auto
  show tm: "same_timeouts m m'" by (simp add: same_timeouts_def w no)
  show "view m' = (view m)(t := (view m t)
      \<lparr>vready := Some (ReadyQueue G_scheduler (unat (npriority m (ReadyNode t))))\<rparr>)"
    by (auto simp: view_def fun_eq_iff w)
  show "same_others m m'" by (auto simp: same_others_def w no)
  show "mem_ok m'"
    by (rule mem_ok_step [OF assms(1)])
      (use mem_okD(6,7) [OF assms(1)] same_timeouts_ok [OF tm] i8 in
        \<open>auto simp: w wl split: if_splits\<close>)
  show "ready_seq m' G_scheduler = insert_fifo (npriority m) (ReadyNode t) (ready_seq m G_scheduler)"
    unfolding m'_def by (rule ready_seq_link [OF mem_okD(1,2) [OF assms(1)] _ assms(2,3)]) simp
qed

text \<open>Entering and leaving a wait list.\<close>

lemma mem_wait_insert:
  assumes "mem_ok m" and "is_wait_list l" and "inited m l" and "nlist (nodes m (WaitNode t)) = None"
  defines "m' \<equiv> fifo_link (npriority m) l (WaitNode t) m"
  shows "hr_wait_list_insert (Some l) (Some (WaitNode t)) m = Some (HR_OK, m')"
    and "mem_ok m'" and "view m' = (view m)(t := (view m t)\<lparr>vwait := Some l\<rparr>)" and "same_others m m'"
    and "ready_seq m' G_scheduler = ready_seq m G_scheduler"
    and "inited m k \<Longrightarrow> nodes_of m' k =
      (if k = l then insert_fifo (npriority m) (WaitNode t) (nodes_of m l) else nodes_of m k)"
    and "npriority m' = npriority m" and "same_timeouts m m'"
proof -
  note ok = mem_okD [OF assms(1)]
  note w = fifo_link_wf [OF ok(1) assms(3) _ assms(4), folded m'_def, simplified]
  have fr: "npriority m' = npriority m" "nwake_tick m' = nwake_tick m" "ready_sets m' = ready_sets m"
    "timeout_lists m' = timeout_lists m" "inited m' = inited m"
    "nowner (nodes m' x) = nowner (nodes m x)"
    "nlist (nodes m' x) = (if x = WaitNode t then Some l else nlist (nodes m x))" for x
    by (simp_all add: m'_def)
  show "hr_wait_list_insert (Some l) (Some (WaitNode t)) m = Some (HR_OK, m')"
    by (simp add: wait_insert_wf [OF ok(1) assms(3)] assms(4) m'_def)
  show "npriority m' = npriority m" by (rule fr)
  show no: "inited m k \<Longrightarrow> nodes_of m' k =
      (if k = l then insert_fifo (npriority m) (WaitNode t) (nodes_of m l) else nodes_of m k)" for k
    unfolding m'_def by (rule fifo_link_wf [OF ok(1) assms(3) _ assms(4)]) auto
  have nl: "TimeoutList a i \<noteq> l" "ReadyQueue r j \<noteq> l" for a i r j using assms(2) by auto
  have pl: "plain_list k \<Longrightarrow> k \<noteq> l" for k using wait_not_plain [OF assms(2)] by auto
  show tm: "same_timeouts m m'" by (simp add: same_timeouts_def fr no nl)
  have rd: "same_ready m m'" by (simp add: same_ready_def fr no nl)
  show "view m' = (view m)(t := (view m t)\<lparr>vwait := Some l\<rparr>)" by (auto simp: view_def fun_eq_iff fr)
  show "same_others m m'" using pl by (auto simp: same_others_def fr no)
  have "sorted (map (npriority m') (nodes_of m' k))" if "is_wait_list k" "inited m k" for k
    using ok(7) that assms(2,3) by (simp add: fr no sorted_insert_fifo)
  then show "mem_ok m'"
    by (intro mem_ok_step [OF assms(1)])
      (use ok(6) assms(2) w(1) same_timeouts_ok [OF tm] same_ready_ok [OF rd ok(1,2)] in
        \<open>auto simp: fr m'_def split: if_splits\<close>)
  show "ready_seq m' G_scheduler = ready_seq m G_scheduler" by (rule same_ready_ok [OF rd ok(1,2)])
qed

lemma mem_wait_remove:
  assumes "mem_ok m" and "nlist (nodes m (WaitNode t)) = Some l"
  defines "m' \<equiv> unlink (WaitNode t) m"
  shows "hr_wait_list_remove (Some l) (Some (WaitNode t)) m = Some (HR_OK, m')"
    and "mem_ok m'" and "view m' = (view m)(t := (view m t)\<lparr>vwait := None\<rparr>)" and "same_others m m'"
    and "ready_seq m' G_scheduler = ready_seq m G_scheduler"
    and "inited m k \<Longrightarrow> nodes_of m' k =
      (if k = l then remove1 (WaitNode t) (nodes_of m k) else nodes_of m k)"
    and "npriority m' = npriority m" and "same_timeouts m m'"
proof -
  note ok = mem_okD [OF assms(1)]
  note wl = wait_node_list [OF assms(1,2)]
  note u = wf_unlink [OF ok(1) _ assms(2), folded m'_def, simplified]
  show "hr_wait_list_remove (Some l) (Some (WaitNode t)) m = Some (HR_OK, m')"
    by (simp add: wait_remove_wf [OF ok(1)] assms(2) m'_def)
  show "npriority m' = npriority m" by (rule u)
  show no: "inited m k \<Longrightarrow> nodes_of m' k =
      (if k = l then remove1 (WaitNode t) (nodes_of m k) else nodes_of m k)" for k
    by (rule u)
  have ini: "inited m' = inited m" by (simp add: fun_eq_iff u)
  have nl: "TimeoutList a i \<noteq> l" "ReadyQueue r j \<noteq> l" for a i r j using wl by auto
  have pl: "plain_list k \<Longrightarrow> k \<noteq> l" for k using wait_not_plain wl by auto
  show tm: "same_timeouts m m'" by (simp add: same_timeouts_def u ini nl)
  have rd: "same_ready m m'" by (simp add: same_ready_def u ini nl)
  show "view m' = (view m)(t := (view m t)\<lparr>vwait := None\<rparr>)" by (auto simp: view_def fun_eq_iff u)
  show "same_others m m'" using pl by (auto simp: same_others_def u ini)
  have "sorted (map (npriority m') (nodes_of m' k))" if "is_wait_list k" "inited m k" for k
    using ok(7) [OF that] that by (auto simp: u intro: sorted_map_remove1)
  then show "mem_ok m'"
    by (intro mem_ok_step [OF assms(1)])
      (use ok(6) same_timeouts_ok [OF tm] same_ready_ok [OF rd ok(1,2)] in
        \<open>auto simp: u ini split: if_splits\<close>)
  show "ready_seq m' G_scheduler = ready_seq m G_scheduler" by (rule same_ready_ok [OF rd ok(1,2)])
qed

text \<open>Arming and cancelling the timeout of a task.\<close>

lemma timeout_target_cases:
  "timeout_ok m a \<Longrightarrow> \<exists>i < 2. timeout_target m a d = TimeoutList a i"
  using timeout_lists_of [of m a] unfolding timeout_target_def by metis

text \<open>The node kind and the timeout list of tasks, and those of timers.\<close>

definition timeout_kind :: "tlist_addr \<Rightarrow> node_addr \<Rightarrow> bool" where
  "timeout_kind a n \<longleftrightarrow> (\<forall>i < 2. node_fits n (TimeoutList a i))"

lemma timeout_kind_simps [simp]:
  "timeout_kind G_timeout_list (TimeoutNode t)" "timeout_kind G_timer_timeouts (TimerNode x)"
  by (simp_all add: timeout_kind_def)

lemma timeout_kind_fits:
  assumes "timeout_kind a n"
  shows "node_fits n (TimeoutList b i) \<longleftrightarrow> b = a \<and> i < 2" and "\<not> is_root n"
proof -
  have "node_fits n (TimeoutList a 0)" "node_fits n (TimeoutList a 1)" using assms by (simp_all add: timeout_kind_def)
  then show "node_fits n (TimeoutList b i) \<longleftrightarrow> b = a \<and> i < 2" "\<not> is_root n"
    by (cases n; auto)+
qed

lemma timeout_link_frame:
  assumes "mem_ok m" and "tcurrent (timeout_lists m a) \<noteq> None" and "wf_mem m'" and "inited m' = inited m" and "timeout_ok m' a"
    and "\<And>k. inited m k \<Longrightarrow> (\<And>i. k \<noteq> TimeoutList a i) \<Longrightarrow> nodes_of m' k = nodes_of m k"
    and "\<And>x k. nlist (nodes m' x) = Some k \<Longrightarrow> node_fits x k"
    and "npriority m' = npriority m" and "ready_sets m' = ready_sets m"
    and "\<And>x. nwake_tick m' x = nwake_tick m x \<or> timeout_kind a x"
    and "\<And>b. tcurrent (timeout_lists m' b) = tcurrent (timeout_lists m b)" and "\<And>b. b \<noteq> a \<Longrightarrow> timeout_lists m' b = timeout_lists m b"
  shows "mem_ok m'" and "ready_seq m' G_scheduler = ready_seq m G_scheduler"
    and "is_wait_list l \<Longrightarrow> inited m l \<Longrightarrow> nodes_of m' l = nodes_of m l"
    and "plain_list l \<Longrightarrow> inited m l \<Longrightarrow> nodes_of m' l = nodes_of m l"
    and "b \<noteq> a \<Longrightarrow> timeout_ok m b \<Longrightarrow> timeout_seq m' b = timeout_seq m b"
proof -
  note ok = mem_okD [OF assms(1)]
  show wl: "is_wait_list k \<Longrightarrow> inited m k \<Longrightarrow> nodes_of m' k = nodes_of m k" for k by (rule assms(6)) auto
  show "plain_list l \<Longrightarrow> inited m l \<Longrightarrow> nodes_of m' l = nodes_of m l" by (rule assms(6)) auto
  have rd: "same_ready m m'" by (simp add: same_ready_def assms(4,6,8,9))
  have nb: "nodes_of m' (TimeoutList b i) = nodes_of m (TimeoutList b i)" if "b \<noteq> a" "timeout_ok m b" "i < 2" for b i
    using that by (intro assms(6)) (auto simp: timeout_inited)
  have other: "timeout_ok m' b" if "b \<noteq> a" "timeout_ok m b" for b
  proof (rule timeout_ok_frame [OF that(2)])
    fix i x assume "i < 2" "x \<in> set (nodes_of m (TimeoutList b i))"
    then have "node_fits x (TimeoutList b i)" using member_fits [OF assms(1) timeout_inited [OF that(2)]] by blast
    then show "nwake_tick m' x = nwake_tick m x" using assms(10) [of x] that(1) timeout_kind_fits(1) [of a x b i] by auto
  qed (use that nb assms(4,12) in simp_all)
  have "timeout_ok m' b" if "timeout_ok m b" for b using other assms(5) that by (cases "b = a") auto
  then show "mem_ok m'"
    by (intro mem_ok_step [OF assms(1,3,4,11,7)]) (use ok(7) same_ready_ok [OF rd ok(1,2)] wl assms(8) in auto)
  show "ready_seq m' G_scheduler = ready_seq m G_scheduler" by (rule same_ready_ok [OF rd ok(1,2)])
  assume "b \<noteq> a" "timeout_ok m b"
  moreover obtain i j where "current_of m b = TimeoutList b i" "overflow_of m b = TimeoutList b j" "i < 2" "j < 2"
    by (rule timeout_lists_of [OF \<open>timeout_ok m b\<close>])
  ultimately show "timeout_seq m' b = timeout_seq m b" using nb assms(12) [of b] by (simp add: timeout_seq_def current_of_def overflow_of_def)
qed

lemma mem_timeout_link:
  assumes "mem_ok m" and "tcurrent (timeout_lists m a) \<noteq> None" and "timeout_kind a n" and "nlist (nodes m n) = None"
    and "d \<noteq> 0xFFFFFFFF" and "d \<noteq> 0"
  defines "m' \<equiv> timeout_link a n d m"
  shows "mem_ok m'" and "ready_seq m' G_scheduler = ready_seq m G_scheduler"
    and "is_wait_list l \<Longrightarrow> inited m l \<Longrightarrow> nodes_of m' l = nodes_of m l"
    and "plain_list l \<Longrightarrow> inited m l \<Longrightarrow> nodes_of m' l = nodes_of m l"
    and "b \<noteq> a \<Longrightarrow> timeout_ok m b \<Longrightarrow> timeout_seq m' b = timeout_seq m b"
    and "inited m k \<Longrightarrow> (\<And>i. k \<noteq> TimeoutList a i) \<Longrightarrow> nodes_of m' k = nodes_of m k"
proof -
  note ok = mem_okD [OF assms(1)] and ta = mem_okD(5) [OF assms(1,2)] and nk = timeout_kind_fits [OF assms(3)]
  note w = timeout_insert_wf [OF ok(1) ta nk(2) assms(4-6), folded m'_def]
  note sq = timeout_insert_seq [OF ok(1) ta nk(2) assms(4-6), folded m'_def]
  obtain i where tgt: "timeout_target m a d = TimeoutList a i" "i < 2"
    using timeout_target_cases [OF ta] by blast
  have no: "nodes_of m' k = nodes_of m k" if "inited m k" "\<And>i. k \<noteq> TimeoutList a i" for k
    using w(4) [OF that(1)] that(2) tgt by simp
  have fit: "node_fits x k" if "nlist (nodes m' x) = Some k" for x k
    using that ok(6) nk(1) tgt by (cases "x = n") (auto simp: w(5))
  have wk: "nwake_tick m' x = nwake_tick m x \<or> timeout_kind a x" for x using assms(3) by (cases "x = n") (simp_all add: w)
  have tc: "tcurrent (timeout_lists m' b) = tcurrent (timeout_lists m b)" for b by (simp add: w)
  have to: "b \<noteq> a \<Longrightarrow> timeout_lists m' b = timeout_lists m b" for b by (simp add: w)
  note f = timeout_link_frame [OF assms(1,2) w(2,3) sq(3) no fit w(7,9) wk tc to]
  show "mem_ok m'" "ready_seq m' G_scheduler = ready_seq m G_scheduler"
    "is_wait_list l \<Longrightarrow> inited m l \<Longrightarrow> nodes_of m' l = nodes_of m l"
    "plain_list l \<Longrightarrow> inited m l \<Longrightarrow> nodes_of m' l = nodes_of m l"
    "b \<noteq> a \<Longrightarrow> timeout_ok m b \<Longrightarrow> timeout_seq m' b = timeout_seq m b" by (rule f; assumption)+
  show "inited m k \<Longrightarrow> (\<And>i. k \<noteq> TimeoutList a i) \<Longrightarrow> nodes_of m' k = nodes_of m k" by (rule no)
qed

lemma mem_timeout_unlink:
  assumes "mem_ok m" and "tcurrent (timeout_lists m a) \<noteq> None" and "timeout_kind a n" and "nlist (nodes m n) = Some (TimeoutList a i)"
  defines "m' \<equiv> timeout_unlink a n m"
  shows "n \<in> set (timeout_seq m a)" and "mem_ok m'" and "ready_seq m' G_scheduler = ready_seq m G_scheduler"
    and "is_wait_list l \<Longrightarrow> inited m l \<Longrightarrow> nodes_of m' l = nodes_of m l"
    and "plain_list l \<Longrightarrow> inited m l \<Longrightarrow> nodes_of m' l = nodes_of m l"
    and "b \<noteq> a \<Longrightarrow> timeout_ok m b \<Longrightarrow> timeout_seq m' b = timeout_seq m b"
    and "inited m k \<Longrightarrow> (\<And>i. k \<noteq> TimeoutList a i) \<Longrightarrow> nodes_of m' k = nodes_of m k"
proof -
  note ok = mem_okD [OF assms(1)] and ta = mem_okD(5) [OF assms(1,2)] and nk = timeout_kind_fits [OF assms(3)]
  have i: "i < 2" using ok(6) [OF assms(4)] nk(1) by simp
  then show s: "n \<in> set (timeout_seq m a)"
    using timeout_seq_linked [OF ok(1) ta nk(2)] assms(4) by auto
  note w = timeout_remove_wf [OF ok(1) ta nk(2) s, folded m'_def]
    and sq = timeout_remove_seq [OF ok(1) ta nk(2) s, folded m'_def]
  have no: "nodes_of m' k = nodes_of m k" if "inited m k" "\<And>i. k \<noteq> TimeoutList a i" for k
    using w(4) [OF that(1)] that(2) assms(4) by auto
  have fit: "node_fits x k" if "nlist (nodes m' x) = Some k" for x k
    using that ok(6) by (cases "x = n") (auto simp: w(5))
  have wk: "nwake_tick m' x = nwake_tick m x \<or> timeout_kind a x" for x by (simp add: w)
  have tc: "tcurrent (timeout_lists m' b) = tcurrent (timeout_lists m b)" for b by (simp add: w)
  have to: "b \<noteq> a \<Longrightarrow> timeout_lists m' b = timeout_lists m b" for b by (simp add: w)
  note f = timeout_link_frame [OF assms(1,2) w(2,3) sq(3) no fit w(7,9) wk tc to]
  show "mem_ok m'" "ready_seq m' G_scheduler = ready_seq m G_scheduler"
    "is_wait_list l \<Longrightarrow> inited m l \<Longrightarrow> nodes_of m' l = nodes_of m l"
    "plain_list l \<Longrightarrow> inited m l \<Longrightarrow> nodes_of m' l = nodes_of m l"
    "b \<noteq> a \<Longrightarrow> timeout_ok m b \<Longrightarrow> timeout_seq m' b = timeout_seq m b" by (rule f; assumption)+
  show "inited m k \<Longrightarrow> (\<And>i. k \<noteq> TimeoutList a i) \<Longrightarrow> nodes_of m' k = nodes_of m k" by (rule no)
qed

lemma task_list_current: "mem_ok m \<Longrightarrow> tcurrent (timeout_lists m G_timeout_list) \<noteq> None"
  by (simp add: mem_ok_def)

lemma mem_timeout_insert:
  assumes "mem_ok m" and "nlist (nodes m (TimeoutNode t)) = None" and "d \<noteq> 0xFFFFFFFF" and "d \<noteq> 0"
  defines "m' \<equiv> timeout_link G_timeout_list (TimeoutNode t) d m"
  shows "hr_timeout_list_insert (Some G_timeout_list) (Some (TimeoutNode t)) d m = Some (HR_OK, m')"
    and "mem_ok m'"
    and "view m' = (view m)(t := (view m t)\<lparr>vtimeout := Some (timeout_target m G_timeout_list d)\<rparr>)"
    and "same_others m m'"
    and "ready_seq m' G_scheduler = ready_seq m G_scheduler"
    and "is_wait_list l \<Longrightarrow> inited m l \<Longrightarrow> nodes_of m' l = nodes_of m l"
    and "npriority m' = npriority m"
    and "timeout_seq m' G_timeout_list =
      insert_fifo (remaining m' G_timeout_list) (TimeoutNode t) (timeout_seq m G_timeout_list)"
    and "remaining m' G_timeout_list = (remaining m G_timeout_list)(TimeoutNode t := d)"
proof -
  note ok = mem_okD [OF assms(1)]
  note w = timeout_insert_wf [OF ok(1,4) _ assms(2-4), folded m'_def, simplified]
  note sq = timeout_insert_seq [OF ok(1,4) _ assms(2-4), folded m'_def, simplified]
  note f = mem_timeout_link [OF assms(1) task_list_current [OF assms(1)] timeout_kind_simps(1) assms(2-4), folded m'_def]
  show "hr_timeout_list_insert (Some G_timeout_list) (Some (TimeoutNode t)) d m = Some (HR_OK, m')"
    "npriority m' = npriority m" by (rule w)+
  show "timeout_seq m' G_timeout_list =
      insert_fifo (remaining m' G_timeout_list) (TimeoutNode t) (timeout_seq m G_timeout_list)"
    "remaining m' G_timeout_list = (remaining m G_timeout_list)(TimeoutNode t := d)" by (rule sq)+
  show "view m' = (view m)(t := (view m t)\<lparr>vtimeout := Some (timeout_target m G_timeout_list d)\<rparr>)"
    by (auto simp: view_def fun_eq_iff w)
  show "same_others m m'" by (auto simp: same_others_def w(3,5-10) f(4))
  show "mem_ok m'" "ready_seq m' G_scheduler = ready_seq m G_scheduler"
    "is_wait_list l \<Longrightarrow> inited m l \<Longrightarrow> nodes_of m' l = nodes_of m l" by (rule f; assumption)+
qed

lemma mem_timeout_remove:
  assumes "mem_ok m" and "nlist (nodes m (TimeoutNode t)) = Some (TimeoutList G_timeout_list i)"
  defines "m' \<equiv> timeout_unlink G_timeout_list (TimeoutNode t) m"
  shows "hr_timeout_list_remove (Some G_timeout_list) (Some (TimeoutNode t)) m = Some (HR_OK, m')"
    and "mem_ok m'" and "view m' = (view m)(t := (view m t)\<lparr>vtimeout := None\<rparr>)" and "same_others m m'"
    and "ready_seq m' G_scheduler = ready_seq m G_scheduler"
    and "is_wait_list l \<Longrightarrow> inited m l \<Longrightarrow> nodes_of m' l = nodes_of m l"
    and "npriority m' = npriority m"
    and "timeout_seq m' G_timeout_list = remove1 (TimeoutNode t) (timeout_seq m G_timeout_list)"
    and "remaining m' G_timeout_list = remaining m G_timeout_list"
proof -
  note ok = mem_okD [OF assms(1)]
  note f = mem_timeout_unlink [OF assms(1) task_list_current [OF assms(1)] timeout_kind_simps(1) assms(2), folded m'_def]
  note w = timeout_remove_wf [OF ok(1,4) _ f(1), folded m'_def, simplified]
    and sq = timeout_remove_seq [OF ok(1,4) _ f(1), folded m'_def, simplified]
  show "hr_timeout_list_remove (Some G_timeout_list) (Some (TimeoutNode t)) m = Some (HR_OK, m')"
    "npriority m' = npriority m" by (rule w)+
  show "timeout_seq m' G_timeout_list = remove1 (TimeoutNode t) (timeout_seq m G_timeout_list)"
    "remaining m' G_timeout_list = remaining m G_timeout_list" by (rule sq)+
  show "view m' = (view m)(t := (view m t)\<lparr>vtimeout := None\<rparr>)" by (auto simp: view_def fun_eq_iff w)
  show "same_others m m'" by (auto simp: same_others_def w(3,5-10) f(5))
  show "mem_ok m'" "ready_seq m' G_scheduler = ready_seq m G_scheduler"
    "is_wait_list l \<Longrightarrow> inited m l \<Longrightarrow> nodes_of m' l = nodes_of m l" by (rule f; assumption)+
qed

text \<open>Changing the priority of a task whose ready and wait nodes are out of their lists.\<close>

lemma mem_set_priority:
  fixes p :: hr_priority
  assumes "mem_ok m" and "nlist (nodes m (ReadyNode t)) = None" and "nlist (nodes m (WaitNode t)) = None"
  defines "m' \<equiv> m\<lparr>npriority := (npriority m)(ReadyNode t := p, WaitNode t := p)\<rparr>"
  shows "mem_ok m'" and "view m' = (view m)(t := (view m t)\<lparr>vrprio := p, vwprio := p\<rparr>)"
    and "same_others m m'" and "ready_seq m' G_scheduler = ready_seq m G_scheduler"
    and "nodes_of m' = nodes_of m" and "same_timeouts m m'" and "nodes m' = nodes m"
proof -
  note ok = mem_okD [OF assms(1)]
  show n: "nodes_of m' = nodes_of m" and tm: "same_timeouts m m'" and "same_others m m'" and "nodes m' = nodes m"
    by (simp_all add: m'_def same_timeouts_def same_others_def)
  have rd: "same_ready m m'" using assms(2,3) by (auto simp: m'_def same_ready_def)
  show "view m' = (view m)(t := (view m t)\<lparr>vrprio := p, vwprio := p\<rparr>)"
    by (auto simp: view_def fun_eq_iff m'_def)
  have mp: "map (npriority m') (nodes_of m l) = map (npriority m) (nodes_of m l)" if "inited m l" for l
    using wf_in_list [OF ok(1) that] assms(2,3) by (auto simp: m'_def)
  have "sorted (map (npriority m') (nodes_of m' l))" if "is_wait_list l" "inited m l" for l
    unfolding n mp [OF that(2)] by (rule ok(7) [OF that])
  then show "mem_ok m'"
    by (intro mem_ok_step [OF assms(1)])
      (use ok(1,6) same_timeouts_ok [OF tm] same_ready_ok [OF rd ok(1,2)] in \<open>auto simp: m'_def\<close>)
  show "ready_seq m' G_scheduler = ready_seq m G_scheduler" by (rule same_ready_ok [OF rd ok(1,2)])
qed

text \<open>Appending to and removing from the lists that are neither queues nor timeouts nor waiters.\<close>

lemma plain_list_frame:
  assumes "mem_ok m" and "wf_mem m'" and "inited m' = inited m" and "plain_list l"
    and "\<And>k. inited m k \<Longrightarrow> k \<noteq> l \<Longrightarrow> nodes_of m' k = nodes_of m k"
    and "npriority m' = npriority m" and "nwake_tick m' = nwake_tick m"
    and "ready_sets m' = ready_sets m" and "timeout_lists m' = timeout_lists m"
    and "\<And>x k. nlist (nodes m' x) = Some k \<Longrightarrow> node_fits x k"
  shows "mem_ok m'" and "same_timeouts m m'" and "ready_seq m' G_scheduler = ready_seq m G_scheduler"
    and "is_wait_list k \<Longrightarrow> inited m k \<Longrightarrow> nodes_of m' k = nodes_of m k"
proof -
  note ok = mem_okD [OF assms(1)]
  have ne: "TimeoutList a i \<noteq> l" "ReadyQueue r j \<noteq> l" for a i r j using assms(4) by auto
  show wl: "is_wait_list k \<Longrightarrow> inited m k \<Longrightarrow> nodes_of m' k = nodes_of m k" for k
    using assms(4,5) wait_not_plain by metis
  show tm: "same_timeouts m m'" by (simp add: same_timeouts_def assms(3,5,7,9) ne)
  have rd: "same_ready m m'" by (simp add: same_ready_def assms(3,5,6,8) ne)
  show "mem_ok m'"
    by (rule mem_ok_step [OF assms(1)])
      (use assms(2,3,6,9,10) ok(7) wl same_timeouts_ok [OF tm] same_ready_ok [OF rd ok(1,2)] in auto)
  show "ready_seq m' G_scheduler = ready_seq m G_scheduler" by (rule same_ready_ok [OF rd ok(1,2)])
qed

lemma mem_plain_push:
  assumes "mem_ok m" and "plain_list l" and "inited m l" and "\<not> is_root n" and "node_fits n l"
    and "nlist (nodes m n) = None"
  defines "m' \<equiv> link_at l (nodes_of m l) [] n m"
  shows "hr_list_push_back (Some l) (Some n) m = Some (HR_OK, m')"
    and "mem_ok m'" and "same_timeouts m m'" and "ready_seq m' G_scheduler = ready_seq m G_scheduler"
    and "inited m k \<Longrightarrow> nodes_of m' k = (if k = l then nodes_of m l @ [n] else nodes_of m k)"
    and "inited m' = inited m"
    and "nlist (nodes m' x) = (if x = n then Some l else nlist (nodes m x))"
    and "nowner (nodes m' x) = nowner (nodes m x)" and "npriority m' = npriority m"
    and "timeout_lists m' = timeout_lists m" and "nwake_tick m' = nwake_tick m"
proof -
  note ok = mem_okD [OF assms(1)]
  note w = wf_link_at [OF ok(1) assms(3) _ assms(4,6), of "nodes_of m l" "[]", folded m'_def, simplified]
  have fr: "npriority m' = npriority m" "nwake_tick m' = nwake_tick m" "ready_sets m' = ready_sets m"
    "timeout_lists m' = timeout_lists m" "nowner (nodes m' x) = nowner (nodes m x)"
    "nlist (nodes m' x) = (if x = n then Some l else nlist (nodes m x))" "inited m' = inited m" for x
    using assms(4) by (simp_all add: m'_def fun_eq_iff)
  show "hr_list_push_back (Some l) (Some n) m = Some (HR_OK, m')"
    by (simp add: push_back_wf [OF ok(1) assms(3)] assms(6) m'_def)
  show no: "inited m k \<Longrightarrow> nodes_of m' k = (if k = l then nodes_of m l @ [n] else nodes_of m k)" for k
    by (rule w)
  have fits: "nlist (nodes m' x) = Some k \<Longrightarrow> node_fits x k" for x k
    using ok(6) assms(5) by (simp add: fr split: if_splits)
  have old: "inited m k \<Longrightarrow> k \<noteq> l \<Longrightarrow> nodes_of m' k = nodes_of m k" for k by (simp add: no)
  note f = plain_list_frame [OF assms(1) w(1) fr(7) assms(2) old fr(1-4) fits]
  show "mem_ok m'" "same_timeouts m m'" "ready_seq m' G_scheduler = ready_seq m G_scheduler" by (rule f; assumption)+
  show "inited m' = inited m" "nlist (nodes m' x) = (if x = n then Some l else nlist (nodes m x))"
    "nowner (nodes m' x) = nowner (nodes m x)" "npriority m' = npriority m"
    "timeout_lists m' = timeout_lists m" "nwake_tick m' = nwake_tick m" by (rule fr)+
qed

lemma mem_plain_remove:
  assumes "mem_ok m" and "plain_list l" and "\<not> is_root n" and "nlist (nodes m n) = Some l"
  defines "m' \<equiv> unlink n m"
  shows "hr_list_remove (Some n) m = Some (HR_OK, m')"
    and "mem_ok m'" and "same_timeouts m m'" and "ready_seq m' G_scheduler = ready_seq m G_scheduler"
    and "inited m k \<Longrightarrow> nodes_of m' k = (if k = l then remove1 n (nodes_of m k) else nodes_of m k)"
    and "inited m' = inited m"
    and "nlist (nodes m' x) = (if x = n then None else nlist (nodes m x))"
    and "nowner (nodes m' x) = nowner (nodes m x)" and "npriority m' = npriority m"
    and "timeout_lists m' = timeout_lists m" and "nwake_tick m' = nwake_tick m"
proof -
  note ok = mem_okD [OF assms(1)]
  note u = wf_unlink [OF ok(1) assms(3,4), folded m'_def]
  have ini: "inited m' = inited m" by (simp add: fun_eq_iff u)
  show "hr_list_remove (Some n) m = Some (HR_OK, m')" "nowner (nodes m' x) = nowner (nodes m x)"
    "npriority m' = npriority m" "timeout_lists m' = timeout_lists m" "nwake_tick m' = nwake_tick m"
    "nlist (nodes m' x) = (if x = n then None else nlist (nodes m x))" "inited m' = inited m"
    by (rule u ini)+
  show no: "inited m k \<Longrightarrow> nodes_of m' k = (if k = l then remove1 n (nodes_of m k) else nodes_of m k)" for k
    by (rule u)
  have fits: "nlist (nodes m' x) = Some k \<Longrightarrow> node_fits x k" for x k
    using ok(6) by (simp add: u split: if_splits)
  have old: "inited m k \<Longrightarrow> k \<noteq> l \<Longrightarrow> nodes_of m' k = nodes_of m k" for k by (simp add: no)
  note f = plain_list_frame [OF assms(1) u(2) ini assms(2) old u(7-10) fits]
  show "mem_ok m'" "same_timeouts m m'" "ready_seq m' G_scheduler = ready_seq m G_scheduler" by (rule f; assumption)+
qed

text \<open>
  Setting up new lists and nodes: free nodes may be overwritten and lists may be added, and
  nothing changes for the lists that were there.
\<close>

lemma mem_extend:
  assumes "mem_ok m" and "wf_mem m'"
    and "\<And>l. inited m l \<Longrightarrow> inited m' l \<and> nodes_of m' l = nodes_of m l"
    and "\<And>l. inited m' l \<Longrightarrow> \<not> inited m l \<Longrightarrow> nodes_of m' l = []"
    and "\<And>x. nlist (nodes m x) \<noteq> None \<Longrightarrow> npriority m' x = npriority m x \<and> nwake_tick m' x = nwake_tick m x"
    and "ready_sets m' = ready_sets m" and "timeout_lists m' = timeout_lists m"
    and "\<And>x l. nlist (nodes m' x) = Some l \<Longrightarrow> node_fits x l"
  shows "mem_ok m'" and "ready_seq m' G_scheduler = ready_seq m G_scheduler"
    and "timeout_ok m a \<Longrightarrow> timeout_seq m' a = timeout_seq m a"
proof -
  note ok = mem_okD [OF assms(1)]
  have mem: "npriority m' x = npriority m x \<and> nwake_tick m' x = nwake_tick m x"
    if "inited m l" "x \<in> set (nodes_of m l)" for l x
    by (rule assms(5)) (simp add: wf_in_list [OF ok(1) that])
  have r: "ready_queue m' G_scheduler i = ready_queue m G_scheduler i" if "i < 8" for i
    using assms(3) ready_okD(1) [OF ok(2) that] by blast
  have "ready_ok m' G_scheduler"
    by (rule ready_ok_frame [OF ok(2)]) (use assms(3,6) r mem ready_okD(1) [OF ok(2)] in auto)
  moreover have "timeout_ok m' a" if "timeout_ok m a" for a
    by (rule timeout_ok_frame [OF that]) (use assms(3,7) mem timeout_inited [OF that] in auto)
  moreover have "sorted (map (npriority m') (nodes_of m' l))" if l: "is_wait_list l" "inited m' l" for l
  proof (cases "inited m l")
    case True
    then have "map (npriority m') (nodes_of m' l) = map (npriority m) (nodes_of m l)"
      using assms(3) mem by simp
    then show ?thesis using ok(7) [OF l(1) True] by simp
  qed (use assms(4) l in simp)
  ultimately show "mem_ok m'"
    using assms(1-3,7,8) unfolding mem_ok_def by simp
  show "ready_seq m' G_scheduler = ready_seq m G_scheduler"
    unfolding ready_seq_def by (intro arg_cong [where f = concat] map_cong) (auto simp: r)
  assume t: "timeout_ok m a"
  show "timeout_seq m' a = timeout_seq m a"
    using timeout_lists_of [OF t] assms(3) timeout_inited [OF t] assms(7)
    by (metis (no_types, lifting) current_of_def overflow_of_def timeout_seq_def)
qed

end
