(* ===== verification/HR_Kernel_Inv.thy ===== *)
theory HR_Kernel_Inv
  imports HR_Kernel_Lists
begin

text \<open>
  The invariant of the initialised kernel: the state of a task's control block agrees with the
  lists its nodes are in, the current task is the only running one, and mutex ownership agrees
  with the lists of owned mutexes.
\<close>

section \<open>Task invariant\<close>

definition no_wait :: "hr_task_control_block \<Rightarrow> bool" where
  "no_wait c \<longleftrightarrow>
     twait_kind c = HR_TASK_WAIT_NONE \<and> twaiting_object c = None \<and> tblocked_wait_list c = None \<and>
     twait_cleanup c = None"

text \<open>The list that a wait of a kind on an object uses.\<close>

fun wait_target :: "hr_task_wait_kind \<Rightarrow> wait_object option \<Rightarrow> list_addr option" where
  "wait_target HR_TASK_WAIT_QUEUE_SEND (Some (Obj_queue q)) = Some (SendWaiters q)"
| "wait_target HR_TASK_WAIT_QUEUE_RECEIVE (Some (Obj_queue q)) = Some (ReceiveWaiters q)"
| "wait_target HR_TASK_WAIT_SEMAPHORE_TAKE (Some (Obj_semaphore s)) = Some (SemaphoreWaiters s)"
| "wait_target HR_TASK_WAIT_MUTEX_LOCK (Some (Obj_mutex x)) = Some (MutexWaiters x)"
| "wait_target _ _ = None"

definition on_wait_list :: "task_view \<Rightarrow> hr_task_control_block \<Rightarrow> bool" where
  "on_wait_list v c \<longleftrightarrow>
     wait_target (twait_kind c) (twaiting_object c) \<noteq> None \<and>
     tblocked_wait_list c = wait_target (twait_kind c) (twaiting_object c) \<and>
     vwait v = tblocked_wait_list c \<and>
     (twait_kind c = HR_TASK_WAIT_QUEUE_SEND \<or> twait_kind c = HR_TASK_WAIT_QUEUE_RECEIVE \<longrightarrow>
      twait_buffer c \<noteq> None) \<and>
     twait_cleanup c = (if twait_kind c = HR_TASK_WAIT_MUTEX_LOCK then Some Cleanup_mutex else None)"

definition delaying :: "task_view \<Rightarrow> hr_task_control_block \<Rightarrow> bool" where
  "delaying v c \<longleftrightarrow>
     twait_kind c = HR_TASK_WAIT_DELAY \<and> twaiting_object c = Some Obj_timeout_list \<and>
     tblocked_wait_list c = None \<and> twait_cleanup c = None \<and> vwait v = None"

definition waiting :: "task_view \<Rightarrow> hr_task_control_block \<Rightarrow> bool" where
  "waiting v c \<longleftrightarrow> vready v = None \<and> (delaying v c \<or> on_wait_list v c)"

definition in_ready :: "task_view \<Rightarrow> hr_task_control_block \<Rightarrow> bool" where
  "in_ready v c \<longleftrightarrow>
     vready v = Some (ReadyQueue G_scheduler (unat (teffective_priority c))) \<and> vwait v = None \<and>
     vtimeout v = None \<and> no_wait c"

definition detached :: "task_view \<Rightarrow> hr_task_control_block \<Rightarrow> bool" where
  "detached v c \<longleftrightarrow> vready v = None \<and> vwait v = None \<and> vtimeout v = None \<and> no_wait c"

definition task_state_ok :: "task_view \<Rightarrow> hr_task_control_block \<Rightarrow> bool" where
  "task_state_ok v c =
     (case tstate c of
        HR_TASK_STATE_READY \<Rightarrow> in_ready v c
      | HR_TASK_STATE_RUNNING \<Rightarrow> in_ready v c
      | HR_TASK_STATE_BLOCKED \<Rightarrow> waiting v c
      | HR_TASK_STATE_SUSPENDED \<Rightarrow>
          (case tsuspended_resume_state c of
             HR_TASK_STATE_READY \<Rightarrow> detached v c
           | HR_TASK_STATE_BLOCKED \<Rightarrow> waiting v c
           | _ \<Rightarrow> False)
      | _ \<Rightarrow> False)"

definition prio_ok :: "task_ptr \<Rightarrow> task_view \<Rightarrow> hr_task_control_block \<Rightarrow> bool" where
  "prio_ok t v c \<longleftrightarrow>
     vrprio v = teffective_priority c \<and> vwprio v = teffective_priority c \<and>
     teffective_priority c \<le> tbase_priority c \<and>
     (if t = g_idle_task then tbase_priority c = HR_CFG_IDLE_PRIORITY
      else tbase_priority c < HR_CFG_IDLE_PRIORITY)"

text \<open>A task that is not registered is out of every list and may have been created.\<close>

definition created_ok :: "task_view \<Rightarrow> hr_task_control_block \<Rightarrow> bool" where
  "created_ok v c \<longleftrightarrow>
     vready v = None \<and> vwait v = None \<and> vtimeout v = None \<and>
     (if tmagic c = HR_CFG_TASK_MAGIC
      then tstate c = HR_TASK_STATE_CREATED \<and> vowned v \<and> no_wait c \<and> vrprio v = teffective_priority c \<and>
           vwprio v = teffective_priority c \<and> tbase_priority c = teffective_priority c \<and>
           teffective_priority c < HR_CFG_PRIORITY_COUNT
      else tstate c = HR_TASK_STATE_INVALID)"

text \<open>
  A delayed task has its timeout armed. While the tick handler works on the tasks whose timeout
  has expired, the set \<open>X\<close> below, their timeout nodes are in a list of its own or in none.
\<close>

definition timeout_armed :: "task_view \<Rightarrow> hr_task_control_block \<Rightarrow> bool" where
  "timeout_armed v c \<longleftrightarrow>
     vtimeout v \<noteq> Some ExpiredNodes \<and> (twait_kind c = HR_TASK_WAIT_DELAY \<longrightarrow> vtimeout v \<noteq> None)"

text \<open>
  A task whose wait is being ended is out of the lists while its control block still names the
  wait. The sets \<open>E\<close> below hold the tasks in that condition; between kernel calls there are none.
\<close>

definition limbo :: "task_view \<Rightarrow> hr_task_control_block \<Rightarrow> bool" where
  "limbo v c \<longleftrightarrow>
     vready v = None \<and> vwait v = None \<and> vtimeout v = None \<and>
     (tstate c = HR_TASK_STATE_BLOCKED \<or>
      tstate c = HR_TASK_STATE_SUSPENDED \<and> tsuspended_resume_state c = HR_TASK_STATE_BLOCKED) \<and>
     (twait_kind c = HR_TASK_WAIT_MUTEX_LOCK \<longrightarrow> (\<exists>x. twaiting_object c = Some (Obj_mutex x)))"

definition registered_ok ::
  "task_ptr set \<Rightarrow> task_ptr set \<Rightarrow> task_view \<Rightarrow> hr_task_control_block \<Rightarrow> task_ptr \<Rightarrow> bool" where
  "registered_ok E X v c t \<longleftrightarrow>
     tmagic c = HR_CFG_TASK_MAGIC \<and> vowned v \<and> prio_ok t v c \<and>
     (if t \<in> E then limbo v c else task_state_ok v c) \<and> (t \<in> E \<union> X \<or> timeout_armed v c) \<and>
     (t = g_idle_task \<longrightarrow> tstate c = HR_TASK_STATE_READY \<or> tstate c = HR_TASK_STATE_RUNNING)"

definition task_ok :: "task_ptr set \<Rightarrow> task_ptr set \<Rightarrow> task_view \<Rightarrow> hr_task_control_block \<Rightarrow> task_ptr \<Rightarrow> bool" where
  "task_ok E X v c t \<longleftrightarrow> (if vall v = None then created_ok v c else registered_ok E X v c t)"

definition tasks_ok :: "task_ptr set \<Rightarrow> task_ptr set \<Rightarrow> mem \<Rightarrow> (task_ptr \<Rightarrow> hr_task_control_block) \<Rightarrow> bool" where
  "tasks_ok E X m T \<longleftrightarrow> (\<forall>t. task_ok E X (view m t) (T t) t)"

lemma task_ok_cong: "(t \<in> E' \<longleftrightarrow> t \<in> E) \<Longrightarrow> (t \<in> X' \<longleftrightarrow> t \<in> X) \<Longrightarrow> task_ok E' X' v c t = task_ok E X v c t"
  by (simp add: task_ok_def registered_ok_def)

lemma tasks_ok_upd:
  assumes "tasks_ok E X m T" and "view m' = (view m)(t := v)" and "task_ok E' X' v c t"
    and "\<And>u. u \<noteq> t \<Longrightarrow> u \<in> E' \<longleftrightarrow> u \<in> E" and "\<And>u. u \<noteq> t \<Longrightarrow> u \<in> X' \<longleftrightarrow> u \<in> X"
  shows "tasks_ok E' X' m' (T(t := c))"
proof -
  have "task_ok E' X' (view m u) (T u) u" if "u \<noteq> t" for u
    using assms(1) task_ok_cong [OF assms(4,5) [OF that]] unfolding tasks_ok_def by blast
  then show ?thesis using assms(2,3) by (simp add: tasks_ok_def)
qed

section \<open>Kernel invariant\<close>

abbreviation registered :: "hr_kernel \<Rightarrow> task_ptr \<Rightarrow> bool" where
  "registered k t \<equiv> vall (view (kmem k) t) \<noteq> None"

text \<open>Mutex ownership: the owner of a mutex is the task whose list holds its owner node.\<close>

definition owners_ok :: "mem \<Rightarrow> (task_ptr \<Rightarrow> hr_task_control_block) \<Rightarrow> (mutex_ptr \<Rightarrow> hr_mutex_control_block) \<Rightarrow> bool" where
  "owners_ok m T M \<longleftrightarrow>
     (\<forall>t. inited m (OwnedMutexes t) \<longleftrightarrow> tmagic (T t) = HR_CFG_TASK_MAGIC) \<and>
     (\<forall>x. inited m (MutexWaiters x) \<longleftrightarrow> mmagic (M x) = HR_CFG_MUTEX_MAGIC) \<and>
     (\<forall>x. nlist (nodes m (OwnerNode x)) =
        (if mmagic (M x) = HR_CFG_MUTEX_MAGIC then map_option OwnedMutexes (mowner (M x)) else None)) \<and>
     (\<forall>x. mmagic (M x) = HR_CFG_MUTEX_MAGIC \<longrightarrow>
        nowner (nodes m (OwnerNode x)) = Some (Mutex_obj x) \<and>
        (mowner (M x) = None \<longleftrightarrow> mrecursion_count (M x) = 0) \<and>
        (\<forall>t. mowner (M x) = Some t \<longrightarrow> vall (view m t) \<noteq> None)) \<and>
     (\<forall>t. tmagic (T t) = HR_CFG_TASK_MAGIC \<longrightarrow> towned_mutex_count (T t) = length (nodes_of m (OwnedMutexes t)))"

lemma owners_okD:
  assumes "owners_ok m T M"
  shows "tmagic (T t) = HR_CFG_TASK_MAGIC \<Longrightarrow> inited m (OwnedMutexes t)"
    and "inited m (MutexWaiters x) \<longleftrightarrow> mmagic (M x) = HR_CFG_MUTEX_MAGIC"
    and "nlist (nodes m (OwnerNode x)) = Some l \<longleftrightarrow>
      mmagic (M x) = HR_CFG_MUTEX_MAGIC \<and> map_option OwnedMutexes (mowner (M x)) = Some l"
    and "mmagic (M x) = HR_CFG_MUTEX_MAGIC \<Longrightarrow> nowner (nodes m (OwnerNode x)) = Some (Mutex_obj x)"
    and "mmagic (M x) = HR_CFG_MUTEX_MAGIC \<Longrightarrow> mowner (M x) = None \<longleftrightarrow> mrecursion_count (M x) = 0"
    and "mmagic (M x) = HR_CFG_MUTEX_MAGIC \<Longrightarrow> mowner (M x) = Some t \<Longrightarrow> vall (view m t) \<noteq> None"
    and "tmagic (T t) = HR_CFG_TASK_MAGIC \<Longrightarrow> towned_mutex_count (T t) = length (nodes_of m (OwnedMutexes t))"
    and "inited m (OwnedMutexes t) \<longleftrightarrow> tmagic (T t) = HR_CFG_TASK_MAGIC"
proof -
  have "nlist (nodes m (OwnerNode x)) =
      (if mmagic (M x) = HR_CFG_MUTEX_MAGIC then map_option OwnedMutexes (mowner (M x)) else None)"
    using assms unfolding owners_ok_def by blast
  then show "nlist (nodes m (OwnerNode x)) = Some l \<longleftrightarrow>
      mmagic (M x) = HR_CFG_MUTEX_MAGIC \<and> map_option OwnedMutexes (mowner (M x)) = Some l"
    by simp
qed (use assms in \<open>unfold owners_ok_def, blast+\<close>)

definition current_ok :: "hr_kernel \<Rightarrow> bool" where
  "current_ok k \<longleftrightarrow>
     (g_kernel_state k = HR_KERNEL_STATE_INITIALIZED \<or> g_kernel_state k = HR_KERNEL_STATE_RUNNING) \<and>
     (\<forall>t. tstate (tcb k t) = HR_TASK_STATE_RUNNING \<longrightarrow>
        g_kernel_state k = HR_KERNEL_STATE_RUNNING \<and> g_current_task k = Some t) \<and>
     (g_kernel_state k = HR_KERNEL_STATE_RUNNING \<longrightarrow>
        g_hr_current_task_control_block k = g_current_task k \<and>
        (\<exists>t. g_current_task k = Some t \<and> registered k t))"

definition kinvx :: "task_ptr set \<Rightarrow> task_ptr set \<Rightarrow> hr_kernel \<Rightarrow> bool" where
  "kinvx E X k \<longleftrightarrow>
     mem_ok (kmem k) \<and> tasks_ok E X (kmem k) (tcb k) \<and> owners_ok (kmem k) (tcb k) (mcb k) \<and> current_ok k \<and>
     registered k g_idle_task \<and>
     last_tick (kmem k) G_timeout_list = g_kernel_tick k \<and>
     g_task_count k = length (nodes_of (kmem k) AllTasks)"

abbreviation kinv :: "hr_kernel \<Rightarrow> bool" where
  "kinv \<equiv> kinvx {} {}"

lemma kinvD:
  assumes "kinvx E X k"
  shows "mem_ok (kmem k)" and "tasks_ok E X (kmem k) (tcb k)" and "owners_ok (kmem k) (tcb k) (mcb k)"
    and "current_ok k" and "registered k g_idle_task" and "last_tick (kmem k) G_timeout_list = g_kernel_tick k"
    and "g_task_count k = length (nodes_of (kmem k) AllTasks)"
    and "task_ok E X (view (kmem k) t) (tcb k t) t"
  using assms unfolding kinvx_def tasks_ok_def by blast+

lemma registeredD:
  assumes "kinvx E X k" and "registered k t"
  shows "registered_ok E X (view (kmem k) t) (tcb k t) t" and "tmagic (tcb k t) = HR_CFG_TASK_MAGIC"
    and "vowned (view (kmem k) t)" and "prio_ok t (view (kmem k) t) (tcb k t)"
    and "t \<notin> E \<Longrightarrow> task_state_ok (view (kmem k) t) (tcb k t)"
    and "t \<in> E \<Longrightarrow> limbo (view (kmem k) t) (tcb k t)"
    and "t \<notin> E \<Longrightarrow> t \<notin> X \<Longrightarrow> timeout_armed (view (kmem k) t) (tcb k t)"
  using kinvD(8) [OF assms(1), of t] assms(2) by (auto simp: task_ok_def registered_ok_def)

text \<open>Fields the invariant does not depend on.\<close>

lemma kinv_upd [simp]:
  "kinvx E X (k\<lparr>g_switch_reasons := a\<rparr>) = kinvx E X k" "kinvx E X (k\<lparr>primask := b\<rparr>) = kinvx E X k"
  "kinvx E X (k\<lparr>inside_isr := c\<rparr>) = kinvx E X k" "kinvx E X (k\<lparr>pendsv := c\<rparr>) = kinvx E X k"
  "kinvx E X (k\<lparr>bytes := d\<rparr>) = kinvx E X k" "kinvx E X (k\<lparr>stack_mem := e\<rparr>) = kinvx E X k"
  "kinvx E X (k\<lparr>scb := f\<rparr>) = kinvx E X k" "kinvx E X (k\<lparr>qcb := g\<rparr>) = kinvx E X k" "kinvx E X (k\<lparr>tmcb := h\<rparr>) = kinvx E X k"
  "kinvx E X (k\<lparr>g_timer_system_initialized := c\<rparr>) = kinvx E X k"
  by (simp_all add: kinvx_def current_ok_def)

text \<open>An operation on one task's lists and control block keeps the invariant.\<close>

lemma owners_ok_frame:
  assumes "owners_ok m T M" and "same_others m m'" and "\<And>t. vall (view m' t) = vall (view m t)"
    and "\<And>t. tmagic (T' t) = tmagic (T t)" and "\<And>t. towned_mutex_count (T' t) = towned_mutex_count (T t)"
  shows "owners_ok m' T' M"
  using assms unfolding owners_ok_def same_others_def by simp

lemma kinv_task_step:
  assumes "kinvx E X k" and "mem_ok m'" and "same_others (kmem k) m'"
    and "view m' = (view (kmem k))(t := v)" and "vall v = vall (view (kmem k) t)" and "task_ok E' X' v c t"
    and "tmagic c = tmagic (tcb k t)" and "towned_mutex_count c = towned_mutex_count (tcb k t)"
    and "tstate c = HR_TASK_STATE_RUNNING \<Longrightarrow> tstate (tcb k t) = HR_TASK_STATE_RUNNING"
    and "\<And>u. u \<noteq> t \<Longrightarrow> u \<in> E' \<longleftrightarrow> u \<in> E" and "\<And>u. u \<noteq> t \<Longrightarrow> u \<in> X' \<longleftrightarrow> u \<in> X"
  shows "kinvx E' X' (k\<lparr>kmem := m', tcb := (tcb k)(t := c)\<rparr>)"
proof -
  note i = kinvD [OF assms(1)]
  have va: "vall (view m' u) = vall (view (kmem k) u)" for u using assms(4,5) by simp
  have "tasks_ok E' X' m' ((tcb k)(t := c))" by (rule tasks_ok_upd [OF i(2) assms(4,6,10,11)])
  moreover have "owners_ok m' ((tcb k)(t := c)) (mcb k)"
    by (rule owners_ok_frame [OF i(3) assms(3) va]) (auto simp: assms(7,8))
  moreover have "current_ok (k\<lparr>kmem := m', tcb := (tcb k)(t := c)\<rparr>)"
    using i(4) assms(9) unfolding current_ok_def by (auto simp: va)
  ultimately show ?thesis
    using assms(2,3) i(1,5-7) mem_okD(3) [OF i(1)] unfolding kinvx_def by (simp add: va same_others_def)
qed

lemma on_mem_Some: "f (kmem k) = Some (x, m) \<Longrightarrow> on_mem f k = Some (x, k\<lparr>kmem := m\<rparr>)"
  by (simp add: on_mem_def)

lemma kernel_upd_comm [simp]: "k\<lparr>tcb := T, kmem := m\<rparr> = k\<lparr>kmem := m, tcb := T\<rparr>"
  by (rule hr_kernel.equality) simp_all

lemma upd_tcb_simps [simp]:
  "kmem (upd_tcb t f k) = kmem k" "tcb (upd_tcb t f k) = (tcb k)(t := f (tcb k t))"
  "mcb (upd_tcb t f k) = mcb k" "scb (upd_tcb t f k) = scb k" "qcb (upd_tcb t f k) = qcb k"
  "tmcb (upd_tcb t f k) = tmcb k" "bytes (upd_tcb t f k) = bytes k"
  "g_kernel_state (upd_tcb t f k) = g_kernel_state k" "g_current_task (upd_tcb t f k) = g_current_task k"
  "g_hr_current_task_control_block (upd_tcb t f k) = g_hr_current_task_control_block k"
  "g_task_count (upd_tcb t f k) = g_task_count k" "g_kernel_tick (upd_tcb t f k) = g_kernel_tick k"
  "g_switch_reasons (upd_tcb t f k) = g_switch_reasons k" "pendsv (upd_tcb t f k) = pendsv k"
  "primask (upd_tcb t f k) = primask k" "inside_isr (upd_tcb t f k) = inside_isr k"
  "g_timer_system_initialized (upd_tcb t f k) = g_timer_system_initialized k"
  by (simp_all add: upd_tcb_def)

lemma owner_view:
  assumes "vowned (view m t)"
  shows "hr_list_node_owner (Some (ReadyNode t)) m = Some (Task_obj t)"
    and "hr_list_node_owner (Some (WaitNode t)) m = Some (Task_obj t)"
    and "hr_list_node_owner (Some (TimeoutNode t)) m = Some (Task_obj t)"
    and "hr_list_node_owner (Some (AllTaskNode t)) m = Some (Task_obj t)"
  using assms by (simp_all add: view_def hr_list_node_owner_def)

text \<open>Links and priorities of a task's nodes are read off its view.\<close>

lemma node_view [simp]:
  "nlist (nodes m (ReadyNode t)) = vready (view m t)" "nlist (nodes m (WaitNode t)) = vwait (view m t)"
  "nlist (nodes m (TimeoutNode t)) = vtimeout (view m t)" "nlist (nodes m (AllTaskNode t)) = vall (view m t)"
  "npriority m (ReadyNode t) = vrprio (view m t)" "npriority m (WaitNode t) = vwprio (view m t)"
  by (simp_all add: view_def)

lemma node_linked [simp]:
  "hr_list_node_is_linked (Some (ReadyNode t)) m \<longleftrightarrow> vready (view m t) \<noteq> None"
  "hr_list_node_is_linked (Some (WaitNode t)) m \<longleftrightarrow> vwait (view m t) \<noteq> None"
  "hr_list_node_is_linked (Some (TimeoutNode t)) m \<longleftrightarrow> vtimeout (view m t) \<noteq> None"
  "hr_list_node_is_linked (Some (AllTaskNode t)) m \<longleftrightarrow> vall (view m t) \<noteq> None"
  by (simp_all add: hr_list_node_is_linked_def)

end
