(* ===== verification/HR_Inherit.thy ===== *)
theory HR_Inherit
  imports HR_Kernel_Inv
begin

text \<open>
  Priority inheritance under the kernel invariant: the change of one task's effective priority
  moves its ready or wait node to the new place, the priority the source computes for a mutex
  owner is the least among its own and its waiters', and the recomputation along the owners
  always returns and changes nothing but priorities.
\<close>

section \<open>Changing priorities\<close>

text \<open>
  \<open>repri k k'\<close>: only effective priorities, and with them the places of ready and wait
  nodes, changed.
\<close>

definition repri :: "hr_kernel \<Rightarrow> hr_kernel \<Rightarrow> bool" where
  "repri k k' \<longleftrightarrow>
     k' = k\<lparr>kmem := kmem k', tcb := tcb k'\<rparr> \<and>
     same_others (kmem k) (kmem k') \<and> same_timeouts (kmem k) (kmem k') \<and>
     (\<forall>t. tcb k' t = (tcb k t)\<lparr>teffective_priority := teffective_priority (tcb k' t)\<rparr>) \<and>
     (\<forall>t. view (kmem k') t = (view (kmem k) t)\<lparr>vready := vready (view (kmem k') t),
            vrprio := vrprio (view (kmem k') t), vwprio := vwprio (view (kmem k') t)\<rparr>) \<and>
     (\<forall>t. vready (view (kmem k') t) = None \<longleftrightarrow> vready (view (kmem k) t) = None) \<and>
     (\<forall>l. is_wait_list l \<longrightarrow> inited (kmem k) l \<longrightarrow> set (nodes_of (kmem k') l) = set (nodes_of (kmem k) l)) \<and>
     set (ready_seq (kmem k') G_scheduler) = set (ready_seq (kmem k) G_scheduler)"

lemma same_timeouts_refl [simp]: "same_timeouts m m"
  by (simp add: same_timeouts_def)

lemma same_timeouts_trans: "same_timeouts m m1 \<Longrightarrow> same_timeouts m1 m2 \<Longrightarrow> same_timeouts m m2"
  by (simp add: same_timeouts_def)

lemma repri_refl [simp]: "repri k k"
  by (simp add: repri_def)

lemma repriD:
  assumes "repri k k'"
  shows "k' = k\<lparr>kmem := kmem k', tcb := tcb k'\<rparr>"
    and "same_others (kmem k) (kmem k')" and "same_timeouts (kmem k) (kmem k')"
    and "tcb k' t = (tcb k t)\<lparr>teffective_priority := teffective_priority (tcb k' t)\<rparr>"
    and "view (kmem k') t = (view (kmem k) t)\<lparr>vready := vready (view (kmem k') t),
           vrprio := vrprio (view (kmem k') t), vwprio := vwprio (view (kmem k') t)\<rparr>"
    and "vready (view (kmem k') t) = None \<longleftrightarrow> vready (view (kmem k) t) = None"
    and "is_wait_list l \<Longrightarrow> inited (kmem k) l \<Longrightarrow> set (nodes_of (kmem k') l) = set (nodes_of (kmem k) l)"
    and "set (ready_seq (kmem k') G_scheduler) = set (ready_seq (kmem k) G_scheduler)"
    and "inited (kmem k') = inited (kmem k)"
proof -
  note a = assms [unfolded repri_def]
  show "k' = k\<lparr>kmem := kmem k', tcb := tcb k'\<rparr>" "same_others (kmem k) (kmem k')" "same_timeouts (kmem k) (kmem k')"
    "set (ready_seq (kmem k') G_scheduler) = set (ready_seq (kmem k) G_scheduler)"
    "is_wait_list l \<Longrightarrow> inited (kmem k) l \<Longrightarrow> set (nodes_of (kmem k') l) = set (nodes_of (kmem k) l)"
    "vready (view (kmem k') t) = None \<longleftrightarrow> vready (view (kmem k) t) = None"
    using a by blast+
  show "tcb k' t = (tcb k t)\<lparr>teffective_priority := teffective_priority (tcb k' t)\<rparr>"
    using a by (elim conjE) (rule spec)
  show "view (kmem k') t = (view (kmem k) t)\<lparr>vready := vready (view (kmem k') t),
           vrprio := vrprio (view (kmem k') t), vwprio := vwprio (view (kmem k') t)\<rparr>"
    using a by (elim conjE) (rule spec)
  show "inited (kmem k') = inited (kmem k)" using a unfolding same_others_def by (elim conjE)
qed

lemma repri_same:
  assumes "repri k k'"
  shows "vwait (view (kmem k') t) = vwait (view (kmem k) t)" "vtimeout (view (kmem k') t) = vtimeout (view (kmem k) t)"
    "vall (view (kmem k') t) = vall (view (kmem k) t)" "vowned (view (kmem k') t) = vowned (view (kmem k) t)"
    "tstate (tcb k' t) = tstate (tcb k t)" "tmagic (tcb k' t) = tmagic (tcb k t)"
    "tsuspended_resume_state (tcb k' t) = tsuspended_resume_state (tcb k t)"
    "tbase_priority (tcb k' t) = tbase_priority (tcb k t)"
    "twait_kind (tcb k' t) = twait_kind (tcb k t)" "twaiting_object (tcb k' t) = twaiting_object (tcb k t)"
    "tblocked_wait_list (tcb k' t) = tblocked_wait_list (tcb k t)" "twait_cleanup (tcb k' t) = twait_cleanup (tcb k t)"
    "twait_buffer (tcb k' t) = twait_buffer (tcb k t)" "towned_mutex_count (tcb k' t) = towned_mutex_count (tcb k t)"
  by (subst repriD(5) [OF assms] repriD(4) [OF assms], simp)+

lemma repri_frame:
  assumes "repri k k'"
  shows "mcb k' = mcb k" "scb k' = scb k" "qcb k' = qcb k" "tmcb k' = tmcb k" "bytes k' = bytes k"
    "g_kernel_state k' = g_kernel_state k" "g_current_task k' = g_current_task k"
    "g_kernel_tick k' = g_kernel_tick k" "g_switch_reasons k' = g_switch_reasons k" "pendsv k' = pendsv k"
    "primask k' = primask k" "inside_isr k' = inside_isr k" "g_task_count k' = g_task_count k"
    "g_timer_system_initialized k' = g_timer_system_initialized k"
  by (subst repriD(1) [OF assms], simp)+

lemma record_update_trans:
  fixes c c1 c2 :: hr_task_control_block and v v1 v2 :: task_view
  shows "c1 = c\<lparr>teffective_priority := p1\<rparr> \<Longrightarrow> c2 = c1\<lparr>teffective_priority := p\<rparr> \<Longrightarrow>
      c2 = c\<lparr>teffective_priority := p\<rparr>"
    and "v1 = v\<lparr>vready := r1, vrprio := x1, vwprio := y1\<rparr> \<Longrightarrow> v2 = v1\<lparr>vready := r, vrprio := x, vwprio := y\<rparr> \<Longrightarrow>
      v2 = v\<lparr>vready := r, vrprio := x, vwprio := y\<rparr>"
  by simp_all

lemma repri_trans:
  assumes "repri k k1" and "repri k1 k2"
  shows "repri k k2"
  unfolding repri_def
proof (intro conjI allI impI)
  note a = repriD [OF assms(1)] and b = repriD [OF assms(2)]
  show "k2 = k\<lparr>kmem := kmem k2, tcb := tcb k2\<rparr>" by (rule trans [OF b(1)]) (subst a(1), simp)
  show "same_others (kmem k) (kmem k2)" by (rule same_others_trans [OF a(2) b(2)])
  show "same_timeouts (kmem k) (kmem k2)" by (rule same_timeouts_trans [OF a(3) b(3)])
  show "tcb k2 t = (tcb k t)\<lparr>teffective_priority := teffective_priority (tcb k2 t)\<rparr>" for t
    by (rule record_update_trans(1) [OF a(4) [of t] b(4) [of t]])
  show "view (kmem k2) t = (view (kmem k) t)\<lparr>vready := vready (view (kmem k2) t),
           vrprio := vrprio (view (kmem k2) t), vwprio := vwprio (view (kmem k2) t)\<rparr>" for t
    by (rule record_update_trans(2) [OF a(5) [of t] b(5) [of t]])
  show "vready (view (kmem k2) t) = None \<longleftrightarrow> vready (view (kmem k) t) = None" for t
    using a(6) b(6) by simp
  show "set (nodes_of (kmem k2) l) = set (nodes_of (kmem k) l)" if "is_wait_list l" "inited (kmem k) l" for l
    using a(7) [OF that] b(7) [OF that(1)] that(2) a(9) by simp
  show "set (ready_seq (kmem k2) G_scheduler) = set (ready_seq (kmem k) G_scheduler)"
    using a(8) b(8) by simp
qed


text \<open>The lists after a change of priority: the ready or the wait node moves to its new place.\<close>

lemma insert_remove1 [simp]: "x \<in> set xs \<Longrightarrow> insert x (set (remove1 x xs)) = set xs"
  by (induction xs) auto

lemma linked_ready: "mem_ok m \<Longrightarrow> vready (view m t) \<noteq> None \<longleftrightarrow> ReadyNode t \<in> set (ready_seq m G_scheduler)"
proof -
  assume m: "mem_ok m"
  have "vready (view m t) = Some (ReadyQueue G_scheduler i) \<longleftrightarrow> ReadyNode t \<in> set (ready_queue m G_scheduler i)"
    if "i < 8" for i
    using wf_nlist [OF mem_okD(1) [OF m], of "ReadyNode t" "ReadyQueue G_scheduler i"]
      ready_okD(1) [OF mem_okD(2) [OF m] that] by simp
  moreover have "\<exists>i < 8. l = ReadyQueue G_scheduler i" if "vready (view m t) = Some l" for l
    using ready_node_list [OF m, of t l] that by (simp add: unat_lt_8)
  ultimately show ?thesis unfolding set_ready_seq by fastforce
qed

lemma linked_wait:
  "mem_ok m \<Longrightarrow> inited m l \<Longrightarrow> vwait (view m t) = Some l \<longleftrightarrow> WaitNode t \<in> set (nodes_of m l)"
  using wf_nlist [OF mem_okD(1), of m "WaitNode t" l] by simp

definition new_priority :: "hr_priority \<Rightarrow> task_view \<Rightarrow> task_view" where
  "new_priority p v = v\<lparr>vready := map_option (\<lambda>_. ReadyQueue G_scheduler (unat p)) (vready v), vrprio := p, vwprio := p\<rparr>"

lemma new_priority_simps [simp]:
  "vready (new_priority p v) = map_option (\<lambda>_. ReadyQueue G_scheduler (unat p)) (vready v)"
  "vwait (new_priority p v) = vwait v" "vtimeout (new_priority p v) = vtimeout v"
  "vall (new_priority p v) = vall v" "vowned (new_priority p v) = vowned v"
  "vrprio (new_priority p v) = p" "vwprio (new_priority p v) = p"
  by (simp_all add: new_priority_def)

definition reprioritised :: "task_ptr \<Rightarrow> hr_priority \<Rightarrow> mem \<Rightarrow> mem \<Rightarrow> bool" where
  "reprioritised t p m m' \<longleftrightarrow>
     mem_ok m' \<and> same_others m m' \<and> same_timeouts m m' \<and>
     view m' = (view m)(t := new_priority p (view m t)) \<and>
     (\<forall>l. is_wait_list l \<longrightarrow> inited m l \<longrightarrow> set (nodes_of m' l) = set (nodes_of m l)) \<and>
     set (ready_seq m' G_scheduler) = set (ready_seq m G_scheduler)"

lemma reprioritise_ready:
  fixes p :: hr_priority
  assumes "mem_ok m" and "vready (view m t) \<noteq> None" and "vwait (view m t) = None" and "p < 8"
  obtains m1 m' where
    "hr_scheduler_remove_ready (Some G_scheduler) (Some (ReadyNode t)) m = Some (HR_OK, m1)"
    and "hr_scheduler_add_ready (Some G_scheduler) (Some (ReadyNode t))
      (m1\<lparr>npriority := (npriority m1)(ReadyNode t := p, WaitNode t := p)\<rparr>) = Some (HR_OK, m')"
    and "reprioritised t p m m'"
proof -
  have l: "nlist (nodes m (ReadyNode t)) \<noteq> None" using assms(2) by simp
  define m1 where "m1 = ready_unlink G_scheduler (ReadyNode t) m"
  note r = mem_ready_remove [OF assms(1) l, folded m1_def]
  define m2 where "m2 = m1\<lparr>npriority := (npriority m1)(ReadyNode t := p, WaitNode t := p)\<rparr>"
  have n: "nlist (nodes m1 (ReadyNode t)) = None" "nlist (nodes m1 (WaitNode t)) = None"
    using assms(3) by (simp_all add: r(3))
  note s = mem_set_priority [OF r(2) n, of p, folded m2_def]
  define m' where "m' = ready_link G_scheduler (ReadyNode t) m2"
  have n': "nlist (nodes m2 (ReadyNode t)) = None" "npriority m2 (ReadyNode t) < 8"
    using n assms(4) by (simp_all add: s(2))
  note a = mem_ready_add [OF s(1) n', folded m'_def]
  have "view m' = (view m)(t := new_priority p (view m t))"
    using assms(2) by (auto simp: a(3) s(2) r(3) fun_eq_iff new_priority_def)
  moreover have "set (nodes_of m' k) = set (nodes_of m k)" if "is_wait_list k" "inited m k" for k
    using that r(4) s(3) by (simp add: a(6) s(5) r(6) same_others_def)
  moreover have "set (ready_seq m' G_scheduler) = set (ready_seq m G_scheduler)"
    using linked_ready [OF assms(1)] assms(2) by (simp add: a(5) s(4) r(5))
  ultimately have "reprioritised t p m m'"
    using a(2) same_others_trans [OF same_others_trans [OF r(4) s(3)] a(4)]
      same_timeouts_trans [OF same_timeouts_trans [OF r(8) s(6)] a(8)]
    by (simp add: reprioritised_def)
  then show ?thesis using that [OF r(1) a(1) [unfolded m2_def]] by blast
qed

lemma reprioritise_wait:
  fixes p :: hr_priority
  assumes "mem_ok m" and "vready (view m t) = None" and "vwait (view m t) = Some l"
  obtains m1 m' where
    "hr_wait_list_remove (Some l) (Some (WaitNode t)) m = Some (HR_OK, m1)"
    and "hr_wait_list_insert (Some l) (Some (WaitNode t))
      (m1\<lparr>npriority := (npriority m1)(ReadyNode t := p, WaitNode t := p)\<rparr>) = Some (HR_OK, m')"
    and "reprioritised t p m m'"
proof -
  have l: "nlist (nodes m (WaitNode t)) = Some l" using assms(3) by simp
  have wl: "is_wait_list l" "inited m l" using wait_node_list [OF assms(1) l] by auto
  define m1 where "m1 = unlink (WaitNode t) m"
  note r = mem_wait_remove [OF assms(1) l, folded m1_def]
  define m2 where "m2 = m1\<lparr>npriority := (npriority m1)(ReadyNode t := p, WaitNode t := p)\<rparr>"
  have n: "nlist (nodes m1 (ReadyNode t)) = None" "nlist (nodes m1 (WaitNode t)) = None"
    using assms(2) by (simp_all add: r(3))
  note s = mem_set_priority [OF r(2) n, of p, folded m2_def]
  define m' where "m' = fifo_link (npriority m2) l (WaitNode t) m2"
  have ini: "inited m2 = inited m" using r(4) s(3) by (simp add: same_others_def)
  have n': "inited m2 l" "nlist (nodes m2 (WaitNode t)) = None"
    using n wl by (simp_all add: s(2) ini)
  note a = mem_wait_insert [OF s(1) wl(1) n', folded m'_def]
  have "view m' = (view m)(t := new_priority p (view m t))"
    using assms(2,3) by (auto simp: a(3) s(2) r(3) fun_eq_iff new_priority_def)
  moreover have "set (nodes_of m' k) = set (nodes_of m k)" if "is_wait_list k" "inited m k" for k
    using that linked_wait [OF assms(1) wl(2), of t] assms(3) wl(2) by (simp add: a(6) s(5) r(6) ini)
  ultimately have "reprioritised t p m m'"
    using a(2) same_others_trans [OF same_others_trans [OF r(4) s(3)] a(4)]
      same_timeouts_trans [OF same_timeouts_trans [OF r(8) s(6)] a(8)]
    by (simp add: reprioritised_def a(5) s(4) r(5))
  then show ?thesis using that [OF r(1) a(1) [unfolded m2_def]] by blast
qed

lemma reprioritise_none:
  fixes p :: hr_priority
  assumes "mem_ok m" and "vready (view m t) = None" and "vwait (view m t) = None"
  shows "reprioritised t p m (m\<lparr>npriority := (npriority m)(ReadyNode t := p, WaitNode t := p)\<rparr>)"
  using mem_set_priority [OF assms(1), of t p] assms(2,3)
  by (auto simp: reprioritised_def new_priority_def fun_eq_iff)

lemma new_priority_state:
  "in_ready v c \<Longrightarrow> in_ready (new_priority p v) (c\<lparr>teffective_priority := p\<rparr>)"
  "waiting (new_priority p v) (c\<lparr>teffective_priority := p\<rparr>) = waiting v c"
  "detached (new_priority p v) (c\<lparr>teffective_priority := p\<rparr>) = detached v c"
  by (simp_all add: in_ready_def waiting_def delaying_def on_wait_list_def detached_def no_wait_def)

lemma task_state_ok_priority:
  "task_state_ok v c \<Longrightarrow> task_state_ok (new_priority p v) (c\<lparr>teffective_priority := p\<rparr>)"
  unfolding task_state_ok_def by (simp add: new_priority_state split: hr_task_state.splits)

lemma task_ok_priority:
  assumes "task_ok E X v c t" and "vall v \<noteq> None" and "p \<le> tbase_priority c"
  shows "task_ok E X (new_priority p v) (c\<lparr>teffective_priority := p\<rparr>) t"
  using assms
  by (auto simp: task_ok_def registered_ok_def prio_ok_def task_state_ok_priority limbo_def timeout_armed_def)

lemma task_ok_links:
  assumes "task_ok E X v c t" and "vall v \<noteq> None"
  obtains "vready v \<noteq> None" and "vwait v = None"
  | l where "vready v = None" and "vwait v = Some l" and "tblocked_wait_list c = Some l"
  | "vready v = None" and "vwait v = None"
  using assms
  by (auto simp: task_ok_def registered_ok_def task_state_ok_def in_ready_def waiting_def
      delaying_def on_wait_list_def detached_def no_wait_def limbo_def split: hr_task_state.splits if_splits)

lemma set_priority_step:
  assumes "kinvx E X k" and "registered k t" and "p \<le> tbase_priority (tcb k t)"
    and "reprioritised t p (kmem k) m'"
  defines "k' \<equiv> k\<lparr>kmem := m', tcb := (tcb k)(t := (tcb k t)\<lparr>teffective_priority := p\<rparr>)\<rparr>"
  shows "kinvx E X k'" and "repri k k'"
proof -
  note r = assms(4) [unfolded reprioritised_def]
  have v: "view m' = (view (kmem k))(t := new_priority p (view (kmem k) t))"
    and o: "mem_ok m'" "same_others (kmem k) m'" using r by blast+
  show "kinvx E X k'"
    unfolding k'_def
    by (rule kinv_task_step [OF assms(1) o v _ task_ok_priority [OF kinvD(8) [OF assms(1)] assms(2,3)]]) simp_all
  show "repri k k'"
    unfolding repri_def
  proof (intro conjI allI)
    show "view (kmem k') u = (view (kmem k) u)\<lparr>vready := vready (view (kmem k') u),
        vrprio := vrprio (view (kmem k') u), vwprio := vwprio (view (kmem k') u)\<rparr>" for u
      by (simp add: k'_def v new_priority_def)
    show "vready (view (kmem k') u) = None \<longleftrightarrow> vready (view (kmem k) u) = None" for u
      by (simp add: k'_def v)
  qed (use r in \<open>simp_all add: k'_def\<close>)
qed

lemma set_priority_ok:
  assumes "kinvx E X k" and "registered k t" and "p \<le> tbase_priority (tcb k t)" and "p < HR_CFG_IDLE_PRIORITY"
  obtains m' where "hr_kernel_set_task_effective_priority (Some t) p k =
      Some (HR_OK, k\<lparr>kmem := m', tcb := (tcb k)(t := (tcb k t)\<lparr>teffective_priority := p\<rparr>)\<rparr>)"
    and "kinvx E X (k\<lparr>kmem := m', tcb := (tcb k)(t := (tcb k t)\<lparr>teffective_priority := p\<rparr>)\<rparr>)"
    and "repri k (k\<lparr>kmem := m', tcb := (tcb k)(t := (tcb k t)\<lparr>teffective_priority := p\<rparr>)\<rparr>)"
proof -
  note ok = kinvD(8) [OF assms(1), of t]
  have p7: "\<not> p \<ge> 7" and p8: "p < 8"
    using assms(4) by (auto simp: word_less_nat_alt word_le_nat_alt)
  show ?thesis
  proof (cases "teffective_priority (tcb k t) = p")
    case True
    have "(tcb k)(t := (tcb k t)\<lparr>teffective_priority := p\<rparr>) = tcb k" using True by auto
    then show ?thesis
      using that [of "kmem k"] p7 True assms(1) by (simp add: hr_kernel_set_task_effective_priority_def)
  next
    case False
    note def = hr_kernel_set_task_effective_priority_def on_mem_def set_node_priorities_def upd_tcb_def Let_def
    note m = kinvD(1) [OF assms(1)]
    have "\<exists>m'. hr_kernel_set_task_effective_priority (Some t) p k =
        Some (HR_OK, k\<lparr>kmem := m', tcb := (tcb k)(t := (tcb k t)\<lparr>teffective_priority := p\<rparr>)\<rparr>) \<and>
        reprioritised t p (kmem k) m'" (is "\<exists>m'. ?P m'")
    proof (rule task_ok_links [OF ok assms(2)])
      assume l: "vready (view (kmem k) t) \<noteq> None" "vwait (view (kmem k) t) = None"
      show ?thesis
      proof (rule reprioritise_ready [OF m l p8])
        fix m1 m' assume "hr_scheduler_remove_ready (Some G_scheduler) (Some (ReadyNode t)) (kmem k) = Some (HR_OK, m1)"
          and "hr_scheduler_add_ready (Some G_scheduler) (Some (ReadyNode t))
            (m1\<lparr>npriority := (npriority m1)(ReadyNode t := p, WaitNode t := p)\<rparr>) = Some (HR_OK, m')"
          and "reprioritised t p (kmem k) m'"
        then have "?P m'" using p7 False l by (simp add: def)
        then show ?thesis ..
      qed
    next
      fix l assume l: "vready (view (kmem k) t) = None" "vwait (view (kmem k) t) = Some l"
        and b: "tblocked_wait_list (tcb k t) = Some l"
      show ?thesis
      proof (rule reprioritise_wait [OF m l, where p = p])
        fix m1 m' assume "hr_wait_list_remove (Some l) (Some (WaitNode t)) (kmem k) = Some (HR_OK, m1)"
          and "hr_wait_list_insert (Some l) (Some (WaitNode t))
            (m1\<lparr>npriority := (npriority m1)(ReadyNode t := p, WaitNode t := p)\<rparr>) = Some (HR_OK, m')"
          and "reprioritised t p (kmem k) m'"
        then have "?P m'" using p7 False l b by (simp add: def)
        then show ?thesis ..
      qed
    next
      assume l: "vready (view (kmem k) t) = None" "vwait (view (kmem k) t) = None"
      have "?P ((kmem k)\<lparr>npriority := (npriority (kmem k))(ReadyNode t := p, WaitNode t := p)\<rparr>)"
        using reprioritise_none [OF m l, of p] p7 False l by (simp add: def)
      then show ?thesis ..
    qed
    then show ?thesis using that set_priority_step [OF assms(1-3)] by blast
  qed
qed

section \<open>Priority inheritance\<close>

text \<open>The priority the owner of mutexes needs: the least of its base priority and the priorities of
  the tasks that wait for one of its mutexes.\<close>

abbreviation waiters :: "hr_kernel \<Rightarrow> mutex_ptr \<Rightarrow> node_addr list" where
  "waiters k x \<equiv> nodes_of (kmem k) (MutexWaiters x)"

definition owns :: "hr_kernel \<Rightarrow> task_ptr \<Rightarrow> mutex_ptr \<Rightarrow> bool" where
  "owns k t x \<longleftrightarrow> mmagic (mcb k x) = HR_CFG_MUTEX_MAGIC \<and> mowner (mcb k x) = Some t"

lemma owner_nodes:
  assumes "kinvx E X k" and "tmagic (tcb k t) = HR_CFG_TASK_MAGIC"
  shows "inited (kmem k) (OwnedMutexes t)"
    and "n \<in> set (nodes_of (kmem k) (OwnedMutexes t)) \<longleftrightarrow> (\<exists>x. n = OwnerNode x \<and> owns k t x)"
proof -
  note m = kinvD(1) [OF assms(1)] and o = owners_okD [OF kinvD(3) [OF assms(1)]]
  show i: "inited (kmem k) (OwnedMutexes t)" by (rule o(1) [OF assms(2)])
  have x: "OwnerNode x \<in> set (nodes_of (kmem k) (OwnedMutexes t)) \<longleftrightarrow> owns k t x" for x
    using wf_nlist [OF mem_okD(1) [OF m], of "OwnerNode x" "OwnedMutexes t"] i
    by (auto simp: o(3) owns_def)
  have "\<exists>x. n = OwnerNode x" if "n \<in> set (nodes_of (kmem k) (OwnedMutexes t))"
    using member_fits [OF m i that] wf_not_root [OF mem_okD(1) [OF m] i that] by (cases n) auto
  then show "n \<in> set (nodes_of (kmem k) (OwnedMutexes t)) \<longleftrightarrow> (\<exists>x. n = OwnerNode x \<and> owns k t x)"
    using x by blast
qed

lemma owned_mutex:
  assumes "kinvx E X k" and "owns k t x"
  shows "inited (kmem k) (MutexWaiters x)" and "nowner (nodes (kmem k) (OwnerNode x)) = Some (Mutex_obj x)"
    and "registered k t" and "tmagic (tcb k t) = HR_CFG_TASK_MAGIC"
proof -
  note o = owners_okD [OF kinvD(3) [OF assms(1)]]
  show "inited (kmem k) (MutexWaiters x)" "nowner (nodes (kmem k) (OwnerNode x)) = Some (Mutex_obj x)"
    using o(2,4) assms(2) by (simp_all add: owns_def)
  show r: "registered k t" using o(6) assms(2) unfolding owns_def by blast
  show "tmagic (tcb k t) = HR_CFG_TASK_MAGIC" by (rule registeredD(2) [OF assms(1) r])
qed

lemma peek_least:
  assumes "mem_ok m" and "is_wait_list l" and "inited m l"
  shows "hr_wait_list_peek (Some l) m = None \<longleftrightarrow> nodes_of m l = []"
    and "hr_wait_list_peek (Some l) m = Some w \<Longrightarrow>
      w \<in> set (nodes_of m l) \<and> (\<forall>v \<in> set (nodes_of m l). npriority m w \<le> npriority m v)"
  using mem_okD(7) [OF assms] wait_peek_wf [OF mem_okD(1) [OF assms(1)] assms(3)]
  by (auto split: list.splits)

lemma required_loop_ok:
  assumes "kinvx E X k" and "tmagic (tcb k t) = HR_CFG_TASK_MAGIC"
    and "nodes_of (kmem k) (OwnedMutexes t) = as @ bs"
  shows "\<exists>r. required_priority_loop t (case bs of [] \<Rightarrow> None | n # _ \<Rightarrow> Some n) p k = Some r \<and> r \<le> p \<and>
    (\<forall>x. OwnerNode x \<in> set bs \<longrightarrow> (\<forall>w \<in> set (waiters k x). r \<le> npriority (kmem k) w)) \<and>
    (r = p \<or> (\<exists>x. OwnerNode x \<in> set bs \<and> (\<exists>w \<in> set (waiters k x). r = npriority (kmem k) w)))"
  using assms(3)
proof (induction bs arbitrary: as p)
  case Nil
  then show ?case by (simp add: required_priority_loop.simps)
next
  case (Cons n bs)
  note m = kinvD(1) [OF assms(1)]
  obtain x where n: "n = OwnerNode x" and x: "owns k t x"
    using owner_nodes(2) [OF assms(1,2), of n] Cons.prems by auto
  note ox = owned_mutex [OF assms(1) x]
  define q where "q = (case hr_wait_list_peek (Some (MutexWaiters x)) (kmem k) of None \<Rightarrow> p
      | Some w \<Rightarrow> if npriority (kmem k) w < p then npriority (kmem k) w else p)"
  note pk = peek_least [OF m _ ox(1), simplified]
  have q: "q \<le> p \<and> (\<forall>w \<in> set (waiters k x). q \<le> npriority (kmem k) w) \<and>
      (q = p \<or> (\<exists>w \<in> set (waiters k x). q = npriority (kmem k) w))"
    using pk by (cases "hr_wait_list_peek (Some (MutexWaiters x)) (kmem k)") (auto simp: q_def)
  have step: "required_priority_loop t (Some n) p k =
      required_priority_loop t (case bs of [] \<Rightarrow> None | n # _ \<Rightarrow> Some n) q k"
    using x next_wf [OF mem_okD(1) [OF m] owner_nodes(1) [OF assms(1,2)] Cons.prems]
    by (subst required_priority_loop.simps) (simp add: n hr_list_node_owner_def ox(2) as_mutex_def owns_def Let_def flip: q_def)
  obtain r where "required_priority_loop t (case bs of [] \<Rightarrow> None | n # _ \<Rightarrow> Some n) q k = Some r" "r \<le> q"
    "\<forall>x. OwnerNode x \<in> set bs \<longrightarrow> (\<forall>w \<in> set (waiters k x). r \<le> npriority (kmem k) w)"
    "r = q \<or> (\<exists>x. OwnerNode x \<in> set bs \<and> (\<exists>w \<in> set (waiters k x). r = npriority (kmem k) w))"
    using Cons.IH [of "as @ [n]" q] Cons.prems by auto
  then show ?case using q step n by (intro exI [of _ r]) (auto intro: order_trans)
qed

lemma required_priority_ok:
  assumes "kinvx E X k" and "registered k t"
  obtains r where "hr_mutex_required_priority t k = Some r" and "r \<le> tbase_priority (tcb k t)"
    and "\<And>x w. owns k t x \<Longrightarrow> w \<in> set (waiters k x) \<Longrightarrow> r \<le> npriority (kmem k) w"
    and "r = tbase_priority (tcb k t) \<or> (\<exists>x w. owns k t x \<and> w \<in> set (waiters k x) \<and> r = npriority (kmem k) w)"
proof -
  note t = registeredD(2) [OF assms]
  note o = owner_nodes [OF assms(1) t]
  show ?thesis
    using required_loop_ok [OF assms(1) t, of "[]" "nodes_of (kmem k) (OwnedMutexes t)" "tbase_priority (tcb k t)"]
      front_wf [OF mem_okD(1) [OF kinvD(1) [OF assms(1)]] o(1)] that
    unfolding hr_mutex_required_priority_def o(2) by auto
qed

lemma waits_for_mutex:
  assumes "kinvx E X k" and "registered k t" and "twait_kind (tcb k t) = HR_TASK_WAIT_MUTEX_LOCK"
  obtains x where "twaiting_object (tcb k t) = Some (Obj_mutex x)"
    and "t \<notin> E \<Longrightarrow> vwait (view (kmem k) t) = Some (MutexWaiters x) \<and> mmagic (mcb k x) = HR_CFG_MUTEX_MAGIC"
proof (cases "t \<in> E")
  case True
  then show ?thesis using that registeredD(6) [OF assms(1,2)] assms(3) by (auto simp: limbo_def)
next
  case False
  have "on_wait_list (view (kmem k) t) (tcb k t)"
    using registeredD(5) [OF assms(1,2) False] assms(3)
    by (auto simp: task_state_ok_def in_ready_def waiting_def detached_def no_wait_def delaying_def
        split: hr_task_state.splits)
  then obtain x where x: "twaiting_object (tcb k t) = Some (Obj_mutex x)" "vwait (view (kmem k) t) = Some (MutexWaiters x)"
    using assms(3) unfolding on_wait_list_def
    by (cases "twaiting_object (tcb k t)") (auto elim: wait_target.elims)
  moreover have "mmagic (mcb k x) = HR_CFG_MUTEX_MAGIC"
    using owners_okD(2) [OF kinvD(3) [OF assms(1)], of x] wait_node_list [OF kinvD(1) [OF assms(1)], of t] x(2) by auto
  ultimately show ?thesis using that by blast
qed

lemma hr_task_is_valid_iff [simp]: "hr_task_is_valid (Some t) k \<longleftrightarrow> tmagic (tcb k t) = HR_CFG_TASK_MAGIC"
  by (simp add: hr_task_is_valid_def)

lemma recompute_ok:
  assumes "kinvx E X k" and "registered k t"
  shows "\<exists>st k'. recompute_loop n (Some t) k = Some (st, k') \<and> kinvx E X k' \<and> repri k k'"
  using assms
proof (induction n arbitrary: t k)
  case (Suc n)
  obtain r where r: "hr_mutex_required_priority t k = Some r" "r \<le> tbase_priority (tcb k t)"
    using required_priority_ok [OF Suc.prems] by metis
  show ?case
  proof (cases "r < 7")
    case False
    then show ?thesis
      using r Suc.prems by (auto simp: hr_kernel_set_task_effective_priority_def not_less)
  next
    case True
    obtain k1 where k1: "hr_kernel_set_task_effective_priority (Some t) r k = Some (HR_OK, k1)" "kinvx E X k1" "repri k k1"
      using set_priority_ok [OF Suc.prems r(2) True] by metis
    have reg: "registered k1 t" using Suc.prems(2) by (simp add: repri_same [OF k1(3)])
    show ?thesis
    proof (cases "twait_kind (tcb k1 t) = HR_TASK_WAIT_MUTEX_LOCK")
      case False
      then show ?thesis using r k1 by simp
    next
      case True
      obtain x where x: "twaiting_object (tcb k1 t) = Some (Obj_mutex x)"
        using waits_for_mutex [OF k1(2) reg True] by metis
      have "\<exists>st k'. recompute_loop n (mowner (mcb k1 x)) k1 = Some (st, k') \<and> kinvx E X k' \<and> repri k k'"
        if "mowner (mcb k1 x) \<noteq> None" and magic: "mmagic (mcb k1 x) = HR_CFG_MUTEX_MAGIC"
      proof -
        obtain u where u: "mowner (mcb k1 x) = Some u" using \<open>mowner (mcb k1 x) \<noteq> None\<close> by blast
        obtain st k' where "recompute_loop n (Some u) k1 = Some (st, k')" "kinvx E X k'" "repri k1 k'"
          using Suc.IH [OF k1(2) owners_okD(6) [OF kinvD(3) [OF k1(2)] magic u]] by blast
        then show ?thesis using repri_trans [OF k1(3)] u by auto
      qed
      then show ?thesis using r k1 x True by (simp add: wait_object_mutex_def)
    qed
  qed
qed auto

lemma recompute_owner_ok:
  assumes "kinvx E X k"
  obtains st k' where "hr_mutex_recompute_owner_priority (Some x) k = Some (st, k')" and "kinvx E X k'" and "repri k k'"
proof (cases "mmagic (mcb k x) = HR_CFG_MUTEX_MAGIC \<and> mowner (mcb k x) \<noteq> None")
  case True
  then obtain u where u: "mowner (mcb k x) = Some u" by blast
  have "registered k u" using owners_okD(6) [OF kinvD(3) [OF assms]] True u by blast
  then show ?thesis
    using that recompute_ok [OF assms, of u "HR_CFG_MAX_TASKS + 1"] registeredD(2) [OF assms] True u
    by (auto simp: hr_mutex_recompute_owner_priority_def hr_mutex_recompute_task_priority_def)
next
  case False
  then have "\<exists>st. hr_mutex_recompute_owner_priority (Some x) k = Some (st, k)"
    by (auto simp: hr_mutex_recompute_owner_priority_def)
  then show ?thesis using that assms by auto
qed

end
