(* ===== verification/HR_Wake.thy ===== *)
theory HR_Wake
  imports HR_Inherit
begin

text \<open>
  The end of a wait: \<open>hr_kernel_make_task_ready\<close> and \<open>hr_kernel_unblock_waiter\<close>.
  The task leaves its wait list and the timeout list, the clean-up of a mutex wait recomputes
  the owner's priority, and the task enters the ready set or stays suspended.
\<close>

section \<open>Leaving the lists\<close>

text \<open>The lists when a task has left its wait list and the timeout list.\<close>

definition left :: "task_ptr \<Rightarrow> mem \<Rightarrow> mem \<Rightarrow> bool" where
  "left t m m' \<longleftrightarrow>
     mem_ok m' \<and> same_others m m' \<and> view m' = (view m)(t := (view m t)\<lparr>vwait := None, vtimeout := None\<rparr>) \<and>
     ready_seq m' G_scheduler = ready_seq m G_scheduler \<and> npriority m' = npriority m \<and>
     (\<forall>l. is_wait_list l \<longrightarrow> inited m l \<longrightarrow> nodes_of m' l = remove1 (WaitNode t) (nodes_of m l)) \<and>
     timeout_seq m' G_timeout_list = remove1 (TimeoutNode t) (timeout_seq m G_timeout_list) \<and>
     remaining m' G_timeout_list = remaining m G_timeout_list"

lemma leave_wait:
  assumes "mem_ok m"
  obtains m1 where
    "(if vwait (view m t) \<noteq> None then hr_wait_list_remove (vwait (view m t)) (Some (WaitNode t)) m
      else Some (HR_OK, m)) = Some (HR_OK, m1)"
    and "mem_ok m1" and "same_others m m1" and "view m1 = (view m)(t := (view m t)\<lparr>vwait := None\<rparr>)"
    and "ready_seq m1 G_scheduler = ready_seq m G_scheduler" and "npriority m1 = npriority m"
    and "\<And>l. is_wait_list l \<Longrightarrow> inited m l \<Longrightarrow> nodes_of m1 l = remove1 (WaitNode t) (nodes_of m l)"
    and "same_timeouts m m1"
proof (cases "vwait (view m t)")
  case None
  then have "WaitNode t \<notin> set (nodes_of m l)" if "inited m l" for l
    using linked_wait [OF assms that, of t] by simp
  then show ?thesis
    using None assms by (intro that [of m]) (simp_all add: remove1_idem fun_eq_iff)
next
  case (Some l)
  then have l: "nlist (nodes m (WaitNode t)) = Some l" by simp
  note r = mem_wait_remove [OF assms l]
  have "WaitNode t \<notin> set (nodes_of m k)" if "inited m k" "k \<noteq> l" for k
    using linked_wait [OF assms that(1), of t] Some that(2) by simp
  then have "nodes_of (unlink (WaitNode t) m) k = remove1 (WaitNode t) (nodes_of m k)" if "inited m k" for k
    using r(6) [OF that] that by (simp add: remove1_idem)
  then show ?thesis using Some r by (intro that [of "unlink (WaitNode t) m"]) simp_all
qed

lemma leave_timeout:
  assumes "mem_ok m" and "vtimeout (view m t) \<noteq> Some ExpiredNodes"
  obtains m2 where
    "(if vtimeout (view m t) \<noteq> None then hr_timeout_list_remove (Some G_timeout_list) (Some (TimeoutNode t)) m
      else Some (HR_OK, m)) = Some (HR_OK, m2)"
    and "mem_ok m2" and "same_others m m2" and "view m2 = (view m)(t := (view m t)\<lparr>vtimeout := None\<rparr>)"
    and "ready_seq m2 G_scheduler = ready_seq m G_scheduler" and "npriority m2 = npriority m"
    and "\<And>l. is_wait_list l \<Longrightarrow> inited m l \<Longrightarrow> nodes_of m2 l = nodes_of m l"
    and "timeout_seq m2 G_timeout_list = remove1 (TimeoutNode t) (timeout_seq m G_timeout_list)"
    and "remaining m2 G_timeout_list = remaining m G_timeout_list"
proof (cases "vtimeout (view m t)")
  case None
  then have "TimeoutNode t \<notin> set (timeout_seq m G_timeout_list)"
    using timeout_seq_linked [OF mem_okD(1,4) [OF assms(1)], of "TimeoutNode t"] by simp
  then show ?thesis
    using None assms by (intro that [of m]) (simp_all add: remove1_idem fun_eq_iff)
next
  case (Some l)
  then have l: "nlist (nodes m (TimeoutNode t)) = Some l" by simp
  obtain i where "l = TimeoutList G_timeout_list i"
    using mem_okD(6) [OF assms(1) l] assms(2) Some by (auto split: list_addr.splits)
  then have l: "nlist (nodes m (TimeoutNode t)) = Some (TimeoutList G_timeout_list i)" using l by simp
  show ?thesis
    using mem_timeout_remove [OF assms(1) l] Some
    by (intro that [of "timeout_unlink G_timeout_list (TimeoutNode t) m"]) simp_all
qed

lemma leave_lists:
  assumes "mem_ok m" and "vtimeout (view m t) \<noteq> Some ExpiredNodes"
  obtains m1 m2 where
    "(if vwait (view m t) \<noteq> None then hr_wait_list_remove (vwait (view m t)) (Some (WaitNode t)) m
      else Some (HR_OK, m)) = Some (HR_OK, m1)"
    and "(if vtimeout (view m1 t) \<noteq> None then hr_timeout_list_remove (Some G_timeout_list) (Some (TimeoutNode t)) m1
      else Some (HR_OK, m1)) = Some (HR_OK, m2)"
    and "left t m m2"
proof (rule leave_wait [OF assms(1), of t])
  fix m1 assume 1: "(if vwait (view m t) \<noteq> None then hr_wait_list_remove (vwait (view m t)) (Some (WaitNode t)) m
      else Some (HR_OK, m)) = Some (HR_OK, m1)"
    and m1: "mem_ok m1" "same_others m m1" "view m1 = (view m)(t := (view m t)\<lparr>vwait := None\<rparr>)"
      "ready_seq m1 G_scheduler = ready_seq m G_scheduler" "npriority m1 = npriority m"
      "\<And>l. is_wait_list l \<Longrightarrow> inited m l \<Longrightarrow> nodes_of m1 l = remove1 (WaitNode t) (nodes_of m l)"
      "same_timeouts m m1"
  have v: "vtimeout (view m1 t) \<noteq> Some ExpiredNodes" using assms(2) m1(3) by simp
  have i: "inited m1 = inited m" using m1(2) by (simp add: same_others_def)
  show thesis
  proof (rule leave_timeout [OF m1(1) v])
    fix m2 assume 2: "(if vtimeout (view m1 t) \<noteq> None
        then hr_timeout_list_remove (Some G_timeout_list) (Some (TimeoutNode t)) m1 else Some (HR_OK, m1)) = Some (HR_OK, m2)"
      and m2: "mem_ok m2" "same_others m1 m2" "view m2 = (view m1)(t := (view m1 t)\<lparr>vtimeout := None\<rparr>)"
        "ready_seq m2 G_scheduler = ready_seq m1 G_scheduler" "npriority m2 = npriority m1"
        "\<And>l. is_wait_list l \<Longrightarrow> inited m1 l \<Longrightarrow> nodes_of m2 l = nodes_of m1 l"
        "timeout_seq m2 G_timeout_list = remove1 (TimeoutNode t) (timeout_seq m1 G_timeout_list)"
        "remaining m2 G_timeout_list = remaining m1 G_timeout_list"
    have "left t m m2"
      unfolding left_def
      using m2 m1(4-6) same_others_trans [OF m1(2) m2(2)] same_timeouts_ok(2,3) [OF m1(7) mem_okD(4) [OF assms(1)]]
      by (simp add: i m1(3))
    then show thesis using that 1 2 by blast
  qed
qed

section \<open>Becoming ready\<close>

text \<open>What the end of the wait makes of the control block and of the ready set.\<close>

definition wake_tcb :: "hr_status \<Rightarrow> hr_task_control_block \<Rightarrow> hr_task_control_block" where
  "wake_tcb result c =
     (if suspended_wait c
      then (clear_wait result c)\<lparr>ttime_slice_remaining := HR_CFG_TIME_SLICE_TICKS,
             tsuspended_resume_state := HR_TASK_STATE_READY\<rparr>
      else (clear_wait result c)\<lparr>ttime_slice_remaining := HR_CFG_TIME_SLICE_TICKS,
             tstate := HR_TASK_STATE_READY\<rparr>)"

definition wake_mem :: "task_ptr \<Rightarrow> hr_task_control_block \<Rightarrow> mem \<Rightarrow> mem" where
  "wake_mem t c m = (if suspended_wait c then m else ready_link G_scheduler (ReadyNode t) m)"

definition wake :: "task_ptr \<Rightarrow> hr_status \<Rightarrow> hr_kernel \<Rightarrow> hr_kernel" where
  "wake t result k =
     k\<lparr>kmem := wake_mem t (tcb k t) (kmem k), tcb := (tcb k)(t := wake_tcb result (tcb k t))\<rparr>"

text \<open>Whether a task that became ready has a higher priority than the running one.\<close>

definition outranks :: "hr_kernel \<Rightarrow> task_ptr \<Rightarrow> bool" where
  "outranks k t \<longleftrightarrow>
     (case g_current_task k of
        None \<Rightarrow> False
      | Some cur \<Rightarrow>
          hr_task_is_valid (g_current_task k) k \<and> tstate (tcb k cur) = HR_TASK_STATE_RUNNING \<and>
          teffective_priority (tcb k t) < teffective_priority (tcb k cur))"

definition blocked :: "hr_task_control_block \<Rightarrow> bool" where
  "blocked c \<longleftrightarrow> tstate c = HR_TASK_STATE_BLOCKED \<or> suspended_wait c"

lemma limbo_blocked: "limbo v c \<Longrightarrow> blocked c"
  by (auto simp: limbo_def blocked_def suspended_wait_def)

lemma state_blocked:
  assumes "task_state_ok v c" and "blocked c"
  shows "waiting v c" and "vready v = None" and "vwait v = tblocked_wait_list c"
    and "twait_kind c = HR_TASK_WAIT_MUTEX_LOCK \<Longrightarrow> \<exists>x. twaiting_object c = Some (Obj_mutex x)"
    and "twait_cleanup c = (if twait_kind c = HR_TASK_WAIT_MUTEX_LOCK then Some Cleanup_mutex else None)"
proof -
  show w: "waiting v c"
    using assms by (auto simp: task_state_ok_def blocked_def suspended_wait_def)
  then show "vready v = None" by (simp add: waiting_def)
  show "vwait v = tblocked_wait_list c" "twait_cleanup c = (if twait_kind c = HR_TASK_WAIT_MUTEX_LOCK then Some Cleanup_mutex else None)"
    using w by (auto simp: waiting_def delaying_def on_wait_list_def)
  assume k: "twait_kind c = HR_TASK_WAIT_MUTEX_LOCK"
  then have "wait_target HR_TASK_WAIT_MUTEX_LOCK (twaiting_object c) \<noteq> None"
    using w by (simp add: waiting_def delaying_def on_wait_list_def)
  then show "\<exists>x. twaiting_object c = Some (Obj_mutex x)"
    by (cases "twaiting_object c") (auto elim: wait_target.elims)
qed

lemma limbo_kinv:
  assumes "kinvx {} X k" and "registered k t" and "blocked (tcb k t)" and "left t (kmem k) m"
  shows "kinvx {t} X (k\<lparr>kmem := m\<rparr>)"
proof -
  note r = registeredD [OF assms(1,2)]
  note b = state_blocked [OF r(5) [simplified] assms(3)]
  have "limbo ((view (kmem k) t)\<lparr>vwait := None, vtimeout := None\<rparr>) (tcb k t)"
    using b(2,4) assms(3) by (simp add: limbo_def blocked_def suspended_wait_def)
  then have "task_ok {t} X ((view (kmem k) t)\<lparr>vwait := None, vtimeout := None\<rparr>) (tcb k t) t"
    using r(1) assms(2) by (auto simp: task_ok_def registered_ok_def prio_ok_def)
  moreover have "(tcb k)(t := tcb k t) = tcb k" by simp
  ultimately show ?thesis
    using kinv_task_step [OF assms(1), of m t "(view (kmem k) t)\<lparr>vwait := None, vtimeout := None\<rparr>" "{t}" X "tcb k t"]
      assms(4) by (simp add: left_def)
qed

lemma wake_kinv:
  assumes "kinvx {t} X k" and "registered k t"
  shows "kinvx {} (X - {t}) (wake t result k)"
    and "\<not> suspended_wait (tcb k t) \<Longrightarrow> hr_scheduler_add_ready (Some G_scheduler) (Some (ReadyNode t)) (kmem k) =
      Some (HR_OK, wake_mem t (tcb k t) (kmem k))"
proof -
  note r = registeredD [OF assms] and m = kinvD(1) [OF assms(1)]
  have l: "limbo (view (kmem k) t) (tcb k t)" by (rule r(6)) simp
  have p: "vrprio (view (kmem k) t) = teffective_priority (tcb k t)" "teffective_priority (tcb k t) < 8"
    using r(4) by (auto simp: prio_ok_def word_less_nat_alt word_le_nat_alt split: if_splits)
  have n: "nlist (nodes (kmem k) (ReadyNode t)) = None" "npriority (kmem k) (ReadyNode t) < 8"
    using l p by (simp_all add: limbo_def)
  note a = mem_ready_add [OF m n]
  have i: "t \<noteq> g_idle_task" using r(1) l by (cases "t = 0") (auto simp: registered_ok_def limbo_def)
  show "hr_scheduler_add_ready (Some G_scheduler) (Some (ReadyNode t)) (kmem k) =
      Some (HR_OK, wake_mem t (tcb k t) (kmem k))" if "\<not> suspended_wait (tcb k t)"
    using a(1) that by (simp add: wake_mem_def)
  let ?v = "if suspended_wait (tcb k t) then view (kmem k) t
    else (view (kmem k) t)\<lparr>vready := Some (ReadyQueue G_scheduler (unat (npriority (kmem k) (ReadyNode t))))\<rparr>"
  have v: "view (wake_mem t (tcb k t) (kmem k)) = (view (kmem k))(t := ?v)"
    by (simp add: wake_mem_def a(3))
  have "task_state_ok ?v (wake_tcb result (tcb k t)) \<and> timeout_armed ?v (wake_tcb result (tcb k t))"
    using l p by (auto simp: task_state_ok_def limbo_def wake_tcb_def clear_wait_def suspended_wait_def
        in_ready_def detached_def no_wait_def timeout_armed_def)
  moreover have "prio_ok t ?v (wake_tcb result (tcb k t))"
    using r(4) i by (simp add: prio_ok_def wake_tcb_def clear_wait_def)
  ultimately have "task_ok {} (X - {t}) ?v (wake_tcb result (tcb k t)) t"
    using r(2,3) assms(2) i by (auto simp: task_ok_def registered_ok_def wake_tcb_def clear_wait_def)
  then show "kinvx {} (X - {t}) (wake t result k)"
    unfolding wake_def
    by (rule kinv_task_step [OF assms(1) _ _ v, rotated 3])
      (use m a(2,4) l in \<open>auto simp: wake_mem_def wake_tcb_def clear_wait_def limbo_def suspended_wait_def\<close>)
qed

lemma cleanup_ok:
  assumes "kinvx E X k" and "registered k t" and "t \<in> E"
  obtains k' where
    "(case twait_cleanup (tcb k t) of None \<Rightarrow> Some k | Some c \<Rightarrow> call_cleanup c t result k) = Some k'"
    and "kinvx E X k'" and "repri k k'"
    and "twait_cleanup (tcb k t) = None \<or> result \<noteq> HR_ERROR_TIMEOUT \<Longrightarrow> k' = k"
proof (cases "twait_cleanup (tcb k t) \<noteq> None \<and> result = HR_ERROR_TIMEOUT \<and>
    twait_kind (tcb k t) = HR_TASK_WAIT_MUTEX_LOCK")
  case True
  then obtain x where "twaiting_object (tcb k t) = Some (Obj_mutex x)"
    using registeredD(6) [OF assms] by (auto simp: limbo_def)
  moreover obtain st k' where "hr_mutex_recompute_owner_priority (Some x) k = Some (st, k')" "kinvx E X k'" "repri k k'"
    using recompute_owner_ok [OF assms(1)] by blast
  ultimately show ?thesis
    using True that [of k']
    by (auto simp: call_cleanup_def hr_mutex_wait_cleanup_def wait_object_mutex_def split: wait_cleanup.splits)
next
  case False
  then have "(case twait_cleanup (tcb k t) of None \<Rightarrow> Some k | Some c \<Rightarrow> call_cleanup c t result k) = Some k"
    by (auto simp: call_cleanup_def hr_mutex_wait_cleanup_def split: option.splits wait_cleanup.splits)
  then show ?thesis using that assms(1) by simp
qed

lemma transition_eq:
  "tmagic (tcb k t) = HR_CFG_TASK_MAGIC \<Longrightarrow> tstate (tcb k t) = a \<Longrightarrow>
   hr_task_transition_state (Some t) a b k = (HR_OK, upd_tcb t (\<lambda>c. c\<lparr>tstate := b\<rparr>) k)"
  by (simp add: hr_task_transition_state_def)

lemma make_ready_eq:
  assumes "blocked (tcb k t)" and "tmagic (tcb k t) = HR_CFG_TASK_MAGIC" and "vowned (view (kmem k) t)"
    and s1: "(if tblocked_wait_list (tcb k t) \<noteq> None
      then on_mem (hr_wait_list_remove (tblocked_wait_list (tcb k t)) (Some (WaitNode t))) k
      else Some (HR_OK, k)) = Some (HR_OK, k\<lparr>kmem := m1\<rparr>)"
    and s2: "(if hr_list_node_is_linked (Some (TimeoutNode t)) (kmem (k\<lparr>kmem := m1\<rparr>))
      then on_mem (hr_timeout_list_remove (Some G_timeout_list) (Some (TimeoutNode t))) (k\<lparr>kmem := m1\<rparr>)
      else Some (HR_OK, k\<lparr>kmem := m1\<rparr>)) = Some (HR_OK, k\<lparr>kmem := m\<rparr>)"
    and c: "(case twait_cleanup (tcb k t) of None \<Rightarrow> Some (k\<lparr>kmem := m\<rparr>)
        | Some c \<Rightarrow> call_cleanup c t result (k\<lparr>kmem := m\<rparr>)) = Some k1"
    and same: "suspended_wait (tcb k1 t) = suspended_wait (tcb k t)" "tstate (tcb k1 t) = tstate (tcb k t)"
      "tmagic (tcb k1 t) = tmagic (tcb k t)"
    and add: "\<not> suspended_wait (tcb k1 t) \<Longrightarrow>
      hr_scheduler_add_ready (Some G_scheduler) (Some (ReadyNode t)) (kmem k1) = Some (HR_OK, wake_mem t (tcb k1 t) (kmem k1))"
  shows "hr_kernel_make_task_ready (Some t) result woken k =
      Some ((HR_OK, map_option (\<lambda>_. \<not> suspended_wait (tcb k t) \<and> outranks (wake t result k1) t) woken), wake t result k1)"
proof -
  let ?k2 = "upd_tcb t (\<lambda>c. (clear_wait result c)\<lparr>ttime_slice_remaining := HR_CFG_TIME_SLICE_TICKS\<rparr>) k1"
  have fin: "upd_tcb t (\<lambda>c. c\<lparr>ttime_slice_remaining := HR_CFG_TIME_SLICE_TICKS\<rparr>) (upd_tcb t (clear_wait result) k1) = ?k2"
    by (simp add: upd_tcb_def)
  have nb: "\<not> (tstate (tcb k t) \<noteq> HR_TASK_STATE_BLOCKED \<and> \<not> suspended_wait (tcb k t))"
    using assms(1) by (simp add: blocked_def)
  have ow: "as_task (hr_list_node_owner (Some (ReadyNode t)) (kmem k)) = Some (Some t)"
    by (simp add: owner_view [OF assms(3)] as_task_def)
  have va: "hr_task_is_valid (Some t) k" using assms(2) by simp
  have eq: "hr_kernel_make_task_ready (Some t) result woken k =
      (if suspended_wait (tcb k t)
       then Some ((HR_OK, map_option (\<lambda>_. False) woken), upd_tcb t (\<lambda>c. c\<lparr>tsuspended_resume_state := HR_TASK_STATE_READY\<rparr>) ?k2)
       else do {
         (status, k) \<leftarrow> add_ready t ?k2;
         if status \<noteq> HR_OK then Some ((status, woken), k)
         else do {
           let (status, k) = hr_task_transition_state (Some t) HR_TASK_STATE_BLOCKED HR_TASK_STATE_READY k;
           if status \<noteq> HR_OK then do {(_, k) \<leftarrow> remove_ready t k; Some ((status, woken), k)}
           else Some ((HR_OK, map_option (\<lambda>_. outranks k t) woken), k)
         }
       })"
    unfolding hr_kernel_make_task_ready_def option.case Let_def if_not_P [OF nb] ow
    by (simp only: Option.bind.simps va not_True_eq_False if_False s1 prod.case simp_thms s2 c
        hr_kernel_reload_time_slice_def option.case fin outranks_def)
  show ?thesis
  proof (cases "suspended_wait (tcb k t)")
    case True
    then show ?thesis
      using same unfolding eq by (simp add: wake_def wake_mem_def wake_tcb_def upd_tcb_def)
  next
    case False
    moreover have "tstate (tcb k t) = HR_TASK_STATE_BLOCKED" using assms(1) False by (simp add: blocked_def)
    ultimately show ?thesis
      using add same assms(2) unfolding eq
      by (simp add: on_mem_def transition_eq wake_def wake_tcb_def upd_tcb_def clear_wait_def)
  qed
qed

lemma make_ready_ok:
  assumes "kinvx {} X k" and "registered k t" and "blocked (tcb k t)" and "vtimeout (view (kmem k) t) \<noteq> Some ExpiredNodes"
  obtains m k1 where "left t (kmem k) m" and "repri (k\<lparr>kmem := m\<rparr>) k1"
    and "\<And>woken. hr_kernel_make_task_ready (Some t) result woken k =
      Some ((HR_OK, map_option (\<lambda>_. \<not> suspended_wait (tcb k t) \<and> outranks (wake t result k1) t) woken), wake t result k1)"
    and "kinvx {} (X - {t}) (wake t result k1)"
    and "twait_cleanup (tcb k t) = None \<or> result \<noteq> HR_ERROR_TIMEOUT \<Longrightarrow> k1 = k\<lparr>kmem := m\<rparr>"
    and "kinvx {t} X k1" and "registered k1 t"
proof (rule leave_lists [OF kinvD(1) [OF assms(1)] assms(4)])
  fix m1 m assume 1: "(if vwait (view (kmem k) t) \<noteq> None
        then hr_wait_list_remove (vwait (view (kmem k) t)) (Some (WaitNode t)) (kmem k)
        else Some (HR_OK, kmem k)) = Some (HR_OK, m1)"
    and 2: "(if vtimeout (view m1 t) \<noteq> None then hr_timeout_list_remove (Some G_timeout_list) (Some (TimeoutNode t)) m1
        else Some (HR_OK, m1)) = Some (HR_OK, m)"
    and l: "left t (kmem k) m"
  note r = registeredD [OF assms(1,2)]
  note b = state_blocked [OF r(5) [simplified] assms(3)]
  have s1: "(if tblocked_wait_list (tcb k t) \<noteq> None
      then on_mem (hr_wait_list_remove (tblocked_wait_list (tcb k t)) (Some (WaitNode t))) k
      else Some (HR_OK, k)) = Some (HR_OK, k\<lparr>kmem := m1\<rparr>)"
    using 1 by (auto simp: b(3) on_mem_def split: if_splits)
  have s2: "(if hr_list_node_is_linked (Some (TimeoutNode t)) (kmem (k\<lparr>kmem := m1\<rparr>))
      then on_mem (hr_timeout_list_remove (Some G_timeout_list) (Some (TimeoutNode t))) (k\<lparr>kmem := m1\<rparr>)
      else Some (HR_OK, k\<lparr>kmem := m1\<rparr>)) = Some (HR_OK, k\<lparr>kmem := m\<rparr>)"
    using 2 by (auto simp: on_mem_def split: if_splits)
  have reg: "registered (k\<lparr>kmem := m\<rparr>) t" using assms(2) l by (simp add: left_def)
  obtain k1 where c: "(case twait_cleanup (tcb k t) of None \<Rightarrow> Some (k\<lparr>kmem := m\<rparr>)
        | Some c \<Rightarrow> call_cleanup c t result (k\<lparr>kmem := m\<rparr>)) = Some k1"
    and k1: "kinvx {t} X k1" "repri (k\<lparr>kmem := m\<rparr>) k1"
    and e: "twait_cleanup (tcb k t) = None \<or> result \<noteq> HR_ERROR_TIMEOUT \<Longrightarrow> k1 = k\<lparr>kmem := m\<rparr>"
    using cleanup_ok [OF limbo_kinv [OF assms(1-3) l] reg, of result] by auto
  note same = repri_same [OF k1(2), simplified]
  have reg1: "registered k1 t" using reg by (simp add: same)
  have sus: "suspended_wait (tcb k1 t) = suspended_wait (tcb k t)" by (simp add: suspended_wait_def same)
  note w = wake_kinv [OF k1(1) reg1]
  show thesis
    by (rule that [OF l k1(2) make_ready_eq [OF assms(3) r(2,3) s1 s2 c sus same(5,6) w(2)] w(1) e k1(1) reg1])
qed

section \<open>Waking the first waiter\<close>

lemma waiter_blocked:
  assumes "kinvx {} X k" and "vwait (view (kmem k) t) = Some l"
  shows "registered k t" and "blocked (tcb k t)" and "on_wait_list (view (kmem k) t) (tcb k t)"
    and "tblocked_wait_list (tcb k t) = Some l" and "t \<notin> X \<Longrightarrow> vtimeout (view (kmem k) t) \<noteq> Some ExpiredNodes"
proof -
  show r: "registered k t"
    using kinvD(8) [OF assms(1), of t] assms(2) by (auto simp: task_ok_def created_ok_def split: if_splits)
  note s = registeredD [OF assms(1) r]
  have "waiting (view (kmem k) t) (tcb k t) \<and> blocked (tcb k t)"
    using s(5) assms(2)
    by (auto simp: task_state_ok_def in_ready_def detached_def blocked_def suspended_wait_def split: hr_task_state.splits)
  then show "blocked (tcb k t)" "on_wait_list (view (kmem k) t) (tcb k t)" "tblocked_wait_list (tcb k t) = Some l"
    using assms(2) by (auto simp: waiting_def delaying_def on_wait_list_def)
  show "vtimeout (view (kmem k) t) \<noteq> Some ExpiredNodes" if "t \<notin> X"
    using s(7) that by (simp add: timeout_armed_def)
qed

lemma wait_list_member:
  assumes "mem_ok m" and "is_wait_list l" and "inited m l" and "n \<in> set (nodes_of m l)"
  obtains t where "n = WaitNode t" and "vwait (view m t) = Some l"
proof -
  have "node_fits n l" "\<not> is_root n"
    using member_fits [OF assms(1,3,4)] wf_not_root [OF mem_okD(1) [OF assms(1)] assms(3,4)] by auto
  then obtain t where "n = WaitNode t" using assms(2) by (cases n; cases l) auto
  then show ?thesis using that linked_wait [OF assms(1,3), of t] assms(4) by blast
qed

lemma unblock_ok:
  assumes "kinv k" and "is_wait_list l" and "inited (kmem k) l" and "nodes_of (kmem k) l = n # ns"
  obtains t m k1 where "hr_wait_list_peek (Some l) (kmem k) = Some n" and "n = WaitNode t" and "vwait (view (kmem k) t) = Some l"
    and "left t (kmem k) m" and "repri (k\<lparr>kmem := m\<rparr>) k1"
    and "\<And>woken. hr_kernel_unblock_waiter (Some n) result woken k =
      Some ((HR_OK, map_option (\<lambda>_. \<not> suspended_wait (tcb k t) \<and> outranks (wake t result k1) t) woken), wake t result k1)"
    and "kinv (wake t result k1)"
    and "twait_cleanup (tcb k t) = None \<or> result \<noteq> HR_ERROR_TIMEOUT \<Longrightarrow> k1 = k\<lparr>kmem := m\<rparr>"
    and "kinvx {t} {} k1" and "registered k1 t"
proof -
  note m = kinvD(1) [OF assms(1)]
  obtain t where t: "n = WaitNode t" "vwait (view (kmem k) t) = Some l"
    using wait_list_member [OF m assms(2,3), of n] assms(4) by auto
  note w = waiter_blocked [OF assms(1) t(2)]
  note r = registeredD [OF assms(1) w(1)]
  have pk: "hr_wait_list_peek (Some l) (kmem k) = Some n"
    using assms(4) by (simp add: wait_peek_wf [OF mem_okD(1) [OF m] assms(3)])
  show thesis
  proof (rule make_ready_ok [OF assms(1) w(1,2) w(5), where result = result])
    fix m' k1 assume 1: "left t (kmem k) m'" "repri (k\<lparr>kmem := m'\<rparr>) k1"
      and 2: "\<And>woken. hr_kernel_make_task_ready (Some t) result woken k =
        Some ((HR_OK, map_option (\<lambda>_. \<not> suspended_wait (tcb k t) \<and> outranks (wake t result k1) t) woken), wake t result k1)"
      and 3: "kinvx {} ({} - {t}) (wake t result k1)"
        "twait_cleanup (tcb k t) = None \<or> result \<noteq> HR_ERROR_TIMEOUT \<Longrightarrow> k1 = k\<lparr>kmem := m'\<rparr>"
        "kinvx {t} {} k1" "registered k1 t"
    have "hr_kernel_unblock_waiter (Some n) result woken k = hr_kernel_make_task_ready (Some t) result woken k" for woken
      using r(2) by (simp add: hr_kernel_unblock_waiter_def t(1) owner_view [OF r(3)] as_task_def)
    then show thesis using that [OF pk t 1] 2 3 by simp
  qed simp_all
qed

end
