(* ===== verification/HR_Block.thy ===== *)
theory HR_Block
  imports HR_Wake
begin

text \<open>
  The current task gives up the processor: blocking on a wait list with an optional timeout,
  delays, suspension, and the resumption of a suspended task.
\<close>

section \<open>Leaving the ready set\<close>

lemma running_current:
  assumes "kinvx E X k" and "tstate (tcb k t) = HR_TASK_STATE_RUNNING"
  shows "g_kernel_state k = HR_KERNEL_STATE_RUNNING" and "g_current_task k = Some t" and "registered k t"
    and "t \<notin> E" and "in_ready (view (kmem k) t) (tcb k t)"
proof -
  show g: "g_kernel_state k = HR_KERNEL_STATE_RUNNING" "g_current_task k = Some t"
    using kinvD(4) [OF assms(1)] assms(2) by (auto simp: current_ok_def)
  then show r: "registered k t" using kinvD(4) [OF assms(1)] by (auto simp: current_ok_def)
  show e: "t \<notin> E" using registeredD(6) [OF assms(1) r] assms(2) by (auto simp: limbo_def)
  show "in_ready (view (kmem k) t) (tcb k t)"
    using registeredD(5) [OF assms(1) r e] assms(2) by (simp add: task_state_ok_def)
qed

text \<open>The lists when the current task has entered a wait list, a timeout list or both.\<close>

definition entered :: "task_ptr \<Rightarrow> list_addr option \<Rightarrow> hr_tick \<Rightarrow> mem \<Rightarrow> mem \<Rightarrow> bool" where
  "entered t wl timeout m m' \<longleftrightarrow>
     mem_ok m' \<and> same_others m m' \<and>
     view m' = (view m)(t := (view m t)\<lparr>vready := None, vwait := wl,
       vtimeout := (if timeout = HR_WAIT_FOREVER then None else Some (timeout_target m G_timeout_list timeout))\<rparr>) \<and>
     ready_seq m' G_scheduler = remove1 (ReadyNode t) (ready_seq m G_scheduler) \<and> npriority m' = npriority m \<and>
     (\<forall>l. is_wait_list l \<longrightarrow> inited m l \<longrightarrow>
        nodes_of m' l = (if wl = Some l then insert_fifo (npriority m) (WaitNode t) (nodes_of m l) else nodes_of m l)) \<and>
     (if timeout = HR_WAIT_FOREVER
      then timeout_seq m' G_timeout_list = timeout_seq m G_timeout_list \<and>
           remaining m' G_timeout_list = remaining m G_timeout_list
      else timeout_seq m' G_timeout_list =
             insert_fifo (remaining m' G_timeout_list) (TimeoutNode t) (timeout_seq m G_timeout_list) \<and>
           remaining m' G_timeout_list = (remaining m G_timeout_list)(TimeoutNode t := timeout))"

lemma timeout_target_same:
  "same_timeouts m m' \<Longrightarrow> timeout_target m' a d = timeout_target m a d"
  by (simp add: same_timeouts_def timeout_target_def current_of_def overflow_of_def)

lemma arm_timeout:
  assumes "mem_ok m" and "vtimeout (view m t) = None" and "timeout \<noteq> 0"
  obtains m' where
    "(if timeout \<noteq> HR_WAIT_FOREVER then hr_timeout_list_insert (Some G_timeout_list) (Some (TimeoutNode t)) timeout m
      else Some (HR_OK, m)) = Some (HR_OK, m')"
    and "mem_ok m'" and "same_others m m'"
    and "view m' = (view m)(t := (view m t)\<lparr>vtimeout :=
      (if timeout = HR_WAIT_FOREVER then None else Some (timeout_target m G_timeout_list timeout))\<rparr>)"
    and "ready_seq m' G_scheduler = ready_seq m G_scheduler" and "npriority m' = npriority m"
    and "\<And>l. is_wait_list l \<Longrightarrow> inited m l \<Longrightarrow> nodes_of m' l = nodes_of m l"
    and "if timeout = HR_WAIT_FOREVER
      then timeout_seq m' G_timeout_list = timeout_seq m G_timeout_list \<and>
           remaining m' G_timeout_list = remaining m G_timeout_list
      else timeout_seq m' G_timeout_list =
             insert_fifo (remaining m' G_timeout_list) (TimeoutNode t) (timeout_seq m G_timeout_list) \<and>
           remaining m' G_timeout_list = (remaining m G_timeout_list)(TimeoutNode t := timeout)"
proof (cases "timeout = HR_WAIT_FOREVER")
  case True
  have "(view m)(t := (view m t)\<lparr>vtimeout := None\<rparr>) = view m" using assms(2) by (simp add: fun_eq_iff)
  then show ?thesis using that [of m] True assms(1) by simp
next
  case False
  have "nlist (nodes m (TimeoutNode t)) = None" using assms(2) by simp
  note i = mem_timeout_insert [OF assms(1) this False assms(3)]
  show ?thesis using False i by (intro that [of "timeout_link G_timeout_list (TimeoutNode t) timeout m"]) simp_all
qed

lemma enter_lists:
  assumes "mem_ok m" and "vready (view m t) \<noteq> None" and "vwait (view m t) = None" and "vtimeout (view m t) = None"
    and "is_wait_list l" and "inited m l" and "timeout \<noteq> 0"
  obtains m1 m2 m3 where
    "hr_scheduler_remove_ready (Some G_scheduler) (Some (ReadyNode t)) m = Some (HR_OK, m1)"
    and "hr_wait_list_insert (Some l) (Some (WaitNode t)) m1 = Some (HR_OK, m2)"
    and "(if timeout \<noteq> HR_WAIT_FOREVER then hr_timeout_list_insert (Some G_timeout_list) (Some (TimeoutNode t)) timeout m2
      else Some (HR_OK, m2)) = Some (HR_OK, m3)"
    and "entered t (Some l) timeout m m3"
proof -
  have n: "nlist (nodes m (ReadyNode t)) \<noteq> None" using assms(2) by simp
  define m1 where "m1 = ready_unlink G_scheduler (ReadyNode t) m"
  note r = mem_ready_remove [OF assms(1) n, folded m1_def]
  have i1: "inited m1 = inited m" using r(4) by (simp add: same_others_def)
  have w0: "inited m1 l" "nlist (nodes m1 (WaitNode t)) = None" using assms(3,6) by (simp_all add: i1 r(3))
  define m2 where "m2 = fifo_link (npriority m1) l (WaitNode t) m1"
  note w = mem_wait_insert [OF r(2) assms(5) w0, folded m2_def]
  have i2: "inited m2 = inited m" using w(4) by (simp add: same_others_def i1)
  have v2: "vtimeout (view m2 t) = None" using assms(4) by (simp add: w(3) r(3))
  note st = same_timeouts_trans [OF r(8) w(8)]
  note s = same_timeouts_ok(2,3) [OF st mem_okD(4) [OF assms(1)]]
  show ?thesis
  proof (rule arm_timeout [OF w(2) v2 assms(7)])
    fix m3 assume 3: "(if timeout \<noteq> HR_WAIT_FOREVER
        then hr_timeout_list_insert (Some G_timeout_list) (Some (TimeoutNode t)) timeout m2 else Some (HR_OK, m2)) = Some (HR_OK, m3)"
      and m3: "mem_ok m3" "same_others m2 m3" "view m3 = (view m2)(t := (view m2 t)\<lparr>vtimeout :=
          (if timeout = HR_WAIT_FOREVER then None else Some (timeout_target m2 G_timeout_list timeout))\<rparr>)"
        "ready_seq m3 G_scheduler = ready_seq m2 G_scheduler" "npriority m3 = npriority m2"
        "\<And>l. is_wait_list l \<Longrightarrow> inited m2 l \<Longrightarrow> nodes_of m3 l = nodes_of m2 l"
        "if timeout = HR_WAIT_FOREVER
          then timeout_seq m3 G_timeout_list = timeout_seq m2 G_timeout_list \<and>
            remaining m3 G_timeout_list = remaining m2 G_timeout_list
          else timeout_seq m3 G_timeout_list =
              insert_fifo (remaining m3 G_timeout_list) (TimeoutNode t) (timeout_seq m2 G_timeout_list) \<and>
            remaining m3 G_timeout_list = (remaining m2 G_timeout_list)(TimeoutNode t := timeout)"
    have "entered t (Some l) timeout m m3"
      unfolding entered_def
      using m3(1,7) same_others_trans [OF same_others_trans [OF r(4) w(4)] m3(2)] assms(6)
      by (simp add: m3(3-6) w(3,5-7) r(3,5-7) i1 i2 s timeout_target_same [OF st] fun_eq_iff)
    then show ?thesis using that [OF r(1) w(1) 3] by blast
  qed
qed

section \<open>Blocking on a wait list\<close>

definition block_tcb ::
  "list_addr \<Rightarrow> wait_object \<Rightarrow> hr_task_wait_kind \<Rightarrow> byte_ptr option \<Rightarrow> hr_tick \<Rightarrow> wait_cleanup option \<Rightarrow> hr_tick \<Rightarrow>
   hr_task_control_block \<Rightarrow> hr_task_control_block" where
  "block_tcb l ob kind buf timeout cleanup now c =
     c\<lparr>tstate := HR_TASK_STATE_BLOCKED, twake_tick := (if timeout = HR_WAIT_FOREVER then 0 else now + timeout),
       twaiting_object := Some ob, tblocked_wait_list := Some l, twait_buffer := buf, twait_cleanup := cleanup,
       twait_result := HR_ERROR_INTERNAL, twait_kind := kind, ttime_slice_remaining := HR_CFG_TIME_SLICE_TICKS\<rparr>"

text \<open>The wait of a kind on an object, as the synchronisation objects ask for it.\<close>

definition wait_request ::
  "list_addr \<Rightarrow> wait_object \<Rightarrow> hr_task_wait_kind \<Rightarrow> byte_ptr option \<Rightarrow> wait_cleanup option \<Rightarrow> bool" where
  "wait_request l ob kind buf cleanup \<longleftrightarrow>
     wait_target kind (Some ob) = Some l \<and>
     (kind = HR_TASK_WAIT_QUEUE_SEND \<or> kind = HR_TASK_WAIT_QUEUE_RECEIVE \<longrightarrow> buf \<noteq> None) \<and>
     cleanup = (if kind = HR_TASK_WAIT_MUTEX_LOCK then Some Cleanup_mutex else None)"

definition may_block :: "hr_kernel \<Rightarrow> task_ptr \<Rightarrow> bool" where
  "may_block k t \<longleftrightarrow>
     g_kernel_state k = HR_KERNEL_STATE_RUNNING \<and> g_current_task k = Some t \<and> t \<noteq> g_idle_task \<and>
     tstate (tcb k t) = HR_TASK_STATE_RUNNING"

lemma wait_target_kind:
  "wait_target kind ob = Some l \<Longrightarrow> is_wait_list l \<and> ob \<noteq> None \<and> kind \<noteq> HR_TASK_WAIT_NONE \<and> kind \<noteq> HR_TASK_WAIT_DELAY \<and>
     (kind = HR_TASK_WAIT_QUEUE_SEND \<or> kind = HR_TASK_WAIT_QUEUE_RECEIVE \<or> kind = HR_TASK_WAIT_SEMAPHORE_TAKE \<or>
      kind = HR_TASK_WAIT_MUTEX_LOCK)"
  by (elim wait_target.elims) auto

lemma if2: "a \<or> b \<Longrightarrow> \<exists>s. s \<noteq> HR_OK \<and> (if a then Some (HR_ERROR_INVALID_ARGUMENT, k)
    else if b then Some (HR_ERROR_INVALID_STATE, k) else c) = Some (s, k)"
  by auto

lemma block_refused:
  assumes "\<not> may_block k t" and "g_current_task k = Some t"
  shows "\<exists>st. st \<noteq> HR_OK \<and> hr_kernel_block_current_on_wait_list_ex l ob kind buf timeout cleanup k = Some (st, k)"
  unfolding hr_kernel_block_current_on_wait_list_ex_def assms(2) option.case
  by (rule if2) (use assms in \<open>unfold may_block_def, blast\<close>)

lemma kinv_block_step:
  assumes "kinv k" and "may_block k t" and "wait_request l ob kind buf cleanup" and "timeout \<noteq> 0"
    and "entered t (Some l) timeout (kmem k) m"
  shows "kinv (k\<lparr>kmem := m, tcb := (tcb k)(t := block_tcb l ob kind buf timeout cleanup now (tcb k t))\<rparr>)"
proof -
  have run: "tstate (tcb k t) = HR_TASK_STATE_RUNNING" and i: "t \<noteq> g_idle_task"
    using assms(2) by (simp_all add: may_block_def)
  note c = running_current [OF assms(1) run]
  note r = registeredD [OF assms(1) c(3)]
  let ?c = "block_tcb l ob kind buf timeout cleanup now (tcb k t)"
  let ?v = "(view (kmem k) t)\<lparr>vready := None, vwait := Some l,
    vtimeout := (if timeout = HR_WAIT_FOREVER then None else Some (timeout_target (kmem k) G_timeout_list timeout))\<rparr>"
  obtain j where j: "timeout_target (kmem k) G_timeout_list timeout = TimeoutList G_timeout_list j"
    using timeout_target_cases [OF mem_okD(4) [OF kinvD(1) [OF assms(1)]]] by blast
  have "on_wait_list ?v ?c"
    using assms(3) by (simp add: on_wait_list_def wait_request_def block_tcb_def)
  then have "task_ok {} {} ?v ?c t"
    using r(2,3,4) c(3) i assms(3) j wait_target_kind [of kind "Some ob" l]
    by (auto simp: task_ok_def registered_ok_def task_state_ok_def waiting_def prio_ok_def
        timeout_armed_def block_tcb_def wait_request_def)
  then show ?thesis
    by (rule kinv_task_step [OF assms(1), rotated 4])
      (use assms(5) in \<open>simp_all add: entered_def block_tcb_def\<close>)
qed

lemma block_ok:
  assumes "kinv k" and "may_block k t" and "wait_request l ob kind buf cleanup" and "inited (kmem k) l" and "timeout \<noteq> 0"
  obtains m k' where "hr_kernel_block_current_on_wait_list_ex (Some l) (Some ob) kind buf timeout cleanup k = Some (HR_OK, k')"
    and "k' = hr_kernel_mark_switch_reason HR_SWITCH_REASON_BLOCK
      (k\<lparr>kmem := m, tcb := (tcb k)(t := block_tcb l ob kind buf timeout cleanup (g_kernel_tick k) (tcb k t))\<rparr>)"
    and "entered t (Some l) timeout (kmem k) m" and "kinv k'"
proof -
  have run: "tstate (tcb k t) = HR_TASK_STATE_RUNNING" using assms(2) by (simp add: may_block_def)
  note c = running_current [OF assms(1) run]
  have v: "vready (view (kmem k) t) \<noteq> None" "vwait (view (kmem k) t) = None" "vtimeout (view (kmem k) t) = None"
    using c(5) by (simp_all add: in_ready_def)
  have wt: "wait_target kind (Some ob) = Some l" using assms(3) by (simp add: wait_request_def)
  note wk = wait_target_kind [OF wt]
  note magic = registeredD(2) [OF assms(1) c(3)]
  have guard: "\<not> (g_kernel_state k \<noteq> HR_KERNEL_STATE_RUNNING \<or> t = g_idle_task \<or> Some l = None \<or> Some ob = None \<or>
       (kind \<noteq> HR_TASK_WAIT_QUEUE_SEND \<and> kind \<noteq> HR_TASK_WAIT_QUEUE_RECEIVE \<and>
        kind \<noteq> HR_TASK_WAIT_SEMAPHORE_TAKE \<and> kind \<noteq> HR_TASK_WAIT_MUTEX_LOCK) \<or>
       ((kind = HR_TASK_WAIT_QUEUE_SEND \<or> kind = HR_TASK_WAIT_QUEUE_RECEIVE) \<and> buf = None) \<or> timeout = HR_NO_WAIT)"
    "\<not> (tstate (tcb k t) \<noteq> HR_TASK_STATE_RUNNING \<or> \<not> hr_list_node_is_linked (Some (ReadyNode t)) (kmem k) \<or>
       hr_list_node_is_linked (Some (WaitNode t)) (kmem k) \<or> hr_list_node_is_linked (Some (TimeoutNode t)) (kmem k))"
    using assms(2,3,5) wk v run by (auto simp: may_block_def wait_request_def)
  show ?thesis
  proof (rule enter_lists [OF kinvD(1) [OF assms(1)] v _ assms(4,5)])
    show "is_wait_list l" using wk by blast
    fix m1 m2 m3 assume 1: "hr_scheduler_remove_ready (Some G_scheduler) (Some (ReadyNode t)) (kmem k) = Some (HR_OK, m1)"
      and 2: "hr_wait_list_insert (Some l) (Some (WaitNode t)) m1 = Some (HR_OK, m2)"
      and 3: "(if timeout \<noteq> HR_WAIT_FOREVER then hr_timeout_list_insert (Some G_timeout_list) (Some (TimeoutNode t)) timeout m2
        else Some (HR_OK, m2)) = Some (HR_OK, m3)"
      and e: "entered t (Some l) timeout (kmem k) m3"
    let ?k' = "hr_kernel_mark_switch_reason HR_SWITCH_REASON_BLOCK
      (k\<lparr>kmem := m3, tcb := (tcb k)(t := block_tcb l ob kind buf timeout cleanup (g_kernel_tick k) (tcb k t))\<rparr>)"
    have 3: "(if timeout \<noteq> HR_WAIT_FOREVER
        then on_mem (hr_timeout_list_insert (Some G_timeout_list) (Some (TimeoutNode t)) timeout) (k\<lparr>kmem := m2\<rparr>)
        else Some (HR_OK, k\<lparr>kmem := m2\<rparr>)) = Some (HR_OK, k\<lparr>kmem := m3\<rparr>)"
      using 3 by (simp add: on_mem_def split: if_splits)
    have "hr_kernel_block_current_on_wait_list_ex (Some l) (Some ob) kind buf timeout cleanup k = Some (HR_OK, ?k')"
      unfolding hr_kernel_block_current_on_wait_list_ex_def c(2) option.case if_not_P [OF guard(1)] if_not_P [OF guard(2)]
      using magic run 3 by (simp add: on_mem_def 1 2 transition_eq hr_kernel_reload_time_slice_def upd_tcb_def block_tcb_def)
    moreover have "kinv ?k'"
      using kinv_block_step [OF assms(1-3,5) e] by (simp add: hr_kernel_mark_switch_reason_def)
    ultimately show ?thesis using that e by blast
  qed
qed

section \<open>Delays\<close>

lemma enter_delay:
  assumes "mem_ok m" and "vready (view m t) \<noteq> None" and "vwait (view m t) = None" and "vtimeout (view m t) = None"
    and "delay \<noteq> 0" and "delay \<noteq> HR_WAIT_FOREVER"
  obtains m1 m2 where
    "hr_scheduler_remove_ready (Some G_scheduler) (Some (ReadyNode t)) m = Some (HR_OK, m1)"
    and "hr_timeout_list_insert (Some G_timeout_list) (Some (TimeoutNode t)) delay m1 = Some (HR_OK, m2)"
    and "entered t None delay m m2"
proof -
  have n: "nlist (nodes m (ReadyNode t)) \<noteq> None" using assms(2) by simp
  define m1 where "m1 = ready_unlink G_scheduler (ReadyNode t) m"
  note r = mem_ready_remove [OF assms(1) n, folded m1_def]
  have i1: "inited m1 = inited m" using r(4) by (simp add: same_others_def)
  have "nlist (nodes m1 (TimeoutNode t)) = None" using assms(4) by (simp add: r(3))
  note w = mem_timeout_insert [OF r(2) this assms(6,5)]
  note s = same_timeouts_ok(2,3) [OF r(8) mem_okD(4) [OF assms(1)]]
  have "entered t None delay m (timeout_link G_timeout_list (TimeoutNode t) delay m1)"
    unfolding entered_def
    using w(2) same_others_trans [OF r(4) w(4)] assms(3,6)
    by (simp add: w(3,5-9) r(3,5-7) i1 s timeout_target_same [OF r(8)] fun_eq_iff)
  then show ?thesis using that [OF r(1) w(1)] by blast
qed

definition delay_tcb :: "hr_tick \<Rightarrow> hr_task_control_block \<Rightarrow> hr_task_control_block" where
  "delay_tcb wake_tick c =
     c\<lparr>tstate := HR_TASK_STATE_BLOCKED, twake_tick := wake_tick, twaiting_object := Some Obj_timeout_list,
       tblocked_wait_list := None, twait_buffer := None, twait_result := HR_OK,
       twait_kind := HR_TASK_WAIT_DELAY, ttime_slice_remaining := HR_CFG_TIME_SLICE_TICKS\<rparr>"

lemma delay_ok:
  assumes "kinv k" and "may_block k t" and "delay \<noteq> 0" and "delay \<noteq> HR_WAIT_FOREVER"
  obtains m k' where "hr_kernel_delay_current delay k = Some (HR_OK, k')"
    and "k' = hr_kernel_mark_switch_reason HR_SWITCH_REASON_BLOCK
      (k\<lparr>kmem := m, tcb := (tcb k)(t := delay_tcb (g_kernel_tick k + delay) (tcb k t))\<rparr>)"
    and "entered t None delay (kmem k) m" and "kinv k'"
proof -
  have run: "tstate (tcb k t) = HR_TASK_STATE_RUNNING" and i: "t \<noteq> g_idle_task"
    using assms(2) by (simp_all add: may_block_def)
  note c = running_current [OF assms(1) run]
  note r = registeredD [OF assms(1) c(3)]
  have v: "vready (view (kmem k) t) \<noteq> None" "vwait (view (kmem k) t) = None" "vtimeout (view (kmem k) t) = None"
    "no_wait (tcb k t)"
    using c(5) by (simp_all add: in_ready_def)
  obtain m1 m where 1: "hr_scheduler_remove_ready (Some G_scheduler) (Some (ReadyNode t)) (kmem k) = Some (HR_OK, m1)"
    and 2: "hr_timeout_list_insert (Some G_timeout_list) (Some (TimeoutNode t)) delay m1 = Some (HR_OK, m)"
    and e: "entered t None delay (kmem k) m"
    using enter_delay [OF kinvD(1) [OF assms(1)] v(1-3) assms(3,4)] by blast
  obtain j where j: "timeout_target (kmem k) G_timeout_list delay = TimeoutList G_timeout_list j"
    using timeout_target_cases [OF mem_okD(4) [OF kinvD(1) [OF assms(1)]]] by blast
  let ?c = "delay_tcb (g_kernel_tick k + delay) (tcb k t)"
  let ?k' = "hr_kernel_mark_switch_reason HR_SWITCH_REASON_BLOCK (k\<lparr>kmem := m, tcb := (tcb k)(t := ?c)\<rparr>)"
  have "hr_kernel_delay_current delay k = Some (HR_OK, ?k')"
    using assms(2-4) r(2) v by (simp add: hr_kernel_delay_current_def may_block_def on_mem_def 1 2 transition_eq
        hr_kernel_reload_time_slice_def upd_tcb_def delay_tcb_def)
  moreover have "task_ok {} {} ((view (kmem k) t)\<lparr>vready := None, vwait := None,
      vtimeout := Some (timeout_target (kmem k) G_timeout_list delay)\<rparr>) ?c t"
    using r(2-4) c(3) i j v(4)
    by (auto simp: task_ok_def registered_ok_def task_state_ok_def waiting_def prio_ok_def delaying_def
        timeout_armed_def delay_tcb_def no_wait_def)
  then have "kinv (k\<lparr>kmem := m, tcb := (tcb k)(t := ?c)\<rparr>)"
    by (rule kinv_task_step [OF assms(1), rotated 4])
      (use e assms(4) in \<open>simp_all add: entered_def delay_tcb_def\<close>)
  ultimately show ?thesis using that e by (simp add: hr_kernel_mark_switch_reason_def)
qed

lemma delay_refused:
  assumes "\<not> may_block k t \<or> delay = 0 \<or> delay = HR_WAIT_FOREVER" and "g_current_task k = Some t"
  shows "hr_kernel_delay_current delay k = Some (HR_ERROR_INVALID_STATE, k)"
  using assms by (auto simp: hr_kernel_delay_current_def may_block_def)

section \<open>Suspension and resumption\<close>

text \<open>Suspending a task takes it out of the ready set and keeps its wait, if it has one.\<close>

definition suspend_tcb :: "hr_task_control_block \<Rightarrow> hr_task_control_block" where
  "suspend_tcb c =
     (case tstate c of
        HR_TASK_STATE_READY \<Rightarrow> c\<lparr>tstate := HR_TASK_STATE_SUSPENDED, tsuspended_resume_state := HR_TASK_STATE_READY\<rparr>
      | HR_TASK_STATE_RUNNING \<Rightarrow>
          c\<lparr>tstate := HR_TASK_STATE_SUSPENDED, tsuspended_resume_state := HR_TASK_STATE_READY,
            ttime_slice_remaining := HR_CFG_TIME_SLICE_TICKS\<rparr>
      | HR_TASK_STATE_BLOCKED \<Rightarrow> c\<lparr>tstate := HR_TASK_STATE_SUSPENDED, tsuspended_resume_state := HR_TASK_STATE_BLOCKED\<rparr>
      | _ \<Rightarrow> c)"

definition may_suspend :: "hr_kernel \<Rightarrow> task_ptr \<Rightarrow> bool" where
  "may_suspend k t \<longleftrightarrow>
     g_kernel_state k = HR_KERNEL_STATE_RUNNING \<and> t \<noteq> g_idle_task \<and>
     tstate (tcb k t) \<in> {HR_TASK_STATE_READY, HR_TASK_STATE_RUNNING, HR_TASK_STATE_BLOCKED}"

lemma active_registered:
  assumes "kinvx E X k" and "tstate (tcb k t) \<notin> {HR_TASK_STATE_INVALID, HR_TASK_STATE_CREATED}"
  shows "registered k t"
  using kinvD(8) [OF assms(1), of t] assms(2) by (auto simp: task_ok_def created_ok_def split: if_splits)

text \<open>An operation on the ready set alone.\<close>

definition lists_kept :: "mem \<Rightarrow> mem \<Rightarrow> bool" where
  "lists_kept m m' \<longleftrightarrow>
     same_others m m' \<and> same_timeouts m m' \<and>
     (\<forall>l. is_wait_list l \<longrightarrow> inited m l \<longrightarrow> nodes_of m' l = nodes_of m l)"

lemma suspend_ready_ok:
  assumes "kinv k" and "may_suspend k t" and "tstate (tcb k t) \<noteq> HR_TASK_STATE_BLOCKED"
  obtains m where "hr_scheduler_remove_ready (Some G_scheduler) (Some (ReadyNode t)) (kmem k) = Some (HR_OK, m)"
    and "vready (view (kmem k) t) \<noteq> None"
    and "kinv (k\<lparr>kmem := m, tcb := (tcb k)(t := suspend_tcb (tcb k t))\<rparr>)"
    and "ready_seq m G_scheduler = remove1 (ReadyNode t) (ready_seq (kmem k) G_scheduler)"
    and "lists_kept (kmem k) m"
proof -
  have s: "t \<noteq> g_idle_task" "tstate (tcb k t) = HR_TASK_STATE_READY \<or> tstate (tcb k t) = HR_TASK_STATE_RUNNING"
    using assms(2,3) by (auto simp: may_suspend_def)
  have reg: "registered k t" using active_registered [OF assms(1), of t] s by auto
  note r = registeredD [OF assms(1) reg]
  have i: "in_ready (view (kmem k) t) (tcb k t)" using r(5) s(2) by (auto simp: task_state_ok_def)
  have l: "nlist (nodes (kmem k) (ReadyNode t)) \<noteq> None" using i by (simp add: in_ready_def)
  note m = mem_ready_remove [OF kinvD(1) [OF assms(1)] l]
  have "task_ok {} {} ((view (kmem k) t)\<lparr>vready := None\<rparr>) (suspend_tcb (tcb k t)) t"
    using r(2-4) reg s i
    by (auto simp: task_ok_def registered_ok_def task_state_ok_def prio_ok_def in_ready_def detached_def
        timeout_armed_def suspend_tcb_def no_wait_def)
  then have "kinv (k\<lparr>kmem := ready_unlink G_scheduler (ReadyNode t) (kmem k), tcb := (tcb k)(t := suspend_tcb (tcb k t))\<rparr>)"
    by (rule kinv_task_step [OF assms(1) m(2,4,3), rotated])
      (use s in \<open>auto simp: suspend_tcb_def\<close>)
  then show ?thesis using that m(1,5) i m(4,6,8) by (simp add: in_ready_def lists_kept_def)
qed

lemma suspend_blocked_ok:
  assumes "kinv k" and "may_suspend k t" and "tstate (tcb k t) = HR_TASK_STATE_BLOCKED"
  shows "kinv (k\<lparr>tcb := (tcb k)(t := suspend_tcb (tcb k t))\<rparr>)"
    and "twait_kind (tcb k t) \<noteq> HR_TASK_WAIT_NONE" and "twaiting_object (tcb k t) \<noteq> None"
    and "vready (view (kmem k) t) = None"
proof -
  have reg: "registered k t" using active_registered [OF assms(1), of t] assms(3) by simp
  note r = registeredD [OF assms(1) reg]
  have w: "waiting (view (kmem k) t) (tcb k t)" using r(5) assms(3) by (simp add: task_state_ok_def)
  then show "vready (view (kmem k) t) = None" by (simp add: waiting_def)
  show "twait_kind (tcb k t) \<noteq> HR_TASK_WAIT_NONE" "twaiting_object (tcb k t) \<noteq> None"
    using w wait_target_kind [of "twait_kind (tcb k t)" "twaiting_object (tcb k t)"]
    unfolding waiting_def delaying_def on_wait_list_def by auto
  have "waiting (view (kmem k) t) (suspend_tcb (tcb k t))"
    using w assms(3) by (simp add: waiting_def delaying_def on_wait_list_def suspend_tcb_def)
  then have "task_ok {} {} (view (kmem k) t) (suspend_tcb (tcb k t)) t"
    using r(2-4,7) reg assms(2,3)
    by (auto simp: task_ok_def registered_ok_def task_state_ok_def prio_ok_def may_suspend_def
        timeout_armed_def suspend_tcb_def)
  then have "kinv (k\<lparr>kmem := kmem k, tcb := (tcb k)(t := suspend_tcb (tcb k t))\<rparr>)"
    by (rule kinv_task_step [OF assms(1) kinvD(1) [OF assms(1)] same_others_refl, rotated 2])
      (use assms(3) in \<open>auto simp: suspend_tcb_def fun_eq_iff\<close>)
  then show "kinv (k\<lparr>tcb := (tcb k)(t := suspend_tcb (tcb k t))\<rparr>)" by simp
qed

lemma suspend_ok:
  assumes "kinv k" and "may_suspend k t"
  obtains m k' where "hr_kernel_suspend_task (Some t) sw k =
      Some ((HR_OK, map_option (\<lambda>_. tstate (tcb k t) = HR_TASK_STATE_RUNNING) sw), k')"
    and "kinv k'" and "kmem k' = m" and "tcb k' = (tcb k)(t := suspend_tcb (tcb k t))"
    and "ready_seq m G_scheduler = remove1 (ReadyNode t) (ready_seq (kmem k) G_scheduler)"
    and "k' = k\<lparr>kmem := m, tcb := tcb k', g_switch_reasons := g_switch_reasons k'\<rparr>" and "lists_kept (kmem k) m"
proof -
  have reg: "registered k t" using active_registered [OF assms(1), of t] assms(2) by (auto simp: may_suspend_def)
  note r = registeredD [OF assms(1) reg]
  show ?thesis
  proof (cases "tstate (tcb k t) = HR_TASK_STATE_BLOCKED")
    case True
    note b = suspend_blocked_ok [OF assms True]
    obtain ob where ob: "twaiting_object (tcb k t) = Some ob" using b(3) by blast
    have "ReadyNode t \<notin> set (ready_seq (kmem k) G_scheduler)"
      using linked_ready [OF kinvD(1) [OF assms(1)], of t] b(4) by simp
    moreover have "hr_kernel_suspend_task (Some t) sw k =
        Some ((HR_OK, map_option (\<lambda>_. False) sw), k\<lparr>tcb := (tcb k)(t := suspend_tcb (tcb k t))\<rparr>)"
      using assms(2) True b(2,4) ob r(2)
      by (simp add: hr_kernel_suspend_task_def may_suspend_def transition_eq suspend_tcb_def upd_tcb_def)
    ultimately show ?thesis using that [OF _ b(1)] True by (simp add: remove1_idem lists_kept_def)
  next
    case False
    obtain m where 1: "hr_scheduler_remove_ready (Some G_scheduler) (Some (ReadyNode t)) (kmem k) = Some (HR_OK, m)"
      and v: "vready (view (kmem k) t) \<noteq> None" and ki: "kinv (k\<lparr>kmem := m, tcb := (tcb k)(t := suspend_tcb (tcb k t))\<rparr>)"
      and q: "ready_seq m G_scheduler = remove1 (ReadyNode t) (ready_seq (kmem k) G_scheduler)" "lists_kept (kmem k) m"
      using suspend_ready_ok [OF assms False] by blast
    let ?k = "k\<lparr>kmem := m, tcb := (tcb k)(t := suspend_tcb (tcb k t))\<rparr>"
    show ?thesis
    proof (cases "tstate (tcb k t) = HR_TASK_STATE_RUNNING")
      case True
      note c = running_current [OF assms(1) True]
      have "hr_kernel_suspend_task (Some t) sw k =
          Some ((HR_OK, map_option (\<lambda>_. True) sw), hr_kernel_mark_switch_reason HR_SWITCH_REASON_BLOCK ?k)"
        using assms(2) True v r(2) c(2)
        by (simp add: hr_kernel_suspend_task_def may_suspend_def on_mem_def 1 transition_eq suspend_tcb_def upd_tcb_def
            hr_kernel_reload_time_slice_def option.map_comp comp_def)
      then show ?thesis
        using that [of "hr_kernel_mark_switch_reason HR_SWITCH_REASON_BLOCK ?k"] True ki q
        by (simp add: hr_kernel_mark_switch_reason_def)
    next
      case False
      then have "tstate (tcb k t) = HR_TASK_STATE_READY"
        using \<open>tstate (tcb k t) \<noteq> HR_TASK_STATE_BLOCKED\<close> assms(2) by (auto simp: may_suspend_def)
      then have "hr_kernel_suspend_task (Some t) sw k = Some ((HR_OK, map_option (\<lambda>_. False) sw), ?k)"
        using assms(2) v r(2)
        by (simp add: hr_kernel_suspend_task_def may_suspend_def on_mem_def 1 transition_eq suspend_tcb_def upd_tcb_def)
      then show ?thesis using that [of ?k] False ki q by simp
    qed
  qed
qed

lemma suspend_refused:
  assumes "kinv k" and "\<not> may_suspend k t"
  shows "hr_kernel_suspend_task (Some t) sw k = Some ((HR_ERROR_INVALID_STATE, map_option (\<lambda>_. False) sw), k)"
  using assms(2)
  by (auto simp: hr_kernel_suspend_task_def may_suspend_def Let_def split: hr_task_state.splits)

definition resume_tcb :: "hr_task_control_block \<Rightarrow> hr_task_control_block" where
  "resume_tcb c =
     (if tsuspended_resume_state c = HR_TASK_STATE_BLOCKED
      then c\<lparr>tstate := HR_TASK_STATE_BLOCKED, tsuspended_resume_state := HR_TASK_STATE_INVALID\<rparr>
      else c\<lparr>tstate := HR_TASK_STATE_READY, tsuspended_resume_state := HR_TASK_STATE_INVALID,
             ttime_slice_remaining := HR_CFG_TIME_SLICE_TICKS\<rparr>)"

definition may_resume :: "hr_kernel \<Rightarrow> task_ptr \<Rightarrow> bool" where
  "may_resume k t \<longleftrightarrow>
     g_kernel_state k = HR_KERNEL_STATE_RUNNING \<and> t \<noteq> g_idle_task \<and> tstate (tcb k t) = HR_TASK_STATE_SUSPENDED"

lemma resume_refused:
  assumes "\<not> may_resume k t"
  shows "hr_kernel_resume_task (Some t) sw k = Some ((HR_ERROR_INVALID_STATE, map_option (\<lambda>_. False) sw), k)"
  using assms by (auto simp: hr_kernel_resume_task_def may_resume_def Let_def)

lemma resume_blocked_ok:
  assumes "kinv k" and "may_resume k t" and "tsuspended_resume_state (tcb k t) = HR_TASK_STATE_BLOCKED"
  shows "kinv (k\<lparr>tcb := (tcb k)(t := resume_tcb (tcb k t))\<rparr>)"
    and "hr_kernel_resume_task (Some t) sw k =
      Some ((HR_OK, map_option (\<lambda>_. False) sw), k\<lparr>tcb := (tcb k)(t := resume_tcb (tcb k t))\<rparr>)"
proof -
  have s: "tstate (tcb k t) = HR_TASK_STATE_SUSPENDED" using assms(2) by (simp add: may_resume_def)
  have reg: "registered k t" using active_registered [OF assms(1), of t] s by simp
  note r = registeredD [OF assms(1) reg]
  have "waiting (view (kmem k) t) (resume_tcb (tcb k t))"
    using r(5) s assms(3) by (simp add: task_state_ok_def waiting_def delaying_def on_wait_list_def resume_tcb_def)
  then have "task_ok {} {} (view (kmem k) t) (resume_tcb (tcb k t)) t"
    using r(2-4,7) reg assms(2,3)
    by (auto simp: task_ok_def registered_ok_def task_state_ok_def prio_ok_def may_resume_def
        timeout_armed_def resume_tcb_def)
  then have "kinv (k\<lparr>kmem := kmem k, tcb := (tcb k)(t := resume_tcb (tcb k t))\<rparr>)"
    by (rule kinv_task_step [OF assms(1) kinvD(1) [OF assms(1)] same_others_refl, rotated 2])
      (use assms(3) in \<open>auto simp: resume_tcb_def fun_eq_iff\<close>)
  then show "kinv (k\<lparr>tcb := (tcb k)(t := resume_tcb (tcb k t))\<rparr>)" by simp
  show "hr_kernel_resume_task (Some t) sw k =
      Some ((HR_OK, map_option (\<lambda>_. False) sw), k\<lparr>tcb := (tcb k)(t := resume_tcb (tcb k t))\<rparr>)"
    using assms(2,3) s r(2)
    by (simp add: hr_kernel_resume_task_def may_resume_def transition_eq resume_tcb_def upd_tcb_def)
qed

lemma resume_ready_ok:
  assumes "kinv k" and "may_resume k t" and "tsuspended_resume_state (tcb k t) \<noteq> HR_TASK_STATE_BLOCKED"
  obtains m k' where "hr_kernel_resume_task (Some t) sw k = Some ((HR_OK, map_option (\<lambda>_. outranks k' t) sw), k')"
    and "kinv k'" and "kmem k' = m" and "tcb k' = (tcb k)(t := resume_tcb (tcb k t))"
    and "ready_seq m G_scheduler = insert_fifo (npriority (kmem k)) (ReadyNode t) (ready_seq (kmem k) G_scheduler)"
    and "k' = k\<lparr>kmem := m, tcb := tcb k', g_switch_reasons := g_switch_reasons k'\<rparr>" and "lists_kept (kmem k) m"
proof -
  have s: "tstate (tcb k t) = HR_TASK_STATE_SUSPENDED" using assms(2) by (simp add: may_resume_def)
  have reg: "registered k t" using active_registered [OF assms(1), of t] s by simp
  note r = registeredD [OF assms(1) reg]
  have d: "detached (view (kmem k) t) (tcb k t)" "tsuspended_resume_state (tcb k t) = HR_TASK_STATE_READY"
    using r(5) s assms(3) by (auto simp: task_state_ok_def split: hr_task_state.splits)
  have p: "vrprio (view (kmem k) t) = teffective_priority (tcb k t)" "teffective_priority (tcb k t) < 8"
    using r(4) by (auto simp: prio_ok_def word_less_nat_alt word_le_nat_alt split: if_splits)
  have n: "nlist (nodes (kmem k) (ReadyNode t)) = None" "npriority (kmem k) (ReadyNode t) < 8"
    using d p by (simp_all add: detached_def)
  note a = mem_ready_add [OF kinvD(1) [OF assms(1)] n]
  let ?m = "ready_link G_scheduler (ReadyNode t) (kmem k)"
  let ?k = "k\<lparr>kmem := ?m, tcb := (tcb k)(t := resume_tcb (tcb k t))\<rparr>"
  have "task_ok {} {} ((view (kmem k) t)\<lparr>vready := Some (ReadyQueue G_scheduler (unat (npriority (kmem k) (ReadyNode t))))\<rparr>)
      (resume_tcb (tcb k t)) t"
    using r(2-4) reg s d p assms(2)
    by (auto simp: task_ok_def registered_ok_def task_state_ok_def prio_ok_def in_ready_def detached_def may_resume_def
        timeout_armed_def resume_tcb_def no_wait_def)
  then have ki: "kinv ?k"
    by (rule kinv_task_step [OF assms(1) a(2,4,3), rotated]) (use d(2) in \<open>auto simp: resume_tcb_def\<close>)
  define k' where "k' = (if outranks ?k t then hr_kernel_mark_switch_reason HR_SWITCH_REASON_PREEMPT ?k else ?k)"
  have o: "outranks k' t = outranks ?k t"
    by (simp add: k'_def outranks_def hr_kernel_mark_switch_reason_def split: option.splits)
  have "hr_kernel_resume_task (Some t) sw k = Some ((HR_OK, map_option (\<lambda>_. outranks ?k t) sw), k')"
    using assms(2) s r(2) d(2) unfolding k'_def outranks_def
    by (auto simp: hr_kernel_resume_task_def may_resume_def on_mem_def a(1) transition_eq resume_tcb_def upd_tcb_def
        hr_kernel_reload_time_slice_def option.map_comp comp_def Let_def split: option.splits)
  then show ?thesis
    using that [of k' ?m] ki a(5) o a(4,6,8) by (simp add: k'_def hr_kernel_mark_switch_reason_def lists_kept_def)
qed

end
