(* ===== verification/HR_Switch.thy ===== *)
theory HR_Switch
  imports HR_Block
begin

text \<open>
  Context switches: the start of the first task, the selection in the PendSV handler and
  yielding. The handler never panics, the task it selects is the first one of the highest
  ready priority, and a task that yields goes behind its equals.
\<close>

section \<open>Changes of run state\<close>

lemma run_fields [simp]:
  "in_ready v (c\<lparr>tstate := s, ttime_slice_remaining := a, truntime_counter := b\<rparr>) = in_ready v c"
  "waiting v (c\<lparr>tstate := s, ttime_slice_remaining := a, truntime_counter := b\<rparr>) = waiting v c"
  "detached v (c\<lparr>tstate := s, ttime_slice_remaining := a, truntime_counter := b\<rparr>) = detached v c"
  "prio_ok t v (c\<lparr>tstate := s, ttime_slice_remaining := a, truntime_counter := b\<rparr>) = prio_ok t v c"
  "timeout_armed v (c\<lparr>tstate := s, ttime_slice_remaining := a, truntime_counter := b\<rparr>) = timeout_armed v c"
  by (simp_all add: in_ready_def waiting_def delaying_def on_wait_list_def detached_def no_wait_def
      prio_ok_def timeout_armed_def)

definition runnable :: "hr_task_state \<Rightarrow> bool" where
  "runnable s \<longleftrightarrow> s = HR_TASK_STATE_READY \<or> s = HR_TASK_STATE_RUNNING"

lemma task_ok_run:
  assumes "task_ok E X v c t" and "s = tstate c \<or> runnable s \<and> runnable (tstate c)"
  shows "task_ok E X v (c\<lparr>tstate := s, ttime_slice_remaining := a, truntime_counter := b\<rparr>) t"
proof (cases "vall v = None")
  case True
  then show ?thesis
    using assms by (auto simp: task_ok_def created_ok_def runnable_def no_wait_def split: if_splits)
next
  case False
  have "task_state_ok v (c\<lparr>tstate := s, ttime_slice_remaining := a, truntime_counter := b\<rparr>)" if "task_state_ok v c"
    using that assms(2) by (auto simp: task_state_ok_def runnable_def split: hr_task_state.splits)
  moreover have "limbo v (c\<lparr>tstate := s, ttime_slice_remaining := a, truntime_counter := b\<rparr>)" if "limbo v c"
    using that assms(2) by (auto simp: limbo_def runnable_def)
  ultimately show ?thesis
    using assms False by (auto simp: task_ok_def registered_ok_def runnable_def)
qed

lemma kinv_run:
  assumes "kinvx E X k" and "kmem k' = kmem k" and "mcb k' = mcb k" and "g_kernel_tick k' = g_kernel_tick k"
    and "g_task_count k' = g_task_count k"
    and "\<And>t. tcb k' t = (tcb k t)\<lparr>tstate := tstate (tcb k' t), ttime_slice_remaining := ttime_slice_remaining (tcb k' t),
      truntime_counter := truntime_counter (tcb k' t)\<rparr>"
    and "\<And>t. tstate (tcb k' t) = tstate (tcb k t) \<or> runnable (tstate (tcb k' t)) \<and> runnable (tstate (tcb k t))"
    and "current_ok k'"
  shows "kinvx E X k'"
proof -
  note i = kinvD [OF assms(1)]
  have "task_ok E X (view (kmem k) t) (tcb k' t) t" for t
    by (subst assms(6)) (rule task_ok_run [OF i(8) assms(7)])
  moreover have "tmagic (tcb k' t) = tmagic (tcb k t)" "towned_mutex_count (tcb k' t) = towned_mutex_count (tcb k t)" for t
    by (subst assms(6), simp)+
  then have "owners_ok (kmem k) (tcb k') (mcb k)"
    by (intro owners_ok_frame [OF i(3) same_others_refl]) auto
  ultimately show ?thesis
    using i assms(2-5,8) unfolding kinvx_def tasks_ok_def by simp
qed

lemma reload_kinv:
  "kinvx E X k \<Longrightarrow> kinvx E X (hr_kernel_reload_time_slice task k)"
  unfolding hr_kernel_reload_time_slice_def
  by (cases task, simp, rule kinv_run [of E X k])
    (auto dest: kinvD(4) simp: current_ok_def)

section \<open>Rotation\<close>

lemma mem_rotate:
  assumes "mem_ok m" and "ready_seq m G_scheduler \<noteq> []"
  obtains m' where "hr_ready_set_rotate_highest (Some G_scheduler) m = Some (HR_OK, m')"
    and "mem_ok m'" and "view m' = view m" and "same_others m m'" and "npriority m' = npriority m"
    and "ready_seq m' G_scheduler = rotate_ready (npriority m) (ready_seq m G_scheduler)"
    and "same_timeouts m m'"
    and "\<And>l. is_wait_list l \<Longrightarrow> inited m l \<Longrightarrow> nodes_of m' l = nodes_of m l"
proof (rule rotate_highest_wf [OF mem_okD(1,2) [OF assms(1)] assms(2)])
  note ok = mem_okD [OF assms(1)]
  fix m' assume r: "hr_ready_set_rotate_highest (Some G_scheduler) m = Some (HR_OK, m')"
    and w: "wf_mem m'" "ready_ok m' G_scheduler" "inited m' = inited m"
      "ready_seq m' G_scheduler = rotate_ready (npriority m) (ready_seq m G_scheduler)"
    and no: "\<And>l. inited m l \<Longrightarrow> (\<And>i. l \<noteq> ReadyQueue G_scheduler i) \<Longrightarrow> nodes_of m' l = nodes_of m l"
    and fr: "npriority m' = npriority m" "nwake_tick m' = nwake_tick m" "timeout_lists m' = timeout_lists m"
      "\<And>x. nowner (nodes m' x) = nowner (nodes m x)" "\<And>x. nlist (nodes m' x) = nlist (nodes m x)"
  have tm: "same_timeouts m m'" by (simp add: same_timeouts_def w fr no)
  have wl: "nodes_of m' l = nodes_of m l" if "is_wait_list l" "inited m l" for l
    by (rule no [OF that(2)]) (use that(1) in auto)
  have pl: "nodes_of m' l = nodes_of m l" if "plain_list l" "inited m l" for l
    by (rule no [OF that(2)]) (use that(1) in auto)
  have "mem_ok m'"
    by (rule mem_ok_step [OF assms(1) w(1,3)])
      (use ok(6,7) w(2) same_timeouts_ok(1) [OF tm] in \<open>simp_all add: fr wl\<close>)
  moreover have "view m' = view m" by (simp add: view_def fun_eq_iff fr del: node_view)
  moreover have "same_others m m'" by (simp add: same_others_def fr w(3) pl)
  ultimately show thesis using r w(4) fr(1) tm wl by (intro that [of m'])
qed

section \<open>The ready tasks\<close>

lemma ready_member:
  assumes "kinvx E X k" and "n \<in> set (ready_seq (kmem k) G_scheduler)"
  obtains t where "n = ReadyNode t" and "registered k t" and "t \<notin> E" and "runnable (tstate (tcb k t))"
    and "in_ready (view (kmem k) t) (tcb k t)" and "npriority (kmem k) n = teffective_priority (tcb k t)"
proof -
  note i = kinvD [OF assms(1)]
  note ok = mem_okD [OF i(1)]
  obtain j where j: "j < 8" "n \<in> set (ready_queue (kmem k) G_scheduler j)"
    using assms(2) by (auto simp: set_ready_seq)
  have l: "nlist (nodes (kmem k) n) = Some (ReadyQueue G_scheduler j)"
    by (rule wf_in_list [OF ok(1) ready_okD(1) [OF ok(2) j(1)] j(2)])
  moreover have "\<not> is_root n" by (rule wf_not_root [OF ok(1) ready_okD(1) [OF ok(2) j(1)] j(2)])
  ultimately obtain t where n: "n = ReadyNode t" using ok(6) [OF l] by (cases n) (auto split: list_addr.splits)
  have v: "vready (view (kmem k) t) \<noteq> None" using l n by simp
  have r: "registered k t" using i(8) [of t] v by (auto simp: task_ok_def created_ok_def split: if_splits)
  have e: "t \<notin> E" using registeredD(6) [OF assms(1) r] v by (auto simp: limbo_def)
  note s = registeredD(5) [OF assms(1) r e]
  have "runnable (tstate (tcb k t)) \<and> in_ready (view (kmem k) t) (tcb k t)"
    using s v by (auto simp: task_state_ok_def runnable_def waiting_def detached_def split: hr_task_state.splits)
  moreover have "npriority (kmem k) n = teffective_priority (tcb k t)"
    using registeredD(4) [OF assms(1) r] n by (simp add: prio_ok_def)
  ultimately show thesis using n r e by (intro that [of t]) auto
qed

lemma runnable_ready:
  assumes "kinvx E X k" and "runnable (tstate (tcb k t))"
  shows "ReadyNode t \<in> set (ready_seq (kmem k) G_scheduler)" and "registered k t" and "t \<notin> E"
    and "in_ready (view (kmem k) t) (tcb k t)"
proof -
  show r: "registered k t"
    using kinvD(8) [OF assms(1), of t] assms(2)
    by (auto simp: task_ok_def created_ok_def runnable_def split: if_splits)
  show e: "t \<notin> E"
    using registeredD(6) [OF assms(1) r] assms(2) by (auto simp: limbo_def runnable_def)
  show v: "in_ready (view (kmem k) t) (tcb k t)"
    using registeredD(5) [OF assms(1) r e] assms(2) by (auto simp: task_state_ok_def runnable_def)
  show "ReadyNode t \<in> set (ready_seq (kmem k) G_scheduler)"
    using linked_ready [OF kinvD(1) [OF assms(1)], of t] v by (simp add: in_ready_def)
qed

text \<open>The idle task is always ready, so there is always a task to select.\<close>

lemma highest_task:
  assumes "kinvx E X k"
  obtains t ns where "ready_seq (kmem k) G_scheduler = ReadyNode t # ns"
    and "hr_scheduler_select_highest (Some G_scheduler) (kmem k) = Some (ReadyNode t)"
    and "hr_list_node_owner (Some (ReadyNode t)) (kmem k) = Some (Task_obj t)"
    and "tmagic (tcb k t) = HR_CFG_TASK_MAGIC" and "registered k t" and "runnable (tstate (tcb k t))"
    and "\<And>u. runnable (tstate (tcb k u)) \<Longrightarrow> teffective_priority (tcb k t) \<le> teffective_priority (tcb k u)"
proof -
  note i = kinvD [OF assms]
  note ok = mem_okD [OF i(1)]
  have "runnable (tstate (tcb k 0))"
    using i(8) [of 0] i(5) by (auto simp: task_ok_def registered_ok_def runnable_def)
  then obtain n ns where seq: "ready_seq (kmem k) G_scheduler = n # ns"
    using runnable_ready(1) [OF assms] by (cases "ready_seq (kmem k) G_scheduler") force+
  obtain t where t: "n = ReadyNode t" "registered k t" "runnable (tstate (tcb k t))"
      "npriority (kmem k) n = teffective_priority (tcb k t)"
    by (rule ready_member [OF assms, of n]) (auto simp: seq)
  have "teffective_priority (tcb k t) \<le> teffective_priority (tcb k u)" if "runnable (tstate (tcb k u))" for u
  proof -
    have m: "ReadyNode u \<in> set (n # ns)" using runnable_ready(1) [OF assms that] seq by simp
    have "npriority (kmem k) n \<le> npriority (kmem k) (ReadyNode u)"
      using sorted_ready_seq [OF ok(2)] m seq by auto
    moreover have "npriority (kmem k) (ReadyNode u) = teffective_priority (tcb k u)"
      using registeredD(4) [OF assms runnable_ready(2) [OF assms that]] by (simp add: prio_ok_def)
    ultimately show ?thesis using t(4) by simp
  qed
  then show thesis
    using t seq registeredD(2,3) [OF assms t(2)] owner_view(1)
    by (intro that [of t ns]) (auto simp: select_highest_wf [OF ok(1,2)])
qed

section \<open>The selection in the PendSV handler\<close>

lemma kinv_relink:
  assumes "kinvx E X k" and "mem_ok m" and "view m = view (kmem k)" and "same_others (kmem k) m"
  shows "kinvx E X (k\<lparr>kmem := m\<rparr>)"
proof -
  have "kinvx E X (k\<lparr>kmem := m, tcb := (tcb k)(0 := tcb k 0)\<rparr>)"
    by (rule kinv_task_step [OF assms(1,2,4)]) (use assms(3) kinvD(8) [OF assms(1)] in auto)
  then show ?thesis by simp
qed

definition yields :: "task_ptr \<Rightarrow> 32 word \<Rightarrow> hr_kernel \<Rightarrow> bool" where
  "yields cur reasons k \<longleftrightarrow>
     tstate (tcb k cur) = HR_TASK_STATE_RUNNING \<and>
     hr_scheduler_select_highest (Some G_scheduler) (kmem k) = Some (ReadyNode cur) \<and>
     reasons AND (HR_SWITCH_REASON_YIELD OR HR_SWITCH_REASON_TIME_SLICE) \<noteq> 0"

lemma pendsv_rotate:
  assumes "kinvx E X k" and "hr_scheduler_select_highest (Some G_scheduler) (kmem k) = Some (ReadyNode cur)"
  obtains m where "on_mem (hr_scheduler_yield_current (Some G_scheduler) (Some (ReadyNode cur))) k = Some (HR_OK, k\<lparr>kmem := m\<rparr>)"
    and "kinvx E X (k\<lparr>kmem := m\<rparr>)"
    and "ready_seq m G_scheduler = rotate_ready (npriority (kmem k)) (ready_seq (kmem k) G_scheduler)"
    and "view m = view (kmem k)" and "same_others (kmem k) m" and "same_timeouts (kmem k) m"
    and "\<And>l. is_wait_list l \<Longrightarrow> inited (kmem k) l \<Longrightarrow> nodes_of m l = nodes_of (kmem k) l"
proof -
  note ok = mem_okD [OF kinvD(1) [OF assms(1)]]
  obtain ns where seq: "ready_seq (kmem k) G_scheduler = ReadyNode cur # ns"
    using assms(2) by (auto simp: select_highest_wf [OF ok(1,2)] split: list.splits)
  then have ne: "ready_seq (kmem k) G_scheduler \<noteq> []" by simp
  show thesis
  proof (rule mem_rotate [OF kinvD(1) [OF assms(1)] ne])
    fix m assume r: "hr_ready_set_rotate_highest (Some G_scheduler) (kmem k) = Some (HR_OK, m)"
      and m: "mem_ok m" "view m = view (kmem k)" "same_others (kmem k) m" "same_timeouts (kmem k) m"
      and q: "ready_seq m G_scheduler = rotate_ready (npriority (kmem k)) (ready_seq (kmem k) G_scheduler)"
      and w: "\<And>l. is_wait_list l \<Longrightarrow> inited (kmem k) l \<Longrightarrow> nodes_of m l = nodes_of (kmem k) l"
    show thesis
      by (rule that [OF _ kinv_relink [OF assms(1) m(1-3)] q m(2-4) w])
        (use seq r in \<open>simp_all add: on_mem_def yield_current_eq [OF ok(1,2)]\<close>)
  qed
qed

lemma reload_simps [simp]:
  "kmem (hr_kernel_reload_time_slice task k) = kmem k"
  "g_current_task (hr_kernel_reload_time_slice task k) = g_current_task k"
  "g_kernel_state (hr_kernel_reload_time_slice task k) = g_kernel_state k"
  "tstate (tcb (hr_kernel_reload_time_slice task k) t) = tstate (tcb k t)"
  "teffective_priority (tcb (hr_kernel_reload_time_slice task k) t) = teffective_priority (tcb k t)"
  "mcb (hr_kernel_reload_time_slice task k) = mcb k" "scb (hr_kernel_reload_time_slice task k) = scb k"
  "qcb (hr_kernel_reload_time_slice task k) = qcb k" "tmcb (hr_kernel_reload_time_slice task k) = tmcb k"
  by (simp_all add: hr_kernel_reload_time_slice_def split: option.splits)

text \<open>What the handler leaves of the state in which it starts.\<close>

definition same_objects :: "hr_kernel \<Rightarrow> hr_kernel \<Rightarrow> bool" where
  "same_objects k k' \<longleftrightarrow>
     mcb k' = mcb k \<and> scb k' = scb k \<and> qcb k' = qcb k \<and> tmcb k' = tmcb k \<and> bytes k' = bytes k \<and>
     g_kernel_state k' = g_kernel_state k \<and> g_task_count k' = g_task_count k \<and>
     g_kernel_tick k' = g_kernel_tick k \<and> g_timer_system_initialized k' = g_timer_system_initialized k \<and>
     inside_isr k' = inside_isr k \<and> exit_handler k' = exit_handler k"

lemma same_objects_refl [simp]: "same_objects k k"
  by (simp add: same_objects_def)

lemma same_objects_trans: "same_objects k k1 \<Longrightarrow> same_objects k1 k2 \<Longrightarrow> same_objects k k2"
  by (simp add: same_objects_def)

definition same_but_run :: "hr_kernel \<Rightarrow> hr_kernel \<Rightarrow> bool" where
  "same_but_run k k' \<longleftrightarrow>
     view (kmem k') = view (kmem k) \<and> same_others (kmem k) (kmem k') \<and> same_timeouts (kmem k) (kmem k') \<and>
     (\<forall>l. is_wait_list l \<longrightarrow> inited (kmem k) l \<longrightarrow> nodes_of (kmem k') l = nodes_of (kmem k) l) \<and>
     (\<forall>t. tcb k' t = (tcb k t)\<lparr>tstate := tstate (tcb k' t), ttime_slice_remaining := ttime_slice_remaining (tcb k' t)\<rparr>) \<and>
     same_objects k k'"

lemma pendsv_current_ok:
  assumes "kinvx E X k" and "tstate (tcb k cur) \<notin> {HR_TASK_STATE_INVALID, HR_TASK_STATE_CREATED}"
  obtains k1 where "pendsv_current cur reasons k = Some (True, k1)" and "kinvx E X k1" and "same_but_run k k1"
    and "\<And>t. tstate (tcb k1 t) = tstate (tcb k t)" and "g_current_task k1 = g_current_task k"
    and "ready_seq (kmem k1) G_scheduler = (if yields cur reasons k
      then rotate_ready (npriority (kmem k)) (ready_seq (kmem k) G_scheduler) else ready_seq (kmem k) G_scheduler)"
proof (cases "yields cur reasons k")
  case False
  obtain t ns where t: "hr_scheduler_select_highest (Some G_scheduler) (kmem k) = Some (ReadyNode t)"
    "hr_list_node_owner (Some (ReadyNode t)) (kmem k) = Some (Task_obj t)"
    by (rule highest_task [OF assms(1)])
  have "pendsv_current cur reasons k = Some (True, k)"
    using assms(2) False t by (cases "tstate (tcb k cur)") (auto simp: pendsv_current_def yields_def)
  then show thesis using assms(1) False by (intro that) (auto simp: same_but_run_def)
next
  case True
  define k0 where "k0 = (if reasons AND HR_SWITCH_REASON_YIELD \<noteq> 0 then hr_kernel_reload_time_slice (Some cur) k else k)"
  have k0: "kinvx E X k0" "kmem k0 = kmem k" using assms(1) by (simp_all add: k0_def reload_kinv)
  have run: "tstate (tcb k cur) = HR_TASK_STATE_RUNNING"
    and sel: "hr_scheduler_select_highest (Some G_scheduler) (kmem k) = Some (ReadyNode cur)"
    and rs: "reasons AND (HR_SWITCH_REASON_YIELD OR HR_SWITCH_REASON_TIME_SLICE) \<noteq> 0"
    using True by (simp_all add: yields_def)
  have ow: "hr_list_node_owner (Some (ReadyNode cur)) (kmem k) = Some (Task_obj cur)"
    using owner_view(1) registeredD(3) [OF assms(1)] runnable_ready(2) [OF assms(1)] run by (simp add: runnable_def)
  show thesis
  proof (rule pendsv_rotate [OF k0(1)])
    show "hr_scheduler_select_highest (Some G_scheduler) (kmem k0) = Some (ReadyNode cur)" using sel k0(2) by simp
    fix m assume y: "on_mem (hr_scheduler_yield_current (Some G_scheduler) (Some (ReadyNode cur))) k0 = Some (HR_OK, k0\<lparr>kmem := m\<rparr>)"
      and m: "kinvx E X (k0\<lparr>kmem := m\<rparr>)"
        "ready_seq m G_scheduler = rotate_ready (npriority (kmem k0)) (ready_seq (kmem k0) G_scheduler)"
        "view m = view (kmem k0)" "same_others (kmem k0) m" "same_timeouts (kmem k0) m"
        "\<And>l. is_wait_list l \<Longrightarrow> inited (kmem k0) l \<Longrightarrow> nodes_of m l = nodes_of (kmem k0) l"
    have "pendsv_current cur reasons k = Some (True, k0\<lparr>kmem := m\<rparr>)"
      using rs by (simp add: pendsv_current_def run sel ow y flip: k0_def)
    moreover have "same_but_run k (k0\<lparr>kmem := m\<rparr>)"
      using m(3-6) unfolding k0(2)
      by (simp add: same_but_run_def k0_def hr_kernel_reload_time_slice_def same_objects_def upd_tcb_def)
    ultimately show thesis
      using m(1,2) True by (intro that [of "k0\<lparr>kmem := m\<rparr>"]) (simp_all add: k0_def)
  qed
qed

definition switch_tcb ::
  "task_ptr \<Rightarrow> task_ptr \<Rightarrow> (task_ptr \<Rightarrow> hr_task_control_block) \<Rightarrow> task_ptr \<Rightarrow> hr_task_control_block" where
  "switch_tcb cur t T =
     (let T1 = (if tstate (T cur) = HR_TASK_STATE_RUNNING then T(cur := (T cur)\<lparr>tstate := HR_TASK_STATE_READY\<rparr>) else T)
      in T1(t := (T1 t)\<lparr>tstate := HR_TASK_STATE_RUNNING\<rparr>))"

definition dispatch :: "task_ptr \<Rightarrow> task_ptr \<Rightarrow> hr_kernel \<Rightarrow> hr_kernel" where
  "dispatch cur t k = k\<lparr>tcb := switch_tcb cur t (tcb k), g_current_task := Some t,
     g_hr_current_task_control_block := Some t\<rparr>"

lemma switch_tcb_state:
  "tstate (switch_tcb cur t T u) =
     (if u = t then HR_TASK_STATE_RUNNING
      else if u = cur \<and> tstate (T u) = HR_TASK_STATE_RUNNING then HR_TASK_STATE_READY else tstate (T u))"
  by (auto simp: switch_tcb_def Let_def)

lemma switch_tcb_rest: "switch_tcb cur t T u = (T u)\<lparr>tstate := tstate (switch_tcb cur t T u)\<rparr>"
  by (auto simp: switch_tcb_def Let_def)

lemma dispatch_kinv:
  assumes "kinvx E X k" and "g_kernel_state k = HR_KERNEL_STATE_RUNNING" and "g_current_task k = Some cur"
    and "registered k t" and "runnable (tstate (tcb k t))"
  shows "kinvx E X (dispatch cur t k)"
proof (rule kinv_run [OF assms(1)])
  have c: "tstate (tcb k u) = HR_TASK_STATE_RUNNING \<Longrightarrow> u = cur" for u
    using kinvD(4) [OF assms(1)] assms(3) by (auto simp: current_ok_def)
  show "current_ok (dispatch cur t k)"
    using assms(2,4) c by (auto simp: current_ok_def dispatch_def switch_tcb_state)
  fix u
  show "tstate (tcb (dispatch cur t k) u) = tstate (tcb k u) \<or>
      runnable (tstate (tcb (dispatch cur t k) u)) \<and> runnable (tstate (tcb k u))"
    using assms(5) by (auto simp: dispatch_def switch_tcb_state runnable_def)
  show "tcb (dispatch cur t k) u = (tcb k u)\<lparr>tstate := tstate (tcb (dispatch cur t k) u),
      ttime_slice_remaining := ttime_slice_remaining (tcb (dispatch cur t k) u),
      truntime_counter := truntime_counter (tcb (dispatch cur t k) u)\<rparr>"
    by (auto simp: dispatch_def switch_tcb_def Let_def)
qed (simp_all add: dispatch_def)

lemma pendsv_switch_ok:
  assumes "kinvx E X k" and "g_kernel_state k = HR_KERNEL_STATE_RUNNING" and "g_current_task k = Some cur"
    and "hr_scheduler_select_highest (Some G_scheduler) (kmem k) = Some (ReadyNode t)"
    and "hr_list_node_owner (Some (ReadyNode t)) (kmem k) = Some (Task_obj t)"
    and "registered k t" and "runnable (tstate (tcb k t))"
  shows "pendsv_switch cur k = Some (dispatch cur t k)"
proof -
  have c: "tstate (tcb k u) = HR_TASK_STATE_RUNNING \<Longrightarrow> u = cur" for u
    using kinvD(4) [OF assms(1)] assms(3) by (auto simp: current_ok_def)
  have r: "registered k cur" using kinvD(4) [OF assms(1)] assms(2,3) by (auto simp: current_ok_def)
  have mg: "tmagic (tcb k t) = HR_CFG_TASK_MAGIC" "tmagic (tcb k cur) = HR_CFG_TASK_MAGIC"
    using registeredD(2) [OF assms(1)] assms(6) r by auto
  note defs = pendsv_switch_def assms(4,5) as_task_def mg hr_task_transition_state_def upd_tcb_def dispatch_def
    switch_tcb_def
  show ?thesis
  proof (cases "t = cur")
    case True
    then show ?thesis
      using assms(5,7) by (cases "tstate (tcb k cur)") (simp_all add: defs runnable_def Let_def fun_upd_idem)
  next
    case False
    then have "tstate (tcb k t) = HR_TASK_STATE_READY" using c [of t] assms(7) by (auto simp: runnable_def)
    then show ?thesis using False by (simp add: defs Let_def)
  qed
qed

lemma run_update_trans:
  fixes c c1 c2 :: hr_task_control_block
  shows "c1 = c\<lparr>tstate := s1, ttime_slice_remaining := a1\<rparr> \<Longrightarrow> c2 = c1\<lparr>tstate := s, ttime_slice_remaining := a\<rparr> \<Longrightarrow>
    c2 = c\<lparr>tstate := s, ttime_slice_remaining := a\<rparr>"
  by simp

lemma same_but_run_priority:
  assumes "same_but_run k k'"
  shows "teffective_priority (tcb k' t) = teffective_priority (tcb k t)"
proof -
  have "tcb k' t = (tcb k t)\<lparr>tstate := tstate (tcb k' t), ttime_slice_remaining := ttime_slice_remaining (tcb k' t)\<rparr>"
    using assms unfolding same_but_run_def by blast
  then have "teffective_priority (tcb k' t) = teffective_priority ((tcb k t)\<lparr>tstate := tstate (tcb k' t),
      ttime_slice_remaining := ttime_slice_remaining (tcb k' t)\<rparr>)" by (rule arg_cong)
  then show ?thesis by simp
qed

lemma same_but_run_dispatch:
  assumes "same_but_run k k1"
  shows "same_but_run k (dispatch cur t k1)"
proof -
  have "tcb (dispatch cur t k1) u = (tcb k u)\<lparr>tstate := tstate (tcb (dispatch cur t k1) u),
      ttime_slice_remaining := ttime_slice_remaining (tcb (dispatch cur t k1) u)\<rparr>" for u
  proof -
    have "tcb k1 u = (tcb k u)\<lparr>tstate := tstate (tcb k1 u), ttime_slice_remaining := ttime_slice_remaining (tcb k1 u)\<rparr>"
      using assms unfolding same_but_run_def by blast
    moreover have "tcb (dispatch cur t k1) u = (tcb k1 u)\<lparr>tstate := tstate (tcb (dispatch cur t k1) u),
        ttime_slice_remaining := ttime_slice_remaining (tcb (dispatch cur t k1) u)\<rparr>"
      by (auto simp: dispatch_def switch_tcb_def Let_def)
    ultimately show ?thesis by (rule run_update_trans)
  qed
  then show ?thesis
    using assms unfolding same_but_run_def same_objects_def by (simp add: dispatch_def)
qed

lemma pendsv_ok:
  assumes "kinv k" and "g_kernel_state k = HR_KERNEL_STATE_RUNNING" and "g_current_task k = Some cur"
  obtains t ns k' where "pendsv_exception k = Some k'" and "kinv k'" and "same_but_run k k'"
    and "g_current_task k' = Some t" and "tstate (tcb k' t) = HR_TASK_STATE_RUNNING"
    and "ready_seq (kmem k') G_scheduler = ReadyNode t # ns"
    and "ready_seq (kmem k') G_scheduler = (if yields cur (g_switch_reasons k) k
      then rotate_ready (npriority (kmem k)) (ready_seq (kmem k) G_scheduler) else ready_seq (kmem k) G_scheduler)"
    and "\<And>u. runnable (tstate (tcb k' u)) \<longleftrightarrow> runnable (tstate (tcb k u))"
    and "\<And>u. \<not> runnable (tstate (tcb k u)) \<Longrightarrow> tstate (tcb k' u) = tstate (tcb k u)"
    and "\<And>u. runnable (tstate (tcb k u)) \<Longrightarrow> teffective_priority (tcb k' t) \<le> teffective_priority (tcb k u)"
proof -
  define k0 where "k0 = k\<lparr>pendsv := False, g_switch_reasons := HR_SWITCH_REASON_NONE\<rparr>"
  have k0: "kinv k0" "g_kernel_state k0 = HR_KERNEL_STATE_RUNNING" "g_current_task k0 = Some cur"
    and f: "kmem k0 = kmem k" "tcb k0 = tcb k"
    and y: "yields cur r k0 = yields cur r k" for r
    using assms by (simp_all add: k0_def yields_def)
  have c: "registered k0 cur" "g_hr_current_task_control_block k0 = Some cur"
    using kinvD(4) [OF k0(1)] k0(2,3) by (auto simp: current_ok_def)
  have s: "tstate (tcb k0 cur) \<notin> {HR_TASK_STATE_INVALID, HR_TASK_STATE_CREATED}"
    using registeredD(5) [OF k0(1) c(1)] by (auto simp: task_state_ok_def)
  show thesis
  proof (rule pendsv_current_ok [OF k0(1) s, of "g_switch_reasons k"])
    fix k1 assume p: "pendsv_current cur (g_switch_reasons k) k0 = Some (True, k1)"
      and k1: "kinv k1" "same_but_run k0 k1" "\<And>t. tstate (tcb k1 t) = tstate (tcb k0 t)"
        "g_current_task k1 = g_current_task k0"
      and q: "ready_seq (kmem k1) G_scheduler = (if yields cur (g_switch_reasons k) k0
        then rotate_ready (npriority (kmem k0)) (ready_seq (kmem k0) G_scheduler) else ready_seq (kmem k0) G_scheduler)"
    have run: "g_kernel_state k1 = HR_KERNEL_STATE_RUNNING" "g_current_task k1 = Some cur"
      using k1(2,4) k0(2,3) by (simp_all add: same_but_run_def same_objects_def)
    have eff: "teffective_priority (tcb k1 u) = teffective_priority (tcb k u)" for u
      using same_but_run_priority [OF k1(2)] f(2) by simp
    obtain t ns where t: "ready_seq (kmem k1) G_scheduler = ReadyNode t # ns"
      "hr_scheduler_select_highest (Some G_scheduler) (kmem k1) = Some (ReadyNode t)"
      "hr_list_node_owner (Some (ReadyNode t)) (kmem k1) = Some (Task_obj t)"
      "registered k1 t" "runnable (tstate (tcb k1 t))"
      and least: "\<And>u. runnable (tstate (tcb k1 u)) \<Longrightarrow> teffective_priority (tcb k1 t) \<le> teffective_priority (tcb k1 u)"
      by (rule highest_task [OF k1(1)]) blast
    have "pendsv_switch cur k1 = Some (dispatch cur t k1)"
      by (rule pendsv_switch_ok [OF k1(1) run t(2-5)])
    then have "pendsv_exception k = Some (dispatch cur t k1)"
      using p k0(2,3) c(2) by (simp add: pendsv_exception_def hr_kernel_select_next_from_pendsv_def Let_def k0_def)
    moreover have "kinv (dispatch cur t k1)" by (rule dispatch_kinv [OF k1(1) run t(4,5)])
    moreover have "same_but_run k (dispatch cur t k1)"
      using same_but_run_dispatch [OF k1(2), of cur t] by (simp add: same_but_run_def same_objects_def k0_def)
    moreover have "runnable (tstate (tcb (dispatch cur t k1) u)) \<longleftrightarrow> runnable (tstate (tcb k u))" for u
      using t(5) k1(3) f(2) by (auto simp: dispatch_def switch_tcb_state runnable_def)
    moreover have "tstate (tcb (dispatch cur t k1) u) = tstate (tcb k u)" if "\<not> runnable (tstate (tcb k u))" for u
      using that t(5) k1(3) f(2) by (auto simp: dispatch_def switch_tcb_state runnable_def)
    moreover have "teffective_priority (tcb (dispatch cur t k1) t) \<le> teffective_priority (tcb k u)"
      if "runnable (tstate (tcb k u))" for u
      using least [of u] that k1(3) f(2) eff by (auto simp: dispatch_def switch_tcb_def Let_def)
    ultimately show thesis
      using t(1) q [unfolded f y]
      by (intro that [of "dispatch cur t k1" t ns]) (simp_all add: dispatch_def switch_tcb_state)
  qed
qed

section \<open>Starting and yielding\<close>

definition start_tcb :: "hr_task_control_block \<Rightarrow> hr_task_control_block" where
  "start_tcb c = c\<lparr>tstate := HR_TASK_STATE_RUNNING, ttime_slice_remaining := HR_CFG_TIME_SLICE_TICKS\<rparr>"

lemma prepare_start_ok:
  assumes "kinv k" and "g_kernel_state k = HR_KERNEL_STATE_INITIALIZED"
  obtains t ns k' where "hr_kernel_prepare_start k = Some (HR_OK, k')" and "kinv k'"
    and "k' = k\<lparr>tcb := (tcb k)(t := start_tcb (tcb k t)), g_current_task := Some t,
      g_hr_current_task_control_block := Some t, g_kernel_state := HR_KERNEL_STATE_RUNNING\<rparr>"
    and "ready_seq (kmem k) G_scheduler = ReadyNode t # ns" and "tstate (tcb k t) = HR_TASK_STATE_READY"
    and "\<And>u. tstate (tcb k u) = HR_TASK_STATE_READY \<Longrightarrow> teffective_priority (tcb k t) \<le> teffective_priority (tcb k u)"
proof -
  obtain t ns where t: "ready_seq (kmem k) G_scheduler = ReadyNode t # ns"
      "hr_scheduler_select_highest (Some G_scheduler) (kmem k) = Some (ReadyNode t)"
      "hr_list_node_owner (Some (ReadyNode t)) (kmem k) = Some (Task_obj t)"
      "tmagic (tcb k t) = HR_CFG_TASK_MAGIC" "registered k t" "runnable (tstate (tcb k t))"
    and least: "\<And>u. runnable (tstate (tcb k u)) \<Longrightarrow> teffective_priority (tcb k t) \<le> teffective_priority (tcb k u)"
    by (rule highest_task [OF assms(1)]) blast
  have no: "tstate (tcb k u) \<noteq> HR_TASK_STATE_RUNNING" for u
    using kinvD(4) [OF assms(1)] assms(2) by (auto simp: current_ok_def)
  then have r: "tstate (tcb k t) = HR_TASK_STATE_READY" using t(6) by (auto simp: runnable_def)
  define k' where "k' = k\<lparr>tcb := (tcb k)(t := start_tcb (tcb k t)), g_current_task := Some t,
      g_hr_current_task_control_block := Some t, g_kernel_state := HR_KERNEL_STATE_RUNNING\<rparr>"
  have "hr_kernel_prepare_start k = Some (HR_OK, k')"
    by (simp add: hr_kernel_prepare_start_def assms(2) t as_task_def r transition_eq Let_def
        hr_kernel_reload_time_slice_def upd_tcb_def start_tcb_def k'_def)
  moreover have "kinv k'"
    by (rule kinv_run [OF assms(1)]) (use no r t(5) in \<open>auto simp: k'_def start_tcb_def runnable_def current_ok_def\<close>)
  ultimately show thesis
    using t(1) r least by (intro that [of k' t ns]) (simp_all add: runnable_def k'_def)
qed

lemma request_yield_ok:
  "kinvx E X k \<Longrightarrow> kinvx E X (hr_kernel_request_yield k)"
  "same_objects k (hr_kernel_request_yield k)" "kmem (hr_kernel_request_yield k) = kmem k"
  "tcb (hr_kernel_request_yield k) = tcb k" "g_current_task (hr_kernel_request_yield k) = g_current_task k"
  by (simp_all add: hr_kernel_request_yield_def Let_def hr_port_enter_critical_def hr_port_exit_critical_def
      hr_kernel_mark_switch_reason_def hr_port_request_context_switch_def same_objects_def)

text \<open>A running task that yields is switched behind its equals at the next PendSV.\<close>

lemma yield_reason:
  assumes "kinv k" and "tstate (tcb k t) = HR_TASK_STATE_RUNNING"
  shows "pendsv (hr_kernel_request_yield k)"
    and "g_switch_reasons (hr_kernel_request_yield k) AND HR_SWITCH_REASON_YIELD \<noteq> 0"
proof -
  note r = running_current [OF assms]
  show "pendsv (hr_kernel_request_yield k)"
    using r(1,2) assms(2)
    by (simp add: hr_kernel_request_yield_def Let_def hr_port_enter_critical_def hr_port_exit_critical_def
      hr_kernel_mark_switch_reason_def hr_port_request_context_switch_def)
  have "bit ((g_switch_reasons k OR 1) AND 1) 0" by (simp add: bit_simps)
  then have "(g_switch_reasons k OR 1) AND 1 \<noteq> 0" by (metis bit_0_eq bot_fun_def bot_bool_def)
  then show "g_switch_reasons (hr_kernel_request_yield k) AND HR_SWITCH_REASON_YIELD \<noteq> 0"
    using r(1,2) assms(2)
    by (simp add: hr_kernel_request_yield_def Let_def hr_port_enter_critical_def hr_port_exit_critical_def
      hr_kernel_mark_switch_reason_def hr_port_request_context_switch_def)
qed

end
