(* ===== verification/HR_Boot.thy ===== *)
theory HR_Boot
  imports HR_Switch
begin

text \<open>
  Creation and registration of tasks and the initialisation of the kernel: every one of them
  keeps or establishes the invariant.
\<close>

section \<open>Setting up memory\<close>

text \<open>Overwriting nodes and headers that no list uses.\<close>

lemma wf_free_nodes:
  assumes "wf_mem m" and "\<And>x. nlist (nodes m x) \<noteq> None \<Longrightarrow> nodes m' x = nodes m x"
    and "\<And>x. nlist (nodes m x) = None \<Longrightarrow> nlist (nodes m' x) = None"
    and "\<And>l. inited m l \<Longrightarrow> lsize m' l = lsize m l"
  shows "wf_mem m'" and "inited m' = inited m" and "inited m l \<Longrightarrow> nodes_of m' l = nodes_of m l"
    and "nlist (nodes m' x) = nlist (nodes m x)"
proof -
  show nl: "nlist (nodes m' x) = nlist (nodes m x)" for x
    using assms(2,3) [of x] by (cases "nlist (nodes m x)") auto
  show i: "inited m' = inited m" by (simp add: inited_def fun_eq_iff nl)
  have "linked m' l (nodes_of m l)" if "inited m' l" for l
  proof -
    have l: "inited m l" using that i by simp
    have s: "nodes m' x = nodes m x" if "x \<in> insert (Root l) (set (nodes_of m l))" for x
      using that wf_in_list [OF assms(1) l] l by (intro assms(2)) (auto simp: inited_def)
    have "seg m' (Root l) (nodes_of m l) (Root l) = seg m (Root l) (nodes_of m l) (Root l)"
      by (rule seg_cong) (auto simp: s)
    then show ?thesis using wf_linked [OF assms(1) l] assms(4) [OF l] by (simp add: linked_def)
  qed
  note w = wf_memI [of m' "nodes_of m", OF this]
  show "wf_mem m'" by (rule w) (use wf_nlist [OF assms(1)] nl i in auto)
  show "nodes_of m' l = nodes_of m l" if "inited m l" for l
    by (rule w) (use wf_nlist [OF assms(1)] nl i that in auto)
qed

lemma free_root: "mem_ok m \<Longrightarrow> \<not> inited m l \<Longrightarrow> nlist (nodes m (Root l)) = None"
  using mem_okD(6) [of m "Root l"] by (cases "nlist (nodes m (Root l))") (auto simp: inited_def)

section \<open>Creating a task\<close>

definition fresh_node :: "obj_ptr \<Rightarrow> hr_list_node" where
  "fresh_node ob = \<lparr>nprevious = None, nnext = None, nlist = None, nowner = Some ob\<rparr>"

fun node_of :: "node_addr \<Rightarrow> task_ptr option" where
  "node_of (ReadyNode t) = Some t"
| "node_of (WaitNode t) = Some t"
| "node_of (TimeoutNode t) = Some t"
| "node_of (AllTaskNode t) = Some t"
| "node_of _ = None"

definition zero_task_mem :: "task_ptr \<Rightarrow> mem \<Rightarrow> mem" where
  "zero_task_mem t m = kmem (hr_task_zero_control_block t (reset_kernel 0\<lparr>kmem := m\<rparr>))"

lemma zero_task_mem_simps:
  "kmem (hr_task_zero_control_block t k) = zero_task_mem t (kmem k)"
  "nodes (zero_task_mem t m) x = (if node_of x = Some t \<or> x = Root (OwnedMutexes t) then zero_node else nodes m x)"
  "lsize (zero_task_mem t m) = (lsize m)(OwnedMutexes t := 0)"
  "npriority (zero_task_mem t m) x = (if node_of x = Some t \<or> x = Root (OwnedMutexes t) then 0 else npriority m x)"
  "nwake_tick (zero_task_mem t m) x = (if node_of x = Some t \<or> x = Root (OwnedMutexes t) then 0 else nwake_tick m x)"
  "ready_sets (zero_task_mem t m) = ready_sets m" "timeout_lists (zero_task_mem t m) = timeout_lists m"
  by (cases x; auto simp: zero_task_mem_def hr_task_zero_control_block_def Let_def)+

lemma init_nodes_simps:
  "nodes (task_init_nodes t p m) x =
     (if node_of x = Some t then fresh_node (Task_obj t) else nodes (hr_list_init (Some (OwnedMutexes t)) m) x)"
  "lsize (task_init_nodes t p m) = lsize (hr_list_init (Some (OwnedMutexes t)) m)"
  "npriority (task_init_nodes t p m) x = (if x = ReadyNode t \<or> x = WaitNode t then p else npriority m x)"
  "nwake_tick (task_init_nodes t p m) x = (if x = TimeoutNode t then 0 else nwake_tick m x)"
  "ready_sets (task_init_nodes t p m) = ready_sets m" "timeout_lists (task_init_nodes t p m) = timeout_lists m"
  by (cases x; auto simp: task_init_nodes_def Let_def hr_ready_node_init_def hr_wait_node_init_def
    hr_timeout_node_init_def fresh_node_def)+

definition free_task :: "mem \<Rightarrow> task_ptr \<Rightarrow> bool" where
  "free_task m t \<longleftrightarrow>
     vready (view m t) = None \<and> vwait (view m t) = None \<and> vtimeout (view m t) = None \<and> vall (view m t) = None \<and>
     \<not> inited m (OwnedMutexes t)"

lemma free_task_nodes:
  assumes "mem_ok m" and "free_task m t" and "node_of x = Some t \<or> x = Root (OwnedMutexes t)"
  shows "nlist (nodes m x) = None"
  using assms free_root [OF assms(1)] by (cases x) (auto simp: free_task_def)

lemma zero_task_mem_ok:
  assumes "mem_ok m" and "free_task m t"
  defines "m' \<equiv> zero_task_mem t m"
  shows "wf_mem m'" and "inited m' = inited m" and "inited m l \<Longrightarrow> nodes_of m' l = nodes_of m l"
    and "nlist (nodes m' x) = nlist (nodes m x)"
proof -
  note f = free_task_nodes [OF assms(1,2)]
  have a: "nodes m' x = nodes m x" if "nlist (nodes m x) \<noteq> None" for x
    using f [of x] that by (auto simp: m'_def zero_task_mem_simps)
  have b: "nlist (nodes m' x) = None" if "nlist (nodes m x) = None" for x
    using that by (simp add: m'_def zero_task_mem_simps zero_node_def)
  have c: "lsize m' l = lsize m l" if "inited m l" for l
    using that assms(2) by (auto simp: m'_def zero_task_mem_simps free_task_def)
  note w = wf_free_nodes [OF mem_okD(1) [OF assms(1)] a b c]
  show "wf_mem m'" by (rule w)
  show "inited m' = inited m" by (rule w)
  show "inited m l \<Longrightarrow> nodes_of m' l = nodes_of m l" by (rule w)
  show "nlist (nodes m' x) = nlist (nodes m x)" by (rule w)
qed

lemma created_mem_ok:
  fixes p :: hr_priority
  assumes "mem_ok m" and "free_task m t"
  defines "m' \<equiv> task_init_nodes t p (zero_task_mem t m)"
  shows "wf_mem m'" and "inited m' l \<longleftrightarrow> inited m l \<or> l = OwnedMutexes t"
    and "inited m l \<Longrightarrow> nodes_of m' l = nodes_of m l" and "nodes_of m' (OwnedMutexes t) = []"
    and "\<not> is_root x \<Longrightarrow> nlist (nodes m' x) = nlist (nodes m x)"
proof -
  define m1 where "m1 = zero_task_mem t m"
  define m2 where "m2 = hr_list_init (Some (OwnedMutexes t)) m1"
  note z = zero_task_mem_ok [OF assms(1,2), folded m1_def]
  have n: "\<not> inited m (OwnedMutexes t)" using assms(2) by (simp add: free_task_def)
  then have "inited m1 (OwnedMutexes t) \<Longrightarrow> nodes_of m1 (OwnedMutexes t) = []" using z(2) by simp
  note i = wf_list_init [OF z(1) this, folded m2_def]
  have in2: "inited m2 l \<longleftrightarrow> inited m l \<or> l = OwnedMutexes t" for l
    unfolding z(2) [symmetric] by (auto simp: m2_def inited_def)
  have f: "nlist (nodes m2 x) = None" if "node_of x = Some t" for x
    using free_task_nodes [OF assms(1,2), of x] that z(4) [of x] by (auto simp: m2_def)
  have a: "nodes m' x = nodes m2 x" if "nlist (nodes m2 x) \<noteq> None" for x
    using f [of x] that by (auto simp: m'_def init_nodes_simps m1_def m2_def)
  have b: "nlist (nodes m' x) = None" if "nlist (nodes m2 x) = None" for x
    using that by (simp add: m'_def init_nodes_simps m1_def m2_def fresh_node_def)
  have c: "lsize m' l = lsize m2 l" for l
    by (simp add: m'_def init_nodes_simps m1_def m2_def)
  note w = wf_free_nodes [OF i(1) a b c]
  show "wf_mem m'" by (rule w)
  show "inited m' l \<longleftrightarrow> inited m l \<or> l = OwnedMutexes t" using w(2) in2 by simp
  show "inited m l \<Longrightarrow> nodes_of m' l = nodes_of m l"
    using w(3) [of l] i(2) [of l] z(2,3) in2 [of l] n by auto
  show "nodes_of m' (OwnedMutexes t) = []"
    using w(3) [of "OwnedMutexes t"] i(2) [of "OwnedMutexes t"] in2 [of "OwnedMutexes t"] by simp
  assume "\<not> is_root x"
  then show "nlist (nodes m' x) = nlist (nodes m x)" using w(4) [of x] z(4) [of x] by (auto simp: m2_def)
qed

text \<open>The invariant without the idle task, which holds while the kernel is being set up.\<close>

definition kpre :: "hr_kernel \<Rightarrow> bool" where
  "kpre k \<longleftrightarrow>
     mem_ok (kmem k) \<and> tasks_ok {} {} (kmem k) (tcb k) \<and> owners_ok (kmem k) (tcb k) (mcb k) \<and> current_ok k \<and>
     last_tick (kmem k) G_timeout_list = g_kernel_tick k \<and>
     g_task_count k = length (nodes_of (kmem k) AllTasks)"

lemma kinv_kpre: "kinv k \<longleftrightarrow> kpre k \<and> registered k g_idle_task"
  by (auto simp: kinvx_def kpre_def)

lemma kpreD:
  assumes "kpre k"
  shows "mem_ok (kmem k)" and "task_ok {} {} (view (kmem k) t) (tcb k t) t"
    and "owners_ok (kmem k) (tcb k) (mcb k)" and "current_ok k"
  using assms by (auto simp: kpre_def tasks_ok_def)

lemma invalid_task_free:
  assumes "kpre k" and "tmagic (tcb k t) \<noteq> HR_CFG_TASK_MAGIC"
  shows "free_task (kmem k) t" and "\<not> registered k t"
proof -
  show r: "\<not> registered k t"
    using kpreD(2) [OF assms(1), of t] assms(2) by (auto simp: task_ok_def registered_ok_def split: if_splits)
  then show "free_task (kmem k) t"
    using kpreD(2) [OF assms(1), of t] assms(2) owners_okD(8) [OF kpreD(3) [OF assms(1)], of t]
    by (simp add: task_ok_def created_ok_def free_task_def)
qed

lemma kpre_extend:
  assumes "kpre k" and "\<not> registered k t" and "mem_ok m"
    and "\<And>l. inited (kmem k) l \<Longrightarrow> nodes_of m l = nodes_of (kmem k) l"
    and "\<And>l. inited m l \<longleftrightarrow> inited (kmem k) l \<or> l = OwnedMutexes t \<and> tmagic c = HR_CFG_TASK_MAGIC"
    and "inited (kmem k) (OwnedMutexes t) \<Longrightarrow> tmagic c = HR_CFG_TASK_MAGIC"
    and "\<And>u. u \<noteq> t \<Longrightarrow> view m u = view (kmem k) u" and "vall (view m t) = None" and "created_ok (view m t) c"
    and "\<And>x. nodes m (OwnerNode x) = nodes (kmem k) (OwnerNode x)"
    and "timeout_lists m = timeout_lists (kmem k)"
    and "tmagic c = HR_CFG_TASK_MAGIC \<Longrightarrow> nodes_of m (OwnedMutexes t) = [] \<and> towned_mutex_count c = 0"
  shows "kpre (k\<lparr>kmem := m, tcb := (tcb k)(t := c)\<rparr>)" and "registered (k\<lparr>kmem := m\<rparr>) u = registered k u"
proof -
  note i = assms(1) [unfolded kpre_def]
  have va: "vall (view m u) = vall (view (kmem k) u)" for u using assms(2,7,8) by (cases "u = t") auto
  then show "registered (k\<lparr>kmem := m\<rparr>) u = registered k u" by simp
  have "tasks_ok {} {} m ((tcb k)(t := c))"
    using i assms(7,8,9) by (auto simp: tasks_ok_def task_ok_def)
  moreover have "owners_ok m ((tcb k)(t := c)) (mcb k)"
  proof -
    note o = owners_okD [OF kpreD(3) [OF assms(1)]]
    show ?thesis
      unfolding owners_ok_def
    proof (intro conjI allI impI)
      fix u
      show "inited m (OwnedMutexes u) \<longleftrightarrow> tmagic (((tcb k)(t := c)) u) = HR_CFG_TASK_MAGIC"
        using assms(5) [of "OwnedMutexes u"] assms(6) o(8) [of u] by auto
      assume "tmagic (((tcb k)(t := c)) u) = HR_CFG_TASK_MAGIC"
      then show "towned_mutex_count (((tcb k)(t := c)) u) = length (nodes_of m (OwnedMutexes u))"
        using assms(4,12) o(7) [of u] o(8) [of u] by (cases "u = t") auto
    next
      fix x
      show "inited m (MutexWaiters x) \<longleftrightarrow> mmagic (mcb k x) = HR_CFG_MUTEX_MAGIC"
        using assms(5) o(2) by simp
      show "nlist (nodes m (OwnerNode x)) = (if mmagic (mcb k x) = HR_CFG_MUTEX_MAGIC
          then map_option OwnedMutexes (mowner (mcb k x)) else None)"
        using kpreD(3) [OF assms(1)] unfolding owners_ok_def assms(10) by blast
      assume m: "mmagic (mcb k x) = HR_CFG_MUTEX_MAGIC"
      show "nowner (nodes m (OwnerNode x)) = Some (Mutex_obj x)" using o(4) [OF m] assms(10) by simp
      show "(mowner (mcb k x) = None) = (mrecursion_count (mcb k x) = 0)" by (rule o(5) [OF m])
      show "vall (view m u) \<noteq> None" if "mowner (mcb k x) = Some u" for u using o(6) [OF m that] va by simp
    qed
  qed
  moreover have "current_ok (k\<lparr>kmem := m, tcb := (tcb k)(t := c)\<rparr>)"
    using kpreD(4) [OF assms(1)] assms(9) by (auto simp: current_ok_def va created_ok_def split: if_splits)
  ultimately show "kpre (k\<lparr>kmem := m, tcb := (tcb k)(t := c)\<rparr>)"
    using assms(3,4,11) i mem_okD(3) [OF kpreD(1) [OF assms(1)]] by (simp add: kpre_def)
qed

definition task_set_up :: "task_ptr \<Rightarrow> mem \<Rightarrow> mem \<Rightarrow> bool" where
  "task_set_up t m m' \<longleftrightarrow>
     mem_ok m' \<and> (\<forall>l. inited m l \<longrightarrow> inited m' l \<and> nodes_of m' l = nodes_of m l) \<and>
     (\<forall>l. inited m' l \<longrightarrow> inited m l \<or> l = OwnedMutexes t) \<and>
     (\<forall>x. node_of x \<noteq> Some t \<longrightarrow> x \<noteq> Root (OwnedMutexes t) \<longrightarrow> nodes m' x = nodes m x \<and> npriority m' x = npriority m x \<and>
        nwake_tick m' x = nwake_tick m x) \<and>
     (\<forall>x. \<not> is_root x \<longrightarrow> nlist (nodes m' x) = nlist (nodes m x)) \<and>
     timeout_lists m' = timeout_lists m \<and> ready_seq m' G_scheduler = ready_seq m G_scheduler"

lemma set_up_view:
  assumes "task_set_up t m m'" and "u \<noteq> t"
  shows "view m' u = view m u"
proof -
  have "nodes m' x = nodes m x \<and> npriority m' x = npriority m x" if "node_of x = Some u" for x
  proof -
    have "node_of x \<noteq> Some t" and "x \<noteq> Root (OwnedMutexes t)" using that assms(2) by auto
    then show ?thesis using assms(1) unfolding task_set_up_def by blast
  qed
  then show ?thesis by (simp add: view_def del: node_view)
qed

lemma zero_set_up:
  assumes "mem_ok m" and "free_task m t"
  shows "task_set_up t m (zero_task_mem t m)"
proof -
  note z = zero_task_mem_ok [OF assms]
  note e = mem_extend [OF assms(1) z(1)]
  have p: "npriority (zero_task_mem t m) x = npriority m x \<and> nwake_tick (zero_task_mem t m) x = nwake_tick m x"
    if "nlist (nodes m x) \<noteq> None" for x
    using free_task_nodes [OF assms, of x] that by (auto simp: zero_task_mem_simps)
  have f: "node_fits x l" if "nlist (nodes (zero_task_mem t m) x) = Some l" for x l
    using mem_okD(6) [OF assms(1)] that z(4) by simp
  have "mem_ok (zero_task_mem t m)" "ready_seq (zero_task_mem t m) G_scheduler = ready_seq m G_scheduler"
    by (rule e; use z p f in \<open>auto simp: zero_task_mem_simps(6,7)\<close>)+
  then show ?thesis using z by (simp add: task_set_up_def zero_task_mem_simps)
qed

lemma init_set_up:
  fixes p :: hr_priority
  assumes "mem_ok m" and "free_task m t"
  defines "m' \<equiv> task_init_nodes t p (zero_task_mem t m)"
  shows "task_set_up t m m'" and "inited m' (OwnedMutexes t)" and "nodes_of m' (OwnedMutexes t) = []"
    and "view m' t = \<lparr>vready = None, vwait = None, vtimeout = None, vall = None, vowned = True, vrprio = p, vwprio = p\<rparr>"
proof -
  note z = created_mem_ok [OF assms(1,2), where p = p, folded m'_def]
  note e = mem_extend [OF assms(1) z(1)]
  have p: "npriority m' x = npriority m x \<and> nwake_tick m' x = nwake_tick m x" if "nlist (nodes m x) \<noteq> None" for x
    using free_task_nodes [OF assms(1,2), of x] that by (auto simp: m'_def init_nodes_simps zero_task_mem_simps)
  have f: "node_fits x l" if "nlist (nodes m' x) = Some l" for x l
  proof (cases "is_root x")
    case True
    then obtain k where k: "x = Root k" by (cases x) auto
    show ?thesis
      using that mem_okD(6) [OF assms(1), of x l]
      by (cases "k = OwnedMutexes t") (auto simp: k m'_def init_nodes_simps zero_task_mem_simps)
  qed (use that z(5) mem_okD(6) [OF assms(1)] in auto)
  have "mem_ok m'" "ready_seq m' G_scheduler = ready_seq m G_scheduler"
    by (rule e; use z p f in \<open>auto simp: m'_def init_nodes_simps(5,6) zero_task_mem_simps(6,7)\<close>)+
  then show "task_set_up t m m'"
    using z by (auto simp: task_set_up_def m'_def init_nodes_simps zero_task_mem_simps)
  show "inited m' (OwnedMutexes t)" "nodes_of m' (OwnedMutexes t) = []" using z by auto
  show "view m' t = \<lparr>vready = None, vwait = None, vtimeout = None, vall = None, vowned = True, vrprio = p, vwprio = p\<rparr>"
    by (simp add: view_def m'_def init_nodes_simps fresh_node_def del: node_view)
qed

definition new_tcb ::
  "string \<Rightarrow> 32 word \<Rightarrow> 32 word \<Rightarrow> 32 word \<Rightarrow> nat \<Rightarrow> hr_priority \<Rightarrow> 32 word \<Rightarrow> hr_task_control_block" where
  "new_tcb nm en argument sk stack_words priority sp =
     (tcb (task_init_fields 0 nm en argument sk stack_words priority sp ((reset_kernel 0)\<lparr>tcb := \<lambda>_. zero_tcb\<rparr>)) 0)
       \<lparr>tmagic := HR_CFG_TASK_MAGIC\<rparr>"

lemma create_eq:
  assumes "tmagic (tcb k t) \<noteq> HR_CFG_TASK_MAGIC" and "\<not> stack_words < 32" and "priority < HR_CFG_PRIORITY_COUNT"
    and "hr_port_initialize_stack (Some sk) stack_words en argument (exit_handler k)
      (hr_task_fill_stack sk stack_words (stack_mem k)) = (sp, sm)"
  shows "hr_task_create_static (Some t) (Some nm) (Some en) argument (Some sk) stack_words priority k =
    (case sp of
       None \<Rightarrow> (HR_ERROR_INVALID_STATE, k\<lparr>kmem := zero_task_mem t (kmem k), tcb := (tcb k)(t := zero_tcb), stack_mem := sm\<rparr>)
     | Some a \<Rightarrow> (HR_OK, k\<lparr>kmem := task_init_nodes t priority (zero_task_mem t (kmem k)),
         tcb := (tcb k)(t := new_tcb nm en argument sk stack_words priority a), stack_mem := sm\<rparr>))"
proof -
  have z: "hr_task_zero_control_block t k = k\<lparr>kmem := zero_task_mem t (kmem k), tcb := (tcb k)(t := zero_tcb)\<rparr>"
    by (simp add: hr_task_zero_control_block_def zero_task_mem_def Let_def)
  have p: "hr_port_initialize_stack (Some sk) stack_words en argument (exit_handler k)
      (hr_task_fill_stack sk stack_words (stack_mem k)) = (sp, sm)" by (rule assms(4))
  show ?thesis
    using assms(1-3)
    by (simp add: hr_task_create_static_def z p Let_def new_tcb_def task_init_fields_def upd_tcb_def zero_tcb_def
        not_le split: option.splits)
qed

lemma new_tcb_ok:
  assumes "priority < HR_CFG_PRIORITY_COUNT"
  shows "created_ok \<lparr>vready = None, vwait = None, vtimeout = None, vall = None, vowned = True,
      vrprio = priority, vwprio = priority\<rparr> (new_tcb nm en argument sk stack_words priority a)"
    and "tmagic (new_tcb nm en argument sk stack_words priority a) = HR_CFG_TASK_MAGIC"
    and "towned_mutex_count (new_tcb nm en argument sk stack_words priority a) = 0"
    and "tstate (new_tcb nm en argument sk stack_words priority a) = HR_TASK_STATE_CREATED"
    and "tbase_priority (new_tcb nm en argument sk stack_words priority a) = priority"
    and "teffective_priority (new_tcb nm en argument sk stack_words priority a) = priority"
  using assms by (simp_all add: created_ok_def new_tcb_def task_init_fields_def upd_tcb_def zero_tcb_def no_wait_def)

lemma create_cases:
  assumes "hr_task_create_static (Some t) name entry argument stack stack_words priority k = (st, k')"
  obtains "st \<noteq> HR_OK" and "k' = k"
  | sm where "tmagic (tcb k t) \<noteq> HR_CFG_TASK_MAGIC" and "st = HR_ERROR_INVALID_STATE"
    and "k' = k\<lparr>kmem := zero_task_mem t (kmem k), tcb := (tcb k)(t := zero_tcb), stack_mem := sm\<rparr>"
  | sm nm en sk a where "tmagic (tcb k t) \<noteq> HR_CFG_TASK_MAGIC" and "st = HR_OK" and "priority < HR_CFG_PRIORITY_COUNT"
    and "k' = k\<lparr>kmem := task_init_nodes t priority (zero_task_mem t (kmem k)),
         tcb := (tcb k)(t := new_tcb nm en argument sk stack_words priority a), stack_mem := sm\<rparr>"
proof (cases "name = None \<or> entry = None \<or> stack = None \<or> tmagic (tcb k t) = HR_CFG_TASK_MAGIC \<or>
    stack_words < 32 \<or> priority \<ge> HR_CFG_PRIORITY_COUNT")
  case True
  then show thesis
    using assms by (intro that(1)) (auto simp: hr_task_create_static_def split: option.splits if_splits)
next
  case False
  then obtain nm en sk where g: "name = Some nm" "entry = Some en" "stack = Some sk"
    "tmagic (tcb k t) \<noteq> HR_CFG_TASK_MAGIC" "\<not> stack_words < 32" "priority < HR_CFG_PRIORITY_COUNT"
    by (auto simp: not_le)
  obtain sp sm where p: "hr_port_initialize_stack (Some sk) stack_words en argument (exit_handler k)
      (hr_task_fill_stack sk stack_words (stack_mem k)) = (sp, sm)" by (rule prod.exhaust)
  note e = create_eq [OF g(4-6) p, of nm] assms [unfolded g(1-3)]
  show thesis
  proof (cases sp)
    case None
    then show thesis using e g(4) by (intro that(2) [of sm]) simp_all
  next
    case (Some a)
    then show thesis using e g(4,6) by (intro that(3) [of sm nm en sk a]) simp_all
  qed
qed

text \<open>What creating a task leaves of the state.\<close>

definition created :: "task_ptr \<Rightarrow> hr_kernel \<Rightarrow> hr_kernel \<Rightarrow> bool" where
  "created t k k' \<longleftrightarrow>
     k' = k \<or>
     \<not> registered k t \<and> task_set_up t (kmem k) (kmem k') \<and> same_objects k k' \<and> (\<forall>u. u \<noteq> t \<longrightarrow> tcb k' u = tcb k u) \<and>
     g_current_task k' = g_current_task k"

lemma create_zeroed:
  fixes sm :: stack_memory
  assumes "kpre k" and "tmagic (tcb k t) \<noteq> HR_CFG_TASK_MAGIC"
  defines "k' \<equiv> k\<lparr>kmem := zero_task_mem t (kmem k), tcb := (tcb k)(t := zero_tcb), stack_mem := sm\<rparr>"
  shows "kpre k'" and "registered k' u = registered k u" and "created t k k'"
proof -
  note fr = invalid_task_free [OF assms(1,2)]
  note su = zero_set_up [OF kpreD(1) [OF assms(1)] fr(1)]
  have v: "view (zero_task_mem t (kmem k)) t =
      \<lparr>vready = None, vwait = None, vtimeout = None, vall = None, vowned = False, vrprio = 0, vwprio = 0\<rparr>"
    by (simp add: view_def zero_task_mem_simps zero_node_def del: node_view)
  note e = kpre_extend [OF assms(1) fr(2), of "zero_task_mem t (kmem k)" zero_tcb]
  have "kpre (k\<lparr>kmem := zero_task_mem t (kmem k), tcb := (tcb k)(t := zero_tcb)\<rparr>)"
    and r: "registered (k\<lparr>kmem := zero_task_mem t (kmem k)\<rparr>) u = registered k u"
    by (rule e; use su set_up_view [OF su] fr(1) zero_task_mem_ok [OF kpreD(1) [OF assms(1)] fr(1)] in
        \<open>auto simp: task_set_up_def zero_tcb_def v created_ok_def free_task_def zero_task_mem_simps(2)\<close>)+
  then show "kpre k'" "registered k' u = registered k u" by (simp_all add: k'_def kpre_def current_ok_def)
  show "created t k k'" using su fr(2) by (simp add: created_def k'_def same_objects_def)
qed

lemma create_new:
  fixes sm :: stack_memory and nm :: string and en argument sk a :: "32 word" and stack_words :: nat
  assumes "kpre k" and "tmagic (tcb k t) \<noteq> HR_CFG_TASK_MAGIC" and "priority < HR_CFG_PRIORITY_COUNT"
  defines "k' \<equiv> k\<lparr>kmem := task_init_nodes t priority (zero_task_mem t (kmem k)),
         tcb := (tcb k)(t := new_tcb nm en argument sk stack_words priority a), stack_mem := sm\<rparr>"
  shows "kpre k'" and "registered k' u = registered k u" and "created t k k'" and "\<not> registered k' t"
proof -
  let ?m = "task_init_nodes t priority (zero_task_mem t (kmem k))"
  let ?c = "new_tcb nm en argument sk stack_words priority a"
  note fr = invalid_task_free [OF assms(1,2)]
  note su = init_set_up [OF kpreD(1) [OF assms(1)] fr(1), where p = priority]
  note e = kpre_extend [OF assms(1) fr(2), of ?m ?c]
  have "kpre (k\<lparr>kmem := ?m, tcb := (tcb k)(t := ?c)\<rparr>)" and r: "registered (k\<lparr>kmem := ?m\<rparr>) u = registered k u"
    by (rule e; use su set_up_view [OF su(1)] new_tcb_ok [OF assms(3)] in
        \<open>auto simp: task_set_up_def init_nodes_simps(1) zero_task_mem_simps(2)\<close>)+
  then show "kpre k'" "registered k' u = registered k u" by (simp_all add: k'_def kpre_def current_ok_def)
  show "created t k k'" using su fr(2) by (simp add: created_def k'_def same_objects_def)
  show "\<not> registered k' t" using su(4) by (simp add: k'_def)
qed

lemma create_ok:
  assumes "kpre k" and "hr_task_create_static (Some t) name entry argument stack stack_words priority k = (st, k')"
  shows "kpre k'" and "registered k' u = registered k u" and "created t k k'"
    and "st = HR_OK \<Longrightarrow> tmagic (tcb k' t) = HR_CFG_TASK_MAGIC \<and> tstate (tcb k' t) = HR_TASK_STATE_CREATED \<and>
      tbase_priority (tcb k' t) = priority \<and> teffective_priority (tcb k' t) = priority \<and> \<not> registered k' t"
proof -
  have "kpre k' \<and> registered k' u = registered k u \<and> created t k k' \<and>
    (st = HR_OK \<longrightarrow> tmagic (tcb k' t) = HR_CFG_TASK_MAGIC \<and> tstate (tcb k' t) = HR_TASK_STATE_CREATED \<and>
      tbase_priority (tcb k' t) = priority \<and> teffective_priority (tcb k' t) = priority \<and> \<not> registered k' t)" for u
  proof (rule create_cases [OF assms(2)])
    assume "st \<noteq> HR_OK" "k' = k" then show ?thesis using assms(1) by (simp add: created_def)
  next
    fix sm assume g: "tmagic (tcb k t) \<noteq> HR_CFG_TASK_MAGIC" "st = HR_ERROR_INVALID_STATE"
      and k': "k' = k\<lparr>kmem := zero_task_mem t (kmem k), tcb := (tcb k)(t := zero_tcb), stack_mem := sm\<rparr>"
    show ?thesis using create_zeroed [OF assms(1) g(1), where sm = sm, folded k'] g(2) by simp
  next
    fix sm nm en sk a assume g: "tmagic (tcb k t) \<noteq> HR_CFG_TASK_MAGIC" "st = HR_OK" "priority < HR_CFG_PRIORITY_COUNT"
      and k': "k' = k\<lparr>kmem := task_init_nodes t priority (zero_task_mem t (kmem k)),
         tcb := (tcb k)(t := new_tcb nm en argument sk stack_words priority a), stack_mem := sm\<rparr>"
    have "tcb k' t = new_tcb nm en argument sk stack_words priority a" by (simp add: k')
    then show ?thesis
      using create_new [OF assms(1) g(1,3), where nm = nm and en = en and argument = argument and sk = sk and
        stack_words = stack_words and a = a and sm = sm, folded k'] new_tcb_ok [OF g(3)] by simp
  qed
  then show "kpre k'" "registered k' u = registered k u" "created t k k'"
    "st = HR_OK \<Longrightarrow> tmagic (tcb k' t) = HR_CFG_TASK_MAGIC \<and> tstate (tcb k' t) = HR_TASK_STATE_CREATED \<and>
      tbase_priority (tcb k' t) = priority \<and> teffective_priority (tcb k' t) = priority \<and> \<not> registered k' t"
    by simp_all
qed

section \<open>Registering a task\<close>

lemma kpre_upd [simp]:
  "kpre (k\<lparr>stack_mem := sm\<rparr>) = kpre k" "kpre (k\<lparr>g_switch_reasons := r\<rparr>) = kpre k"
  by (simp_all add: kpre_def current_ok_def)

definition may_register :: "hr_kernel \<Rightarrow> task_ptr \<Rightarrow> bool" where
  "may_register k t \<longleftrightarrow>
     g_kernel_state k = HR_KERNEL_STATE_INITIALIZED \<and> tmagic (tcb k t) = HR_CFG_TASK_MAGIC \<and>
     g_task_count k < HR_CFG_MAX_TASKS \<and> (t = g_idle_task \<or> teffective_priority (tcb k t) \<noteq> HR_CFG_IDLE_PRIORITY) \<and>
     tstate (tcb k t) = HR_TASK_STATE_CREATED"

definition register_tcb :: "hr_task_control_block \<Rightarrow> hr_task_control_block" where
  "register_tcb c = c\<lparr>tstate := HR_TASK_STATE_READY, ttime_slice_remaining := HR_CFG_TIME_SLICE_TICKS\<rparr>"

lemma created_unregistered:
  assumes "kpre k" and "tmagic (tcb k t) = HR_CFG_TASK_MAGIC" and "tstate (tcb k t) = HR_TASK_STATE_CREATED"
  shows "\<not> registered k t" and "created_ok (view (kmem k) t) (tcb k t)"
proof -
  show r: "\<not> registered k t"
    using kpreD(2) [OF assms(1), of t] assms(3)
    by (auto simp: task_ok_def registered_ok_def task_state_ok_def split: if_splits)
  then show "created_ok (view (kmem k) t) (tcb k t)" using kpreD(2) [OF assms(1), of t] by (simp add: task_ok_def)
qed

lemma register_mem:
  assumes "mem_ok m" and "vready (view m t) = None" and "vall (view m t) = None" and "vrprio (view m t) < 8"
  obtains m1 m2 where "hr_scheduler_add_ready (Some G_scheduler) (Some (ReadyNode t)) m = Some (HR_OK, m1)"
    and "hr_list_push_back (Some AllTasks) (Some (AllTaskNode t)) m1 = Some (HR_OK, m2)"
    and "mem_ok m2" and "inited m2 = inited m"
    and "view m2 = (view m)(t := (view m t)\<lparr>vready := Some (ReadyQueue G_scheduler (unat (vrprio (view m t)))), vall := Some AllTasks\<rparr>)"
    and "nodes_of m2 AllTasks = nodes_of m AllTasks @ [AllTaskNode t]"
    and "\<And>l. inited m l \<Longrightarrow> is_wait_list l \<or> plain_list l \<and> l \<noteq> AllTasks \<Longrightarrow> nodes_of m2 l = nodes_of m l"
    and "\<And>x. \<not> task_node x \<Longrightarrow> nlist (nodes m2 x) = nlist (nodes m x)"
    and "\<And>x. nowner (nodes m2 x) = nowner (nodes m x)" and "timeout_lists m2 = timeout_lists m"
    and "ready_seq m2 G_scheduler = insert_fifo (npriority m) (ReadyNode t) (ready_seq m G_scheduler)"
    and "same_timeouts m m2"
proof -
  define m1 where "m1 = ready_link G_scheduler (ReadyNode t) m"
  note a = mem_ready_add [OF assms(1), of t, folded m1_def]
  have a': "hr_scheduler_add_ready (Some G_scheduler) (Some (ReadyNode t)) m = Some (HR_OK, m1)" "mem_ok m1"
    "view m1 = (view m)(t := (view m t)\<lparr>vready := Some (ReadyQueue G_scheduler (unat (vrprio (view m t))))\<rparr>)"
    "same_others m m1" "npriority m1 = npriority m" "same_timeouts m m1"
    "ready_seq m1 G_scheduler = insert_fifo (npriority m) (ReadyNode t) (ready_seq m G_scheduler)"
    "\<And>l. is_wait_list l \<Longrightarrow> inited m l \<Longrightarrow> nodes_of m1 l = nodes_of m l"
    using a assms(2,4) by simp_all
  have i: "inited m1 = inited m" using a'(4) by (simp add: same_others_def)
  have ia: "inited m1 AllTasks" using mem_okD(3) [OF a'(2)] .
  define m2 where "m2 = link_at AllTasks (nodes_of m1 AllTasks) [] (AllTaskNode t) m1"
  have free: "nlist (nodes m1 (AllTaskNode t)) = None" using assms(3) a'(3) by simp
  have fits: "plain_list AllTasks" "\<not> is_root (AllTaskNode t)" "node_fits (AllTaskNode t) AllTasks" by simp_all
  note b = mem_plain_push [OF a'(2) fits(1) ia fits(2,3) free, folded m2_def]
  have pl: "nodes_of m1 l = nodes_of m l" if "plain_list l" "inited m l" for l
    using a'(4) that by (simp add: same_others_def)
  show thesis
  proof (rule that [OF a'(1) b(1,2)])
    show "inited m2 = inited m" using b(6) i by simp
    show "view m2 = (view m)(t := (view m t)\<lparr>vready := Some (ReadyQueue G_scheduler (unat (vrprio (view m t)))), vall := Some AllTasks\<rparr>)"
    proof -
      have "view m2 = (view m1)(t := (view m1 t)\<lparr>vall := Some AllTasks\<rparr>)"
        by (auto simp: view_def fun_eq_iff b(7-9) simp del: node_view)
      then show ?thesis using a'(3) by simp
    qed
    show "nodes_of m2 AllTasks = nodes_of m AllTasks @ [AllTaskNode t]"
      using b(5) [OF ia] pl ia i by simp
    show "nodes_of m2 l = nodes_of m l" if "inited m l" "is_wait_list l \<or> plain_list l \<and> l \<noteq> AllTasks" for l
      using b(5) [of l] that a'(8) pl i by auto
    show "nlist (nodes m2 x) = nlist (nodes m x)" if "\<not> task_node x" for x
      using a'(4) that b(7) [of x] by (auto simp: same_others_def)
    show "nowner (nodes m2 x) = nowner (nodes m x)" for x using a'(4) b(8) by (simp add: same_others_def)
    show "timeout_lists m2 = timeout_lists m" using b(10) a'(6) by (simp add: same_timeouts_def)
    show "ready_seq m2 G_scheduler = insert_fifo (npriority m) (ReadyNode t) (ready_seq m G_scheduler)"
      using b(4) a'(7) by simp
    show "same_timeouts m m2" by (rule same_timeouts_trans [OF a'(6) b(3)])
  qed
qed

lemma kpre_register:
  assumes "kpre k" and "may_register k t" and "t = g_idle_task \<longrightarrow> tbase_priority (tcb k t) = HR_CFG_IDLE_PRIORITY"
    and "mem_ok m" and "inited m = inited (kmem k)"
    and "view m = (view (kmem k))(t := (view (kmem k) t)
      \<lparr>vready := Some (ReadyQueue G_scheduler (unat (vrprio (view (kmem k) t)))), vall := Some AllTasks\<rparr>)"
    and "nodes_of m AllTasks = nodes_of (kmem k) AllTasks @ [AllTaskNode t]"
    and "\<And>u. inited (kmem k) (OwnedMutexes u) \<Longrightarrow> nodes_of m (OwnedMutexes u) = nodes_of (kmem k) (OwnedMutexes u)"
    and "\<And>x. \<not> task_node x \<Longrightarrow> nlist (nodes m x) = nlist (nodes (kmem k) x)"
    and "\<And>x. nowner (nodes m x) = nowner (nodes (kmem k) x)" and "timeout_lists m = timeout_lists (kmem k)"
  shows "kpre (k\<lparr>kmem := m, tcb := (tcb k)(t := register_tcb (tcb k t)), g_task_count := g_task_count k + 1\<rparr>)"
proof -
  note i = assms(1) [unfolded kpre_def]
  have mg: "tmagic (tcb k t) = HR_CFG_TASK_MAGIC" "tstate (tcb k t) = HR_TASK_STATE_CREATED"
    using assms(2) by (simp_all add: may_register_def)
  have cr: "created_ok (view (kmem k) t) (tcb k t)" by (rule created_unregistered [OF assms(1) mg])
  have eff: "teffective_priority (tcb k t) < 7 \<or> t = 0"
  proof -
    have "teffective_priority (tcb k t) < 8" using cr mg by (simp add: created_ok_def)
    moreover have "teffective_priority (tcb k t) \<noteq> 7 \<or> t = 0" using assms(2) by (auto simp: may_register_def)
    ultimately show ?thesis by unat_arith
  qed
  have "task_ok {} {} (view m t) (register_tcb (tcb k t)) t"
    using cr mg eff assms(3) unfolding assms(6)
    by (auto simp: task_ok_def registered_ok_def created_ok_def register_tcb_def prio_ok_def task_state_ok_def in_ready_def
        timeout_armed_def no_wait_def)
  then have "tasks_ok {} {} m ((tcb k)(t := register_tcb (tcb k t)))"
    using i unfolding tasks_ok_def assms(6) by simp
  moreover have "owners_ok m ((tcb k)(t := register_tcb (tcb k t))) (mcb k)"
    using kpreD(3) [OF assms(1)] assms(5,8,9,10) unfolding owners_ok_def assms(6) by (auto simp: register_tcb_def mg)
  moreover have "current_ok (k\<lparr>kmem := m, tcb := (tcb k)(t := register_tcb (tcb k t)), g_task_count := g_task_count k + 1\<rparr>)"
    using kpreD(4) [OF assms(1)] assms(2) unfolding current_ok_def assms(6)
    by (auto simp: register_tcb_def may_register_def)
  ultimately show ?thesis using i assms(4,7,11) by (simp add: kpre_def)
qed

lemma register_refused:
  assumes "kpre k" and "\<not> may_register k t"
  shows "\<exists>st. st \<noteq> HR_OK \<and> hr_kernel_register_task (Some t) k = Some (st, k)"
  using assms(2) by (auto simp: hr_kernel_register_task_def may_register_def)

lemma register_ok:
  assumes "kpre k" and "may_register k t" and "t = g_idle_task \<longrightarrow> tbase_priority (tcb k t) = HR_CFG_IDLE_PRIORITY"
  obtains m k' where "hr_kernel_register_task (Some t) k = Some (HR_OK, k')" and "kpre k'" and "registered k' t"
    and "\<And>u. registered k u \<Longrightarrow> registered k' u"
    and "k' = k\<lparr>kmem := m, tcb := (tcb k)(t := register_tcb (tcb k t)), g_task_count := g_task_count k + 1\<rparr>"
    and "ready_seq m G_scheduler = insert_fifo (npriority (kmem k)) (ReadyNode t) (ready_seq (kmem k) G_scheduler)"
    and "\<And>l. inited (kmem k) l \<Longrightarrow> is_wait_list l \<or> plain_list l \<and> l \<noteq> AllTasks \<Longrightarrow> nodes_of m l = nodes_of (kmem k) l"
    and "inited m = inited (kmem k)" and "same_timeouts (kmem k) m"
    and "\<And>x. \<not> task_node x \<Longrightarrow> nlist (nodes m x) = nlist (nodes (kmem k) x)"
    and "\<And>x. nowner (nodes m x) = nowner (nodes (kmem k) x)"
proof -
  have mg: "tmagic (tcb k t) = HR_CFG_TASK_MAGIC" "tstate (tcb k t) = HR_TASK_STATE_CREATED"
    using assms(2) by (simp_all add: may_register_def)
  note c = created_unregistered [OF assms(1) mg]
  have v: "vready (view (kmem k) t) = None" "vall (view (kmem k) t) = None" "vrprio (view (kmem k) t) < 8"
    using c mg by (auto simp: created_ok_def)
  show thesis
  proof (rule register_mem [OF kpreD(1) [OF assms(1)] v])
    fix m1 m2
    assume a: "hr_scheduler_add_ready (Some G_scheduler) (Some (ReadyNode t)) (kmem k) = Some (HR_OK, m1)"
      "hr_list_push_back (Some AllTasks) (Some (AllTaskNode t)) m1 = Some (HR_OK, m2)"
      and m: "mem_ok m2" "inited m2 = inited (kmem k)"
        "view m2 = (view (kmem k))(t := (view (kmem k) t)
          \<lparr>vready := Some (ReadyQueue G_scheduler (unat (vrprio (view (kmem k) t)))), vall := Some AllTasks\<rparr>)"
        "nodes_of m2 AllTasks = nodes_of (kmem k) AllTasks @ [AllTaskNode t]"
      and n: "\<And>l. inited (kmem k) l \<Longrightarrow> is_wait_list l \<or> plain_list l \<and> l \<noteq> AllTasks \<Longrightarrow> nodes_of m2 l = nodes_of (kmem k) l"
      and r: "\<And>x. \<not> task_node x \<Longrightarrow> nlist (nodes m2 x) = nlist (nodes (kmem k) x)"
        "\<And>x. nowner (nodes m2 x) = nowner (nodes (kmem k) x)" "timeout_lists m2 = timeout_lists (kmem k)"
      and s: "ready_seq m2 G_scheduler = insert_fifo (npriority (kmem k)) (ReadyNode t) (ready_seq (kmem k) G_scheduler)"
        "same_timeouts (kmem k) m2"
    let ?k = "k\<lparr>kmem := m2, tcb := (tcb k)(t := register_tcb (tcb k t)), g_task_count := g_task_count k + 1\<rparr>"
    have "kpre ?k" by (rule kpre_register [OF assms m _ r]) (simp add: n)
    moreover have "hr_kernel_register_task (Some t) k = Some (HR_OK, ?k)"
      using assms(2) v a mg
      by (simp add: hr_kernel_register_task_def may_register_def on_mem_def transition_eq hr_kernel_reload_time_slice_def
          Let_def upd_tcb_def register_tcb_def)
    ultimately show thesis using m(3) n s r m(2) by (intro that [of ?k m2]) auto
  qed
qed

section \<open>Initialising the kernel\<close>

definition init_mem :: mem where
  "init_mem = hr_timeout_list_init (Some G_timeout_list) 0
     (hr_list_init (Some AllTasks) (hr_scheduler_init (Some G_scheduler) zero_mem))"

lemma zero_mem_free [simp]: "nlist (nodes zero_mem x) = None" "\<not> inited zero_mem l"
  by (simp_all add: zero_mem_def zero_node_def inited_def)

definition roots_ok :: "mem \<Rightarrow> bool" where
  "roots_ok m \<longleftrightarrow> (\<forall>j. nlist (nodes m (Root j)) = None \<or> nlist (nodes m (Root j)) = Some j)"

lemma roots_ok_init:
  "roots_ok m \<Longrightarrow> roots_ok (hr_list_init (Some l) m)"
  "roots_ok m \<Longrightarrow> roots_ok (fold (\<lambda>i. hr_list_init (Some (f i))) is m)"
proof -
  show *: "roots_ok m \<Longrightarrow> roots_ok (hr_list_init (Some l) m)" for m l by (auto simp: roots_ok_def)
  show "roots_ok m \<Longrightarrow> roots_ok (fold (\<lambda>i. hr_list_init (Some (f i))) is m)"
    by (induction "is" arbitrary: m) (simp_all add: *)
qed

lemma roots_ok_init_mem: "roots_ok init_mem"
proof -
  have "roots_ok zero_mem" by (simp add: roots_ok_def)
  moreover have "roots_ok (set_rset r x m) = roots_ok m" "roots_ok (set_tlist t y m) = roots_ok m" for r x t y m
    by (simp_all add: roots_ok_def set_rset_def set_tlist_def)
  ultimately show ?thesis
    by (simp add: init_mem_def hr_timeout_list_init_def hr_scheduler_init_def hr_ready_set_init_def Let_def roots_ok_init
        del: upt.simps)
qed

lemma init_mem_ok:
  "mem_ok init_mem" "inited init_mem l \<longleftrightarrow> (\<exists>i < 8. l = ReadyQueue G_scheduler i) \<or> l = AllTasks \<or>
     l = TimeoutList G_timeout_list 0 \<or> l = TimeoutList G_timeout_list 1"
  "\<not> is_root x \<Longrightarrow> nodes init_mem x = zero_node" "nodes_of init_mem AllTasks = []"
  "last_tick init_mem G_timeout_list = 0" "ready_seq init_mem G_scheduler = []"
  "timeout_lists init_mem G_timer_timeouts = timeout_lists zero_mem G_timer_timeouts" "npriority init_mem = (\<lambda>_. 0)"
proof -
  define m1 where "m1 = hr_ready_set_init (Some G_scheduler) zero_mem"
  define m2 where "m2 = hr_list_init (Some AllTasks) m1"
  have im: "init_mem = hr_timeout_list_init (Some G_timeout_list) 0 m2"
    by (simp add: init_mem_def m1_def m2_def hr_scheduler_init_def)
  note a = ready_init_wf [OF wf_zero_mem, of G_scheduler, folded m1_def, simplified]
  have ia: "\<not> inited m1 AllTasks" using a(4) by simp
  have b: "wf_mem m2" "\<And>j. inited m1 j \<or> j = AllTasks \<Longrightarrow> nodes_of m2 j = (if j = AllTasks then [] else nodes_of m1 j)"
    using wf_list_init [OF a(1), of AllTasks] ia by (simp_all add: m2_def)
  have ib: "inited m2 l \<longleftrightarrow> inited m1 l \<or> l = AllTasks" for l by (auto simp: m2_def inited_def)
  have ic: "inited m2 (TimeoutList G_timeout_list i) \<Longrightarrow> nodes_of m2 (TimeoutList G_timeout_list i) = []" for i
    using ib a(4) by simp
  note c = timeout_init_wf [OF b(1), where t = G_timeout_list and start = 0, OF ic, folded im]
  show i: "inited init_mem l \<longleftrightarrow> (\<exists>i < 8. l = ReadyQueue G_scheduler i) \<or> l = AllTasks \<or>
      l = TimeoutList G_timeout_list 0 \<or> l = TimeoutList G_timeout_list 1" for l
    using c(5) [of l] ib a(4) [of l] by auto
  show n: "\<not> is_root x \<Longrightarrow> nodes init_mem x = zero_node" for x using c(11) a(9) by (auto simp: m2_def zero_mem_def)
  have q: "nodes_of init_mem l = nodes_of m2 l" if "inited m2 l" "\<And>i. l \<noteq> TimeoutList G_timeout_list i" for l
    using c(6) that by simp
  have rq: "ready_queue init_mem G_scheduler j = ready_queue m1 G_scheduler j" if "j < 8" for j
    using q [of "ReadyQueue G_scheduler j"] b(2) [of "ReadyQueue G_scheduler j"] ib a(4) that by auto
  have ro: "ready_ok init_mem G_scheduler"
    by (rule ready_ok_frame [OF a(2)]) (use c(5,7,9) ib rq in \<open>auto simp: m2_def\<close>)
  show at: "nodes_of init_mem AllTasks = []" using q [of AllTasks] ib b(2) by simp
  show "last_tick init_mem G_timeout_list = 0" by (rule c)
  show "ready_seq init_mem G_scheduler = []"
    using a(3) rq by (simp add: ready_seq_Nil)
  show tl: "timeout_lists init_mem G_timer_timeouts = timeout_lists zero_mem G_timer_timeouts"
    using c(10) a(8) by (simp add: m2_def)
  show "npriority init_mem = (\<lambda>_. 0)" using c(7) a(6) by (simp add: m2_def zero_mem_def)
  have "node_fits x l" if "nlist (nodes init_mem x) = Some l" for x l
  proof (cases "is_root x")
    case False
    then show ?thesis using n that by (simp add: zero_node_def)
  next
    case True
    then obtain j where x: "x = Root j" by (cases x) auto
    have "nlist (nodes init_mem (Root j)) = None \<or> nlist (nodes init_mem (Root j)) = Some j"
      using roots_ok_init_mem unfolding roots_ok_def by blast
    then show ?thesis using that x by auto
  qed
  moreover have "timeout_ok init_mem a" if "tcurrent (timeout_lists init_mem a) \<noteq> None" for a
    using c(2) that tl by (cases a) (auto simp: zero_mem_def)
  moreover have "\<not> (is_wait_list l \<and> inited init_mem l)" for l using i [of l] by auto
  ultimately show "mem_ok init_mem"
    using c(1) ro i [of AllTasks] timeout_okD(1) [OF c(2)] unfolding mem_ok_def by auto
qed

lemma init_kpre:
  "kpre ((reset_kernel x)\<lparr>kmem := init_mem, g_kernel_state := HR_KERNEL_STATE_INITIALIZED\<rparr>)"
proof -
  note i = init_mem_ok
  have v: "view init_mem t = \<lparr>vready = None, vwait = None, vtimeout = None, vall = None, vowned = False, vrprio = 0, vwprio = 0\<rparr>" for t
    by (simp add: view_def i(3,8) zero_node_def del: node_view)
  have "tasks_ok {} {} init_mem (\<lambda>_. zero_tcb)"
    by (simp add: tasks_ok_def task_ok_def v created_ok_def zero_tcb_def)
  moreover have "owners_ok init_mem (\<lambda>_. zero_tcb) (\<lambda>_. zero_mcb)"
    by (simp add: owners_ok_def i(2,3) zero_tcb_def zero_mcb_def zero_node_def)
  ultimately show ?thesis
    using i(1,4,5) by (simp add: kpre_def reset_kernel_def current_ok_def zero_tcb_def)
qed

lemma kernel_init_ok:
  assumes "unat idle_stack mod 4 = 0" and "unat idle_stack + 512 < 2 ^ 32"
  obtains k where "hr_kernel_init idle_entry idle_stack (reset_kernel x) = Some (HR_OK, k)" and "kinv k"
    and "g_kernel_state k = HR_KERNEL_STATE_INITIALIZED" and "g_task_count k = 1"
    and "tstate (tcb k g_idle_task) = HR_TASK_STATE_READY" and "\<And>t. t \<noteq> g_idle_task \<Longrightarrow> tcb k t = zero_tcb"
    and "scb k = (\<lambda>_. zero_scb)" and "qcb k = (\<lambda>_. zero_qcb)" and "mcb k = (\<lambda>_. zero_mcb)" and "tmcb k = (\<lambda>_. zero_tmcb)"
    and "\<not> g_timer_system_initialized k" and "primask k = 0" and "\<not> inside_isr k" and "\<not> pendsv k"
    and "inited (kmem k) l \<longleftrightarrow> l = OwnedMutexes g_idle_task \<or> inited init_mem l"
    and "\<not> task_node n \<Longrightarrow> \<not> is_root n \<Longrightarrow> nlist (nodes (kmem k) n) = None"
    and "tcurrent (timeout_lists (kmem k) G_timer_timeouts) = None"
    and "teffective_priority (tcb k g_idle_task) = HR_CFG_IDLE_PRIORITY"
proof -
  define k0 where "k0 = (reset_kernel x)\<lparr>kmem := init_mem, g_kernel_state := HR_KERNEL_STATE_INITIALIZED\<rparr>"
  have k0: "kpre k0" unfolding k0_def by (rule init_kpre)
  have s: "17 \<le> (128 :: nat)" "unat idle_stack + 4 * 128 < 4294967296" using assms(2) by simp_all
  obtain sp sm where p: "hr_port_initialize_stack (Some idle_stack) 128 idle_entry 0 (exit_handler k0)
      (hr_task_fill_stack idle_stack 128 (stack_mem k0)) = (Some sp, sm)"
    unfolding hr_port_initialize_stack_def
    by (rule initialize_stack_frame [OF assms(1) s(2,1), of idle_entry 0 "exit_handler k0"
          "hr_task_fill_stack idle_stack 128 (stack_mem k0)"])
  define k1 where "k1 = k0\<lparr>kmem := task_init_nodes 0 7 (zero_task_mem 0 (kmem k0)),
      tcb := (tcb k0)(0 := new_tcb ''idle'' idle_entry 0 idle_stack 128 7 sp), stack_mem := sm\<rparr>"
  have mg: "tmagic (tcb k0 0) \<noteq> HR_CFG_TASK_MAGIC" by (simp add: k0_def reset_kernel_def zero_tcb_def)
  have c: "hr_task_create_static (Some 0) (Some ''idle'') (Some idle_entry) 0 (Some idle_stack) 128 7 k0 = (HR_OK, k1)"
    unfolding k1_def by (subst create_eq [OF mg _ _ p]) simp_all
  note k1 = create_ok [OF k0 c]
  have may: "may_register k1 0" "0 = g_idle_task \<longrightarrow> tbase_priority (tcb k1 0) = HR_CFG_IDLE_PRIORITY"
    using k1(4) by (simp_all add: may_register_def) (simp add: k1_def k0_def reset_kernel_def)
  have su: "task_set_up 0 init_mem (kmem k1)"
    using init_set_up(1) [OF kpreD(1) [OF k0] invalid_task_free(1) [OF k0 mg], of 7] by (simp add: k1_def k0_def)
  show thesis
  proof (rule register_ok [OF k1(1) may])
    fix m k' assume r: "hr_kernel_register_task (Some 0) k1 = Some (HR_OK, k')" "kpre k'" "registered k' 0"
      and k': "k' = k1\<lparr>kmem := m, tcb := (tcb k1)(0 := register_tcb (tcb k1 0)), g_task_count := g_task_count k1 + 1\<rparr>"
      and m: "inited m = inited (kmem k1)" "same_timeouts (kmem k1) m"
      and n: "\<And>x. \<not> task_node x \<Longrightarrow> nlist (nodes m x) = nlist (nodes (kmem k1) x)"
    have e: "hr_kernel_init idle_entry idle_stack (reset_kernel x) = Some (HR_OK, k')"
      using r(1) c k1(4)
      by (simp add: hr_kernel_init_def Let_def hr_task_start_def reset_kernel_def k0_def init_mem_def)
    have i: "inited (kmem k') l \<longleftrightarrow> l = OwnedMutexes 0 \<or> inited init_mem l"
      using created_mem_ok(2) [OF kpreD(1) [OF k0] invalid_task_free(1) [OF k0 mg], where p = 7] m(1)
      by (auto simp: k' k1_def k0_def)
    have nl: "nlist (nodes (kmem k') x) = None" if "\<not> task_node x" "\<not> is_root x" for x
      using su that n init_mem_ok(3) [of x] by (simp add: k' task_set_up_def zero_node_def)
    have tc: "tcurrent (timeout_lists (kmem k') G_timer_timeouts) = None"
      using m(2) su init_mem_ok(7) by (simp add: k' same_timeouts_def task_set_up_def zero_mem_def)
    show thesis
      by (rule that [OF e]) (use r(2,3) i nl tc k1(4) in \<open>auto simp: kinv_kpre k' k1_def k0_def reset_kernel_def register_tcb_def\<close>)
  qed
qed

end
