(* ===== verification/HR_Objects.thy ===== *)
theory HR_Objects
  imports HR_Boot
begin

text \<open>
  The invariants of semaphores, queues, mutexes and timers, and what a kernel operation must leave alone
  to keep them: the control blocks, the timer lists, and no new waiter in a wait list.
\<close>

lemma inc_nonzero: "(c :: 32 word) \<noteq> 0xFFFFFFFF \<Longrightarrow> c + 1 \<noteq> 0"
  using eq_neg_iff_add_eq_0 [of c 1] by auto

section \<open>Invariants\<close>

definition sem_inv :: "hr_semaphore_control_block \<Rightarrow> node_addr list \<Rightarrow> bool" where
  "sem_inv c ws \<longleftrightarrow> 0 < smax_count c \<and> scount c \<le> smax_count c \<and> (0 < scount c \<longrightarrow> ws = [])"

definition sems_ok :: "hr_kernel \<Rightarrow> bool" where
  "sems_ok k \<longleftrightarrow>
     (\<forall>s. (inited (kmem k) (SemaphoreWaiters s) \<longleftrightarrow> smagic (scb k s) = HR_CFG_SEMAPHORE_MAGIC) \<and>
          (smagic (scb k s) = HR_CFG_SEMAPHORE_MAGIC \<longrightarrow> sem_inv (scb k s) (nodes_of (kmem k) (SemaphoreWaiters s))))"

definition queue_inv :: "hr_queue_control_block \<Rightarrow> node_addr list \<Rightarrow> node_addr list \<Rightarrow> bool" where
  "queue_inv c snd_ws rcv_ws \<longleftrightarrow>
     qstorage c \<noteq> None \<and> 0 < qitem_size c \<and> 0 < qcapacity c \<and> qitem_size c * qcapacity c \<le> SIZE_MAX \<and>
     qcount c \<le> qcapacity c \<and>
     qhead c < qcapacity c \<and> qtail c = (qhead c + qcount c) mod qcapacity c \<and>
     (snd_ws \<noteq> [] \<longrightarrow> qcount c = qcapacity c) \<and> (rcv_ws \<noteq> [] \<longrightarrow> qcount c = 0)"

definition queues_ok :: "hr_kernel \<Rightarrow> bool" where
  "queues_ok k \<longleftrightarrow>
     (\<forall>q. (inited (kmem k) (SendWaiters q) \<longleftrightarrow> qmagic (qcb k q) = HR_CFG_QUEUE_MAGIC) \<and>
          (inited (kmem k) (ReceiveWaiters q) \<longleftrightarrow> qmagic (qcb k q) = HR_CFG_QUEUE_MAGIC) \<and>
          (qmagic (qcb k q) = HR_CFG_QUEUE_MAGIC \<longrightarrow>
             queue_inv (qcb k q) (nodes_of (kmem k) (SendWaiters q)) (nodes_of (kmem k) (ReceiveWaiters q))))"

text \<open>A mutex that tasks wait for has an owner.\<close>

definition mutexes_ok :: "hr_kernel \<Rightarrow> bool" where
  "mutexes_ok k \<longleftrightarrow>
     (\<forall>x. mmagic (mcb k x) = HR_CFG_MUTEX_MAGIC \<longrightarrow> mowner (mcb k x) = None \<longrightarrow> nodes_of (kmem k) (MutexWaiters x) = [])"

text \<open>
  A timer is active when its timeout is armed, and pending when a callback is due. While a tick
  handles the expired timers, those in \<open>X\<close> are active with their timeout out of the list;
  \<open>now\<close> is the tick the timer list has been advanced to.
\<close>

definition timer_shape :: "hr_timer_control_block \<Rightarrow> mem \<Rightarrow> timer_ptr \<Rightarrow> bool" where
  "timer_shape c m x \<longleftrightarrow>
     tmname c \<noteq> None \<and> tmcallback c \<noteq> None \<and> tmperiod_ticks c \<noteq> 0 \<and> tmperiod_ticks c \<noteq> HR_WAIT_FOREVER \<and>
     nowner (nodes m (TimerNode x)) = Some (Timer_obj x) \<and> nowner (nodes m (PendingNode x)) = Some (Timer_obj x) \<and>
     (tmpending_count c = 0 \<longleftrightarrow> nlist (nodes m (PendingNode x)) = None)"

definition timer_inv :: "hr_timer_control_block \<Rightarrow> mem \<Rightarrow> timer_ptr \<Rightarrow> bool" where
  "timer_inv c m x \<longleftrightarrow>
     (if tmmagic c = HR_CFG_TIMER_MAGIC
      then timer_shape c m x \<and> (tmactive c \<longleftrightarrow> nlist (nodes m (TimerNode x)) \<noteq> None) \<and>
           nlist (nodes m (TimerNode x)) \<noteq> Some ExpiredTimers
      else nlist (nodes m (TimerNode x)) = None \<and> nlist (nodes m (PendingNode x)) = None)"

definition timers_okx :: "timer_ptr set \<Rightarrow> hr_tick \<Rightarrow> hr_kernel \<Rightarrow> bool" where
  "timers_okx X now k \<longleftrightarrow>
     (\<forall>x. if x \<in> X then tmmagic (tmcb k x) = HR_CFG_TIMER_MAGIC \<and> timer_shape (tmcb k x) (kmem k) x \<and> tmactive (tmcb k x)
          else timer_inv (tmcb k x) (kmem k) x) \<and>
     (if g_timer_system_initialized k
      then tcurrent (timeout_lists (kmem k) G_timer_timeouts) \<noteq> None \<and> inited (kmem k) PendingTimers \<and>
           last_tick (kmem k) G_timer_timeouts = now \<and> smagic (scb k g_timer_signal) = HR_CFG_SEMAPHORE_MAGIC
      else \<forall>x. tmmagic (tmcb k x) \<noteq> HR_CFG_TIMER_MAGIC)"

definition timers_ok :: "hr_kernel \<Rightarrow> bool" where
  "timers_ok k \<longleftrightarrow> timers_okx {} (g_kernel_tick k) k"

definition kernel_inv :: "hr_kernel \<Rightarrow> bool" where
  "kernel_inv k \<longleftrightarrow> kinv k \<and> sems_ok k \<and> queues_ok k \<and> mutexes_ok k \<and> timers_ok k"

section \<open>Frames\<close>

definition fewer_waiters :: "(list_addr \<Rightarrow> bool) \<Rightarrow> list_addr set \<Rightarrow> mem \<Rightarrow> mem \<Rightarrow> bool" where
  "fewer_waiters P A m m' \<longleftrightarrow>
     (\<forall>l. P l \<longrightarrow> (inited m' l \<longleftrightarrow> inited m l) \<and> (inited m l \<longrightarrow> l \<notin> A \<longrightarrow> set (nodes_of m' l) \<subseteq> set (nodes_of m l)))"

fun sem_list :: "list_addr \<Rightarrow> bool" where
  "sem_list (SemaphoreWaiters s) = True"
| "sem_list _ = False"

fun queue_list :: "list_addr \<Rightarrow> bool" where
  "queue_list (SendWaiters q) = True"
| "queue_list (ReceiveWaiters q) = True"
| "queue_list _ = False"

fun mutex_list :: "list_addr \<Rightarrow> bool" where
  "mutex_list (MutexWaiters x) = True"
| "mutex_list _ = False"

fun timer_node :: "node_addr \<Rightarrow> bool" where
  "timer_node (TimerNode x) = True"
| "timer_node (PendingNode x) = True"
| "timer_node _ = False"

definition sems_same :: "list_addr set \<Rightarrow> hr_kernel \<Rightarrow> hr_kernel \<Rightarrow> bool" where
  "sems_same A k k' \<longleftrightarrow> scb k' = scb k \<and> fewer_waiters sem_list A (kmem k) (kmem k')"

definition queues_same :: "list_addr set \<Rightarrow> hr_kernel \<Rightarrow> hr_kernel \<Rightarrow> bool" where
  "queues_same A k k' \<longleftrightarrow> qcb k' = qcb k \<and> fewer_waiters queue_list A (kmem k) (kmem k')"

definition mutexes_same :: "list_addr set \<Rightarrow> hr_kernel \<Rightarrow> hr_kernel \<Rightarrow> bool" where
  "mutexes_same A k k' \<longleftrightarrow> mcb k' = mcb k \<and> fewer_waiters mutex_list A (kmem k) (kmem k')"

definition timers_same :: "hr_kernel \<Rightarrow> hr_kernel \<Rightarrow> bool" where
  "timers_same k k' \<longleftrightarrow>
     tmcb k' = tmcb k \<and> g_timer_system_initialized k' = g_timer_system_initialized k \<and> g_kernel_tick k' = g_kernel_tick k \<and>
     (\<forall>x. timer_node x \<longrightarrow> nlist (nodes (kmem k') x) = nlist (nodes (kmem k) x) \<and>
        nowner (nodes (kmem k') x) = nowner (nodes (kmem k) x) \<and> nwake_tick (kmem k') x = nwake_tick (kmem k) x) \<and>
     tcurrent (timeout_lists (kmem k') G_timer_timeouts) = tcurrent (timeout_lists (kmem k) G_timer_timeouts) \<and>
     last_tick (kmem k') G_timer_timeouts = last_tick (kmem k) G_timer_timeouts \<and>
     (inited (kmem k') PendingTimers \<longleftrightarrow> inited (kmem k) PendingTimers) \<and>
     (inited (kmem k) PendingTimers \<longrightarrow> nodes_of (kmem k') PendingTimers = nodes_of (kmem k) PendingTimers)"

text \<open>An operation of the kernel core that is calm but for the lists in \<open>A\<close>.\<close>

definition calm :: "list_addr set \<Rightarrow> hr_kernel \<Rightarrow> hr_kernel \<Rightarrow> bool" where
  "calm A k k' \<longleftrightarrow> sems_same A k k' \<and> queues_same A k k' \<and> mutexes_same A k k' \<and> timers_same k k'"

lemma fewer_trans: "fewer_waiters P A m m1 \<Longrightarrow> fewer_waiters P A m1 m2 \<Longrightarrow> fewer_waiters P A m m2"
  unfolding fewer_waiters_def by blast

lemma fewer_refl [simp]: "fewer_waiters P A m m"
  by (simp add: fewer_waiters_def)

lemma calm_refl [simp]: "calm A k k"
  by (simp add: calm_def sems_same_def queues_same_def mutexes_same_def timers_same_def)

lemma calm_trans:
  assumes "calm A k k1" and "calm A k1 k2"
  shows "calm A k k2"
  using assms fewer_trans unfolding calm_def sems_same_def queues_same_def mutexes_same_def timers_same_def by (metis (no_types, lifting))

lemma calm_mono: "calm A k k' \<Longrightarrow> A \<subseteq> B \<Longrightarrow> calm B k k'"
  unfolding calm_def sems_same_def queues_same_def mutexes_same_def fewer_waiters_def by blast

lemma sems_ok_calm:
  assumes "sems_ok k" and "sems_same {} k k'"
  shows "sems_ok k'"
proof -
  have "nodes_of (kmem k') (SemaphoreWaiters s) = []"
    if "inited (kmem k) (SemaphoreWaiters s)" "nodes_of (kmem k) (SemaphoreWaiters s) = []" for s
    using assms(2) that by (force simp: sems_same_def fewer_waiters_def)
  moreover have "inited (kmem k') (SemaphoreWaiters s) \<longleftrightarrow> inited (kmem k) (SemaphoreWaiters s)" for s
    using assms(2) by (simp add: sems_same_def fewer_waiters_def)
  ultimately show ?thesis
    using assms unfolding sems_ok_def sem_inv_def sems_same_def by auto
qed

lemma queues_ok_calm:
  assumes "queues_ok k" and "queues_same {} k k'"
  shows "queues_ok k'"
proof -
  have "nodes_of (kmem k') l = []" if "queue_list l" "inited (kmem k) l" "nodes_of (kmem k) l = []" for l
    using assms(2) that by (force simp: queues_same_def fewer_waiters_def)
  moreover have "inited (kmem k') l \<longleftrightarrow> inited (kmem k) l" if "queue_list l" for l
    using assms(2) that by (simp add: queues_same_def fewer_waiters_def)
  ultimately show ?thesis
    using assms unfolding queues_ok_def queue_inv_def queues_same_def
    by (metis (no_types, lifting) queue_list.simps(1,2))
qed

lemma mutexes_ok_calm:
  assumes "mutexes_ok k" and "owners_ok (kmem k) (tcb k) (mcb k)" and "mutexes_same {} k k'"
  shows "mutexes_ok k'"
proof -
  have "nodes_of (kmem k') (MutexWaiters x) = []"
    if "inited (kmem k) (MutexWaiters x)" "nodes_of (kmem k) (MutexWaiters x) = []" for x
    using assms(3) that by (force simp: mutexes_same_def fewer_waiters_def)
  then show ?thesis
    using assms(1,3) owners_okD(2) [OF assms(2)] unfolding mutexes_ok_def mutexes_same_def by auto
qed

lemma timers_okx_calm:
  assumes "timers_okx X now k" and "timers_same k k'" and "smagic (scb k 0) = HR_CFG_SEMAPHORE_MAGIC \<Longrightarrow> smagic (scb k' 0) = HR_CFG_SEMAPHORE_MAGIC"
  shows "timers_okx X now k'"
proof -
  have "timer_shape (tmcb k' x) (kmem k') x = timer_shape (tmcb k x) (kmem k) x"
    "timer_inv (tmcb k' x) (kmem k') x = timer_inv (tmcb k x) (kmem k) x" "tmcb k' x = tmcb k x" for x
    using assms(2) by (simp_all add: timers_same_def timer_inv_def timer_shape_def)
  then show ?thesis using assms unfolding timers_okx_def timers_same_def by simp
qed

lemma timers_ok_calm:
  assumes "timers_ok k" and "timers_same k k'" and "smagic (scb k 0) = HR_CFG_SEMAPHORE_MAGIC \<Longrightarrow> smagic (scb k' 0) = HR_CFG_SEMAPHORE_MAGIC"
  shows "timers_ok k'"
  using timers_okx_calm [of "{}" "g_kernel_tick k" k k'] assms unfolding timers_ok_def by (simp add: timers_same_def)

lemma kernel_inv_calm:
  assumes "kernel_inv k" and "calm {} k k'" and "kinv k'"
  shows "kernel_inv k'"
proof -
  have c: "sems_same {} k k'" "queues_same {} k k'" "timers_same k k'" "scb k' = scb k" "mutexes_same {} k k'"
    using assms(2) by (simp_all add: calm_def sems_same_def)
  have i: "sems_ok k" "queues_ok k" "timers_ok k" "mutexes_ok k" "kinv k" using assms(1) by (simp_all add: kernel_inv_def)
  show ?thesis
    using assms(3) mutexes_ok_calm [OF i(4) kinvD(3) [OF i(5)] c(5)] sems_ok_calm [OF i(1) c(1)] queues_ok_calm [OF i(2) c(2)] timers_ok_calm [OF i(3) c(3)] c(4)
    by (simp add: kernel_inv_def)
qed

section \<open>The operations of the kernel core\<close>

lemma calmI:
  assumes "same_others (kmem k) (kmem k')"
    and "\<And>l. is_wait_list l \<Longrightarrow> inited (kmem k) l \<Longrightarrow> l \<notin> A \<Longrightarrow> set (nodes_of (kmem k') l) \<subseteq> set (nodes_of (kmem k) l)"
    and "scb k' = scb k" and "qcb k' = qcb k" and "mcb k' = mcb k" and "tmcb k' = tmcb k"
    and "g_timer_system_initialized k' = g_timer_system_initialized k" and "g_kernel_tick k' = g_kernel_tick k"
  shows "calm A k k'"
proof -
  have "sem_list l \<Longrightarrow> is_wait_list l" "queue_list l \<Longrightarrow> is_wait_list l" "mutex_list l \<Longrightarrow> is_wait_list l" for l
    by (cases l; simp)+
  then have "fewer_waiters sem_list A (kmem k) (kmem k')" "fewer_waiters queue_list A (kmem k) (kmem k')"
      "fewer_waiters mutex_list A (kmem k) (kmem k')"
    using assms(1,2) by (simp_all add: fewer_waiters_def same_others_def)
  moreover have "timer_node x \<Longrightarrow> \<not> task_node x" for x by (cases x) simp_all
  then have "timers_same k k'" using assms(1,6-8) by (simp add: timers_same_def same_others_def)
  ultimately show ?thesis using assms(3-5) by (simp add: calm_def sems_same_def queues_same_def mutexes_same_def)
qed

lemma calm_repri:
  assumes "repri k k'"
  shows "calm A k k'"
  by (rule calmI [OF repriD(2) [OF assms]]) (use repriD(7) [OF assms] repri_frame [OF assms] in simp_all)

lemma calm_left:
  assumes "left t (kmem k) m"
  shows "calm A k (k\<lparr>kmem := m\<rparr>)"
proof -
  have "same_others (kmem k) (kmem (k\<lparr>kmem := m\<rparr>))" using assms by (simp add: left_def)
  then show ?thesis
    by (rule calmI) (use assms set_remove1_subset in \<open>force simp: left_def\<close>)+
qed

lemma calm_fields:
  "calm A k k' \<Longrightarrow> kmem k'' = kmem k' \<Longrightarrow> scb k'' = scb k' \<Longrightarrow> qcb k'' = qcb k' \<Longrightarrow> mcb k'' = mcb k' \<Longrightarrow> tmcb k'' = tmcb k' \<Longrightarrow>
   g_timer_system_initialized k'' = g_timer_system_initialized k' \<Longrightarrow> g_kernel_tick k'' = g_kernel_tick k' \<Longrightarrow> calm A k k''"
  by (simp add: calm_def sems_same_def queues_same_def mutexes_same_def timers_same_def)

lemma calm_fields_left:
  "calm A k k' \<Longrightarrow> kmem k0 = kmem k \<Longrightarrow> scb k0 = scb k \<Longrightarrow> qcb k0 = qcb k \<Longrightarrow> mcb k0 = mcb k \<Longrightarrow> tmcb k0 = tmcb k \<Longrightarrow>
   g_timer_system_initialized k0 = g_timer_system_initialized k \<Longrightarrow> g_kernel_tick k0 = g_kernel_tick k \<Longrightarrow> calm A k0 k'"
  by (simp add: calm_def sems_same_def queues_same_def mutexes_same_def timers_same_def)

lemma calm_lists_kept:
  assumes "lists_kept (kmem k) m"
  shows "calm A k (k\<lparr>kmem := m\<rparr>)"
proof -
  have "same_others (kmem k) (kmem (k\<lparr>kmem := m\<rparr>))" using assms by (simp add: lists_kept_def)
  then show ?thesis by (rule calmI) (use assms in \<open>simp_all add: lists_kept_def\<close>)
qed

lemma wake_lists_kept:
  assumes "kinvx {t} X k" and "registered k t"
  shows "lists_kept (kmem k) (kmem (wake t result k))"
    and "vwait (view (kmem (wake t result k)) u) = vwait (view (kmem k) u)"
    and "vtimeout (view (kmem (wake t result k)) u) = vtimeout (view (kmem k) u)"
proof -
  note r = registeredD [OF assms]
  have p: "vrprio (view (kmem k) t) < 8"
    using r(4) by (auto simp: prio_ok_def word_less_nat_alt word_le_nat_alt split: if_splits)
  have n: "nlist (nodes (kmem k) (ReadyNode t)) = None" "npriority (kmem k) (ReadyNode t) < 8"
    using r(6) p by (simp_all add: limbo_def)
  note a = mem_ready_add [OF kinvD(1) [OF assms(1)] n]
  show "lists_kept (kmem k) (kmem (wake t result k))" "vwait (view (kmem (wake t result k)) u) = vwait (view (kmem k) u)"
    "vtimeout (view (kmem (wake t result k)) u) = vtimeout (view (kmem k) u)"
    using a(3,4,6,8) by (simp_all add: lists_kept_def wake_mem_def wake_def)
qed

lemma calm_wake:
  assumes "kinvx {t} X k" and "registered k t"
  shows "calm A k (wake t result k)"
  by (rule calm_fields [OF calm_lists_kept [OF wake_lists_kept(1) [OF assms]]]) (simp_all add: wake_def)

lemma calm_make_ready:
  assumes "left t (kmem k) m" and "repri (k\<lparr>kmem := m\<rparr>) k1" and "kinvx {t} X k1" and "registered k1 t"
  shows "calm A k (wake t result k1)"
  by (rule calm_trans [OF calm_trans [OF calm_left [OF assms(1)] calm_repri [OF assms(2)]] calm_wake [OF assms(3,4)]])

lemma calm_entered:
  assumes "entered t wl timeout (kmem k) m"
  shows "calm (set_option wl) k (k\<lparr>kmem := m\<rparr>)"
proof -
  have "same_others (kmem k) (kmem (k\<lparr>kmem := m\<rparr>))" using assms by (simp add: entered_def)
  then show ?thesis by (rule calmI) (use assms in \<open>auto simp: entered_def split: if_splits\<close>)
qed

lemma calm_run:
  assumes "same_but_run k k'"
  shows "calm A k k'"
  by (rule calmI) (use assms in \<open>simp_all add: same_but_run_def same_objects_def\<close>)

lemma calm_created:
  assumes "created t k k'"
  shows "calm A k k'"
proof (cases "k' = k")
  case False
  then have s: "task_set_up t (kmem k) (kmem k')" "same_objects k k'" using assms by (auto simp: created_def)
  have i: "inited (kmem k') l \<longleftrightarrow> inited (kmem k) l" "inited (kmem k) l \<Longrightarrow> nodes_of (kmem k') l = nodes_of (kmem k) l"
    if "l \<noteq> OwnedMutexes t" for l
    using s(1) that unfolding task_set_up_def by blast+
  have "sem_list l \<Longrightarrow> l \<noteq> OwnedMutexes t" "queue_list l \<Longrightarrow> l \<noteq> OwnedMutexes t" "mutex_list l \<Longrightarrow> l \<noteq> OwnedMutexes t" for l by auto
  then have "fewer_waiters sem_list A (kmem k) (kmem k')" "fewer_waiters queue_list A (kmem k) (kmem k')"
      "fewer_waiters mutex_list A (kmem k) (kmem k')"
    using i by (simp_all add: fewer_waiters_def)
  moreover have "nodes (kmem k') x = nodes (kmem k) x \<and> nwake_tick (kmem k') x = nwake_tick (kmem k) x" if "timer_node x" for x
    using s(1) that unfolding task_set_up_def by (cases x) auto
  ultimately show ?thesis
    using s i [of PendingTimers]
    by (simp add: calm_def sems_same_def queues_same_def mutexes_same_def timers_same_def same_objects_def task_set_up_def)
qed simp

lemma calm_registered:
  assumes "\<And>l. inited (kmem k) l \<Longrightarrow> is_wait_list l \<or> plain_list l \<and> l \<noteq> AllTasks \<Longrightarrow> nodes_of m l = nodes_of (kmem k) l"
    and "inited m = inited (kmem k)" and "same_timeouts (kmem k) m"
    and "\<And>x. \<not> task_node x \<Longrightarrow> nlist (nodes m x) = nlist (nodes (kmem k) x)"
    and "\<And>x. nowner (nodes m x) = nowner (nodes (kmem k) x)"
  shows "calm A k (k\<lparr>kmem := m\<rparr>)"
proof -
  have "sem_list l \<Longrightarrow> is_wait_list l" "queue_list l \<Longrightarrow> is_wait_list l" "mutex_list l \<Longrightarrow> is_wait_list l" for l
    by (cases l; simp)+
  then have "fewer_waiters sem_list A (kmem k) m" "fewer_waiters queue_list A (kmem k) m" "fewer_waiters mutex_list A (kmem k) m"
    using assms(1,2) by (simp_all add: fewer_waiters_def)
  moreover have "timer_node x \<Longrightarrow> \<not> task_node x" for x by (cases x) simp_all
  ultimately show ?thesis
    using assms by (simp add: calm_def sems_same_def queues_same_def mutexes_same_def timers_same_def same_timeouts_def)
qed

text \<open>The wait lists once a waiter is awake.\<close>

lemma wake_waiters:
  assumes "kinvx {t} X k" and "registered k t" and "is_wait_list l" and "inited (kmem k) l"
  shows "nodes_of (kmem (wake t result k)) l = nodes_of (kmem k) l"
proof (cases "suspended_wait (tcb k t)")
  case False
  note r = registeredD [OF assms(1,2)]
  have p: "vrprio (view (kmem k) t) < 8"
    using r(4) by (auto simp: prio_ok_def word_less_nat_alt word_le_nat_alt split: if_splits)
  have n: "nlist (nodes (kmem k) (ReadyNode t)) = None" "npriority (kmem k) (ReadyNode t) < 8"
    using r(6) p by (simp_all add: limbo_def)
  show ?thesis
    using mem_ready_add(6) [OF kinvD(1) [OF assms(1)] n assms(3,4)] False by (simp add: wake_def wake_mem_def)
qed (simp add: wake_def wake_mem_def)

lemma kernel_invD:
  assumes "kernel_inv k"
  shows "kinv k" and "sems_ok k" and "queues_ok k" and "timers_ok k" and "mutexes_ok k"
  using assms by (simp_all add: kernel_inv_def)

lemma registered_iff:
  assumes "kinv k"
  shows "registered k t \<longleftrightarrow> tstate (tcb k t) \<notin> {HR_TASK_STATE_INVALID, HR_TASK_STATE_CREATED}"
proof
  assume "registered k t"
  from registeredD(5) [OF assms this] show "tstate (tcb k t) \<notin> {HR_TASK_STATE_INVALID, HR_TASK_STATE_CREATED}"
    by (auto simp: task_state_ok_def)
qed (rule active_registered [OF assms])

text \<open>Fields that no invariant depends on.\<close>

lemma kernel_inv_upd [simp]:
  "kernel_inv (k\<lparr>g_switch_reasons := a\<rparr>) = kernel_inv k" "kernel_inv (k\<lparr>primask := b\<rparr>) = kernel_inv k"
  "kernel_inv (k\<lparr>inside_isr := c\<rparr>) = kernel_inv k" "kernel_inv (k\<lparr>pendsv := c\<rparr>) = kernel_inv k"
  "kernel_inv (k\<lparr>bytes := d\<rparr>) = kernel_inv k" "kernel_inv (k\<lparr>stack_mem := e\<rparr>) = kernel_inv k"
  by (simp_all add: kernel_inv_def sems_ok_def queues_ok_def mutexes_ok_def timers_ok_def timers_okx_def)

lemma kernel_inv_port [simp]:
  "kernel_inv (hr_port_request_context_switch k) = kernel_inv k"
  "kernel_inv (hr_port_exit_critical i k) = kernel_inv k"
  "kernel_inv (hr_port_yield_from_isr b k) = kernel_inv k"
  "kernel_inv (hr_kernel_mark_switch_reason r k) = kernel_inv k"
  by (simp_all add: hr_port_request_context_switch_def hr_port_exit_critical_def hr_port_yield_from_isr_def
      hr_kernel_mark_switch_reason_def)

section \<open>Blocking and waking for all components\<close>

text \<open>A task that a step leaves alone.\<close>

definition task_kept :: "task_ptr \<Rightarrow> hr_kernel \<Rightarrow> hr_kernel \<Rightarrow> bool" where
  "task_kept u k k' \<longleftrightarrow>
     tcb k' u = tcb k u \<and> vwait (view (kmem k') u) = vwait (view (kmem k) u) \<and>
     vtimeout (view (kmem k') u) = vtimeout (view (kmem k) u) \<and>
     remaining (kmem k') G_timeout_list (TimeoutNode u) = remaining (kmem k) G_timeout_list (TimeoutNode u)"

lemma unblock_inv:
  assumes "kernel_inv k" and "is_wait_list l" and "inited (kmem k) l" and "nodes_of (kmem k) l = n # ns"
  obtains t k1 where "hr_wait_list_peek (Some l) (kmem k) = Some n" and "n = WaitNode t" and "vwait (view (kmem k) t) = Some l"
    and "hr_kernel_unblock_waiter (Some n) HR_OK woken k =
      Some ((HR_OK, map_option (\<lambda>_. \<not> suspended_wait (tcb k t) \<and> outranks (wake t HR_OK k1) t) woken), wake t HR_OK k1)"
    and "kernel_inv (wake t HR_OK k1)" and "calm {} k (wake t HR_OK k1)"
    and "k1 = k\<lparr>kmem := kmem k1\<rparr>"
    and "\<And>j. is_wait_list j \<Longrightarrow> inited (kmem k) j \<Longrightarrow>
      nodes_of (kmem (wake t HR_OK k1)) j = (if j = l then ns else nodes_of (kmem k) j)"
    and "\<And>u. u \<noteq> t \<Longrightarrow> task_kept u k (wake t HR_OK k1)"
proof (rule unblock_ok [OF kernel_invD(1) [OF assms(1)] assms(2-4), where result = HR_OK])
  fix t m k1 assume p: "hr_wait_list_peek (Some l) (kmem k) = Some n" "n = WaitNode t" "vwait (view (kmem k) t) = Some l"
    and l: "left t (kmem k) m" "repri (k\<lparr>kmem := m\<rparr>) k1"
    and u: "\<And>woken. hr_kernel_unblock_waiter (Some n) HR_OK woken k =
      Some ((HR_OK, map_option (\<lambda>_. \<not> suspended_wait (tcb k t) \<and> outranks (wake t HR_OK k1) t) woken), wake t HR_OK k1)"
    and w: "kinv (wake t HR_OK k1)"
    and e: "twait_cleanup (tcb k t) = None \<or> HR_OK \<noteq> HR_ERROR_TIMEOUT \<Longrightarrow> k1 = k\<lparr>kmem := m\<rparr>"
    and k1: "kinvx {t} {} k1" "registered k1 t"
  have e': "k1 = k\<lparr>kmem := m\<rparr>" by (rule e) simp
  have c: "calm {} k (wake t HR_OK k1)" by (rule calm_make_ready [OF l k1])
  note ok = mem_okD [OF kinvD(1) [OF kernel_invD(1) [OF assms(1)]]]
  have "nodes_of (kmem (wake t HR_OK k1)) j = (if j = l then ns else nodes_of (kmem k) j)"
    if j: "is_wait_list j" "inited (kmem k) j" for j
  proof -
    have i: "inited (kmem k1) j" using j(2) l(1) by (simp add: e' left_def same_others_def)
    have "nodes_of (kmem (wake t HR_OK k1)) j = nodes_of (kmem k1) j" by (rule wake_waiters [OF k1 j(1) i])
    also have "\<dots> = remove1 (WaitNode t) (nodes_of (kmem k) j)" using l(1) j by (simp add: e' left_def)
    also have "\<dots> = (if j = l then ns else nodes_of (kmem k) j)"
      using assms(4) p(2,3) linked_wait [OF kinvD(1) [OF kernel_invD(1) [OF assms(1)]] j(2), of t] by (auto simp: remove1_idem)
    finally show ?thesis .
  qed
  moreover have "task_kept v k (wake t HR_OK k1)" if "v \<noteq> t" for v
  proof -
    note wl = wake_lists_kept [OF k1, of HR_OK]
    have "timeout_ok (kmem k1) G_timeout_list" by (rule mem_okD(4) [OF kinvD(1) [OF k1(1)]])
    then have "remaining (kmem (wake t HR_OK k1)) G_timeout_list = remaining (kmem k1) G_timeout_list"
      using same_timeouts_ok(3) wl(1) by (simp add: lists_kept_def)
    then show ?thesis using that wl(2,3) l(1) by (simp add: task_kept_def e' left_def wake_def)
  qed
  ultimately show thesis
    using p u [of woken] kernel_inv_calm [OF assms(1) c w] c e' by (intro that [of t k1]) simp_all
qed

text \<open>A waiter that was woken, for every operation of a component that hands something over.\<close>

definition woken_tcb :: "hr_task_control_block \<Rightarrow> bool" where
  "woken_tcb c \<longleftrightarrow>
     tstate c = HR_TASK_STATE_READY \<or>
     tstate c = HR_TASK_STATE_SUSPENDED \<and> tsuspended_resume_state c = HR_TASK_STATE_READY"

definition woken_as :: "hr_task_control_block \<Rightarrow> hr_task_control_block \<Rightarrow> bool" where
  "woken_as c c' \<longleftrightarrow> woken_tcb c' \<and> (tstate c' = HR_TASK_STATE_SUSPENDED \<longleftrightarrow> tstate c = HR_TASK_STATE_SUSPENDED)"

lemma wake_woken:
  assumes "blocked (tcb k t)"
  shows "woken_tcb (tcb (wake t result k) t)" and "twait_result (tcb (wake t result k) t) = result"
    and "twait_kind (tcb (wake t result k) t) = HR_TASK_WAIT_NONE" and "woken_as (tcb k t) (tcb (wake t result k) t)"
  using assms by (auto simp: woken_as_def wake_def wake_tcb_def woken_tcb_def clear_wait_def blocked_def suspended_wait_def)

definition woke :: "task_ptr \<Rightarrow> hr_kernel \<Rightarrow> hr_kernel \<Rightarrow> bool" where
  "woke t k k' \<longleftrightarrow>
     woken_as (tcb k t) (tcb k' t) \<and> twait_result (tcb k' t) = HR_OK \<and> (\<forall>u. u \<noteq> t \<longrightarrow> tcb k' u = tcb k u) \<and>
     (\<forall>u. u \<noteq> t \<longrightarrow> task_kept u k k') \<and>
     same_objects k k' \<and> g_current_task k' = g_current_task k \<and> primask k' = primask k"

lemma woke_registered:
  assumes "kinv k" and "kinv k'" and "woke t k k'" and "registered k u"
  shows "registered k' u"
  using assms(3,4) unfolding registered_iff [OF assms(1)] registered_iff [OF assms(2)]
  by (cases "u = t") (auto simp: woke_def woken_as_def woken_tcb_def)

lemma unblock_woke:
  assumes "kernel_inv k" and "is_wait_list l" and "inited (kmem k) l" and "nodes_of (kmem k) l = n # ns"
  obtains t k' where "hr_wait_list_peek (Some l) (kmem k) = Some n" and "n = WaitNode t" and "vwait (view (kmem k) t) = Some l"
    and "hr_kernel_unblock_waiter (Some n) HR_OK woken k =
      Some ((HR_OK, map_option (\<lambda>_. \<not> suspended_wait (tcb k t) \<and> outranks k' t) woken), k')"
    and "kernel_inv k'" and "calm {} k k'" and "woke t k k'"
    and "\<And>j. is_wait_list j \<Longrightarrow> inited (kmem k) j \<Longrightarrow>
      nodes_of (kmem k') j = (if j = l then ns else nodes_of (kmem k) j)"
proof (rule unblock_inv [OF assms, where woken = woken])
  fix t k1 assume p: "hr_wait_list_peek (Some l) (kmem k) = Some n" "n = WaitNode t" "vwait (view (kmem k) t) = Some l"
    and u: "hr_kernel_unblock_waiter (Some n) HR_OK woken k =
      Some ((HR_OK, map_option (\<lambda>_. \<not> suspended_wait (tcb k t) \<and> outranks (wake t HR_OK k1) t) woken), wake t HR_OK k1)"
    and w: "kernel_inv (wake t HR_OK k1)" "calm {} k (wake t HR_OK k1)" and e: "k1 = k\<lparr>kmem := kmem k1\<rparr>"
    and q: "\<And>j. is_wait_list j \<Longrightarrow> inited (kmem k) j \<Longrightarrow>
      nodes_of (kmem (wake t HR_OK k1)) j = (if j = l then ns else nodes_of (kmem k) j)"
    and kept: "\<And>u. u \<noteq> t \<Longrightarrow> task_kept u k (wake t HR_OK k1)"
  have f: "tcb k1 = tcb k" "same_objects k k1" "g_current_task k1 = g_current_task k" "primask k1 = primask k"
    by (subst e, simp add: same_objects_def)+
  have b: "blocked (tcb k1 t)" using waiter_blocked(2) [OF kernel_invD(1) [OF assms(1)] p(3)] f(1) by simp
  have "woke t k (wake t HR_OK k1)"
    using wake_woken [OF b, of HR_OK] f kept unfolding woke_def by (simp add: wake_def same_objects_def)
  then show thesis using p u w q by (intro that [of t "wake t HR_OK k1"]) simp_all
qed

lemma block_inv:
  assumes "kernel_inv k" and "may_block k t" and "wait_request l ob kind buf cleanup" and "inited (kmem k) l" and "timeout \<noteq> 0"
  obtains k' where "hr_kernel_block_current_on_wait_list_ex (Some l) (Some ob) kind buf timeout cleanup k = Some (HR_OK, k')"
    and "kinv k'" and "calm {l} k k'" and "same_objects k k'"
    and "entered t (Some l) timeout (kmem k) (kmem k')"
    and "tcb k' = (tcb k)(t := block_tcb l ob kind buf timeout cleanup (g_kernel_tick k) (tcb k t))"
    and "g_current_task k' = g_current_task k" and "primask k' = primask k"
proof (rule block_ok [OF kernel_invD(1) [OF assms(1)] assms(2-5)])
  fix m k' assume b: "hr_kernel_block_current_on_wait_list_ex (Some l) (Some ob) kind buf timeout cleanup k = Some (HR_OK, k')"
    and k': "k' = hr_kernel_mark_switch_reason HR_SWITCH_REASON_BLOCK
      (k\<lparr>kmem := m, tcb := (tcb k)(t := block_tcb l ob kind buf timeout cleanup (g_kernel_tick k) (tcb k t))\<rparr>)"
    and e: "entered t (Some l) timeout (kmem k) m" and i: "kinv k'"
  have "calm (set_option (Some l)) k k'"
    by (rule calm_fields [OF calm_entered [OF e]]) (simp_all add: k' hr_kernel_mark_switch_reason_def)
  then show thesis
    using b e i by (intro that [of k']) (simp_all add: k' hr_kernel_mark_switch_reason_def same_objects_def)
qed

text \<open>A task may wait where there is nothing to take, or no room to put.\<close>

definition may_wait :: "hr_kernel \<Rightarrow> list_addr \<Rightarrow> bool" where
  "may_wait k l \<longleftrightarrow>
     (\<forall>s. l = SemaphoreWaiters s \<longrightarrow> scount (scb k s) = 0) \<and>
     (\<forall>q. l = SendWaiters q \<longrightarrow> qcount (qcb k q) = qcapacity (qcb k q)) \<and>
     (\<forall>q. l = ReceiveWaiters q \<longrightarrow> qcount (qcb k q) = 0) \<and>
     (\<forall>x. l = MutexWaiters x \<longrightarrow> mowner (mcb k x) \<noteq> None)"

lemma entered_objects:
  assumes "kernel_inv k" and "entered t (Some l) timeout (kmem k) (kmem k')" and "same_objects k k'" and "calm {l} k k'"
    and "may_wait k l" and "kinv k'"
  shows "kernel_inv k'"
proof -
  note i = kernel_invD [OF assms(1)]
  have o: "scb k' = scb k" "qcb k' = qcb k" "mcb k' = mcb k" using assms(3) by (simp_all add: same_objects_def)
  have n: "inited (kmem k') = inited (kmem k)" "\<And>j. is_wait_list j \<Longrightarrow> inited (kmem k) j \<Longrightarrow> j \<noteq> l \<Longrightarrow>
      nodes_of (kmem k') j = nodes_of (kmem k) j"
    using assms(2) by (auto simp: entered_def same_others_def)
  have "sem_inv (scb k s) (nodes_of (kmem k') (SemaphoreWaiters s))" if "smagic (scb k s) = HR_CFG_SEMAPHORE_MAGIC" for s
    using that i(2) n(2) [of "SemaphoreWaiters s"] assms(5) unfolding sems_ok_def sem_inv_def may_wait_def
    by (cases "l = SemaphoreWaiters s") auto
  then have "sems_ok k'" using i(2) unfolding sems_ok_def o n(1) by blast
  moreover have "queue_inv (qcb k q) (nodes_of (kmem k') (SendWaiters q)) (nodes_of (kmem k') (ReceiveWaiters q))"
    if "qmagic (qcb k q) = HR_CFG_QUEUE_MAGIC" for q
    using that i(3) n(2) [of "SendWaiters q"] n(2) [of "ReceiveWaiters q"] assms(5) unfolding queues_ok_def queue_inv_def may_wait_def
    by (cases "l = SendWaiters q"; cases "l = ReceiveWaiters q") auto
  then have "queues_ok k'" using i(3) unfolding queues_ok_def o n(1) by blast
  moreover have "nodes_of (kmem k') (MutexWaiters x) = []"
    if "mmagic (mcb k x) = HR_CFG_MUTEX_MAGIC" "mowner (mcb k x) = None" for x
    using that i(5) n(2) [of "MutexWaiters x"] assms(5) owners_okD(2) [OF kinvD(3) [OF i(1)], of x]
    unfolding mutexes_ok_def may_wait_def by (cases "l = MutexWaiters x") auto
  then have "mutexes_ok k'" unfolding mutexes_ok_def o by blast
  moreover have "timers_ok k'" by (rule timers_ok_calm [OF i(4)]) (use assms(4) o in \<open>simp_all add: calm_def\<close>)
  ultimately show ?thesis using assms(6) by (simp add: kernel_inv_def)
qed

section \<open>Setting up an object\<close>

text \<open>
  The memory once the lists \<open>L\<close> are initialised and the unlinked nodes \<open>N\<close> overwritten.
\<close>

definition set_up :: "list_addr set \<Rightarrow> node_addr set \<Rightarrow> mem \<Rightarrow> mem \<Rightarrow> bool" where
  "set_up L N m m' \<longleftrightarrow>
     mem_ok m' \<and> (\<forall>l. inited m' l \<longleftrightarrow> inited m l \<or> l \<in> L) \<and> (\<forall>l. inited m l \<longrightarrow> nodes_of m' l = nodes_of m l) \<and>
     (\<forall>l \<in> L. \<not> inited m l \<longrightarrow> nodes_of m' l = []) \<and>
     (\<forall>x. x \<notin> N \<longrightarrow> \<not> is_root x \<longrightarrow> nodes m' x = nodes m x \<and> npriority m' x = npriority m x \<and> nwake_tick m' x = nwake_tick m x) \<and>
     (\<forall>x. \<not> is_root x \<longrightarrow> nlist (nodes m' x) = nlist (nodes m x)) \<and>
     timeout_lists m' = timeout_lists m \<and> ready_seq m' G_scheduler = ready_seq m G_scheduler"

lemma set_up_trans:
  assumes "set_up L N m m1" and "set_up L' N' m1 m2"
  shows "set_up (L \<union> L') (N \<union> N') m m2"
proof -
  note a = assms(1) [unfolded set_up_def] and b = assms(2) [unfolded set_up_def]
  have "nodes_of m2 l = []" if "l \<in> L \<union> L'" "\<not> inited m l" for l using a b that by (cases "l \<in> L") simp_all
  moreover have "x \<notin> N \<union> N' \<Longrightarrow> \<not> is_root x \<Longrightarrow>
      nodes m2 x = nodes m x \<and> npriority m2 x = npriority m x \<and> nwake_tick m2 x = nwake_tick m x" for x
    using a b by simp
  moreover have "inited m2 l \<longleftrightarrow> inited m l \<or> l \<in> L \<union> L'" "inited m l \<Longrightarrow> nodes_of m2 l = nodes_of m l" for l
    using a b by auto
  ultimately show ?thesis using a b unfolding set_up_def by (intro conjI) simp_all
qed

lemma set_up_nodes:
  assumes "mem_ok m" and "\<And>x. x \<in> N \<Longrightarrow> nlist (nodes m x) = None \<and> nlist (nodes m' x) = None"
    and "\<And>x. x \<notin> N \<Longrightarrow> nodes m' x = nodes m x \<and> npriority m' x = npriority m x \<and> nwake_tick m' x = nwake_tick m x"
    and "\<And>l. inited m l \<Longrightarrow> lsize m' l = lsize m l" and "ready_sets m' = ready_sets m" and "timeout_lists m' = timeout_lists m"
  shows "set_up {} N m m'"
proof -
  have f: "nodes m' x = nodes m x" if "nlist (nodes m x) \<noteq> None" for x
    using that assms(2,3) [of x] by (cases "x \<in> N") simp_all
  have g: "nlist (nodes m' x) = None" if "nlist (nodes m x) = None" for x
    using that assms(2,3) [of x] by (cases "x \<in> N") simp_all
  note ok = mem_okD [OF assms(1)]
  note w = wf_free_nodes [OF ok(1) f g assms(4), simplified]
  have x: "npriority m' x = npriority m x \<and> nwake_tick m' x = nwake_tick m x" if "nlist (nodes m x) \<noteq> None" for x
    using that assms(2,3) [of x] by (cases "x \<in> N") simp_all
  have fit: "node_fits x l" if "nlist (nodes m' x) = Some l" for x l using that w(4) ok(6) by simp
  note e = mem_extend [OF assms(1) w(1) _ _ x assms(5,6) fit]
  have "mem_ok m'" "ready_seq m' G_scheduler = ready_seq m G_scheduler" by (rule e, use w in simp_all)+
  then show ?thesis using w assms(3,6) by (simp add: set_up_def)
qed

lemma set_up_list:
  assumes "mem_ok m" and "inited m l \<Longrightarrow> nodes_of m l = []"
  shows "set_up {l} {} m (hr_list_init (Some l) m)" and "nodes_of (hr_list_init (Some l) m) l = []"
proof -
  let ?m = "hr_list_init (Some l) m"
  note ok = mem_okD [OF assms(1)]
  note w = wf_list_init [OF ok(1) assms(2)]
  have wf: "wf_mem ?m" using w(1) by simp
  have n: "nodes_of ?m k = (if k = l then [] else nodes_of m k)" if "inited m k \<or> k = l" for k
    using w(2) [OF _ that] by simp
  then show "nodes_of ?m l = []" by simp
  have keep: "inited ?m k \<and> nodes_of ?m k = nodes_of m k" if "inited m k" for k
    using that n [of k] assms(2) by auto
  have new: "nodes_of ?m k = []" if "inited ?m k" "\<not> inited m k" for k
    using that n [of k] by simp
  have fit: "node_fits x k" if "nlist (nodes ?m x) = Some k" for x k
    using that ok(6) [of x k] by (auto split: if_splits)
  have p: "npriority ?m x = npriority m x \<and> nwake_tick ?m x = nwake_tick m x" for x by simp
  have "mem_ok ?m" "ready_seq ?m G_scheduler = ready_seq m G_scheduler"
    by (rule mem_extend [OF assms(1) wf keep new p _ _ fit]; simp)+
  then show "set_up {l} {} m ?m" using keep n [of l] by (auto simp: set_up_def)
qed

lemma set_up_new: "mem_ok m \<Longrightarrow> \<not> inited m l \<Longrightarrow> set_up {l} {} m (hr_list_init (Some l) m)"
  by (rule set_up_list(1)) simp_all

lemma setup_view:
  assumes "set_up L N m m'" and "\<And>x. x \<in> N \<Longrightarrow> \<not> task_node x"
  shows "view m' = view m"
proof
  fix t
  have "x \<notin> N \<and> \<not> is_root x" if "x \<in> {ReadyNode t, WaitNode t, TimeoutNode t, AllTaskNode t}" for x
    using that assms(2) [of x] by auto
  then show "view m' t = view m t"
    using assms(1) by (simp add: set_up_def view_def del: node_view)
qed

lemma set_up_kinv:
  assumes "kinv k" and "set_up L N (kmem k) m" and "\<And>x. x \<in> N \<Longrightarrow> \<not> task_node x" and "owners_ok m (tcb k) M"
  shows "kinv (k\<lparr>kmem := m, mcb := M\<rparr>)"
proof -
  note v = setup_view [OF assms(2,3)]
  have "inited (kmem k) AllTasks" using mem_okD(3) [OF kinvD(1) [OF assms(1)]] .
  then show ?thesis
    using assms(1,2,4) unfolding kinvx_def
    by (simp add: v set_up_def tasks_ok_def current_ok_def)
qed

lemma set_up_owners:
  assumes "owners_ok m T M" and "set_up L N m m'" and "\<And>x. x \<in> N \<Longrightarrow> \<not> task_node x" and "\<And>x. OwnerNode x \<notin> N"
    and "\<And>x. MutexWaiters x \<notin> L" and "\<And>t. OwnedMutexes t \<notin> L"
  shows "owners_ok m' T M"
proof -
  have "nodes m' (OwnerNode x) = nodes m (OwnerNode x)" for x using assms(2,4) by (simp add: set_up_def)
  moreover have "inited m' (MutexWaiters x) = inited m (MutexWaiters x)" "inited m' (OwnedMutexes t) = inited m (OwnedMutexes t)"
    "inited m (OwnedMutexes t) \<Longrightarrow> nodes_of m' (OwnedMutexes t) = nodes_of m (OwnedMutexes t)" for x t
    using assms(2,5,6) by (auto simp: set_up_def)
  ultimately show ?thesis
    using assms(1) setup_view [OF assms(2,3)] unfolding owners_ok_def by simp
qed

lemma set_up_same:
  assumes "set_up L N (kmem k) (kmem k')"
  shows "scb k' = scb k \<Longrightarrow> (\<And>l. l \<in> L \<Longrightarrow> \<not> sem_list l) \<Longrightarrow> sems_same {} k k'"
    and "qcb k' = qcb k \<Longrightarrow> (\<And>l. l \<in> L \<Longrightarrow> \<not> queue_list l) \<Longrightarrow> queues_same {} k k'"
    and "mcb k' = mcb k \<Longrightarrow> (\<And>l. l \<in> L \<Longrightarrow> \<not> mutex_list l) \<Longrightarrow> mutexes_same {} k k'"
    and "tmcb k' = tmcb k \<Longrightarrow> g_timer_system_initialized k' = g_timer_system_initialized k \<Longrightarrow>
      g_kernel_tick k' = g_kernel_tick k \<Longrightarrow> PendingTimers \<notin> L \<Longrightarrow> (\<And>x. x \<in> N \<Longrightarrow> \<not> timer_node x) \<Longrightarrow> timers_same k k'"
proof -
  show "scb k' = scb k \<Longrightarrow> (\<And>l. l \<in> L \<Longrightarrow> \<not> sem_list l) \<Longrightarrow> sems_same {} k k'"
    using assms by (auto simp: sems_same_def fewer_waiters_def set_up_def)
  show "qcb k' = qcb k \<Longrightarrow> (\<And>l. l \<in> L \<Longrightarrow> \<not> queue_list l) \<Longrightarrow> queues_same {} k k'"
    using assms by (auto simp: queues_same_def fewer_waiters_def set_up_def)
  show "mcb k' = mcb k \<Longrightarrow> (\<And>l. l \<in> L \<Longrightarrow> \<not> mutex_list l) \<Longrightarrow> mutexes_same {} k k'"
    using assms by (auto simp: mutexes_same_def fewer_waiters_def set_up_def)
  assume "tmcb k' = tmcb k" "g_timer_system_initialized k' = g_timer_system_initialized k"
    "g_kernel_tick k' = g_kernel_tick k" "PendingTimers \<notin> L" and n: "\<And>x. x \<in> N \<Longrightarrow> \<not> timer_node x"
  moreover have "nodes (kmem k') x = nodes (kmem k) x \<and> nwake_tick (kmem k') x = nwake_tick (kmem k) x" if "timer_node x" for x
  proof -
    have "x \<notin> N" "\<not> is_root x" using n that by (auto, cases x, auto)
    then show ?thesis using assms by (simp add: set_up_def)
  qed
  ultimately show "timers_same k k'" using assms by (simp add: timers_same_def set_up_def)
qed

end
