(* ===== verification/HR_Queue.thy ===== *)
theory HR_Queue
  imports HR_Objects
begin

text \<open>
  The message queues of \<open>kernel/src/hr_queue.c\<close>: a ring buffer of items that are copied byte
  by byte, with a list of waiting senders and one of waiting receivers.
\<close>

section \<open>Operations\<close>

definition hr_queue_zero_control_block :: "queue_ptr \<Rightarrow> hr_kernel \<Rightarrow> hr_kernel" where
  "hr_queue_zero_control_block q k =
     k\<lparr>qcb := (qcb k)(q := zero_qcb),
       kmem := set_size (ReceiveWaiters q) 0 (set_node (Root (ReceiveWaiters q)) zero_node
         (set_size (SendWaiters q) 0 (set_node (Root (SendWaiters q)) zero_node (kmem k))))\<rparr>"

definition write_byte :: "byte_ptr \<Rightarrow> nat \<Rightarrow> 8 word \<Rightarrow> (nat \<Rightarrow> nat \<Rightarrow> 8 word) \<Rightarrow> nat \<Rightarrow> nat \<Rightarrow> 8 word" where
  "write_byte p i v b = b(fst p := (b (fst p))(snd p + i := v))"

definition read_byte :: "byte_ptr \<Rightarrow> nat \<Rightarrow> (nat \<Rightarrow> nat \<Rightarrow> 8 word) \<Rightarrow> 8 word" where
  "read_byte p i b = b (fst p) (snd p + i)"

definition hr_queue_copy :: "byte_ptr \<Rightarrow> byte_ptr \<Rightarrow> nat \<Rightarrow> hr_kernel \<Rightarrow> hr_kernel" where
  "hr_queue_copy destination source n k =
     k\<lparr>bytes := fold (\<lambda>index b. write_byte destination index (read_byte source index b) b) [0..<n] (bytes k)\<rparr>"

definition hr_queue_slot :: "byte_ptr \<Rightarrow> hr_queue_control_block \<Rightarrow> nat \<Rightarrow> byte_ptr" where
  "hr_queue_slot storage c index = (fst storage, snd storage + index * qitem_size c)"

definition hr_queue_waiter_task :: "node_addr option \<Rightarrow> hr_kernel \<Rightarrow> task_ptr option option" where
  "hr_queue_waiter_task wait_node k =
     (case wait_node of
        None \<Rightarrow> Some None
      | Some n \<Rightarrow> do {
          task \<leftarrow> as_task (hr_list_node_owner (Some n) (kmem k));
          Some (if hr_task_is_valid task k then hr_task_control_block task else None)
        })"

definition hr_queue_multiply_fits :: "nat \<Rightarrow> nat \<Rightarrow> bool" where
  "hr_queue_multiply_fits left_size right_size \<longleftrightarrow> left_size = 0 \<or> right_size \<le> SIZE_MAX div left_size"

definition hr_queue_control_block :: "queue_ptr option \<Rightarrow> queue_ptr option" where
  [simp]: "hr_queue_control_block queue = queue"

definition hr_queue_control_block_const :: "queue_ptr option \<Rightarrow> queue_ptr option" where
  [simp]: "hr_queue_control_block_const queue = queue"

definition hr_queue_is_valid :: "queue_ptr option \<Rightarrow> hr_kernel \<Rightarrow> bool" where
  "hr_queue_is_valid queue k =
     (case hr_queue_control_block_const queue of
        None \<Rightarrow> False
      | Some q \<Rightarrow>
          (let c = qcb k q
           in qmagic c = HR_CFG_QUEUE_MAGIC \<and> qstorage c \<noteq> None \<and> qitem_size c > 0 \<and> qcapacity c > 0 \<and>
              qcount c \<le> qcapacity c \<and> qhead c < qcapacity c \<and> qtail c < qcapacity c))"

definition hr_queue_validate_internal :: "queue_ptr option \<Rightarrow> hr_kernel \<Rightarrow> bool option" where
  "hr_queue_validate_internal queue k =
     (if \<not> hr_queue_is_valid queue k then Some False
      else do {
        s \<leftarrow> hr_wait_list_validate (Some (SendWaiters (the queue))) (kmem k);
        if \<not> s then Some False
        else hr_wait_list_validate (Some (ReceiveWaiters (the queue))) (kmem k)
      })"

definition hr_queue_create_static ::
  "queue_ptr option \<Rightarrow> byte_ptr option \<Rightarrow> nat \<Rightarrow> nat \<Rightarrow> hr_kernel \<Rightarrow> hr_status \<times> hr_kernel" where
  "hr_queue_create_static queue storage item_size capacity k =
     (case queue of
        None \<Rightarrow> (HR_ERROR_INVALID_ARGUMENT, k)
      | Some q \<Rightarrow>
          if storage = None \<or> item_size = 0 \<or> capacity = 0 \<or> \<not> hr_queue_multiply_fits item_size capacity
          then (HR_ERROR_INVALID_ARGUMENT, k)
          else if hr_queue_is_valid queue k then (HR_ERROR_INVALID_STATE, k)
          else
            (let k = hr_queue_zero_control_block q k;
                 k = k\<lparr>qcb := (qcb k)(q := (qcb k q)\<lparr>qstorage := storage, qitem_size := item_size,
                                                     qcapacity := capacity\<rparr>)\<rparr>;
                 k = k\<lparr>kmem := hr_wait_list_init (Some (SendWaiters q)) (kmem k)\<rparr>;
                 k = k\<lparr>kmem := hr_wait_list_init (Some (ReceiveWaiters q)) (kmem k)\<rparr>
             in (HR_OK, k\<lparr>qcb := (qcb k)(q := (qcb k q)\<lparr>qmagic := HR_CFG_QUEUE_MAGIC\<rparr>)\<rparr>)))"

definition hr_queue_get_count :: "queue_ptr option \<Rightarrow> hr_kernel \<Rightarrow> nat" where
  "hr_queue_get_count queue k = (if hr_queue_is_valid queue k then qcount (qcb k (the queue)) else 0)"

definition hr_queue_get_capacity :: "queue_ptr option \<Rightarrow> hr_kernel \<Rightarrow> nat" where
  "hr_queue_get_capacity queue k = (if hr_queue_is_valid queue k then qcapacity (qcb k (the queue)) else 0)"

definition hr_queue_get_waiting_senders :: "queue_ptr option \<Rightarrow> hr_kernel \<Rightarrow> nat" where
  "hr_queue_get_waiting_senders queue k =
     (if hr_queue_is_valid queue k then hr_wait_list_size (Some (SendWaiters (the queue))) (kmem k) else 0)"

definition hr_queue_get_waiting_receivers :: "queue_ptr option \<Rightarrow> hr_kernel \<Rightarrow> nat" where
  "hr_queue_get_waiting_receivers queue k =
     (if hr_queue_is_valid queue k then hr_wait_list_size (Some (ReceiveWaiters (the queue))) (kmem k) else 0)"

definition hr_queue_wake_receiver ::
  "queue_ptr \<Rightarrow> byte_ptr \<Rightarrow> bool option \<Rightarrow> hr_kernel \<Rightarrow> ((hr_status \<times> bool option) \<times> hr_kernel) option" where
  "hr_queue_wake_receiver q item woken k = do {
     let wait_node = hr_wait_list_peek (Some (ReceiveWaiters q)) (kmem k);
     task \<leftarrow> hr_queue_waiter_task wait_node k;
     (case task of
        None \<Rightarrow> Some ((HR_ERROR_INTERNAL, woken), k)
      | Some t \<Rightarrow>
          (case twait_buffer (tcb k t) of
             None \<Rightarrow> Some ((HR_ERROR_INTERNAL, woken), k)
           | Some buffer \<Rightarrow>
               if twait_kind (tcb k t) \<noteq> HR_TASK_WAIT_QUEUE_RECEIVE \<or>
                  twaiting_object (tcb k t) \<noteq> Some (Obj_queue q)
               then Some ((HR_ERROR_INTERNAL, woken), k)
               else hr_kernel_unblock_waiter wait_node HR_OK woken
                 (hr_queue_copy buffer item (qitem_size (qcb k q)) k)))
   }"

text \<open>The item at \<open>source\<close> goes into the slot at the tail.\<close>

definition queue_append :: "queue_ptr \<Rightarrow> byte_ptr \<Rightarrow> byte_ptr \<Rightarrow> hr_kernel \<Rightarrow> hr_kernel" where
  "queue_append q storage source k =
     (let k = hr_queue_copy (hr_queue_slot storage (qcb k q) (qtail (qcb k q))) source (qitem_size (qcb k q)) k
      in k\<lparr>qcb := (qcb k)(q := (qcb k q)\<lparr>qtail := (qtail (qcb k q) + 1) mod qcapacity (qcb k q),
                                          qcount := qcount (qcb k q) + 1\<rparr>)\<rparr>)"

definition hr_queue_fill_from_waiting_sender ::
  "queue_ptr \<Rightarrow> bool option \<Rightarrow> hr_kernel \<Rightarrow> ((hr_status \<times> bool option) \<times> hr_kernel) option" where
  "hr_queue_fill_from_waiting_sender q woken k = do {
     let wait_node = hr_wait_list_peek (Some (SendWaiters q)) (kmem k);
     task \<leftarrow> hr_queue_waiter_task wait_node k;
     if wait_node = None then Some ((HR_OK, woken), k)
     else
       (case task of
          None \<Rightarrow> Some ((HR_ERROR_INTERNAL, woken), k)
        | Some t \<Rightarrow>
            (case twait_buffer (tcb k t) of
               None \<Rightarrow> Some ((HR_ERROR_INTERNAL, woken), k)
             | Some buffer \<Rightarrow>
                 if twait_kind (tcb k t) \<noteq> HR_TASK_WAIT_QUEUE_SEND \<or>
                    twaiting_object (tcb k t) \<noteq> Some (Obj_queue q) \<or>
                    qcount (qcb k q) \<ge> qcapacity (qcb k q)
                 then Some ((HR_ERROR_INTERNAL, woken), k)
                 else do {
                   storage \<leftarrow> qstorage (qcb k q);
                   hr_kernel_unblock_waiter wait_node HR_OK woken (queue_append q storage buffer k)
                 }))
   }"

text \<open>The locked halves return the status, the task that blocked (if any) and the wake flag.\<close>

definition hr_queue_send_locked ::
  "queue_ptr \<Rightarrow> byte_ptr \<Rightarrow> hr_tick \<Rightarrow> bool \<Rightarrow> bool option \<Rightarrow> hr_kernel \<Rightarrow>
   ((hr_status \<times> task_ptr option \<times> bool option) \<times> hr_kernel) option" where
  "hr_queue_send_locked q item timeout allow_block woken k =
     (if \<not> hr_wait_list_is_empty (Some (ReceiveWaiters q)) (kmem k) then do {
        ((status, woken), k) \<leftarrow> hr_queue_wake_receiver q item woken k;
        Some ((status, None, woken), k)
      }
      else if qcount (qcb k q) < qcapacity (qcb k q) then do {
        storage \<leftarrow> qstorage (qcb k q);
        Some ((HR_OK, None, woken), queue_append q storage item k)
      }
      else if timeout = HR_NO_WAIT then Some ((HR_ERROR_QUEUE_FULL, None, woken), k)
      else if \<not> allow_block then Some ((HR_ERROR_INVALID_STATE, None, woken), k)
      else
        (case hr_task_control_block (hr_task_current k) of
           None \<Rightarrow> Some ((HR_ERROR_INVALID_STATE, None, woken), k)
         | Some blocked_task \<Rightarrow> do {
             (block_status, k) \<leftarrow> hr_kernel_block_current_on_wait_list (Some (SendWaiters q))
               (Some (Obj_queue q)) HR_TASK_WAIT_QUEUE_SEND (Some item) timeout k;
             Some ((block_status, if block_status = HR_OK then Some blocked_task else None, woken), k)
           }))"

definition hr_queue_receive_locked ::
  "queue_ptr \<Rightarrow> byte_ptr \<Rightarrow> hr_tick \<Rightarrow> bool \<Rightarrow> bool option \<Rightarrow> hr_kernel \<Rightarrow>
   ((hr_status \<times> task_ptr option \<times> bool option) \<times> hr_kernel) option" where
  "hr_queue_receive_locked q item timeout allow_block woken k =
     (if qcount (qcb k q) > 0 then do {
        storage \<leftarrow> qstorage (qcb k q);
        let k = hr_queue_copy item (hr_queue_slot storage (qcb k q) (qhead (qcb k q))) (qitem_size (qcb k q)) k;
        let k = k\<lparr>qcb := (qcb k)(q := (qcb k q)\<lparr>qhead := (qhead (qcb k q) + 1) mod qcapacity (qcb k q),
                                                qcount := qcount (qcb k q) - 1\<rparr>)\<rparr>;
        ((status, woken), k) \<leftarrow> hr_queue_fill_from_waiting_sender q woken k;
        Some ((status, None, woken), k)
      }
      else if \<not> hr_wait_list_is_empty (Some (SendWaiters q)) (kmem k) then do {
        let wait_node = hr_wait_list_peek (Some (SendWaiters q)) (kmem k);
        task \<leftarrow> hr_queue_waiter_task wait_node k;
        (case task of
           None \<Rightarrow> Some ((HR_ERROR_INTERNAL, None, woken), k)
         | Some t \<Rightarrow>
             (case twait_buffer (tcb k t) of
                None \<Rightarrow> Some ((HR_ERROR_INTERNAL, None, woken), k)
              | Some buffer \<Rightarrow> do {
                  let k = hr_queue_copy item buffer (qitem_size (qcb k q)) k;
                  ((status, woken), k) \<leftarrow> hr_kernel_unblock_waiter wait_node HR_OK woken k;
                  Some ((status, None, woken), k)
                }))
      }
      else if timeout = HR_NO_WAIT then Some ((HR_ERROR_QUEUE_EMPTY, None, woken), k)
      else if \<not> allow_block then Some ((HR_ERROR_INVALID_STATE, None, woken), k)
      else
        (case hr_task_control_block (hr_task_current k) of
           None \<Rightarrow> Some ((HR_ERROR_INVALID_STATE, None, woken), k)
         | Some blocked_task \<Rightarrow> do {
             (block_status, k) \<leftarrow> hr_kernel_block_current_on_wait_list (Some (ReceiveWaiters q))
               (Some (Obj_queue q)) HR_TASK_WAIT_QUEUE_RECEIVE (Some item) timeout k;
             Some ((block_status, if block_status = HR_OK then Some blocked_task else None, woken), k)
           }))"

text \<open>The common tail of \<open>hr_queue_send\<close> and \<open>hr_queue_receive\<close> after the critical section.\<close>

definition queue_call_return ::
  "hr_status \<Rightarrow> task_ptr option \<Rightarrow> bool option \<Rightarrow> hr_kernel \<Rightarrow> (outcome \<times> hr_kernel) option" where
  "queue_call_return status blocked_task woken k =
     (let k = (if blocked_task \<noteq> None \<or> woken = Some True then hr_port_request_context_switch k else k)
      in case blocked_task of Some t \<Rightarrow> Some (Blocked t, k) | None \<Rightarrow> Some (Returned status, k))"

definition hr_queue_send ::
  "queue_ptr option \<Rightarrow> byte_ptr option \<Rightarrow> hr_tick \<Rightarrow> hr_kernel \<Rightarrow> (outcome \<times> hr_kernel) option" where
  "hr_queue_send queue item timeout k =
     (case (queue, item) of
        (Some q, Some p) \<Rightarrow>
          if \<not> hr_queue_is_valid queue k then Some (Returned HR_ERROR_INVALID_ARGUMENT, k)
          else if hr_port_is_inside_isr k then Some (Returned HR_ERROR_FROM_ISR, k)
          else if timeout \<noteq> HR_NO_WAIT \<and> \<not> hr_kernel_is_running k
          then Some (Returned HR_ERROR_INVALID_STATE, k)
          else do {
            let (irq_state, k) = hr_port_enter_critical k;
            ((status, blocked, woken), k) \<leftarrow> hr_queue_send_locked q p timeout True (Some False) k;
            queue_call_return status blocked woken (hr_port_exit_critical irq_state k)
          }
      | _ \<Rightarrow> Some (Returned HR_ERROR_INVALID_ARGUMENT, k))"

definition hr_queue_receive ::
  "queue_ptr option \<Rightarrow> byte_ptr option \<Rightarrow> hr_tick \<Rightarrow> hr_kernel \<Rightarrow> (outcome \<times> hr_kernel) option" where
  "hr_queue_receive queue item timeout k =
     (case (queue, item) of
        (Some q, Some p) \<Rightarrow>
          if \<not> hr_queue_is_valid queue k then Some (Returned HR_ERROR_INVALID_ARGUMENT, k)
          else if hr_port_is_inside_isr k then Some (Returned HR_ERROR_FROM_ISR, k)
          else if timeout \<noteq> HR_NO_WAIT \<and> \<not> hr_kernel_is_running k
          then Some (Returned HR_ERROR_INVALID_STATE, k)
          else do {
            let (irq_state, k) = hr_port_enter_critical k;
            ((status, blocked, woken), k) \<leftarrow> hr_queue_receive_locked q p timeout True (Some False) k;
            queue_call_return status blocked woken (hr_port_exit_critical irq_state k)
          }
      | _ \<Rightarrow> Some (Returned HR_ERROR_INVALID_ARGUMENT, k))"

definition hr_queue_send_from_isr ::
  "queue_ptr option \<Rightarrow> byte_ptr option \<Rightarrow> bool option \<Rightarrow> hr_kernel \<Rightarrow>
   ((hr_status \<times> bool option) \<times> hr_kernel) option" where
  "hr_queue_send_from_isr queue item higher_priority_task_woken k =
     (case (queue, item) of
        (Some q, Some p) \<Rightarrow>
          if \<not> hr_queue_is_valid queue k then Some ((HR_ERROR_INVALID_ARGUMENT, higher_priority_task_woken), k)
          else if \<not> hr_port_is_inside_isr k then Some ((HR_ERROR_INVALID_STATE, higher_priority_task_woken), k)
          else do {
            let (irq_state, k) = hr_port_enter_critical k;
            ((status, _, switch_required), k) \<leftarrow> hr_queue_send_locked q p HR_NO_WAIT False (Some False) k;
            let k = hr_port_exit_critical irq_state k;
            Some ((status, map_option (\<lambda>_. switch_required = Some True) higher_priority_task_woken), k)
          }
      | _ \<Rightarrow> Some ((HR_ERROR_INVALID_ARGUMENT, higher_priority_task_woken), k))"

definition hr_queue_receive_from_isr ::
  "queue_ptr option \<Rightarrow> byte_ptr option \<Rightarrow> bool option \<Rightarrow> hr_kernel \<Rightarrow>
   ((hr_status \<times> bool option) \<times> hr_kernel) option" where
  "hr_queue_receive_from_isr queue item higher_priority_task_woken k =
     (case (queue, item) of
        (Some q, Some p) \<Rightarrow>
          if \<not> hr_queue_is_valid queue k then Some ((HR_ERROR_INVALID_ARGUMENT, higher_priority_task_woken), k)
          else if \<not> hr_port_is_inside_isr k then Some ((HR_ERROR_INVALID_STATE, higher_priority_task_woken), k)
          else do {
            let (irq_state, k) = hr_port_enter_critical k;
            ((status, _, switch_required), k) \<leftarrow> hr_queue_receive_locked q p HR_NO_WAIT False (Some False) k;
            let k = hr_port_exit_critical irq_state k;
            Some ((status, map_option (\<lambda>_. switch_required = Some True) higher_priority_task_woken), k)
          }
      | _ \<Rightarrow> Some ((HR_ERROR_INVALID_ARGUMENT, higher_priority_task_woken), k))"

section \<open>The ring buffer\<close>

definition item_at :: "(nat \<Rightarrow> nat \<Rightarrow> 8 word) \<Rightarrow> byte_ptr \<Rightarrow> nat \<Rightarrow> 8 word list" where
  "item_at b p n = map (\<lambda>i. read_byte p i b) [0..<n]"

text \<open>The items in a queue, oldest first.\<close>

definition queue_items :: "hr_kernel \<Rightarrow> queue_ptr \<Rightarrow> 8 word list list" where
  "queue_items k q = map (\<lambda>i. item_at (bytes k)
       (hr_queue_slot (the (qstorage (qcb k q))) (qcb k q) ((qhead (qcb k q) + i) mod qcapacity (qcb k q))) (qitem_size (qcb k q)))
     [0..<qcount (qcb k q)]"

text \<open>Two byte ranges that do not overlap.\<close>

definition apart :: "byte_ptr \<Rightarrow> nat \<Rightarrow> byte_ptr \<Rightarrow> nat \<Rightarrow> bool" where
  "apart p n r m \<longleftrightarrow> fst p \<noteq> fst r \<or> snd p + n \<le> snd r \<or> snd r + m \<le> snd p"

lemma copy_bytes:
  "apart d n s n \<Longrightarrow> bytes (hr_queue_copy d s n k) =
     (\<lambda>a i. if a = fst d \<and> snd d \<le> i \<and> i < snd d + n then bytes k (fst s) (snd s + (i - snd d)) else bytes k a i)"
proof (induction n)
  case 0
  then show ?case by (auto simp: hr_queue_copy_def fun_eq_iff)
next
  case (Suc n)
  then have "apart d n s n" by (auto simp: apart_def)
  note IH = Suc.IH [OF this]
  have "bytes (hr_queue_copy d s (Suc n) k) =
      write_byte d n (read_byte s n (bytes (hr_queue_copy d s n k))) (bytes (hr_queue_copy d s n k))"
    by (simp add: hr_queue_copy_def)
  then show ?case
    using Suc.prems by (auto simp: IH write_byte_def read_byte_def fun_eq_iff apart_def)
qed

lemma copy_simps [simp]:
  "kmem (hr_queue_copy d s n k) = kmem k" "tcb (hr_queue_copy d s n k) = tcb k" "qcb (hr_queue_copy d s n k) = qcb k"
  "scb (hr_queue_copy d s n k) = scb k" "g_current_task (hr_queue_copy d s n k) = g_current_task k"
  "kernel_inv (hr_queue_copy d s n k) = kernel_inv k" "primask (hr_queue_copy d s n k) = primask k"
  "inside_isr (hr_queue_copy d s n k) = inside_isr k" "g_kernel_state (hr_queue_copy d s n k) = g_kernel_state k"
  by (simp_all add: hr_queue_copy_def)

lemma item_copied: "apart d n s n \<Longrightarrow> item_at (bytes (hr_queue_copy d s n k)) d n = item_at (bytes k) s n"
  by (simp add: copy_bytes item_at_def read_byte_def)

lemma copy_outside: "\<not> (a = fst d \<and> snd d \<le> i \<and> i < snd d + n) \<Longrightarrow> bytes (hr_queue_copy d s n k) a i = bytes k a i"
  by (induction n) (auto simp: hr_queue_copy_def write_byte_def)

lemma item_kept: "apart d n p m \<Longrightarrow> item_at (bytes (hr_queue_copy d s n k)) p m = item_at (bytes k) p m"
  by (auto simp: item_at_def read_byte_def apart_def intro!: copy_outside)

lemma ring_inj: "h < c \<Longrightarrow> i < c \<Longrightarrow> j < c \<Longrightarrow> (h + i) mod c = (h + j) mod c \<longleftrightarrow> i = (j :: nat)"
  by (auto simp: mod_if split: if_splits)

lemma slots_apart:
  assumes "i \<noteq> j"
  shows "apart (hr_queue_slot st c i) (qitem_size c) (hr_queue_slot st c j) (qitem_size c)"
proof -
  have "i * qitem_size c + qitem_size c \<le> j * qitem_size c \<or> j * qitem_size c + qitem_size c \<le> i * qitem_size c"
    using assms mult_le_mono1 [of "Suc i" j "qitem_size c"] mult_le_mono1 [of "Suc j" i "qitem_size c"] by (cases i j rule: linorder_cases) auto
  then show ?thesis by (auto simp: apart_def hr_queue_slot_def)
qed

lemma slot_apart:
  assumes "apart p n st (qitem_size c * qcapacity c)" and "i < qcapacity c"
  shows "apart p n (hr_queue_slot st c i) (qitem_size c)" and "apart (hr_queue_slot st c i) (qitem_size c) p n"
proof -
  have "i * qitem_size c + qitem_size c \<le> qitem_size c * qcapacity c"
    using mult_le_mono1 [of "Suc i" "qcapacity c" "qitem_size c"] assms(2) by (simp add: mult.commute)
  then show "apart p n (hr_queue_slot st c i) (qitem_size c)" "apart (hr_queue_slot st c i) (qitem_size c) p n"
    using assms(1) by (auto simp: apart_def hr_queue_slot_def)
qed

text \<open>Appending at the tail, and dropping the item at the head.\<close>

definition queue_drop :: "queue_ptr \<Rightarrow> hr_kernel \<Rightarrow> hr_kernel" where
  "queue_drop q k = k\<lparr>qcb := (qcb k)(q := (qcb k q)\<lparr>qhead := (qhead (qcb k q) + 1) mod qcapacity (qcb k q),
                                                qcount := qcount (qcb k q) - 1\<rparr>)\<rparr>"

lemma ring_inv:
  "queue_inv c ss rs \<longleftrightarrow> queue_inv c [] [] \<and> (ss \<noteq> [] \<longrightarrow> qcount c = qcapacity c) \<and> (rs \<noteq> [] \<longrightarrow> qcount c = 0)"
  by (auto simp: queue_inv_def)

lemma ring_append:
  assumes "queue_inv c [] []" and "qcount c < qcapacity c"
  shows "queue_inv (c\<lparr>qtail := (qtail c + 1) mod qcapacity c, qcount := qcount c + 1\<rparr>) [] []"
  using assms by (simp add: queue_inv_def mod_Suc_eq)

lemma ring_drop:
  assumes "queue_inv c [] []" and "0 < qcount c"
  shows "queue_inv (c\<lparr>qhead := (qhead c + 1) mod qcapacity c, qcount := qcount c - 1\<rparr>) [] []"
proof -
  have "(Suc (qhead c) mod qcapacity c + (qcount c - Suc 0)) mod qcapacity c = (qhead c + qcount c) mod qcapacity c"
    using assms(2) by (cases "qcount c") (simp_all add: mod_add_left_eq)
  then show ?thesis using assms by (auto simp: queue_inv_def)
qed

lemma append_simps [simp]:
  "kmem (queue_append q st src k) = kmem k" "tcb (queue_append q st src k) = tcb k" "scb (queue_append q st src k) = scb k"
  "g_current_task (queue_append q st src k) = g_current_task k" "primask (queue_append q st src k) = primask k"
  "inside_isr (queue_append q st src k) = inside_isr k"
  "qcb (queue_append q st src k) = (qcb k)(q := (qcb k q)
     \<lparr>qtail := (qtail (qcb k q) + 1) mod qcapacity (qcb k q), qcount := qcount (qcb k q) + 1\<rparr>)"
  by (simp_all add: queue_append_def Let_def)

lemma append_items:
  assumes "queue_inv (qcb k q) [] []" and "qcount (qcb k q) < qcapacity (qcb k q)" and "qstorage (qcb k q) = Some st"
    and "apart src (qitem_size (qcb k q)) st (qitem_size (qcb k q) * qcapacity (qcb k q))"
  shows "queue_items (queue_append q st src k) q = queue_items k q @ [item_at (bytes k) src (qitem_size (qcb k q))]"
proof -
  let ?c = "qcb k q"
  let ?s = "hr_queue_slot st ?c"
  let ?k = "hr_queue_copy (?s (qtail ?c)) src (qitem_size ?c) k"
  have c: "qhead ?c < qcapacity ?c" "qtail ?c = (qhead ?c + qcount ?c) mod qcapacity ?c" using assms(1) by (simp_all add: queue_inv_def)
  have t: "qtail ?c < qcapacity ?c" using c by simp
  have b: "bytes (queue_append q st src k) = bytes ?k" by (simp add: queue_append_def Let_def)
  have sl: "hr_queue_slot st (?c\<lparr>qtail := a, qcount := d\<rparr>) = ?s" for a d by (simp add: hr_queue_slot_def fun_eq_iff)
  have old: "item_at (bytes ?k) (?s ((qhead ?c + i) mod qcapacity ?c)) (qitem_size ?c) =
      item_at (bytes k) (?s ((qhead ?c + i) mod qcapacity ?c)) (qitem_size ?c)" if "i < qcount ?c" for i
  proof -
    have "(qhead ?c + i) mod qcapacity ?c \<noteq> qtail ?c"
      using ring_inj [OF c(1), of i "qcount ?c"] assms(2) that c(2) by simp
    then show ?thesis by (intro item_kept slots_apart) simp
  qed
  have new: "item_at (bytes ?k) (?s (qtail ?c)) (qitem_size ?c) = item_at (bytes k) src (qitem_size ?c)"
    by (rule item_copied [OF slot_apart(2) [OF assms(4) t]])
  show ?thesis
    unfolding queue_items_def b by (simp add: sl assms(3) old new c(2) [symmetric])
qed

lemma drop_items:
  assumes "queue_inv (qcb k q) [] []" and "0 < qcount (qcb k q)" and "qstorage (qcb k q) = Some st"
  shows "queue_items k q = item_at (bytes k) (hr_queue_slot st (qcb k q) (qhead (qcb k q))) (qitem_size (qcb k q)) #
    queue_items (queue_drop q k) q"
proof -
  let ?c = "qcb k q"
  have h: "qhead ?c mod qcapacity ?c = qhead ?c" using assms(1) by (simp add: queue_inv_def)
  have sl: "hr_queue_slot st (?c\<lparr>qhead := a, qcount := d\<rparr>) = hr_queue_slot st ?c" for a d by (simp add: hr_queue_slot_def fun_eq_iff)
  have u: "[0..<qcount ?c] = 0 # map Suc [0..<qcount ?c - 1]" using assms(2) by (simp add: upt_conv_Cons map_Suc_upt)
  have m: "((qhead ?c + Suc 0) mod qcapacity ?c + i) mod qcapacity ?c = (qhead ?c + Suc i) mod qcapacity ?c" for i
    by (simp add: mod_add_left_eq)
  show ?thesis
    unfolding queue_items_def u by (simp add: queue_drop_def sl assms(3) h m del: add_Suc_right)
qed

lemma items_cong: "bytes k' = bytes k \<Longrightarrow> qcb k' q = qcb k q \<Longrightarrow> queue_items k' q = queue_items k q"
  by (simp add: queue_items_def)

lemma items_copy_out:
  assumes "queue_inv (qcb k q) [] []" and "qstorage (qcb k q) = Some st"
    and "apart p n st (qitem_size (qcb k q) * qcapacity (qcb k q))"
  shows "queue_items (hr_queue_copy p s n k) q = queue_items k q"
proof -
  have "apart p n (hr_queue_slot st (qcb k q) ((qhead (qcb k q) + i) mod qcapacity (qcb k q))) (qitem_size (qcb k q))" for i
    by (rule slot_apart(1) [OF assms(3)]) (use assms(1) in \<open>simp add: queue_inv_def\<close>)
  then show ?thesis by (simp add: queue_items_def assms(2) item_kept)
qed

section \<open>Invariant\<close>

abbreviation send_waiters :: "hr_kernel \<Rightarrow> queue_ptr \<Rightarrow> node_addr list" where
  "send_waiters k q \<equiv> nodes_of (kmem k) (SendWaiters q)"

abbreviation receive_waiters :: "hr_kernel \<Rightarrow> queue_ptr \<Rightarrow> node_addr list" where
  "receive_waiters k q \<equiv> nodes_of (kmem k) (ReceiveWaiters q)"

lemma queue_valid:
  assumes "queues_ok k"
  shows "hr_queue_is_valid (Some q) k \<longleftrightarrow> qmagic (qcb k q) = HR_CFG_QUEUE_MAGIC"
    and "hr_queue_is_valid (Some q) k \<Longrightarrow> inited (kmem k) (SendWaiters q)"
    and "hr_queue_is_valid (Some q) k \<Longrightarrow> inited (kmem k) (ReceiveWaiters q)"
    and "hr_queue_is_valid (Some q) k \<Longrightarrow> queue_inv (qcb k q) (send_waiters k q) (receive_waiters k q)"
proof -
  have "qmagic (qcb k q) = HR_CFG_QUEUE_MAGIC \<Longrightarrow> queue_inv (qcb k q) (send_waiters k q) (receive_waiters k q)"
    using assms by (simp add: queues_ok_def)
  then show v: "hr_queue_is_valid (Some q) k \<longleftrightarrow> qmagic (qcb k q) = HR_CFG_QUEUE_MAGIC"
    by (auto simp: hr_queue_is_valid_def queue_inv_def Let_def)
  then show "hr_queue_is_valid (Some q) k \<Longrightarrow> inited (kmem k) (SendWaiters q)"
    "hr_queue_is_valid (Some q) k \<Longrightarrow> inited (kmem k) (ReceiveWaiters q)"
    "hr_queue_is_valid (Some q) k \<Longrightarrow> queue_inv (qcb k q) (send_waiters k q) (receive_waiters k q)"
    using assms by (simp_all add: queues_ok_def)
qed

lemma kernel_inv_qcb:
  assumes "kernel_inv k" and "hr_queue_is_valid (Some q) k" and "queue_inv c (send_waiters k q) (receive_waiters k q)"
    and "qmagic c = qmagic (qcb k q)"
  shows "kernel_inv (k\<lparr>qcb := (qcb k)(q := c)\<rparr>)"
  using assms queue_valid(1) [OF kernel_invD(3) [OF assms(1)], of q]
  by (auto simp: kernel_inv_def sems_ok_def queues_ok_def mutexes_ok_def timers_ok_def timers_okx_def)

lemma queue_lists:
  assumes "kernel_inv k" and "hr_queue_is_valid (Some q) k"
  shows "hr_wait_list_is_empty (Some (SendWaiters q)) (kmem k) \<longleftrightarrow> send_waiters k q = []"
    and "hr_wait_list_is_empty (Some (ReceiveWaiters q)) (kmem k) \<longleftrightarrow> receive_waiters k q = []"
    and "hr_wait_list_peek (Some (SendWaiters q)) (kmem k) = (case send_waiters k q of [] \<Rightarrow> None | n # _ \<Rightarrow> Some n)"
    and "queue_inv (qcb k q) [] []" and "send_waiters k q \<noteq> [] \<Longrightarrow> qcount (qcb k q) = qcapacity (qcb k q)"
    and "receive_waiters k q \<noteq> [] \<Longrightarrow> qcount (qcb k q) = 0" and "\<exists>st. qstorage (qcb k q) = Some st"
    and "0 < qcapacity (qcb k q)" and "qcount (qcb k q) \<le> qcapacity (qcb k q)"
proof -
  note v = queue_valid [OF kernel_invD(3) [OF assms(1)], of q]
  note wf = mem_okD(1) [OF kinvD(1) [OF kernel_invD(1) [OF assms(1)]]]
  show "hr_wait_list_is_empty (Some (SendWaiters q)) (kmem k) \<longleftrightarrow> send_waiters k q = []"
    "hr_wait_list_is_empty (Some (ReceiveWaiters q)) (kmem k) \<longleftrightarrow> receive_waiters k q = []"
    "hr_wait_list_peek (Some (SendWaiters q)) (kmem k) = (case send_waiters k q of [] \<Rightarrow> None | n # _ \<Rightarrow> Some n)"
    using v(2,3) assms(2) wf by (simp_all add: wait_size_wf wait_peek_wf)
  show "queue_inv (qcb k q) [] []" "send_waiters k q \<noteq> [] \<Longrightarrow> qcount (qcb k q) = qcapacity (qcb k q)"
    "receive_waiters k q \<noteq> [] \<Longrightarrow> qcount (qcb k q) = 0" "\<exists>st. qstorage (qcb k q) = Some st"
    "0 < qcapacity (qcb k q)" "qcount (qcb k q) \<le> qcapacity (qcb k q)"
    using v(4) [OF assms(2)] by (simp_all add: queue_inv_def)
qed

lemma waiter_task_cong:
  assumes "kmem k' = kmem k" and "tcb k' = tcb k"
  shows "hr_queue_waiter_task n k' = hr_queue_waiter_task n k"
proof -
  have "hr_task_is_valid x k' = hr_task_is_valid x k" for x using assms by (cases x) (simp_all add: hr_task_is_valid_def)
  then show ?thesis using assms by (cases n) (simp_all add: hr_queue_waiter_task_def)
qed

lemma queue_waiter:
  assumes "kinv k" and "vwait (view (kmem k) t) = Some l" and "l = SendWaiters q \<or> l = ReceiveWaiters q"
  obtains buf where "hr_queue_waiter_task (Some (WaitNode t)) k = Some (Some t)" and "twait_buffer (tcb k t) = Some buf"
    and "twait_kind (tcb k t) = (if l = SendWaiters q then HR_TASK_WAIT_QUEUE_SEND else HR_TASK_WAIT_QUEUE_RECEIVE)"
    and "twaiting_object (tcb k t) = Some (Obj_queue q)"
proof -
  note w = waiter_blocked [OF assms(1,2)]
  note r = registeredD [OF assms(1) w(1)]
  have "hr_queue_waiter_task (Some (WaitNode t)) k = Some (Some t)"
    using r(2) by (simp add: hr_queue_waiter_task_def owner_view(2) [OF r(3)] as_task_def)
  moreover have t: "wait_target (twait_kind (tcb k t)) (twaiting_object (tcb k t)) = Some l"
    using w(3,4) by (simp add: on_wait_list_def)
  have "twait_kind (tcb k t) = (if l = SendWaiters q then HR_TASK_WAIT_QUEUE_SEND else HR_TASK_WAIT_QUEUE_RECEIVE) \<and>
      twaiting_object (tcb k t) = Some (Obj_queue q)"
    using t assms(3) by (cases "(twait_kind (tcb k t), twaiting_object (tcb k t))" rule: wait_target.cases) auto
  moreover from this obtain buf where "twait_buffer (tcb k t) = Some buf"
    using w(3) by (auto simp: on_wait_list_def split: if_splits)
  ultimately show thesis using that by blast
qed

section \<open>Sending\<close>

lemma send_to_receiver:
  assumes "kernel_inv k" and "hr_queue_is_valid (Some q) k" and "receive_waiters k q = n # ns"
  obtains t buf k' where "n = WaitNode t" and "twait_buffer (tcb k t) = Some buf"
    and "hr_queue_send_locked q item timeout allow (Some w) k =
      Some ((HR_OK, None, Some (\<not> suspended_wait (tcb k t) \<and> outranks k' t)), k')"
    and "kernel_inv k'" and "calm {} k k'" and "receive_waiters k' q = ns"
    and "woke t (hr_queue_copy buf item (qitem_size (qcb k q)) k) k'"
proof -
  note v = queue_valid [OF kernel_invD(3) [OF assms(1)], of q]
  note l = queue_lists [OF assms(1,2)]
  have i: "is_wait_list (ReceiveWaiters q)" "inited (kmem k) (ReceiveWaiters q)" using v(3) assms(2) by simp_all
  obtain t where t: "n = WaitNode t" "vwait (view (kmem k) t) = Some (ReceiveWaiters q)"
    by (rule wait_list_member [OF kinvD(1) [OF kernel_invD(1) [OF assms(1)]] i, of n]) (use assms(3) in auto)
  obtain buf where b: "hr_queue_waiter_task (Some (WaitNode t)) k = Some (Some t)" "twait_buffer (tcb k t) = Some buf"
      "twait_kind (tcb k t) = HR_TASK_WAIT_QUEUE_RECEIVE" "twaiting_object (tcb k t) = Some (Obj_queue q)"
    by (rule queue_waiter [OF kernel_invD(1) [OF assms(1)] t(2), of q]) auto
  let ?k = "hr_queue_copy buf item (qitem_size (qcb k q)) k"
  have k: "kernel_inv ?k" "inited (kmem ?k) (ReceiveWaiters q)" "nodes_of (kmem ?k) (ReceiveWaiters q) = n # ns"
    using assms(1,3) i(2) by simp_all
  show thesis
  proof (rule unblock_woke [OF k(1) i(1) k(2,3), where woken = "Some w"])
    fix t' k' assume p: "hr_wait_list_peek (Some (ReceiveWaiters q)) (kmem ?k) = Some n" "n = WaitNode t'"
      and u: "hr_kernel_unblock_waiter (Some n) HR_OK (Some w) ?k =
        Some ((HR_OK, map_option (\<lambda>_. \<not> suspended_wait (tcb ?k t') \<and> outranks k' t') (Some w)), k')"
      and w: "kernel_inv k'" "calm {} ?k k'" "woke t' ?k k'"
      and q: "\<And>j. is_wait_list j \<Longrightarrow> inited (kmem ?k) j \<Longrightarrow>
        nodes_of (kmem k') j = (if j = ReceiveWaiters q then ns else nodes_of (kmem ?k) j)"
    have t': "t' = t" using p(2) t(1) by simp
    have c: "calm {} k k'"
      using w(2) by (rule calm_fields_left) (simp_all add: hr_queue_copy_def)
    have "hr_queue_send_locked q item timeout allow (Some w) k =
        Some ((HR_OK, None, Some (\<not> suspended_wait (tcb k t) \<and> outranks k' t)), k')"
      using p(1) u b t(1) l(2) assms(3) t' by (simp add: hr_queue_send_locked_def hr_queue_wake_receiver_def)
    then show thesis using t b(2) w c q [OF i(1) k(2)] t' by (intro that [of t buf k']) simp_all
  qed
qed

lemma send_room:
  assumes "kernel_inv k" and "hr_queue_is_valid (Some q) k" and "receive_waiters k q = []"
    and "qcount (qcb k q) < qcapacity (qcb k q)" and "qstorage (qcb k q) = Some st"
  shows "hr_queue_send_locked q item timeout allow (Some w) k = Some ((HR_OK, None, Some w), queue_append q st item k)"
    and "kernel_inv (queue_append q st item k)"
proof -
  note l = queue_lists [OF assms(1,2)]
  show "hr_queue_send_locked q item timeout allow (Some w) k = Some ((HR_OK, None, Some w), queue_append q st item k)"
    using assms(3-5) l(2) by (simp add: hr_queue_send_locked_def)
  let ?k = "hr_queue_copy (hr_queue_slot st (qcb k q) (qtail (qcb k q))) item (qitem_size (qcb k q)) k"
  have k: "kernel_inv ?k" "hr_queue_is_valid (Some q) ?k" using assms(1,2) by (simp_all add: hr_queue_is_valid_def)
  have s: "send_waiters k q = []" using l(5) assms(4) by auto
  have "queue_inv ((qcb ?k q)\<lparr>qtail := (qtail (qcb ?k q) + 1) mod qcapacity (qcb ?k q), qcount := qcount (qcb ?k q) + 1\<rparr>)
      (send_waiters ?k q) (receive_waiters ?k q)"
    using ring_append [OF l(4) assms(4)] s assms(3) by simp
  from kernel_inv_qcb [OF k this] show "kernel_inv (queue_append q st item k)"
    by (simp add: queue_append_def Let_def)
qed

text \<open>The tail of both calls: a full queue for a sender, an empty one for a receiver.\<close>

definition queue_wait ::
  "queue_ptr \<Rightarrow> list_addr \<Rightarrow> hr_task_wait_kind \<Rightarrow> byte_ptr \<Rightarrow> hr_status \<Rightarrow> hr_tick \<Rightarrow> bool \<Rightarrow> bool option \<Rightarrow> hr_kernel \<Rightarrow>
   ((hr_status \<times> task_ptr option \<times> bool option) \<times> hr_kernel) option" where
  "queue_wait q l kind item failed timeout allow_block woken k =
     (if timeout = HR_NO_WAIT then Some ((failed, None, woken), k)
      else if \<not> allow_block then Some ((HR_ERROR_INVALID_STATE, None, woken), k)
      else
        (case hr_task_control_block (hr_task_current k) of
           None \<Rightarrow> Some ((HR_ERROR_INVALID_STATE, None, woken), k)
         | Some blocked_task \<Rightarrow> do {
             (block_status, k) \<leftarrow> hr_kernel_block_current_on_wait_list (Some l) (Some (Obj_queue q)) kind (Some item) timeout k;
             Some ((block_status, if block_status = HR_OK then Some blocked_task else None, woken), k)
           }))"

lemma queue_blocks:
  assumes "kernel_inv k" and "may_block k t" and "inited (kmem k) l" and "timeout \<noteq> HR_NO_WAIT" and "may_wait k l"
    and "l = SendWaiters q \<and> kind = HR_TASK_WAIT_QUEUE_SEND \<or> l = ReceiveWaiters q \<and> kind = HR_TASK_WAIT_QUEUE_RECEIVE"
  obtains k' where "queue_wait q l kind item failed timeout True woken k = Some ((HR_OK, Some t, woken), k')" and "kernel_inv k'"
    and "same_objects k k'" and "entered t (Some l) timeout (kmem k) (kmem k')"
    and "tcb k' = (tcb k)(t := block_tcb l (Obj_queue q) kind (Some item) timeout None (g_kernel_tick k) (tcb k t))"
    and "g_current_task k' = g_current_task k" and "primask k' = primask k"
proof -
  have rq: "wait_request l (Obj_queue q) kind (Some item) None" using assms(6) by (auto simp: wait_request_def)
  have cur: "g_current_task k = Some t" using assms(2) by (simp add: may_block_def)
  show thesis
  proof (rule block_inv [OF assms(1,2) rq assms(3,4)])
    fix k' assume b: "hr_kernel_block_current_on_wait_list_ex (Some l) (Some (Obj_queue q)) kind (Some item) timeout None k = Some (HR_OK, k')"
      and k': "kinv k'" "calm {l} k k'" "same_objects k k'" and e: "entered t (Some l) timeout (kmem k) (kmem k')"
      and T: "tcb k' = (tcb k)(t := block_tcb l (Obj_queue q) kind (Some item) timeout None (g_kernel_tick k) (tcb k t))"
      and c: "g_current_task k' = g_current_task k" "primask k' = primask k"
    have "queue_wait q l kind item failed timeout True woken k = Some ((HR_OK, Some t, woken), k')"
      using b assms(4) cur
      by (simp add: queue_wait_def hr_task_current_def hr_kernel_current_task_internal_def hr_kernel_block_current_on_wait_list_def)
    then show thesis
      by (rule that [OF _ entered_objects [OF assms(1) e k'(3,2) assms(5) k'(1)] k'(3) e T c])
  qed
qed

lemma queue_wait_refused:
  assumes "timeout = HR_NO_WAIT \<or> \<not> allow_block \<or> (\<forall>t. \<not> may_block k t)" and "failed \<noteq> HR_OK"
  shows "\<exists>st. st \<noteq> HR_OK \<and> queue_wait q l kind item failed timeout allow_block woken k = Some ((st, None, woken), k)"
proof (cases "timeout = HR_NO_WAIT \<or> \<not> allow_block \<or> g_current_task k = None")
  case True
  then show ?thesis
    using assms(2) by (auto simp: queue_wait_def hr_task_current_def hr_kernel_current_task_internal_def)
next
  case False
  then obtain t where t: "g_current_task k = Some t" by auto
  have "\<not> may_block k t" using assms(1) False by auto
  then obtain st where "st \<noteq> HR_OK" "hr_kernel_block_current_on_wait_list_ex (Some l) (Some (Obj_queue q)) kind (Some item) timeout None k =
      Some (st, k)"
    using block_refused [OF _ t] by force
  then show ?thesis
    using False t
    by (auto simp: queue_wait_def hr_task_current_def hr_kernel_current_task_internal_def hr_kernel_block_current_on_wait_list_def)
qed

lemma send_full:
  assumes "kernel_inv k" and "hr_queue_is_valid (Some q) k" and "qcount (qcb k q) = qcapacity (qcb k q)"
  shows "hr_queue_send_locked q item timeout allow woken k =
      queue_wait q (SendWaiters q) HR_TASK_WAIT_QUEUE_SEND item HR_ERROR_QUEUE_FULL timeout allow woken k"
    and "may_wait k (SendWaiters q)"
proof -
  note l = queue_lists [OF assms(1,2)]
  have "receive_waiters k q = []" using l(6,8) assms(3) by (cases "receive_waiters k q") auto
  then show "hr_queue_send_locked q item timeout allow woken k =
      queue_wait q (SendWaiters q) HR_TASK_WAIT_QUEUE_SEND item HR_ERROR_QUEUE_FULL timeout allow woken k"
    using assms(3) l(2) by (simp add: hr_queue_send_locked_def queue_wait_def)
  show "may_wait k (SendWaiters q)" using assms(3) by (simp add: may_wait_def)
qed

section \<open>Receiving\<close>

definition take_head :: "queue_ptr \<Rightarrow> byte_ptr \<Rightarrow> byte_ptr \<Rightarrow> hr_kernel \<Rightarrow> hr_kernel" where
  "take_head q st item k =
     queue_drop q (hr_queue_copy item (hr_queue_slot st (qcb k q) (qhead (qcb k q))) (qitem_size (qcb k q)) k)"

lemma take_head_simps [simp]:
  "kmem (take_head q st item k) = kmem k" "tcb (take_head q st item k) = tcb k" "primask (take_head q st item k) = primask k"
  "g_current_task (take_head q st item k) = g_current_task k" "inside_isr (take_head q st item k) = inside_isr k"
  "qcb (take_head q st item k) = (qcb k)(q := (qcb k q)
     \<lparr>qhead := (qhead (qcb k q) + 1) mod qcapacity (qcb k q), qcount := qcount (qcb k q) - 1\<rparr>)"
  by (simp_all add: take_head_def queue_drop_def)

lemma receive_head:
  assumes "0 < qcount (qcb k q)" and "qstorage (qcb k q) = Some st"
  shows "hr_queue_receive_locked q item timeout allow woken k =
    (case hr_queue_fill_from_waiting_sender q woken (take_head q st item k) of
       None \<Rightarrow> None | Some ((status, woken), k) \<Rightarrow> Some ((status, None, woken), k))"
  using assms by (simp add: hr_queue_receive_locked_def take_head_def queue_drop_def Let_def split: option.splits)

lemma receive_no_sender:
  assumes "kernel_inv k" and "hr_queue_is_valid (Some q) k" and "0 < qcount (qcb k q)" and "qstorage (qcb k q) = Some st"
    and "send_waiters k q = []"
  shows "hr_queue_receive_locked q item timeout allow woken k = Some ((HR_OK, None, woken), take_head q st item k)"
    and "kernel_inv (take_head q st item k)"
proof -
  note l = queue_lists [OF assms(1,2)]
  have "hr_queue_fill_from_waiting_sender q woken (take_head q st item k) = Some ((HR_OK, woken), take_head q st item k)"
    using l(3) assms(5) by (simp add: hr_queue_fill_from_waiting_sender_def hr_queue_waiter_task_def)
  then show "hr_queue_receive_locked q item timeout allow woken k = Some ((HR_OK, None, woken), take_head q st item k)"
    by (simp add: receive_head [OF assms(3,4)])
  let ?k = "hr_queue_copy item (hr_queue_slot st (qcb k q) (qhead (qcb k q))) (qitem_size (qcb k q)) k"
  have k: "kernel_inv ?k" "hr_queue_is_valid (Some q) ?k" using assms(1,2) by (simp_all add: hr_queue_is_valid_def)
  have r: "receive_waiters k q = []" using l(6) assms(3) by auto
  have "queue_inv ((qcb ?k q)\<lparr>qhead := (qhead (qcb ?k q) + 1) mod qcapacity (qcb ?k q), qcount := qcount (qcb ?k q) - 1\<rparr>)
      (send_waiters ?k q) (receive_waiters ?k q)"
    using ring_drop [OF l(4) assms(3)] r assms(5) by simp
  from kernel_inv_qcb [OF k this] show "kernel_inv (take_head q st item k)"
    by (simp add: take_head_def queue_drop_def)
qed

lemma receive_empty:
  assumes "kernel_inv k" and "hr_queue_is_valid (Some q) k" and "qcount (qcb k q) = 0"
  shows "hr_queue_receive_locked q item timeout allow woken k =
      queue_wait q (ReceiveWaiters q) HR_TASK_WAIT_QUEUE_RECEIVE item HR_ERROR_QUEUE_EMPTY timeout allow woken k"
    and "may_wait k (ReceiveWaiters q)"
proof -
  note l = queue_lists [OF assms(1,2)]
  have "send_waiters k q = []" using l(5,8) assms(3) by (cases "send_waiters k q") auto
  then show "hr_queue_receive_locked q item timeout allow woken k =
      queue_wait q (ReceiveWaiters q) HR_TASK_WAIT_QUEUE_RECEIVE item HR_ERROR_QUEUE_EMPTY timeout allow woken k"
    using assms(3) l(1) by (simp add: hr_queue_receive_locked_def queue_wait_def)
  show "may_wait k (ReceiveWaiters q)" using assms(3) by (simp add: may_wait_def)
qed

lemma refilled_inv:
  assumes "kernel_inv k" and "hr_queue_is_valid (Some q) k" and "send_waiters k q \<noteq> []"
  shows "kernel_inv (queue_append q st src (take_head q st item k))" (is "kernel_inv ?k")
proof -
  note l = queue_lists [OF assms(1,2)]
  let ?c = "qcb k q"
  have n: "qcount ?c = qcapacity ?c" "0 < qcount ?c" using l(5,8) assms(3) by simp_all
  have r: "receive_waiters k q = []" using l(6) n(2) by auto
  have "queue_inv (qcb ?k q) [] []"
    using ring_append [OF ring_drop [OF l(4) n(2)]] n by simp
  then have "queue_inv (qcb ?k q) (send_waiters k q) (receive_waiters k q)"
    using r n by (subst ring_inv) simp
  then have "kernel_inv (k\<lparr>qcb := (qcb k)(q := qcb ?k q)\<rparr>)"
    by (rule kernel_inv_qcb [OF assms(1,2)]) simp
  moreover have "?k = k\<lparr>qcb := (qcb k)(q := qcb ?k q), bytes := bytes ?k\<rparr>"
    by (simp add: queue_append_def take_head_def queue_drop_def hr_queue_copy_def Let_def)
  ultimately show ?thesis by (metis kernel_inv_upd(5))
qed

lemma receive_refill:
  assumes "kernel_inv k" and "hr_queue_is_valid (Some q) k" and "qstorage (qcb k q) = Some st" and "send_waiters k q = n # ns"
  obtains t buf k' where "n = WaitNode t" and "twait_buffer (tcb k t) = Some buf"
    and "hr_queue_receive_locked q item timeout allow (Some w) k =
      Some ((HR_OK, None, Some (\<not> suspended_wait (tcb k t) \<and> outranks k' t)), k')"
    and "kernel_inv k'" and "send_waiters k' q = ns" and "woke t (queue_append q st buf (take_head q st item k)) k'"
    and "calm {} (queue_append q st buf (take_head q st item k)) k'"
proof -
  note v = queue_valid [OF kernel_invD(3) [OF assms(1)], of q]
  note l = queue_lists [OF assms(1,2)]
  have i: "is_wait_list (SendWaiters q)" "inited (kmem k) (SendWaiters q)" using v(2) assms(2) by simp_all
  have c: "0 < qcount (qcb k q)" "qcount (qcb k q) - 1 < qcapacity (qcb k q)" using l(5,8) assms(4) by simp_all
  obtain t where t: "n = WaitNode t" "vwait (view (kmem k) t) = Some (SendWaiters q)"
    by (rule wait_list_member [OF kinvD(1) [OF kernel_invD(1) [OF assms(1)]] i, of n]) (use assms(4) in auto)
  obtain buf where b: "hr_queue_waiter_task (Some (WaitNode t)) k = Some (Some t)" "twait_buffer (tcb k t) = Some buf"
      "twait_kind (tcb k t) = HR_TASK_WAIT_QUEUE_SEND" "twaiting_object (tcb k t) = Some (Obj_queue q)"
    by (rule queue_waiter [OF kernel_invD(1) [OF assms(1)] t(2), of q]) auto
  let ?h = "take_head q st item k"
  let ?k = "queue_append q st buf ?h"
  have ki: "kernel_inv ?k" by (rule refilled_inv [OF assms(1,2)]) (use assms(4) in simp)
  have k: "inited (kmem ?k) (SendWaiters q)" "nodes_of (kmem ?k) (SendWaiters q) = n # ns"
    using assms(4) i(2) by simp_all
  have wt: "hr_queue_waiter_task (Some (WaitNode t)) ?h = Some (Some t)"
    using b(1) by (simp add: waiter_task_cong [of ?h k])
  show thesis
  proof (rule unblock_woke [OF ki i(1) k, where woken = "Some w"])
    fix t' k' assume p: "hr_wait_list_peek (Some (SendWaiters q)) (kmem ?k) = Some n" "n = WaitNode t'"
      and u: "hr_kernel_unblock_waiter (Some n) HR_OK (Some w) ?k =
        Some ((HR_OK, map_option (\<lambda>_. \<not> suspended_wait (tcb ?k t') \<and> outranks k' t') (Some w)), k')"
      and w: "kernel_inv k'" "calm {} ?k k'" "woke t' ?k k'"
      and q: "\<And>j. is_wait_list j \<Longrightarrow> inited (kmem ?k) j \<Longrightarrow>
        nodes_of (kmem k') j = (if j = SendWaiters q then ns else nodes_of (kmem ?k) j)"
    have t': "t' = t" using p(2) t(1) by simp
    have "hr_queue_fill_from_waiting_sender q (Some w) ?h =
        Some ((HR_OK, Some (\<not> suspended_wait (tcb k t) \<and> outranks k' t)), k')"
      using p(1) u b wt t(1) c assms(3) t' by (simp add: hr_queue_fill_from_waiting_sender_def)
    then have "hr_queue_receive_locked q item timeout allow (Some w) k =
        Some ((HR_OK, None, Some (\<not> suspended_wait (tcb k t) \<and> outranks k' t)), k')"
      by (simp add: receive_head [OF c(1) assms(3)])
    then show thesis using t b(2) w q [OF i(1) k(1)] t' by (intro that [of t buf k']) simp_all
  qed
qed

section \<open>The calls\<close>

text \<open>What every path of the locked halves gives.\<close>

definition queue_step :: "hr_kernel \<Rightarrow> ((hr_status \<times> task_ptr option \<times> bool option) \<times> hr_kernel) option \<Rightarrow> bool" where
  "queue_step k r \<longleftrightarrow> (\<exists>st b w k'. r = Some ((st, b, Some w), k') \<and> kernel_inv k' \<and> inside_isr k' = inside_isr k)"

lemma wait_step:
  assumes "kernel_inv k" and "inited (kmem k) l" and "may_wait k l" and "failed \<noteq> HR_OK"
    and "l = SendWaiters q \<and> kind = HR_TASK_WAIT_QUEUE_SEND \<or> l = ReceiveWaiters q \<and> kind = HR_TASK_WAIT_QUEUE_RECEIVE"
  shows "queue_step k (queue_wait q l kind item failed timeout allow (Some w) k)"
proof (cases "timeout = HR_NO_WAIT \<or> \<not> allow \<or> (\<forall>t. \<not> may_block k t)")
  case True
  show ?thesis using queue_wait_refused [OF True assms(4), of q l kind item "Some w"] assms(1) by (auto simp: queue_step_def)
next
  case False
  then obtain t where t: "may_block k t" "timeout \<noteq> HR_NO_WAIT" "allow" by auto
  show ?thesis
    by (rule queue_blocks [OF assms(1) t(1) assms(2) t(2) assms(3,5), of item failed "Some w"])
      (use t(3) in \<open>auto simp: queue_step_def same_objects_def\<close>)
qed

lemma send_step:
  assumes "kernel_inv k" and "hr_queue_is_valid (Some q) k"
  shows "queue_step k (hr_queue_send_locked q item timeout allow (Some w) k)"
proof (cases "receive_waiters k q")
  case (Cons n ns)
  show ?thesis
    by (rule send_to_receiver [OF assms Cons, of item timeout allow w])
      (simp add: queue_step_def woke_def same_objects_def)
next
  case Nil
  note l = queue_lists [OF assms]
  obtain st where st: "qstorage (qcb k q) = Some st" using l(7) by auto
  show ?thesis
  proof (cases "qcount (qcb k q) < qcapacity (qcb k q)")
    case True
    show ?thesis using send_room [OF assms Nil True st] by (simp add: queue_step_def)
  next
    case False
    then have f: "qcount (qcb k q) = qcapacity (qcb k q)" using l(9) by simp
    note s = send_full [OF assms f]
    show ?thesis
      unfolding s(1) by (rule wait_step [OF assms(1) _ s(2)]) (use queue_valid(2) [OF kernel_invD(3) [OF assms(1)] assms(2)] in simp_all)
  qed
qed

lemma receive_step:
  assumes "kernel_inv k" and "hr_queue_is_valid (Some q) k"
  shows "queue_step k (hr_queue_receive_locked q item timeout allow (Some w) k)"
proof (cases "qcount (qcb k q) = 0")
  case True
  note r = receive_empty [OF assms True]
  show ?thesis
    unfolding r(1) by (rule wait_step [OF assms(1) _ r(2)]) (use queue_valid(3) [OF kernel_invD(3) [OF assms(1)] assms(2)] in simp_all)
next
  case False
  then have c: "0 < qcount (qcb k q)" by simp
  obtain st where st: "qstorage (qcb k q) = Some st" using queue_lists(7) [OF assms] by auto
  show ?thesis
  proof (cases "send_waiters k q")
    case Nil
    show ?thesis using receive_no_sender [OF assms c st Nil] by (simp add: queue_step_def)
  next
    case (Cons n ns)
    show ?thesis
      by (rule receive_refill [OF assms st Cons, of item timeout allow w])
        (simp add: queue_step_def woke_def same_objects_def)
  qed
qed

lemma locked_call:
  assumes "queue_step (k\<lparr>primask := 1\<rparr>) r"
  shows "\<exists>out k'. (do {
      ((status, blocked, woken), k') \<leftarrow> r;
      queue_call_return status blocked woken (hr_port_exit_critical (primask k) k') }) = Some (out, k') \<and> kernel_inv k'"
    and "\<exists>st w' k'. (do {
      ((status, _, switch_required), k') \<leftarrow> r;
      let k' = hr_port_exit_critical (primask k) k';
      Some ((status, map_option (\<lambda>_. switch_required = Some True) woken), k') }) = Some ((st, w'), k') \<and> kernel_inv k'"
  using assms by (auto simp: queue_step_def queue_call_return_def Let_def split: option.splits)

lemma send_inv:
  assumes "kernel_inv k"
  shows "\<exists>out k'. hr_queue_send queue item timeout k = Some (out, k') \<and> kernel_inv k'"
    and "\<exists>st w k'. hr_queue_send_from_isr queue item woken k = Some ((st, w), k') \<and> kernel_inv k'"
proof -
  have k: "kernel_inv (k\<lparr>primask := 1\<rparr>)" using assms by simp
  have v: "hr_queue_is_valid (Some q) (k\<lparr>primask := 1\<rparr>) = hr_queue_is_valid (Some q) k" for q by (simp add: hr_queue_is_valid_def)
  note s = send_step [OF k, unfolded v]
  show "\<exists>out k'. hr_queue_send queue item timeout k = Some (out, k') \<and> kernel_inv k'"
    using assms locked_call(1) [OF s]
    by (cases queue; cases item) (auto simp: hr_queue_send_def hr_port_enter_critical_def)
  show "\<exists>st w k'. hr_queue_send_from_isr queue item woken k = Some ((st, w), k') \<and> kernel_inv k'"
    using assms locked_call(2) [OF s]
    by (cases queue; cases item) (auto simp: hr_queue_send_from_isr_def hr_port_enter_critical_def)
qed

lemma receive_inv:
  assumes "kernel_inv k"
  shows "\<exists>out k'. hr_queue_receive queue item timeout k = Some (out, k') \<and> kernel_inv k'"
    and "\<exists>st w k'. hr_queue_receive_from_isr queue item woken k = Some ((st, w), k') \<and> kernel_inv k'"
proof -
  have k: "kernel_inv (k\<lparr>primask := 1\<rparr>)" using assms by simp
  have v: "hr_queue_is_valid (Some q) (k\<lparr>primask := 1\<rparr>) = hr_queue_is_valid (Some q) k" for q by (simp add: hr_queue_is_valid_def)
  note s = receive_step [OF k, unfolded v]
  show "\<exists>out k'. hr_queue_receive queue item timeout k = Some (out, k') \<and> kernel_inv k'"
    using assms locked_call(1) [OF s]
    by (cases queue; cases item) (auto simp: hr_queue_receive_def hr_port_enter_critical_def)
  show "\<exists>st w k'. hr_queue_receive_from_isr queue item woken k = Some ((st, w), k') \<and> kernel_inv k'"
    using assms locked_call(2) [OF s]
    by (cases queue; cases item) (auto simp: hr_queue_receive_from_isr_def hr_port_enter_critical_def)
qed

section \<open>Creating\<close>

definition new_queue_mem :: "queue_ptr \<Rightarrow> mem \<Rightarrow> mem" where
  "new_queue_mem q m = hr_list_init (Some (ReceiveWaiters q)) (hr_list_init (Some (SendWaiters q))
     (set_size (ReceiveWaiters q) 0 (set_node (Root (ReceiveWaiters q)) zero_node
       (set_size (SendWaiters q) 0 (set_node (Root (SendWaiters q)) zero_node m)))))"

lemma new_queue_mem:
  assumes "mem_ok m" and "\<not> inited m (SendWaiters q)" and "\<not> inited m (ReceiveWaiters q)"
  shows "set_up {SendWaiters q, ReceiveWaiters q} {Root (SendWaiters q), Root (ReceiveWaiters q)} m (new_queue_mem q m)"
proof -
  let ?m = "set_size (ReceiveWaiters q) 0 (set_node (Root (ReceiveWaiters q)) zero_node
       (set_size (SendWaiters q) 0 (set_node (Root (SendWaiters q)) zero_node m)))"
  let ?s = "hr_list_init (Some (SendWaiters q)) ?m"
  have z: "set_up {} {Root (SendWaiters q), Root (ReceiveWaiters q)} m ?m"
    by (rule set_up_nodes [OF assms(1)])
      (use assms(2,3) free_root [OF assms(1,2)] free_root [OF assms(1,3)] in \<open>auto simp: node_upd_defs zero_node_def\<close>)
  then have m: "mem_ok ?m" "\<not> inited ?m (SendWaiters q)" "\<not> inited ?m (ReceiveWaiters q)"
    using assms(2,3) by (simp_all add: set_up_def)
  have s: "set_up {SendWaiters q} {} ?m ?s" by (rule set_up_new [OF m(1,2)])
  then have s': "mem_ok ?s" "\<not> inited ?s (ReceiveWaiters q)" using m(3) by (auto simp: set_up_def)
  from set_up_trans [OF z set_up_trans [OF s set_up_new [OF s']]] show ?thesis
    by (simp add: new_queue_mem_def insert_commute)
qed

lemma queue_create_eq:
  "hr_queue_create_static queue storage item_size capacity k =
     (case queue of
        None \<Rightarrow> (HR_ERROR_INVALID_ARGUMENT, k)
      | Some q \<Rightarrow>
          if storage = None \<or> item_size = 0 \<or> capacity = 0 \<or> \<not> hr_queue_multiply_fits item_size capacity
          then (HR_ERROR_INVALID_ARGUMENT, k)
          else if hr_queue_is_valid queue k then (HR_ERROR_INVALID_STATE, k)
          else (HR_OK, k\<lparr>kmem := new_queue_mem q (kmem k), qcb := (qcb k)(q :=
            \<lparr>qstorage = storage, qitem_size = item_size, qcapacity = capacity, qhead = 0, qtail = 0, qcount = 0,
             qmagic = HR_CFG_QUEUE_MAGIC\<rparr>)\<rparr>))"
  by (cases queue) (simp_all add: hr_queue_create_static_def hr_queue_zero_control_block_def Let_def
      hr_wait_list_init_def zero_qcb_def new_queue_mem_def)

lemma multiply_fits: "0 < a \<Longrightarrow> hr_queue_multiply_fits a b \<longleftrightarrow> a * b \<le> SIZE_MAX"
  by (simp add: hr_queue_multiply_fits_def less_eq_div_iff_mult_less_eq mult.commute)

lemma queue_created:
  fixes st :: byte_ptr
  assumes "kernel_inv k" and "\<not> hr_queue_is_valid (Some q) k" and "0 < item_size" and "0 < capacity"
    and "item_size * capacity \<le> SIZE_MAX"
  shows "kernel_inv (k\<lparr>kmem := new_queue_mem q (kmem k), qcb := (qcb k)(q :=
            \<lparr>qstorage = Some st, qitem_size = item_size, qcapacity = capacity, qhead = 0, qtail = 0, qcount = 0,
             qmagic = HR_CFG_QUEUE_MAGIC\<rparr>)\<rparr>)" (is "kernel_inv ?k")
proof -
  note i = kernel_invD [OF assms(1)]
  have ni: "\<not> inited (kmem k) (SendWaiters q)" "\<not> inited (kmem k) (ReceiveWaiters q)" "qmagic (qcb k q) \<noteq> HR_CFG_QUEUE_MAGIC"
    using assms(2) queue_valid(1) [OF i(3)] i(3) by (auto simp: queues_ok_def)
  note u = new_queue_mem [OF kinvD(1) [OF i(1)] ni(1,2)]
  have o: "owners_ok (new_queue_mem q (kmem k)) (tcb k) (mcb k)"
    by (rule set_up_owners [OF kinvD(3) [OF i(1)] u]) auto
  have n: "x \<in> {Root (SendWaiters q), Root (ReceiveWaiters q)} \<Longrightarrow> \<not> task_node x" for x by auto
  have "kinv ?k" using set_up_kinv [OF i(1) u n o] by simp
  moreover have "queues_ok ?k"
    using i(3) u assms(3-5) ni unfolding queues_ok_def set_up_def by (auto simp: queue_inv_def)
  moreover have "sems_ok ?k"
    by (rule sems_ok_calm [OF i(2)], rule set_up_same(1) [where k' = ?k]) (use u in auto)
  moreover have "mutexes_ok ?k"
    by (rule mutexes_ok_calm [OF i(5) kinvD(3) [OF i(1)]], rule set_up_same(3) [where k' = ?k]) (use u in auto)
  moreover have "timers_ok ?k"
    by (rule timers_ok_calm [OF i(4)], rule set_up_same(4) [where k' = ?k]) (use u in auto)
  ultimately show ?thesis by (simp add: kernel_inv_def)
qed

lemma queue_create_inv:
  assumes "kernel_inv k"
  shows "kernel_inv (snd (hr_queue_create_static queue storage item_size capacity k))"
  using assms queue_created [OF assms]
  by (cases queue; cases storage) (auto simp: queue_create_eq multiply_fits)

end
