(* ===== verification/HR_Mutex.thy ===== *)
theory HR_Mutex
  imports HR_Objects
begin

text \<open>
  The mutexes of \<open>kernel/src/hr_mutex.c\<close> with ownership, recursion and priority inheritance.
  The computation of inherited priorities is in \<open>HR_Priority\<close>.
\<close>

section \<open>Operations\<close>

definition hr_mutex_zero_control_block :: "mutex_ptr \<Rightarrow> hr_kernel \<Rightarrow> hr_kernel" where
  "hr_mutex_zero_control_block x k =
     k\<lparr>mcb := (mcb k)(x := zero_mcb),
       kmem := set_node (OwnerNode x) zero_node
         (set_size (MutexWaiters x) 0 (set_node (Root (MutexWaiters x)) zero_node (kmem k)))\<rparr>"

definition hr_mutex_is_valid :: "mutex_ptr option \<Rightarrow> hr_kernel \<Rightarrow> bool" where
  "hr_mutex_is_valid mutex k =
     (case hr_mutex_control_block_const mutex of
        None \<Rightarrow> False
      | Some x \<Rightarrow>
          mmagic (mcb k x) = HR_CFG_MUTEX_MAGIC \<and>
          ((mowner (mcb k x) = None \<and> mrecursion_count (mcb k x) = 0 \<and>
            \<not> hr_list_node_is_linked (Some (OwnerNode x)) (kmem k)) \<or>
           (mowner (mcb k x) \<noteq> None \<and> hr_task_is_valid (mowner (mcb k x)) k \<and>
            mrecursion_count (mcb k x) > 0 \<and> hr_list_node_is_linked (Some (OwnerNode x)) (kmem k))))"

definition hr_mutex_validate_internal :: "mutex_ptr option \<Rightarrow> hr_kernel \<Rightarrow> bool option" where
  "hr_mutex_validate_internal mutex k =
     (if \<not> hr_mutex_is_valid mutex k then Some False
      else do {
        ok \<leftarrow> hr_wait_list_validate (Some (MutexWaiters (the mutex))) (kmem k);
        if \<not> ok then Some False
        else
          (case mowner (mcb k (the mutex)) of
             Some ow \<Rightarrow> Some (nlist (nodes (kmem k) (OwnerNode (the mutex))) = Some (OwnedMutexes ow))
           | None \<Rightarrow> Some True)
      })"

definition hr_mutex_create_internal :: "mutex_ptr option \<Rightarrow> bool \<Rightarrow> hr_kernel \<Rightarrow> hr_status \<times> hr_kernel" where
  "hr_mutex_create_internal mutex recursive k =
     (case mutex of
        None \<Rightarrow> (HR_ERROR_INVALID_ARGUMENT, k)
      | Some x \<Rightarrow>
          if hr_mutex_is_valid mutex k then (HR_ERROR_INVALID_STATE, k)
          else
            (let k = hr_mutex_zero_control_block x k;
                 k = k\<lparr>mcb := (mcb k)(x := (mcb k x)\<lparr>mrecursive := recursive\<rparr>)\<rparr>;
                 k = k\<lparr>kmem := hr_wait_list_init (Some (MutexWaiters x)) (kmem k)\<rparr>;
                 k = k\<lparr>kmem := hr_list_node_init (Some (OwnerNode x)) (Some (Mutex_obj x)) (kmem k)\<rparr>
             in (HR_OK, k\<lparr>mcb := (mcb k)(x := (mcb k x)\<lparr>mmagic := HR_CFG_MUTEX_MAGIC\<rparr>)\<rparr>)))"

definition hr_mutex_create :: "mutex_ptr option \<Rightarrow> hr_kernel \<Rightarrow> hr_status \<times> hr_kernel" where
  "hr_mutex_create mutex k = hr_mutex_create_internal mutex False k"

definition hr_mutex_create_recursive :: "mutex_ptr option \<Rightarrow> hr_kernel \<Rightarrow> hr_status \<times> hr_kernel" where
  "hr_mutex_create_recursive mutex k = hr_mutex_create_internal mutex True k"

definition hr_mutex_is_recursive :: "mutex_ptr option \<Rightarrow> hr_kernel \<Rightarrow> bool" where
  "hr_mutex_is_recursive mutex k \<longleftrightarrow> hr_mutex_is_valid mutex k \<and> mrecursive (mcb k (the mutex))"

definition hr_mutex_get_owner :: "mutex_ptr option \<Rightarrow> hr_kernel \<Rightarrow> task_ptr option" where
  "hr_mutex_get_owner mutex k = (if hr_mutex_is_valid mutex k then mowner (mcb k (the mutex)) else None)"

definition hr_mutex_get_recursion_count :: "mutex_ptr option \<Rightarrow> hr_kernel \<Rightarrow> 32 word" where
  "hr_mutex_get_recursion_count mutex k =
     (if hr_mutex_is_valid mutex k then mrecursion_count (mcb k (the mutex)) else 0)"

definition hr_mutex_get_waiting_tasks :: "mutex_ptr option \<Rightarrow> hr_kernel \<Rightarrow> nat" where
  "hr_mutex_get_waiting_tasks mutex k =
     (if hr_mutex_is_valid mutex k then hr_wait_list_size (Some (MutexWaiters (the mutex))) (kmem k) else 0)"

definition hr_mutex_attach_owner ::
  "mutex_ptr option \<Rightarrow> task_ptr option \<Rightarrow> hr_kernel \<Rightarrow> (hr_status \<times> hr_kernel) option" where
  "hr_mutex_attach_owner mutex owner_task k =
     (case (mutex, owner_task) of
        (Some x, Some ow) \<Rightarrow>
          if \<not> hr_task_is_valid owner_task k \<or> mowner (mcb k x) \<noteq> None \<or>
             hr_list_node_is_linked (Some (OwnerNode x)) (kmem k)
          then Some (HR_ERROR_INVALID_STATE, k)
          else do {
            (status, k) \<leftarrow> on_mem (hr_list_push_back (Some (OwnedMutexes ow)) (Some (OwnerNode x))) k;
            if status \<noteq> HR_OK then Some (status, k)
            else do {
              let k = k\<lparr>mcb := (mcb k)(x := (mcb k x)\<lparr>mowner := Some ow, mrecursion_count := 1\<rparr>)\<rparr>;
              Some (HR_OK, upd_tcb ow (\<lambda>c. c\<lparr>towned_mutex_count := towned_mutex_count c + 1\<rparr>) k)
            }
          }
      | _ \<Rightarrow> Some (HR_ERROR_INVALID_STATE, k))"

text \<open>The second component is the value written to \<open>*old_owner\<close>, which starts as NULL.\<close>

definition hr_mutex_detach_owner ::
  "mutex_ptr option \<Rightarrow> hr_kernel \<Rightarrow> ((hr_status \<times> task_ptr option) \<times> hr_kernel) option" where
  "hr_mutex_detach_owner mutex k =
     (case mutex of
        None \<Rightarrow> Some ((HR_ERROR_INVALID_STATE, None), k)
      | Some x \<Rightarrow>
          (case mowner (mcb k x) of
             None \<Rightarrow> Some ((HR_ERROR_INVALID_STATE, None), k)
           | Some ow \<Rightarrow>
               if \<not> hr_task_is_valid (Some ow) k \<or> \<not> hr_list_node_is_linked (Some (OwnerNode x)) (kmem k)
               then Some ((HR_ERROR_INVALID_STATE, None), k)
               else if towned_mutex_count (tcb k ow) = 0 \<or>
                       nlist (nodes (kmem k) (OwnerNode x)) \<noteq> Some (OwnedMutexes ow)
               then Some ((HR_ERROR_INTERNAL, None), k)
               else do {
                 (status, k) \<leftarrow> on_mem (hr_list_remove (Some (OwnerNode x))) k;
                 if status \<noteq> HR_OK then Some ((status, None), k)
                 else do {
                   let k = upd_tcb ow (\<lambda>c. c\<lparr>towned_mutex_count := towned_mutex_count c - 1\<rparr>) k;
                   Some ((HR_OK, Some ow),
                     k\<lparr>mcb := (mcb k)(x := (mcb k x)\<lparr>mowner := None, mrecursion_count := 0\<rparr>)\<rparr>)
                 }
               }))"

text \<open>The critical section of \<open>hr_mutex_lock\<close>; the boolean is \<open>blocked\<close>.\<close>

definition mutex_lock_locked ::
  "mutex_ptr \<Rightarrow> task_ptr \<Rightarrow> hr_tick \<Rightarrow> hr_kernel \<Rightarrow> ((hr_status \<times> bool) \<times> hr_kernel) option" where
  "mutex_lock_locked x current timeout k =
     (if mowner (mcb k x) = None then do {
        (status, k) \<leftarrow> hr_mutex_attach_owner (Some x) (Some current) k;
        Some ((status, False), k)
      }
      else if mowner (mcb k x) = Some current then
        (if \<not> mrecursive (mcb k x) then Some ((HR_ERROR_MUTEX_BUSY, False), k)
         else if mrecursion_count (mcb k x) = UINT32_MAX then Some ((HR_ERROR_OVERFLOW, False), k)
         else Some ((HR_OK, False),
           k\<lparr>mcb := (mcb k)(x := (mcb k x)\<lparr>mrecursion_count := mrecursion_count (mcb k x) + 1\<rparr>)\<rparr>))
      else if timeout = HR_NO_WAIT then Some ((HR_ERROR_MUTEX_BUSY, False), k)
      else do {
        (status, k) \<leftarrow> hr_kernel_block_current_on_wait_list_ex (Some (MutexWaiters x)) (Some (Obj_mutex x))
          HR_TASK_WAIT_MUTEX_LOCK None timeout (Some Cleanup_mutex) k;
        if status \<noteq> HR_OK then Some ((status, False), k)
        else do {
          (status, k) \<leftarrow> hr_mutex_recompute_owner_priority (Some x) k;
          if status \<noteq> HR_OK then do {
            (_, k) \<leftarrow> hr_kernel_unblock_waiter (Some (WaitNode current)) status None k;
            Some ((status, True), k)
          }
          else Some ((status, True), k)
        }
      })"

definition hr_mutex_lock :: "mutex_ptr option \<Rightarrow> hr_tick \<Rightarrow> hr_kernel \<Rightarrow> (outcome \<times> hr_kernel) option" where
  "hr_mutex_lock mutex_object timeout k =
     (case mutex_object of
        None \<Rightarrow> Some (Returned HR_ERROR_INVALID_ARGUMENT, k)
      | Some x \<Rightarrow>
          if \<not> hr_mutex_is_valid mutex_object k then Some (Returned HR_ERROR_INVALID_ARGUMENT, k)
          else if hr_port_is_inside_isr k then Some (Returned HR_ERROR_FROM_ISR, k)
          else if \<not> hr_kernel_is_running k then Some (Returned HR_ERROR_INVALID_STATE, k)
          else
            (case hr_task_current k of
               None \<Rightarrow> Some (Returned HR_ERROR_INVALID_STATE, k)
             | Some current \<Rightarrow>
                 if \<not> hr_task_is_valid (Some current) k then Some (Returned HR_ERROR_INVALID_STATE, k)
                 else do {
                   let (irq_state, k) = hr_port_enter_critical k;
                   ((status, blocked), k) \<leftarrow> mutex_lock_locked x current timeout k;
                   let k = hr_port_exit_critical irq_state k;
                   if blocked then Some (Blocked current, hr_port_request_context_switch k)
                   else Some (Returned status, k)
                 }))"

text \<open>
  The last branch of \<open>hr_mutex_unlock\<close>: hand-over to the first waiter. The result is
  \<open>Inl\<close> for the early return and \<open>Inr (status, request_switch)\<close> otherwise.
\<close>

definition mutex_release :: "mutex_ptr \<Rightarrow> hr_kernel \<Rightarrow> ((hr_status + hr_status \<times> bool) \<times> hr_kernel) option" where
  "mutex_release x k = do {
     let waiter = hr_wait_list_peek (Some (MutexWaiters x)) (kmem k);
     next_owner_task \<leftarrow> (case waiter of None \<Rightarrow> Some None | Some w \<Rightarrow> as_task (hr_list_node_owner (Some w) (kmem k)));
     if waiter \<noteq> None \<and> \<not> hr_task_is_valid next_owner_task k then Some (Inl HR_ERROR_INTERNAL, k)
     else do {
       ((status, old_owner), k) \<leftarrow> hr_mutex_detach_owner (Some x) k;
       ((status, new_owner, woken), k) \<leftarrow>
         (if status = HR_OK \<and> next_owner_task \<noteq> None then do {
            (status, k) \<leftarrow> hr_mutex_attach_owner (Some x) next_owner_task k;
            if status = HR_OK then do {
              ((status, woken), k) \<leftarrow> hr_kernel_unblock_waiter waiter HR_OK (Some False) k;
              Some ((status, next_owner_task, woken), k)
            }
            else Some ((status, None, Some False), k)
          }
          else Some ((status, None, Some False), k));
       (status, k) \<leftarrow>
         (if status = HR_OK \<and> old_owner \<noteq> None then hr_mutex_recompute_task_priority old_owner 0 k
          else Some (status, k));
       (status, k) \<leftarrow>
         (if status = HR_OK \<and> new_owner \<noteq> None then hr_mutex_recompute_task_priority new_owner 0 k
          else Some (status, k));
       Some (Inr (status, woken = Some True \<or> hr_kernel_current_should_preempt k), k)
     }
   }"

definition hr_mutex_unlock :: "mutex_ptr option \<Rightarrow> hr_kernel \<Rightarrow> (hr_status \<times> hr_kernel) option" where
  "hr_mutex_unlock mutex_object k =
     (case mutex_object of
        None \<Rightarrow> Some (HR_ERROR_INVALID_ARGUMENT, k)
      | Some x \<Rightarrow>
          if \<not> hr_mutex_is_valid mutex_object k then Some (HR_ERROR_INVALID_ARGUMENT, k)
          else if hr_port_is_inside_isr k then Some (HR_ERROR_FROM_ISR, k)
          else if \<not> hr_task_is_valid (hr_task_current k) k then Some (HR_ERROR_INVALID_STATE, k)
          else do {
            let current_task = hr_task_current k;
            let (irq_state, k) = hr_port_enter_critical k;
            (result, k) \<leftarrow>
              (if mowner (mcb k x) \<noteq> current_task then Some (Inr (HR_ERROR_NOT_OWNER, False), k)
               else if mrecursive (mcb k x) \<and> mrecursion_count (mcb k x) > 1
               then Some (Inr (HR_OK, False),
                 k\<lparr>mcb := (mcb k)(x := (mcb k x)\<lparr>mrecursion_count := mrecursion_count (mcb k x) - 1\<rparr>)\<rparr>)
               else mutex_release x k);
            let k = hr_port_exit_critical irq_state k;
            (case result of
               Inl status \<Rightarrow> Some (status, k)
             | Inr (status, request_switch) \<Rightarrow>
                 Some (status, if status = HR_OK \<and> request_switch then hr_port_request_context_switch k else k))
          })"

section \<open>Ownership\<close>

text \<open>What a change of the owner of \<open>x\<close> leaves alone.\<close>

definition ownership :: "mutex_ptr \<Rightarrow> hr_kernel \<Rightarrow> hr_kernel \<Rightarrow> bool" where
  "ownership x k k' \<longleftrightarrow>
     k' = k\<lparr>kmem := kmem k', tcb := tcb k', mcb := mcb k'\<rparr> \<and> (\<forall>y. y \<noteq> x \<longrightarrow> mcb k' y = mcb k y) \<and>
     (\<forall>t. tcb k' t = (tcb k t)\<lparr>towned_mutex_count := towned_mutex_count (tcb k' t)\<rparr>) \<and>
     view (kmem k') = view (kmem k) \<and> mem_ok (kmem k') \<and> same_timeouts (kmem k) (kmem k') \<and>
     (\<forall>l. inited (kmem k) l \<longrightarrow> \<not> (\<exists>t. l = OwnedMutexes t) \<longrightarrow> nodes_of (kmem k') l = nodes_of (kmem k) l) \<and>
     ready_seq (kmem k') G_scheduler = ready_seq (kmem k) G_scheduler \<and> npriority (kmem k') = npriority (kmem k) \<and>
     (\<forall>n. n \<noteq> OwnerNode x \<longrightarrow> nlist (nodes (kmem k') n) = nlist (nodes (kmem k) n)) \<and>
     (\<forall>n. nowner (nodes (kmem k') n) = nowner (nodes (kmem k) n))"

lemma owned_count_ok [simp]:
  "task_ok E X v (c\<lparr>towned_mutex_count := n\<rparr>) t = task_ok E X v c t"
  by (simp add: task_ok_def created_ok_def registered_ok_def no_wait_def prio_ok_def limbo_def task_state_ok_def in_ready_def
      waiting_def delaying_def on_wait_list_def detached_def timeout_armed_def cong: hr_task_state.case_cong)

lemma ownership_kinv:
  assumes "kinvx E X k" and "ownership x k k'" and "owners_ok (kmem k') (tcb k') (mcb k')"
  shows "kinvx E X k'"
proof -
  note o = assms(2) [unfolded ownership_def]
  have e: "k' = k\<lparr>kmem := kmem k', tcb := tcb k', mcb := mcb k'\<rparr>" using o by blast
  have c: "tcb k' t = (tcb k t)\<lparr>towned_mutex_count := towned_mutex_count (tcb k' t)\<rparr>" for t using o by blast
  have v: "view (kmem k') = view (kmem k)" using o by blast
  have f: "g_kernel_state k' = g_kernel_state k" "g_current_task k' = g_current_task k" "g_task_count k' = g_task_count k"
      "g_hr_current_task_control_block k' = g_hr_current_task_control_block k" "g_kernel_tick k' = g_kernel_tick k"
    by (subst e, simp)+
  have t: "task_ok E X (view (kmem k') t) (tcb k' t) t" for t
    unfolding v by (subst c) (simp add: kinvD(8) [OF assms(1)])
  have s: "tstate (tcb k' t) = tstate (tcb k t)" for t by (subst c) simp
  have l: "nodes_of (kmem k') AllTasks = nodes_of (kmem k) AllTasks" "mem_ok (kmem k')" "same_timeouts (kmem k) (kmem k')"
    using o mem_okD(3) [OF kinvD(1) [OF assms(1)]] by simp_all
  show ?thesis
    using assms(1,3) l f t v unfolding kinvx_def tasks_ok_def by (simp add: current_ok_def s same_timeouts_def)
qed

lemma ownership_objects:
  assumes "ownership x k k'"
  shows "sems_same {} k k'" and "queues_same {} k k'" and "timers_same k k'" and "scb k' = scb k"
    and "g_current_task k' = g_current_task k" and "g_kernel_state k' = g_kernel_state k" and "primask k' = primask k"
    and "inside_isr k' = inside_isr k" and "bytes k' = bytes k" and "qcb k' = qcb k" and "pendsv k' = pendsv k"
proof -
  note o = assms [unfolded ownership_def]
  have e: "k' = k\<lparr>kmem := kmem k', tcb := tcb k', mcb := mcb k'\<rparr>" using o by blast
  show f: "scb k' = scb k" "g_current_task k' = g_current_task k" "g_kernel_state k' = g_kernel_state k" "primask k' = primask k"
      "inside_isr k' = inside_isr k" "bytes k' = bytes k" "qcb k' = qcb k" "pendsv k' = pendsv k"
    by (subst e, simp)+
  have g: "tmcb k' = tmcb k" "g_timer_system_initialized k' = g_timer_system_initialized k" "g_kernel_tick k' = g_kernel_tick k"
    by (subst e, simp)+
  have i: "inited (kmem k') = inited (kmem k)" using o by (simp add: same_timeouts_def)
  have "sem_list l \<Longrightarrow> \<not> (\<exists>t. l = OwnedMutexes t)" "queue_list l \<Longrightarrow> \<not> (\<exists>t. l = OwnedMutexes t)" for l by auto
  then show "sems_same {} k k'" "queues_same {} k k'"
    using o i f(1,7) by (simp_all add: sems_same_def queues_same_def fewer_waiters_def)
  have "timer_node n \<Longrightarrow> n \<noteq> OwnerNode x" for n by auto
  then show "timers_same k k'" using o i g by (simp add: timers_same_def same_timeouts_def)
qed

lemma ownership_inv:
  assumes "kernel_inv k" and "ownership x k k'" and "owners_ok (kmem k') (tcb k') (mcb k')" and "mutexes_ok k'"
  shows "kernel_inv k'"
proof -
  note i = kernel_invD [OF assms(1)] and o = ownership_objects [OF assms(2)]
  show ?thesis
    using ownership_kinv [OF i(1) assms(2,3)] sems_ok_calm [OF i(2) o(1)] queues_ok_calm [OF i(3) o(2)]
      timers_ok_calm [OF i(4) o(3)] o(4) assms(4) by (simp add: kernel_inv_def)
qed

lemma ownership_trans:
  assumes "ownership x k k1" and "ownership x k1 k2"
  shows "ownership x k k2"
proof -
  note a = assms(1) [unfolded ownership_def] and b = assms(2) [unfolded ownership_def]
  have "k2 = k\<lparr>kmem := kmem k2, tcb := tcb k2, mcb := mcb k2\<rparr>"
  proof -
    have e: "k1 = k\<lparr>kmem := kmem k1, tcb := tcb k1, mcb := mcb k1\<rparr>" "k2 = k1\<lparr>kmem := kmem k2, tcb := tcb k2, mcb := mcb k2\<rparr>"
      using a b by blast+
    show ?thesis by (subst e(2), subst e(1)) simp
  qed
  moreover have "tcb k2 t = (tcb k t)\<lparr>towned_mutex_count := towned_mutex_count (tcb k2 t)\<rparr>" for t
  proof -
    have e: "tcb k1 t = (tcb k t)\<lparr>towned_mutex_count := towned_mutex_count (tcb k1 t)\<rparr>"
      "tcb k2 t = (tcb k1 t)\<lparr>towned_mutex_count := towned_mutex_count (tcb k2 t)\<rparr>" using a b by blast+
    show ?thesis by (subst e(2), subst e(1)) simp
  qed
  moreover have "inited (kmem k1) = inited (kmem k)" using a by (simp add: same_timeouts_def)
  moreover have "same_timeouts (kmem k) (kmem k2)" using a b same_timeouts_trans by blast
  ultimately show ?thesis using a b unfolding ownership_def by simp
qed

lemma push_view:
  assumes "\<And>n. n \<noteq> OwnerNode x \<Longrightarrow> nlist (nodes m' n) = nlist (nodes m n)" and "\<And>n. nowner (nodes m' n) = nowner (nodes m n)"
    and "npriority m' = npriority m"
  shows "view m' = view m"
  using assms by (simp add: view_def fun_eq_iff del: node_view)

definition attach :: "mutex_ptr \<Rightarrow> task_ptr \<Rightarrow> mem \<Rightarrow> hr_kernel \<Rightarrow> hr_kernel" where
  "attach x ow m k =
     k\<lparr>kmem := m, mcb := (mcb k)(x := (mcb k x)\<lparr>mowner := Some ow, mrecursion_count := 1\<rparr>),
       tcb := (tcb k)(ow := (tcb k ow)\<lparr>towned_mutex_count := towned_mutex_count (tcb k ow) + 1\<rparr>)\<rparr>"

lemma attach_ok:
  assumes "kinvx E X k" and "mmagic (mcb k x) = HR_CFG_MUTEX_MAGIC" and "mowner (mcb k x) = None" and "registered k ow"
  obtains m where "hr_mutex_attach_owner (Some x) (Some ow) k = Some (HR_OK, attach x ow m k)"
    and "ownership x k (attach x ow m k)"
    and "owners_ok (kmem (attach x ow m k)) (tcb (attach x ow m k)) (mcb (attach x ow m k))"
proof -
  note ok = kinvD(1) [OF assms(1)] and ow = owners_okD [OF kinvD(3) [OF assms(1)]]
  have tm: "tmagic (tcb k ow) = HR_CFG_TASK_MAGIC" using registeredD(2) [OF assms(1,4)] .
  have i: "inited (kmem k) (OwnedMutexes ow)" using ow(1) [OF tm] .
  have n: "nlist (nodes (kmem k) (OwnerNode x)) = None" using ow(3) [of x] assms(3) by (cases "nlist (nodes (kmem k) (OwnerNode x))") auto
  define m where "m = link_at (OwnedMutexes ow) (nodes_of (kmem k) (OwnedMutexes ow)) [] (OwnerNode x) (kmem k)"
  note p = mem_plain_push [OF ok _ i _ _ n, folded m_def, simplified]
  have a: "hr_mutex_attach_owner (Some x) (Some ow) k = Some (HR_OK, attach x ow m k)"
    using p(1) tm n assms(3)
    by (simp add: hr_mutex_attach_owner_def on_mem_def attach_def hr_list_node_is_linked_def upd_tcb_def)
  have v: "view m = view (kmem k)" by (rule push_view [of x]) (simp_all add: p)
  have o: "ownership x k (attach x ow m k)"
    using p v by (simp add: ownership_def attach_def)
  have "owners_ok m (tcb (attach x ow m k)) (mcb (attach x ow m k))"
    using kinvD(3) [OF assms(1)] p i assms(2,4) tm unfolding owners_ok_def
    by (auto simp: attach_def v)
  then show thesis using that [OF a o] by (simp add: attach_def)
qed

definition detach :: "mutex_ptr \<Rightarrow> task_ptr \<Rightarrow> hr_kernel \<Rightarrow> hr_kernel" where
  "detach x ow k =
     k\<lparr>kmem := unlink (OwnerNode x) (kmem k), mcb := (mcb k)(x := (mcb k x)\<lparr>mowner := None, mrecursion_count := 0\<rparr>),
       tcb := (tcb k)(ow := (tcb k ow)\<lparr>towned_mutex_count := towned_mutex_count (tcb k ow) - 1\<rparr>)\<rparr>"

lemma detach_ok:
  assumes "kinvx E X k" and "owns k ow x"
  shows "hr_mutex_detach_owner (Some x) k = Some ((HR_OK, Some ow), detach x ow k)"
    and "ownership x k (detach x ow k)"
    and "owners_ok (kmem (detach x ow k)) (tcb (detach x ow k)) (mcb (detach x ow k))"
proof -
  note ok = kinvD(1) [OF assms(1)] and ow = owners_okD [OF kinvD(3) [OF assms(1)]]
  have mm: "mmagic (mcb k x) = HR_CFG_MUTEX_MAGIC" "mowner (mcb k x) = Some ow" using assms(2) by (simp_all add: owns_def)
  have tm: "tmagic (tcb k ow) = HR_CFG_TASK_MAGIC" "registered k ow" using owned_mutex [OF assms] by simp_all
  have i: "inited (kmem k) (OwnedMutexes ow)" using ow(1) [OF tm(1)] .
  have n: "nlist (nodes (kmem k) (OwnerNode x)) = Some (OwnedMutexes ow)" using ow(3) [of x] mm by simp
  have mem: "OwnerNode x \<in> set (nodes_of (kmem k) (OwnedMutexes ow))" using owner_nodes(2) [OF assms(1) tm(1)] assms(2) by blast
  have c: "towned_mutex_count (tcb k ow) = length (nodes_of (kmem k) (OwnedMutexes ow))" using ow(7) [OF tm(1)] .
  then have c0: "towned_mutex_count (tcb k ow) \<noteq> 0" using mem by auto
  define m where "m = unlink (OwnerNode x) (kmem k)"
  note p = mem_plain_remove [OF ok _ _ n, folded m_def, simplified]
  show "hr_mutex_detach_owner (Some x) k = Some ((HR_OK, Some ow), detach x ow k)"
    using p(1) tm n mm c0
    by (simp add: hr_mutex_detach_owner_def on_mem_def detach_def hr_list_node_is_linked_def upd_tcb_def m_def)
  have v: "view m = view (kmem k)" by (rule push_view [of x]) (simp_all add: p)
  show "ownership x k (detach x ow k)"
    using p v by (simp add: ownership_def detach_def m_def)
  have "owners_ok m (tcb (detach x ow k)) (mcb (detach x ow k))"
    using kinvD(3) [OF assms(1)] p i mm tm mem unfolding owners_ok_def
    by (auto simp: detach_def v length_remove1 remove1_idem)
  then show "owners_ok (kmem (detach x ow k)) (tcb (detach x ow k)) (mcb (detach x ow k))"
    by (simp add: detach_def m_def)
qed

lemma mutex_valid:
  assumes "kernel_inv k"
  shows "hr_mutex_is_valid (Some x) k \<longleftrightarrow> mmagic (mcb k x) = HR_CFG_MUTEX_MAGIC"
proof -
  note ow = owners_okD [OF kinvD(3) [OF kernel_invD(1) [OF assms]]]
  have "mmagic (mcb k x) = HR_CFG_MUTEX_MAGIC \<Longrightarrow> hr_mutex_is_valid (Some x) k"
    using ow(3,5,6) [of x] registeredD(2) [OF kernel_invD(1) [OF assms]]
    by (cases "mowner (mcb k x)") (auto simp: hr_mutex_is_valid_def hr_list_node_is_linked_def word_gt_0)
  then show ?thesis by (auto simp: hr_mutex_is_valid_def)
qed

lemma kernel_inv_mcb:
  assumes "kernel_inv k" and "mmagic c = mmagic (mcb k x)" and "mowner c = mowner (mcb k x)"
    and "mrecursion_count c = 0 \<longleftrightarrow> mrecursion_count (mcb k x) = 0"
  shows "kernel_inv (k\<lparr>mcb := (mcb k)(x := c)\<rparr>)"
proof -
  have "owners_ok (kmem k) (tcb k) ((mcb k)(x := c))"
    using kinvD(3) [OF kernel_invD(1) [OF assms(1)]] assms(2-4) unfolding owners_ok_def by simp
  then show ?thesis
    using assms unfolding kernel_inv_def kinvx_def
    by (simp add: current_ok_def sems_ok_def queues_ok_def mutexes_ok_def timers_ok_def timers_okx_def)
qed

lemma current_registered:
  assumes "kinv k" and "g_kernel_state k = HR_KERNEL_STATE_RUNNING"
  obtains t where "g_current_task k = Some t" and "registered k t" and "tmagic (tcb k t) = HR_CFG_TASK_MAGIC"
  using kinvD(4) [OF assms(1)] assms(2) registeredD(2) [OF assms(1)] by (auto simp: current_ok_def)

section \<open>Locking\<close>

lemma attach_inv:
  assumes "kernel_inv k" and "mmagic (mcb k x) = HR_CFG_MUTEX_MAGIC" and "mowner (mcb k x) = None" and "registered k t"
  obtains m where "hr_mutex_attach_owner (Some x) (Some t) k = Some (HR_OK, attach x t m k)"
    and "ownership x k (attach x t m k)" and "kernel_inv (attach x t m k)"
proof (rule attach_ok [OF kernel_invD(1) [OF assms(1)] assms(2-4)])
  fix m assume a: "hr_mutex_attach_owner (Some x) (Some t) k = Some (HR_OK, attach x t m k)"
    "ownership x k (attach x t m k)" "owners_ok (kmem (attach x t m k)) (tcb (attach x t m k)) (mcb (attach x t m k))"
  have "nodes_of m (MutexWaiters y) = nodes_of (kmem k) (MutexWaiters y)" if "mmagic (mcb k y) = HR_CFG_MUTEX_MAGIC" for y
    using a(2) that owners_okD(2) [OF kinvD(3) [OF kernel_invD(1) [OF assms(1)]], of y] by (simp add: ownership_def attach_def)
  then have "mutexes_ok (attach x t m k)"
    using kernel_invD(5) [OF assms(1)] by (auto simp: mutexes_ok_def attach_def)
  then show thesis using that a ownership_inv [OF assms(1) a(2,3)] by blast
qed

text \<open>A waiter in the middle of the list that is given an error.\<close>

lemma unblock_task:
  assumes "kernel_inv k" and "vwait (view (kmem k) t) = Some l"
  obtains r k' where "hr_kernel_unblock_waiter (Some (WaitNode t)) result woken k = Some (r, k')" and "kernel_inv k'"
    and "woken_tcb (tcb k' t)" and "twait_result (tcb k' t) = result" and "inside_isr k' = inside_isr k"
    and "mcb k' = mcb k"
proof -
  note w = waiter_blocked [OF kernel_invD(1) [OF assms(1)] assms(2)]
  note r = registeredD [OF kernel_invD(1) [OF assms(1)] w(1)]
  show thesis
  proof (rule make_ready_ok [OF kernel_invD(1) [OF assms(1)] w(1,2), of result])
    show "vtimeout (view (kmem k) t) \<noteq> Some ExpiredNodes" using w(5) by simp
    fix m k1 assume l: "left t (kmem k) m" "repri (k\<lparr>kmem := m\<rparr>) k1"
      and e: "\<And>woken. hr_kernel_make_task_ready (Some t) result woken k =
        Some ((HR_OK, map_option (\<lambda>_. \<not> suspended_wait (tcb k t) \<and> outranks (wake t result k1) t) woken), wake t result k1)"
      and i: "kinvx {} ({} - {t}) (wake t result k1)" and k1: "kinvx {t} {} k1" "registered k1 t"
    have u: "hr_kernel_unblock_waiter (Some (WaitNode t)) result woken k =
        Some ((HR_OK, map_option (\<lambda>_. \<not> suspended_wait (tcb k t) \<and> outranks (wake t result k1) t) woken), wake t result k1)"
      using e r(2) by (simp add: hr_kernel_unblock_waiter_def owner_view(2) [OF r(3)] as_task_def)
    have b: "blocked (tcb k1 t)" using w(2) repri_same(5,7) [OF l(2), of t] by (simp add: blocked_def suspended_wait_def)
    have "kernel_inv (wake t result k1)"
      by (rule kernel_inv_calm [OF assms(1) calm_make_ready [OF l k1]]) (use i in simp)
    then show thesis
      using that [OF u] wake_woken [OF b, of result] repri_frame [OF l(2)] by (simp add: wake_def)
  qed
qed

lemma recompute_inv:
  assumes "kernel_inv k"
  obtains st k' where "hr_mutex_recompute_owner_priority (Some x) k = Some (st, k')" and "kernel_inv k'" and "repri k k'"
proof (rule recompute_owner_ok [OF kernel_invD(1) [OF assms], of x])
  fix st k' assume "hr_mutex_recompute_owner_priority (Some x) k = Some (st, k')" "kinv k'" "repri k k'"
  then show thesis using that kernel_inv_calm [OF assms calm_repri] by blast
qed

lemma lock_blocks:
  assumes "kernel_inv k" and "mmagic (mcb k x) = HR_CFG_MUTEX_MAGIC" and "mowner (mcb k x) = Some ow" and "ow \<noteq> t"
    and "timeout \<noteq> HR_NO_WAIT" and "may_block k t"
  obtains st k1 k2 k' where "mutex_lock_locked x t timeout k = Some ((st, True), k')" and "kernel_inv k'"
    and "inside_isr k' = inside_isr k" and "mcb k' = mcb k"
    and "entered t (Some (MutexWaiters x)) timeout (kmem k) (kmem k1)"
    and "tcb k1 = (tcb k)(t := block_tcb (MutexWaiters x) (Obj_mutex x) HR_TASK_WAIT_MUTEX_LOCK None timeout (Some Cleanup_mutex)
          (g_kernel_tick k) (tcb k t))"
    and "same_objects k k1" and "kernel_inv k1"
    and "hr_mutex_recompute_owner_priority (Some x) k1 = Some (st, k2)" and "repri k1 k2" and "st = HR_OK \<Longrightarrow> k' = k2"
    and "st \<noteq> HR_OK \<Longrightarrow> woken_tcb (tcb k' t) \<and> twait_result (tcb k' t) = st"
proof -
  have rq: "wait_request (MutexWaiters x) (Obj_mutex x) HR_TASK_WAIT_MUTEX_LOCK None (Some Cleanup_mutex)"
    by (simp add: wait_request_def)
  have i: "inited (kmem k) (MutexWaiters x)" using owners_okD(2) [OF kinvD(3) [OF kernel_invD(1) [OF assms(1)]], of x] assms(2) by simp
  show thesis
  proof (rule block_inv [OF assms(1,6) rq i assms(5)])
    fix k1 assume b: "hr_kernel_block_current_on_wait_list_ex (Some (MutexWaiters x)) (Some (Obj_mutex x)) HR_TASK_WAIT_MUTEX_LOCK
          None timeout (Some Cleanup_mutex) k = Some (HR_OK, k1)"
      and k1: "kinv k1" "calm {MutexWaiters x} k k1" "same_objects k k1"
      and e: "entered t (Some (MutexWaiters x)) timeout (kmem k) (kmem k1)"
      and T: "tcb k1 = (tcb k)(t := block_tcb (MutexWaiters x) (Obj_mutex x) HR_TASK_WAIT_MUTEX_LOCK None timeout
          (Some Cleanup_mutex) (g_kernel_tick k) (tcb k t))"
    have ki: "kernel_inv k1"
      by (rule entered_objects [OF assms(1) e k1(3,2) _ k1(1)]) (use assms(3) in \<open>simp add: may_wait_def\<close>)
    obtain st k2 where r: "hr_mutex_recompute_owner_priority (Some x) k1 = Some (st, k2)" "kernel_inv k2" "repri k1 k2"
      by (rule recompute_inv [OF ki])
    have f: "inside_isr k2 = inside_isr k" "mcb k2 = mcb k"
      using k1(3) repri_frame(1,12) [OF r(3)] by (simp_all add: same_objects_def)
    have w: "vwait (view (kmem k2) t) = Some (MutexWaiters x)"
      using e repri_same(1) [OF r(3), of t] by (simp add: entered_def)
    note lock = mutex_lock_locked_def [of x t timeout k]
    show thesis
    proof (cases "st = HR_OK")
      case True
      have "mutex_lock_locked x t timeout k = Some ((st, True), k2)"
        using b r(1) True assms(3-5) by (simp add: lock)
      then show thesis by (rule that [OF _ r(2) f e T k1(3) ki r(1,3)]) (simp_all add: True)
    next
      case False
      show thesis
      proof (rule unblock_task [OF r(2) w, of st None])
        fix rr k' assume u: "hr_kernel_unblock_waiter (Some (WaitNode t)) st None k2 = Some (rr, k')" "kernel_inv k'"
          "woken_tcb (tcb k' t)" "twait_result (tcb k' t) = st" "inside_isr k' = inside_isr k2" "mcb k' = mcb k2"
        have "mutex_lock_locked x t timeout k = Some ((st, True), k')"
          using b r(1) False assms(3-5) u(1) by (simp add: lock)
        then show thesis
          by (rule that [OF _ u(2) _ _ e T k1(3) ki r(1,3)]) (simp_all add: False u f)
      qed
    qed
  qed
qed

lemma lock_again:
  assumes "kernel_inv k" and "mmagic (mcb k x) = HR_CFG_MUTEX_MAGIC" and "mowner (mcb k x) = Some t"
  obtains st k' where "mutex_lock_locked x t timeout k = Some ((st, False), k')" and "kernel_inv k'" and "inside_isr k' = inside_isr k"
proof -
  let ?k = "k\<lparr>mcb := (mcb k)(x := (mcb k x)\<lparr>mrecursion_count := mrecursion_count (mcb k x) + 1\<rparr>)\<rparr>"
  have "mrecursion_count (mcb k x) \<noteq> 0"
    using owners_okD(5) [OF kinvD(3) [OF kernel_invD(1) [OF assms(1)]] assms(2)] assms(3) by simp
  then have ki: "kernel_inv ?k" if "mrecursion_count (mcb k x) \<noteq> UINT32_MAX"
    using inc_nonzero [OF that] by (intro kernel_inv_mcb [OF assms(1)]) simp_all
  consider "\<not> mrecursive (mcb k x)" | "mrecursive (mcb k x)" "mrecursion_count (mcb k x) = UINT32_MAX"
    | "mrecursive (mcb k x)" "mrecursion_count (mcb k x) \<noteq> UINT32_MAX" by blast
  then show thesis
  proof cases
    case 1
    then have "mutex_lock_locked x t timeout k = Some ((HR_ERROR_MUTEX_BUSY, False), k)"
      using assms(3) by (simp add: mutex_lock_locked_def)
    then show thesis by (rule that [OF _ assms(1)]) simp
  next
    case 2
    then have "mutex_lock_locked x t timeout k = Some ((HR_ERROR_OVERFLOW, False), k)"
      using assms(3) by (simp add: mutex_lock_locked_def)
    then show thesis by (rule that [OF _ assms(1)]) simp
  next
    case 3
    then have "mutex_lock_locked x t timeout k = Some ((HR_OK, False), ?k)"
      using assms(3) by (simp add: mutex_lock_locked_def)
    then show thesis by (rule that [OF _ ki [OF 3(2)]]) simp
  qed
qed

lemma lock_step:
  assumes "kernel_inv k" and "mmagic (mcb k x) = HR_CFG_MUTEX_MAGIC" and "registered k t" and "g_current_task k = Some t"
  obtains st b k' where "mutex_lock_locked x t timeout k = Some ((st, b), k')" and "kernel_inv k'" and "inside_isr k' = inside_isr k"
proof (cases "mowner (mcb k x)")
  case None
  show thesis
  proof (rule attach_inv [OF assms(1,2) None assms(3)])
    fix m assume a: "hr_mutex_attach_owner (Some x) (Some t) k = Some (HR_OK, attach x t m k)" "kernel_inv (attach x t m k)"
    have "mutex_lock_locked x t timeout k = Some ((HR_OK, False), attach x t m k)" using a None by (simp add: mutex_lock_locked_def)
    then show thesis by (rule that [OF _ a(2)]) (simp add: attach_def)
  qed
next
  case (Some ow)
  consider "ow = t" | "ow \<noteq> t" "timeout = HR_NO_WAIT" | "ow \<noteq> t" "timeout \<noteq> HR_NO_WAIT" "\<not> may_block k t"
    | "ow \<noteq> t" "timeout \<noteq> HR_NO_WAIT" "may_block k t" by blast
  then show thesis
  proof cases
    case 1
    have "mowner (mcb k x) = Some t" using 1 Some by simp
    then show thesis by (rule lock_again [OF assms(1,2)]) (rule that)
  next
    case 2
    have "mutex_lock_locked x t timeout k = Some ((HR_ERROR_MUTEX_BUSY, False), k)" using Some 2 by (simp add: mutex_lock_locked_def)
    then show thesis by (rule that [OF _ assms(1)]) simp
  next
    case 3
    obtain st where b: "st \<noteq> HR_OK" "hr_kernel_block_current_on_wait_list_ex (Some (MutexWaiters x)) (Some (Obj_mutex x))
        HR_TASK_WAIT_MUTEX_LOCK None timeout (Some Cleanup_mutex) k = Some (st, k)"
      using block_refused [OF 3(3) assms(4)] by force
    have "mutex_lock_locked x t timeout k = Some ((st, False), k)" using Some 3 b by (simp add: mutex_lock_locked_def)
    then show thesis by (rule that [OF _ assms(1)]) simp
  next
    case 4
    show thesis by (rule lock_blocks [OF assms(1,2) Some 4(1,2,3)]) (rule that)
  qed
qed

lemma lock_inv:
  assumes "kernel_inv k"
  shows "\<exists>out k'. hr_mutex_lock mutex timeout k = Some (out, k') \<and> kernel_inv k'"
proof (cases "\<exists>x. mutex = Some x \<and> hr_mutex_is_valid mutex k \<and> \<not> inside_isr k \<and> g_kernel_state k = HR_KERNEL_STATE_RUNNING")
  case False
  then show ?thesis
    using assms by (cases mutex) (auto simp: hr_mutex_lock_def hr_port_is_inside_isr_def hr_kernel_is_running_def)
next
  case True
  then obtain x where x: "mutex = Some x" "hr_mutex_is_valid (Some x) k" "\<not> inside_isr k" "g_kernel_state k = HR_KERNEL_STATE_RUNNING" by auto
  define k0 where "k0 = k\<lparr>primask := 1\<rparr>"
  have k0: "kernel_inv k0" "mmagic (mcb k0 x) = HR_CFG_MUTEX_MAGIC"
    using assms x(2) mutex_valid [OF assms] by (simp_all add: k0_def)
  obtain t where t: "g_current_task k = Some t" "registered k t" "tmagic (tcb k t) = HR_CFG_TASK_MAGIC"
    by (rule current_registered [OF kernel_invD(1) [OF assms] x(4)])
  have t0: "registered k0 t" "g_current_task k0 = Some t" using t by (simp_all add: k0_def)
  obtain st b k' where l: "mutex_lock_locked x t timeout k0 = Some ((st, b), k')" "kernel_inv k'"
    by (rule lock_step [OF k0 t0, of timeout])
  show ?thesis
    using l x t by (simp add: hr_mutex_lock_def hr_port_is_inside_isr_def hr_kernel_is_running_def hr_task_current_def
        hr_kernel_current_task_internal_def hr_port_enter_critical_def k0_def [symmetric] Let_def)
qed

section \<open>Unlocking\<close>

lemma release_free:
  assumes "kernel_inv k" and "owns k ow x" and "waiters k x = []"
  shows "kernel_inv (detach x ow k)"
proof -
  note d = detach_ok [OF kernel_invD(1) [OF assms(1)] assms(2)]
  have "nodes_of (kmem (detach x ow k)) (MutexWaiters y) = waiters k y" if "mmagic (mcb k y) = HR_CFG_MUTEX_MAGIC" for y
    using d(2) that owners_okD(2) [OF kinvD(3) [OF kernel_invD(1) [OF assms(1)]], of y] by (simp add: ownership_def)
  then have "mutexes_ok (detach x ow k)"
    using kernel_invD(5) [OF assms(1)] assms(2,3) by (auto simp: mutexes_ok_def detach_def owns_def)
  then show ?thesis by (rule ownership_inv [OF assms(1) d(2,3)])
qed

lemma hand_over:
  assumes "kernel_inv k" and "owns k ow x" and "registered k t"
  obtains m where "hr_mutex_attach_owner (Some x) (Some t) (detach x ow k) = Some (HR_OK, attach x t m (detach x ow k))"
    and "ownership x k (attach x t m (detach x ow k))" and "kernel_inv (attach x t m (detach x ow k))"
proof -
  let ?d = "detach x ow k"
  note d = detach_ok [OF kernel_invD(1) [OF assms(1)] assms(2)]
  have k: "kinv ?d" by (rule ownership_kinv [OF kernel_invD(1) [OF assms(1)] d(2,3)])
  have m: "mmagic (mcb ?d x) = HR_CFG_MUTEX_MAGIC" "mowner (mcb ?d x) = None" using assms(2) by (simp_all add: detach_def owns_def)
  have r: "registered ?d t" using assms(3) d(2) by (simp add: ownership_def)
  show thesis
  proof (rule attach_ok [OF k m r])
    fix m assume a: "hr_mutex_attach_owner (Some x) (Some t) ?d = Some (HR_OK, attach x t m ?d)"
      "ownership x ?d (attach x t m ?d)" "owners_ok (kmem (attach x t m ?d)) (tcb (attach x t m ?d)) (mcb (attach x t m ?d))"
    note o = ownership_trans [OF d(2) a(2)]
    have "nodes_of (kmem (attach x t m ?d)) (MutexWaiters y) = waiters k y" if "mmagic (mcb k y) = HR_CFG_MUTEX_MAGIC" for y
      using o that owners_okD(2) [OF kinvD(3) [OF kernel_invD(1) [OF assms(1)]], of y] by (simp add: ownership_def)
    then have "mutexes_ok (attach x t m ?d)"
      using kernel_invD(5) [OF assms(1)] by (auto simp: mutexes_ok_def attach_def detach_def)
    then have "kernel_inv (attach x t m ?d)" by (rule ownership_inv [OF assms(1) o a(3)])
    then show thesis using that a(1) o by blast
  qed
qed

lemma recompute_task_inv:
  assumes "kernel_inv k" and "registered k t"
  obtains st k' where "hr_mutex_recompute_task_priority (Some t) depth k = Some (st, k')" and "kernel_inv k'" and "repri k k'"
    and "registered k' u \<longleftrightarrow> registered k u"
proof -
  obtain st k' where r: "recompute_loop (HR_CFG_MAX_TASKS + 1 - depth) (Some t) k = Some (st, k')" "kinv k'" "repri k k'"
    using recompute_ok [OF kernel_invD(1) [OF assms(1)] assms(2)] by blast
  then show thesis
    using that kernel_inv_calm [OF assms(1) calm_repri] repri_same(3) [OF r(3), of u]
    by (simp add: hr_mutex_recompute_task_priority_def)
qed

text \<open>The new priorities of the old and of the new owner once the hand-over is done.\<close>

definition settle :: "task_ptr option \<Rightarrow> task_ptr option \<Rightarrow> hr_kernel \<Rightarrow> (hr_status \<times> hr_kernel) option" where
  "settle old_owner new_owner k = do {
     (status, k) \<leftarrow> (if old_owner \<noteq> None then hr_mutex_recompute_task_priority old_owner 0 k else Some (HR_OK, k));
     if status = HR_OK \<and> new_owner \<noteq> None then hr_mutex_recompute_task_priority new_owner 0 k else Some (status, k)
   }"

lemma settle_ok:
  assumes "kernel_inv k" and "registered k ow" and "\<And>t. n = Some t \<Longrightarrow> registered k t"
  obtains st k' where "settle (Some ow) n k = Some (st, k')" and "kernel_inv k'" and "repri k k'"
proof (rule recompute_task_inv [OF assms(1,2), of 0 "the n"])
  fix st k1 assume r: "hr_mutex_recompute_task_priority (Some ow) 0 k = Some (st, k1)" "kernel_inv k1" "repri k k1"
    "registered k1 (the n) \<longleftrightarrow> registered k (the n)"
  show thesis
  proof (cases "st = HR_OK \<and> n \<noteq> None")
    case False
    then have "settle (Some ow) n k = Some (st, k1)" using r(1) by (auto simp: settle_def)
    then show thesis using that r by blast
  next
    case True
    then obtain t where t: "n = Some t" by auto
    have "registered k1 t" using r(4) assms(3) t by simp
    then obtain st' k' where s: "hr_mutex_recompute_task_priority (Some t) 0 k1 = Some (st', k')" "kernel_inv k'" "repri k1 k'"
      by (rule recompute_task_inv [OF r(2)])
    have "settle (Some ow) n k = Some (st', k')" using r(1) s(1) True t by (simp add: settle_def)
    then show thesis using that s(2) repri_trans [OF r(3) s(3)] by blast
  qed
qed

lemma release_no_waiter:
  assumes "kernel_inv k" and "owns k ow x" and "waiters k x = []"
  obtains st k' where "mutex_release x k = Some (Inr (st, hr_kernel_current_should_preempt k'), k')" and "kernel_inv k'"
    and "repri (detach x ow k) k'" and "settle (Some ow) None (detach x ow k) = Some (st, k')"
proof -
  let ?d = "detach x ow k"
  note d = detach_ok [OF kernel_invD(1) [OF assms(1)] assms(2)] and o = owned_mutex [OF kernel_invD(1) [OF assms(1)] assms(2)]
  have p: "hr_wait_list_peek (Some (MutexWaiters x)) (kmem k) = None"
    using assms(3) by (simp add: wait_peek_wf [OF mem_okD(1) [OF kinvD(1) [OF kernel_invD(1) [OF assms(1)]]] o(1)])
  have r: "registered ?d ow" using d(2) o(3) by (simp add: ownership_def)
  obtain st k' where s: "settle (Some ow) None ?d = Some (st, k')" "kernel_inv k'" "repri ?d k'"
    by (rule settle_ok [OF release_free [OF assms] r, of None]) auto
  have "mutex_release x k = Some (Inr (st, hr_kernel_current_should_preempt k'), k')"
    using p d(1) s(1) by (simp add: mutex_release_def settle_def split: option.splits prod.splits)
  then show thesis using that s by blast
qed

lemma release_waiter:
  assumes "kernel_inv k" and "owns k ow x" and "waiters k x = n # ns"
  obtains t m k1 w st k' where "n = WaitNode t"
    and "mutex_release x k = Some (Inr (st, w \<or> hr_kernel_current_should_preempt k'), k')" and "kernel_inv k'"
    and "ownership x k (attach x t m (detach x ow k))" and "woke t (attach x t m (detach x ow k)) k1"
    and "waiters k1 x = ns" and "kernel_inv k1" and "settle (Some ow) (Some t) k1 = Some (st, k')" and "repri k1 k'"
    and "w \<longleftrightarrow> \<not> suspended_wait (tcb k t) \<and> outranks k1 t"
proof -
  note ki = kernel_invD(1) [OF assms(1)]
  note d = detach_ok [OF ki assms(2)] and o = owned_mutex [OF ki assms(2)]
  note wf = mem_okD(1) [OF kinvD(1) [OF ki]]
  obtain t where t: "n = WaitNode t" "vwait (view (kmem k) t) = Some (MutexWaiters x)"
    by (rule wait_list_member [OF kinvD(1) [OF ki] _ o(1), of n]) (use assms(3) in auto)
  have rt: "registered k t" "tmagic (tcb k t) = HR_CFG_TASK_MAGIC" "vowned (view (kmem k) t)"
    using waiter_blocked(1) [OF ki t(2)] registeredD(2,3) [OF ki] by blast+
  have p: "hr_wait_list_peek (Some (MutexWaiters x)) (kmem k) = Some (WaitNode t)"
    using assms(3) t(1) by (simp add: wait_peek_wf [OF wf o(1)])
  show thesis
  proof (rule hand_over [OF assms(1,2) rt(1)])
    fix m
    let ?h = "attach x t m (detach x ow k)"
    assume h: "hr_mutex_attach_owner (Some x) (Some t) (detach x ow k) = Some (HR_OK, ?h)" "ownership x k ?h" "kernel_inv ?h"
    have v: "view (kmem ?h) = view (kmem k)" using h(2) by (simp add: ownership_def)
    have i: "inited (kmem ?h) (MutexWaiters x)" "waiters ?h x = n # ns"
      using h(2) o(1) assms(3) by (simp_all add: ownership_def same_timeouts_def)
    have s: "suspended_wait (tcb ?h t) = suspended_wait (tcb k t)" by (simp add: attach_def detach_def suspended_wait_def)
    show thesis
    proof (rule unblock_woke [OF h(3) _ i, where woken = "Some False"])
      fix t' k1 assume "n = WaitNode t'" and
        u': "hr_kernel_unblock_waiter (Some n) HR_OK (Some False) ?h =
          Some ((HR_OK, map_option (\<lambda>_. \<not> suspended_wait (tcb ?h t') \<and> outranks k1 t') (Some False)), k1)"
        and k1: "kernel_inv k1" "calm {} ?h k1" "woke t' ?h k1"
        and q: "\<And>j. is_wait_list j \<Longrightarrow> inited (kmem ?h) j \<Longrightarrow> nodes_of (kmem k1) j = (if j = MutexWaiters x then ns else nodes_of (kmem ?h) j)"
      then have t': "t' = t" using t(1) by simp
      have u: "hr_kernel_unblock_waiter (Some (WaitNode t)) HR_OK (Some False) ?h =
          Some ((HR_OK, Some (\<not> suspended_wait (tcb k t) \<and> outranks k1 t)), k1)"
        using u' t(1) t' s by simp
      have r: "registered k1 ow" "registered k1 t"
        using woke_registered [OF kernel_invD(1) [OF h(3)] kernel_invD(1) [OF k1(1)] k1(3)] o(3) rt(1) v by simp_all
      obtain st k' where st: "settle (Some ow) (Some t) k1 = Some (st, k')" "kernel_inv k'" "repri k1 k'"
        by (rule settle_ok [OF k1(1) r(1), of "Some t"]) (use r in auto)
      let ?w = "\<not> suspended_wait (tcb k t) \<and> outranks k1 t"
      have "mutex_release x k = Some (Inr (st, ?w \<or> hr_kernel_current_should_preempt k'), k')"
        using p d(1) st(1) u h(1) rt(2)
        by (auto simp: mutex_release_def settle_def owner_view(2) [OF rt(3)] as_task_def split: Option.bind_splits prod.splits if_splits)
      then show thesis
        using that [of t st ?w k' m k1] t(1) st h(2) k1(1,3) t' q [of "MutexWaiters x"] i(1) by simp
    qed simp
  qed
qed

lemma release_inv:
  assumes "kernel_inv k" and "owns k ow x"
  obtains st w k' where "mutex_release x k = Some (Inr (st, w), k')" and "kernel_inv k'"
proof (cases "waiters k x")
  case Nil
  show thesis by (rule release_no_waiter [OF assms Nil]) (rule that)
next
  case (Cons n ns)
  show thesis by (rule release_waiter [OF assms Cons]) (rule that)
qed

lemma dec_count_inv:
  assumes "kernel_inv k" and "1 < mrecursion_count (mcb k x)"
  shows "kernel_inv (k\<lparr>mcb := (mcb k)(x := (mcb k x)\<lparr>mrecursion_count := mrecursion_count (mcb k x) - 1\<rparr>)\<rparr>)"
proof -
  have "mrecursion_count (mcb k x) - 1 \<noteq> 0" using assms(2) by auto
  moreover have "mrecursion_count (mcb k x) \<noteq> 0" using assms(2) by auto
  ultimately show ?thesis by (intro kernel_inv_mcb [OF assms(1)]) simp_all
qed

lemma unlock_inv:
  assumes "kernel_inv k"
  obtains st k' where "hr_mutex_unlock mutex k = Some (st, k')" and "kernel_inv k'"
proof (cases "\<exists>x. mutex = Some x \<and> hr_mutex_is_valid mutex k \<and> \<not> inside_isr k \<and> hr_task_is_valid (g_current_task k) k")
  case False
  then have "\<exists>st. hr_mutex_unlock mutex k = Some (st, k)"
    by (cases mutex) (auto simp: hr_mutex_unlock_def hr_port_is_inside_isr_def hr_task_current_def hr_kernel_current_task_internal_def)
  then show thesis using that assms by blast
next
  case True
  then obtain x where x: "mutex = Some x" "hr_mutex_is_valid (Some x) k" "\<not> inside_isr k" "hr_task_is_valid (g_current_task k) k" by auto
  then obtain t where t: "g_current_task k = Some t" by (auto simp: hr_task_is_valid_def split: option.splits)
  define k0 where "k0 = k\<lparr>primask := 1\<rparr>"
  have k0: "kernel_inv k0" "mmagic (mcb k0 x) = HR_CFG_MUTEX_MAGIC"
    using assms x(2) mutex_valid [OF assms] by (simp_all add: k0_def)
  note u = hr_mutex_unlock_def hr_port_is_inside_isr_def hr_task_current_def hr_kernel_current_task_internal_def
    hr_port_enter_critical_def k0_def [symmetric] Let_def
  have f: "mcb k0 = mcb k" by (simp add: k0_def)
  consider "mowner (mcb k x) \<noteq> Some t" | "mowner (mcb k x) = Some t" "mrecursive (mcb k x)" "1 < mrecursion_count (mcb k x)"
    | "mowner (mcb k x) = Some t" "\<not> (mrecursive (mcb k x) \<and> 1 < mrecursion_count (mcb k x))" by blast
  then show thesis
  proof cases
    case 1
    have "hr_mutex_unlock mutex k = Some (HR_ERROR_NOT_OWNER, hr_port_exit_critical (primask k) k0)"
      using x t 1 by (simp add: u f)
    then show thesis by (rule that) (simp add: k0)
  next
    case 2
    let ?k = "k0\<lparr>mcb := (mcb k0)(x := (mcb k0 x)\<lparr>mrecursion_count := mrecursion_count (mcb k0 x) - 1\<rparr>)\<rparr>"
    have k: "kernel_inv ?k" using 2(3) by (intro dec_count_inv [OF k0(1)]) (simp add: f)
    have "hr_mutex_unlock mutex k = Some (HR_OK, hr_port_exit_critical (primask k) ?k)"
      using x t 2 by (simp add: u f)
    then show thesis by (rule that) (simp add: k)
  next
    case 3
    then have "owns k0 t x" using k0(2) f by (simp add: owns_def)
    then obtain st w k' where m: "mutex_release x k0 = Some (Inr (st, w), k')" "kernel_inv k'"
      by (rule release_inv [OF k0(1)])
    have "hr_mutex_unlock mutex k = Some (st, if st = HR_OK \<and> w
        then hr_port_request_context_switch (hr_port_exit_critical (primask k) k') else hr_port_exit_critical (primask k) k')"
      using x t 3 m(1) by (auto simp: u f)
    then show thesis by (rule that) (simp add: m(2))
  qed
qed

section \<open>Creating\<close>

definition new_mutex_mem :: "mutex_ptr \<Rightarrow> mem \<Rightarrow> mem" where
  "new_mutex_mem x m = hr_list_node_init (Some (OwnerNode x)) (Some (Mutex_obj x)) (hr_list_init (Some (MutexWaiters x))
     (set_node (OwnerNode x) zero_node (set_size (MutexWaiters x) 0 (set_node (Root (MutexWaiters x)) zero_node m))))"

lemma new_mutex_mem:
  assumes "mem_ok m" and "\<not> inited m (MutexWaiters x)" and "nlist (nodes m (OwnerNode x)) = None"
  shows "set_up {MutexWaiters x} {Root (MutexWaiters x), OwnerNode x} m (new_mutex_mem x m)"
    and "nowner (nodes (new_mutex_mem x m) (OwnerNode x)) = Some (Mutex_obj x)"
proof -
  let ?z = "set_node (OwnerNode x) zero_node (set_size (MutexWaiters x) 0 (set_node (Root (MutexWaiters x)) zero_node m))"
  let ?l = "hr_list_init (Some (MutexWaiters x)) ?z"
  have z: "set_up {} {Root (MutexWaiters x), OwnerNode x} m ?z"
    by (rule set_up_nodes [OF assms(1)])
      (use assms(2,3) free_root [OF assms(1,2)] in \<open>auto simp: node_upd_defs zero_node_def\<close>)
  then have zo: "mem_ok ?z" "\<not> inited ?z (MutexWaiters x)" using assms(2) by (simp_all add: set_up_def)
  have l: "set_up {MutexWaiters x} {} ?z ?l" by (rule set_up_new [OF zo])
  then have lo: "mem_ok ?l" by (simp add: set_up_def)
  have n: "nlist (nodes ?l (OwnerNode x)) = None" by (simp add: node_upd_defs zero_node_def)
  have "set_up {} {OwnerNode x} ?l (new_mutex_mem x m)"
    unfolding new_mutex_mem_def
    by (rule set_up_nodes [OF lo]) (use n in \<open>auto simp: hr_list_node_init_def node_upd_defs\<close>)
  from set_up_trans [OF z set_up_trans [OF l this]]
  show "set_up {MutexWaiters x} {Root (MutexWaiters x), OwnerNode x} m (new_mutex_mem x m)" by (simp add: insert_commute)
  show "nowner (nodes (new_mutex_mem x m) (OwnerNode x)) = Some (Mutex_obj x)"
    by (simp add: new_mutex_mem_def hr_list_node_init_def node_upd_defs)
qed

lemma mutex_create_eq:
  "hr_mutex_create_internal mutex recursive k =
     (case mutex of
        None \<Rightarrow> (HR_ERROR_INVALID_ARGUMENT, k)
      | Some x \<Rightarrow>
          if hr_mutex_is_valid mutex k then (HR_ERROR_INVALID_STATE, k)
          else (HR_OK, k\<lparr>kmem := new_mutex_mem x (kmem k), mcb := (mcb k)(x :=
            \<lparr>mowner = None, mrecursion_count = 0, mrecursive = recursive, mmagic = HR_CFG_MUTEX_MAGIC\<rparr>)\<rparr>))"
  by (cases mutex) (simp_all add: hr_mutex_create_internal_def hr_mutex_zero_control_block_def Let_def
      hr_wait_list_init_def zero_mcb_def new_mutex_mem_def)

lemma mutex_created:
  assumes "kernel_inv k" and "\<not> hr_mutex_is_valid (Some x) k"
  shows "kernel_inv (k\<lparr>kmem := new_mutex_mem x (kmem k), mcb := (mcb k)(x :=
            \<lparr>mowner = None, mrecursion_count = 0, mrecursive = r, mmagic = HR_CFG_MUTEX_MAGIC\<rparr>)\<rparr>)" (is "kernel_inv ?k")
proof -
  note i = kernel_invD [OF assms(1)]
  note ow = owners_okD [OF kinvD(3) [OF i(1)]]
  have ni: "mmagic (mcb k x) \<noteq> HR_CFG_MUTEX_MAGIC" using assms(2) mutex_valid [OF assms(1)] by simp
  have n: "\<not> inited (kmem k) (MutexWaiters x)" "nlist (nodes (kmem k) (OwnerNode x)) = None"
    using ow(2,3) [of x] ni by (auto simp: not_Some_eq [symmetric] simp del: not_Some_eq)
  note u = new_mutex_mem [OF kinvD(1) [OF i(1)] n]
  have t: "y \<in> {Root (MutexWaiters x), OwnerNode x} \<Longrightarrow> \<not> task_node y" for y by auto
  note v = setup_view [OF u(1) t]
  have "owners_ok (new_mutex_mem x (kmem k)) (tcb k) (mcb ?k)"
    using kinvD(3) [OF i(1)] u n(2) v unfolding owners_ok_def set_up_def by (auto simp: ni)
  from set_up_kinv [OF i(1) u(1) t this] have "kinv ?k" by simp
  moreover have "mutexes_ok ?k"
    using i(5) u(1) ni owners_okD(2) [OF kinvD(3) [OF i(1)]] n(1) unfolding mutexes_ok_def set_up_def by auto
  moreover have "sems_ok ?k"
    by (rule sems_ok_calm [OF i(2)], rule set_up_same(1) [where k' = ?k]) (use u in auto)
  moreover have "queues_ok ?k"
    by (rule queues_ok_calm [OF i(3)], rule set_up_same(2) [where k' = ?k]) (use u in auto)
  moreover have "timers_ok ?k"
    by (rule timers_ok_calm [OF i(4)], rule set_up_same(4) [where k' = ?k]) (use u in auto)
  ultimately show ?thesis by (simp add: kernel_inv_def)
qed

lemma mutex_create_inv:
  assumes "kernel_inv k"
  shows "kernel_inv (snd (hr_mutex_create_internal mutex recursive k))"
  using assms mutex_created [OF assms] by (cases mutex) (simp_all add: mutex_create_eq)

end
