(* ===== verification/HR_Semaphore.thy ===== *)
theory HR_Semaphore
  imports HR_Objects
begin

text \<open>
  The counting semaphores of \<open>kernel/src/hr_semaphore.c\<close>. The lemmas give the effect of
  every operation on the count and on the waiting tasks; a semaphore with tasks waiting has the
  count 0, so a token is never left beside a waiter.
\<close>

section \<open>Operations\<close>

definition hr_semaphore_zero_control_block :: "sem_ptr \<Rightarrow> hr_kernel \<Rightarrow> hr_kernel" where
  "hr_semaphore_zero_control_block s k =
     k\<lparr>scb := (scb k)(s := zero_scb),
       kmem := set_size (SemaphoreWaiters s) 0 (set_node (Root (SemaphoreWaiters s)) zero_node (kmem k))\<rparr>"

definition hr_semaphore_control_block :: "sem_ptr option \<Rightarrow> sem_ptr option" where
  [simp]: "hr_semaphore_control_block semaphore = semaphore"

definition hr_semaphore_control_block_const :: "sem_ptr option \<Rightarrow> sem_ptr option" where
  [simp]: "hr_semaphore_control_block_const semaphore = semaphore"

definition hr_semaphore_is_valid :: "sem_ptr option \<Rightarrow> hr_kernel \<Rightarrow> bool" where
  "hr_semaphore_is_valid semaphore k =
     (case hr_semaphore_control_block_const semaphore of
        None \<Rightarrow> False
      | Some s \<Rightarrow>
          smagic (scb k s) = HR_CFG_SEMAPHORE_MAGIC \<and> smax_count (scb k s) > 0 \<and>
          scount (scb k s) \<le> smax_count (scb k s))"

definition hr_semaphore_validate_internal :: "sem_ptr option \<Rightarrow> hr_kernel \<Rightarrow> bool option" where
  "hr_semaphore_validate_internal semaphore k =
     (if \<not> hr_semaphore_is_valid semaphore k then Some False
      else hr_wait_list_validate (Some (SemaphoreWaiters (the semaphore))) (kmem k))"

definition hr_semaphore_create_counting ::
  "sem_ptr option \<Rightarrow> 32 word \<Rightarrow> 32 word \<Rightarrow> hr_kernel \<Rightarrow> hr_status \<times> hr_kernel" where
  "hr_semaphore_create_counting semaphore initial_count max_count k =
     (case semaphore of
        None \<Rightarrow> (HR_ERROR_INVALID_ARGUMENT, k)
      | Some s \<Rightarrow>
          if max_count = 0 \<or> initial_count > max_count then (HR_ERROR_INVALID_ARGUMENT, k)
          else if hr_semaphore_is_valid semaphore k then (HR_ERROR_INVALID_STATE, k)
          else
            (let k = hr_semaphore_zero_control_block s k;
                 k = k\<lparr>scb := (scb k)(s := (scb k s)\<lparr>scount := initial_count, smax_count := max_count\<rparr>)\<rparr>;
                 k = k\<lparr>kmem := hr_wait_list_init (Some (SemaphoreWaiters s)) (kmem k)\<rparr>
             in (HR_OK, k\<lparr>scb := (scb k)(s := (scb k s)\<lparr>smagic := HR_CFG_SEMAPHORE_MAGIC\<rparr>)\<rparr>)))"

definition hr_semaphore_create_binary :: "sem_ptr option \<Rightarrow> bool \<Rightarrow> hr_kernel \<Rightarrow> hr_status \<times> hr_kernel" where
  "hr_semaphore_create_binary semaphore initially_available k =
     hr_semaphore_create_counting semaphore (if initially_available then 1 else 0) 1 k"

definition hr_semaphore_get_count :: "sem_ptr option \<Rightarrow> hr_kernel \<Rightarrow> 32 word" where
  "hr_semaphore_get_count semaphore k =
     (if hr_semaphore_is_valid semaphore k then scount (scb k (the semaphore)) else 0)"

definition hr_semaphore_get_max_count :: "sem_ptr option \<Rightarrow> hr_kernel \<Rightarrow> 32 word" where
  "hr_semaphore_get_max_count semaphore k =
     (if hr_semaphore_is_valid semaphore k then smax_count (scb k (the semaphore)) else 0)"

definition hr_semaphore_get_waiting_tasks :: "sem_ptr option \<Rightarrow> hr_kernel \<Rightarrow> nat" where
  "hr_semaphore_get_waiting_tasks semaphore k =
     (if hr_semaphore_is_valid semaphore k
      then hr_wait_list_size (Some (SemaphoreWaiters (the semaphore))) (kmem k) else 0)"

definition hr_semaphore_give_locked ::
  "sem_ptr \<Rightarrow> bool option \<Rightarrow> hr_kernel \<Rightarrow> ((hr_status \<times> bool option) \<times> hr_kernel) option" where
  "hr_semaphore_give_locked s woken k =
     (case hr_wait_list_peek (Some (SemaphoreWaiters s)) (kmem k) of
        Some waiter \<Rightarrow> hr_kernel_unblock_waiter (Some waiter) HR_OK woken k
      | None \<Rightarrow>
          if scount (scb k s) \<ge> smax_count (scb k s) then Some ((HR_ERROR_SEMAPHORE_FULL, woken), k)
          else Some ((HR_OK, map_option (\<lambda>_. False) woken),
            k\<lparr>scb := (scb k)(s := (scb k s)\<lparr>scount := scount (scb k s) + 1\<rparr>)\<rparr>))"

definition hr_semaphore_take :: "sem_ptr option \<Rightarrow> hr_tick \<Rightarrow> hr_kernel \<Rightarrow> (outcome \<times> hr_kernel) option" where
  "hr_semaphore_take semaphore timeout k =
     (case semaphore of
        None \<Rightarrow> Some (Returned HR_ERROR_INVALID_ARGUMENT, k)
      | Some s \<Rightarrow>
          if \<not> hr_semaphore_is_valid semaphore k then Some (Returned HR_ERROR_INVALID_ARGUMENT, k)
          else if hr_port_is_inside_isr k then Some (Returned HR_ERROR_FROM_ISR, k)
          else if timeout \<noteq> HR_NO_WAIT \<and> \<not> hr_kernel_is_running k
          then Some (Returned HR_ERROR_INVALID_STATE, k)
          else do {
            let (irq_state, k) = hr_port_enter_critical k;
            ((status, blocked), k) \<leftarrow>
              (if scount (scb k s) > 0
               then Some ((HR_OK, None), k\<lparr>scb := (scb k)(s := (scb k s)\<lparr>scount := scount (scb k s) - 1\<rparr>)\<rparr>)
               else if timeout = HR_NO_WAIT then Some ((HR_ERROR_SEMAPHORE_EMPTY, None), k)
               else
                 (case hr_task_control_block (hr_task_current k) of
                    None \<Rightarrow> Some ((HR_ERROR_INVALID_STATE, None), k)
                  | Some blocked_task \<Rightarrow> do {
                      (status, k) \<leftarrow> hr_kernel_block_current_on_wait_list_ex (Some (SemaphoreWaiters s))
                        (Some (Obj_semaphore s)) HR_TASK_WAIT_SEMAPHORE_TAKE None timeout None k;
                      Some ((status, if status = HR_OK then Some blocked_task else None), k)
                    }));
            let k = hr_port_exit_critical irq_state k;
            (case blocked of
               Some t \<Rightarrow> Some (Blocked t, hr_port_request_context_switch k)
             | None \<Rightarrow> Some (Returned status, k))
          })"

definition hr_semaphore_give :: "sem_ptr option \<Rightarrow> hr_kernel \<Rightarrow> (hr_status \<times> hr_kernel) option" where
  "hr_semaphore_give semaphore k =
     (case semaphore of
        None \<Rightarrow> Some (HR_ERROR_INVALID_ARGUMENT, k)
      | Some s \<Rightarrow>
          if \<not> hr_semaphore_is_valid semaphore k then Some (HR_ERROR_INVALID_ARGUMENT, k)
          else if hr_port_is_inside_isr k then Some (HR_ERROR_FROM_ISR, k)
          else do {
            let (irq_state, k) = hr_port_enter_critical k;
            ((status, woken), k) \<leftarrow> hr_semaphore_give_locked s (Some False) k;
            let k = hr_port_exit_critical irq_state k;
            Some (status, if woken = Some True then hr_port_request_context_switch k else k)
          })"

definition hr_semaphore_give_from_isr ::
  "sem_ptr option \<Rightarrow> bool option \<Rightarrow> hr_kernel \<Rightarrow> ((hr_status \<times> bool option) \<times> hr_kernel) option" where
  "hr_semaphore_give_from_isr semaphore higher_priority_task_woken k =
     (case semaphore of
        None \<Rightarrow> Some ((HR_ERROR_INVALID_ARGUMENT, higher_priority_task_woken), k)
      | Some s \<Rightarrow>
          if \<not> hr_semaphore_is_valid semaphore k
          then Some ((HR_ERROR_INVALID_ARGUMENT, higher_priority_task_woken), k)
          else if \<not> hr_port_is_inside_isr k
          then Some ((HR_ERROR_INVALID_STATE, higher_priority_task_woken), k)
          else do {
            let (irq_state, k) = hr_port_enter_critical k;
            ((status, switch_required), k) \<leftarrow> hr_semaphore_give_locked s (Some False) k;
            let k = hr_port_exit_critical irq_state k;
            Some ((status, map_option (\<lambda>_. switch_required = Some True) higher_priority_task_woken), k)
          })"

section \<open>Invariant\<close>

abbreviation sem_waiters :: "hr_kernel \<Rightarrow> sem_ptr \<Rightarrow> node_addr list" where
  "sem_waiters k s \<equiv> nodes_of (kmem k) (SemaphoreWaiters s)"

lemma sem_valid:
  assumes "sems_ok k"
  shows "hr_semaphore_is_valid (Some s) k \<longleftrightarrow> smagic (scb k s) = HR_CFG_SEMAPHORE_MAGIC"
    and "hr_semaphore_is_valid (Some s) k \<Longrightarrow> inited (kmem k) (SemaphoreWaiters s)"
    and "hr_semaphore_is_valid (Some s) k \<Longrightarrow> sem_inv (scb k s) (sem_waiters k s)"
  using assms by (auto simp: hr_semaphore_is_valid_def sems_ok_def sem_inv_def)

lemma kernel_inv_scb:
  assumes "kernel_inv k" and "hr_semaphore_is_valid (Some s) k" and "sem_inv c (sem_waiters k s)"
    and "smagic c = smagic (scb k s)"
  shows "kernel_inv (k\<lparr>scb := (scb k)(s := c)\<rparr>)"
  using assms sem_valid(1) [OF kernel_invD(2) [OF assms(1)], of s]
  by (auto simp: kernel_inv_def sems_ok_def queues_ok_def mutexes_ok_def timers_ok_def timers_okx_def)

section \<open>Giving\<close>

lemma give_waiter:
  assumes "kernel_inv k" and "hr_semaphore_is_valid (Some s) k" and "sem_waiters k s = n # ns"
  obtains t k' where "n = WaitNode t" and "hr_semaphore_give_locked s (Some w) k =
      Some ((HR_OK, Some (\<not> suspended_wait (tcb k t) \<and> outranks k' t)), k')"
    and "kernel_inv k'" and "calm {} k k'" and "sem_waiters k' s = ns" and "woke t k k'"
    and "vwait (view (kmem k) t) = Some (SemaphoreWaiters s)"
proof -
  have i: "is_wait_list (SemaphoreWaiters s)" "inited (kmem k) (SemaphoreWaiters s)"
    using sem_valid(2) [OF kernel_invD(2) [OF assms(1)] assms(2)] by simp_all
  show thesis
  proof (rule unblock_woke [OF assms(1) i assms(3), where woken = "Some w"])
    fix t k' assume p: "hr_wait_list_peek (Some (SemaphoreWaiters s)) (kmem k) = Some n" "n = WaitNode t"
        "vwait (view (kmem k) t) = Some (SemaphoreWaiters s)"
      and u: "hr_kernel_unblock_waiter (Some n) HR_OK (Some w) k =
        Some ((HR_OK, map_option (\<lambda>_. \<not> suspended_wait (tcb k t) \<and> outranks k' t) (Some w)), k')"
      and w: "kernel_inv k'" "calm {} k k'" "woke t k k'"
      and q: "\<And>j. is_wait_list j \<Longrightarrow> inited (kmem k) j \<Longrightarrow>
        nodes_of (kmem k') j = (if j = SemaphoreWaiters s then ns else nodes_of (kmem k) j)"
    have "hr_semaphore_give_locked s (Some w) k = Some ((HR_OK, Some (\<not> suspended_wait (tcb k t) \<and> outranks k' t)), k')"
      using p(1) u by (simp add: hr_semaphore_give_locked_def)
    then show thesis using p(2,3) w q [OF i] by (intro that [of t k']) simp_all
  qed
qed

lemma give_free:
  assumes "kernel_inv k" and "hr_semaphore_is_valid (Some s) k" and "sem_waiters k s = []"
  shows "hr_semaphore_give_locked s (Some w) k =
    (if scount (scb k s) = smax_count (scb k s) then Some ((HR_ERROR_SEMAPHORE_FULL, Some w), k)
     else Some ((HR_OK, Some False), k\<lparr>scb := (scb k)(s := (scb k s)\<lparr>scount := scount (scb k s) + 1\<rparr>)\<rparr>))"
    and "scount (scb k s) \<noteq> smax_count (scb k s) \<Longrightarrow>
      kernel_inv (k\<lparr>scb := (scb k)(s := (scb k s)\<lparr>scount := scount (scb k s) + 1\<rparr>)\<rparr>)"
proof -
  note v = sem_valid [OF kernel_invD(2) [OF assms(1)], of s]
  note ok = mem_okD [OF kinvD(1) [OF kernel_invD(1) [OF assms(1)]]]
  have le: "scount (scb k s) \<le> smax_count (scb k s)" "0 < smax_count (scb k s)"
    using v(3) [OF assms(2)] by (simp_all add: sem_inv_def)
  have pk: "hr_wait_list_peek (Some (SemaphoreWaiters s)) (kmem k) = None"
    using assms(3) by (simp add: wait_peek_wf [OF ok(1) v(2) [OF assms(2)]])
  show "hr_semaphore_give_locked s (Some w) k =
    (if scount (scb k s) = smax_count (scb k s) then Some ((HR_ERROR_SEMAPHORE_FULL, Some w), k)
     else Some ((HR_OK, Some False), k\<lparr>scb := (scb k)(s := (scb k s)\<lparr>scount := scount (scb k s) + 1\<rparr>)\<rparr>))"
    using le(1) by (auto simp: hr_semaphore_give_locked_def pk)
  assume "scount (scb k s) \<noteq> smax_count (scb k s)"
  then have "scount (scb k s) < smax_count (scb k s)" using le(1) by simp
  then have "scount (scb k s) + 1 \<le> smax_count (scb k s)" by (rule inc_le)
  then have "sem_inv ((scb k s)\<lparr>scount := scount (scb k s) + 1\<rparr>) (sem_waiters k s)"
    using le(2) assms(3) by (simp add: sem_inv_def)
  then show "kernel_inv (k\<lparr>scb := (scb k)(s := (scb k s)\<lparr>scount := scount (scb k s) + 1\<rparr>)\<rparr>)"
    by (rule kernel_inv_scb [OF assms(1,2)]) simp
qed

lemma give_locked_inv:
  assumes "kernel_inv k" and "hr_semaphore_is_valid (Some s) k"
  obtains st w' k' where "hr_semaphore_give_locked s (Some w) k = Some ((st, Some w'), k')" and "kernel_inv k'"
    and "st = HR_OK \<or> st = HR_ERROR_SEMAPHORE_FULL" and "queues_same {} k k'" and "timers_same k k'"
    and "inside_isr k' = inside_isr k" and "primask k' = primask k" and "g_kernel_state k' = g_kernel_state k"
    and "g_current_task k' = g_current_task k"
    and "\<And>u. vwait (view (kmem k) u) \<noteq> Some (SemaphoreWaiters s) \<Longrightarrow> task_kept u k k'"
proof (cases "sem_waiters k s")
  case Nil
  note g = give_free [OF assms Nil]
  show thesis
    using g assms(1)
    by (cases "scount (scb k s) = smax_count (scb k s)")
      (auto intro!: that simp: queues_same_def timers_same_def task_kept_def)
next
  case (Cons n ns)
  show thesis
  proof (rule give_waiter [OF assms Cons, of w])
    fix t k' assume g: "hr_semaphore_give_locked s (Some w) k = Some ((HR_OK, Some (\<not> suspended_wait (tcb k t) \<and> outranks k' t)), k')"
      "kernel_inv k'" "calm {} k k'" "woke t k k'" "vwait (view (kmem k) t) = Some (SemaphoreWaiters s)"
    have "task_kept u k k'" if "vwait (view (kmem k) u) \<noteq> Some (SemaphoreWaiters s)" for u
      using that g(4,5) by (cases "u = t") (auto simp: woke_def)
    then show thesis
      using g(3,4) by (intro that [OF g(1,2)]) (simp_all add: calm_def same_objects_def woke_def)
  qed
qed

lemma give_inv:
  assumes "kernel_inv k"
  obtains st k' where "hr_semaphore_give sem k = Some (st, k')" and "kernel_inv k'"
proof (cases "sem = None \<or> \<not> hr_semaphore_is_valid sem k \<or> inside_isr k")
  case True
  then have "\<exists>st. hr_semaphore_give sem k = Some (st, k)"
    by (cases sem) (auto simp: hr_semaphore_give_def hr_port_is_inside_isr_def)
  then show thesis using assms that by blast
next
  case False
  then obtain s where s: "sem = Some s" by auto
  define k0 where "k0 = k\<lparr>primask := 1\<rparr>"
  have k0: "kernel_inv k0" "hr_semaphore_is_valid (Some s) k0" "\<not> inside_isr k"
    using assms False by (auto simp: k0_def hr_semaphore_is_valid_def s)
  obtain st w' k' where g: "hr_semaphore_give_locked s (Some False) k0 = Some ((st, Some w'), k')" "kernel_inv k'"
    by (rule give_locked_inv [OF k0(1,2)])
  have "hr_semaphore_give sem k = Some (st, let k = hr_port_exit_critical (primask k) k'
      in if w' then hr_port_request_context_switch k else k)"
    using False g by (auto simp: s hr_semaphore_give_def hr_port_is_inside_isr_def hr_port_enter_critical_def Let_def
        k0_def [symmetric])
  then show thesis by (rule that) (simp add: g(2) Let_def)
qed

lemma give_from_isr_inv:
  assumes "kernel_inv k"
  obtains st w k' where "hr_semaphore_give_from_isr sem woken k = Some ((st, w), k')" and "kernel_inv k'"
    and "queues_same {} k k'" and "timers_same k k'" and "inside_isr k' = inside_isr k"
    and "g_kernel_state k' = g_kernel_state k" and "g_current_task k' = g_current_task k"
    and "sem = Some s \<Longrightarrow> hr_semaphore_is_valid (Some s) k \<Longrightarrow> inside_isr k \<Longrightarrow> st = HR_OK \<or> st = HR_ERROR_SEMAPHORE_FULL"
    and "\<And>u. sem = Some s \<Longrightarrow> vwait (view (kmem k) u) \<noteq> Some (SemaphoreWaiters s) \<Longrightarrow> task_kept u k k'"
proof (cases "sem = None \<or> \<not> hr_semaphore_is_valid sem k \<or> \<not> inside_isr k")
  case True
  then have "\<exists>st. hr_semaphore_give_from_isr sem woken k = Some ((st, woken), k)"
    by (cases sem) (auto simp: hr_semaphore_give_from_isr_def hr_port_is_inside_isr_def)
  then obtain st where "hr_semaphore_give_from_isr sem woken k = Some ((st, woken), k)" ..
  then show thesis
    by (rule that) (use assms True in \<open>auto simp: queues_same_def timers_same_def task_kept_def\<close>)
next
  case False
  then obtain s where s: "sem = Some s" by auto
  define k0 where "k0 = k\<lparr>primask := 1\<rparr>"
  have k0: "kernel_inv k0" "hr_semaphore_is_valid (Some s) k0"
    using assms False by (auto simp: k0_def hr_semaphore_is_valid_def s)
  have g: "hr_semaphore_give_from_isr sem woken k =
      Some ((st, map_option (\<lambda>_. w') woken), hr_port_exit_critical (primask k) k')"
    if "hr_semaphore_give_locked s (Some False) k0 = Some ((st, Some w'), k')" for st w' k'
    using False that by (auto simp: s hr_semaphore_give_from_isr_def hr_port_is_inside_isr_def hr_port_enter_critical_def
      k0_def [symmetric])
  show thesis
  proof (rule give_locked_inv [OF k0, of False], rule that [OF g])
    fix k' assume "queues_same {} k0 k'" "timers_same k0 k'"
    then show "queues_same {} k (hr_port_exit_critical (primask k) k')" "timers_same k (hr_port_exit_critical (primask k) k')"
      by (simp_all add: queues_same_def timers_same_def hr_port_exit_critical_def k0_def)
  qed (simp_all add: hr_port_exit_critical_def k0_def task_kept_def s)
qed

section \<open>Taking\<close>

definition sem_block_tcb :: "sem_ptr \<Rightarrow> hr_tick \<Rightarrow> hr_tick \<Rightarrow> hr_task_control_block \<Rightarrow> hr_task_control_block" where
  "sem_block_tcb s timeout now c =
     block_tcb (SemaphoreWaiters s) (Obj_semaphore s) HR_TASK_WAIT_SEMAPHORE_TAKE None timeout None now c"

lemma take_token:
  assumes "kernel_inv k" and "hr_semaphore_is_valid (Some s) k" and "\<not> inside_isr k"
    and "timeout = HR_NO_WAIT \<or> g_kernel_state k = HR_KERNEL_STATE_RUNNING" and "0 < scount (scb k s)"
  shows "hr_semaphore_take (Some s) timeout k =
      Some (Returned HR_OK, k\<lparr>scb := (scb k)(s := (scb k s)\<lparr>scount := scount (scb k s) - 1\<rparr>)\<rparr>)"
    and "kernel_inv (k\<lparr>scb := (scb k)(s := (scb k s)\<lparr>scount := scount (scb k s) - 1\<rparr>)\<rparr>)"
proof -
  show "hr_semaphore_take (Some s) timeout k =
      Some (Returned HR_OK, k\<lparr>scb := (scb k)(s := (scb k s)\<lparr>scount := scount (scb k s) - 1\<rparr>)\<rparr>)"
    using assms(2-5)
    by (auto simp: hr_semaphore_take_def hr_port_is_inside_isr_def hr_kernel_is_running_def hr_port_enter_critical_def
      hr_port_exit_critical_def)
  have v: "sem_inv (scb k s) (sem_waiters k s)" by (rule sem_valid(3) [OF kernel_invD(2) [OF assms(1)] assms(2)])
  have "scount (scb k s) - 1 \<le> scount (scb k s)" using assms(5) by (simp add: word_le_sub1 word_gt_0 word_sub_le)
  then have "sem_inv ((scb k s)\<lparr>scount := scount (scb k s) - 1\<rparr>) (sem_waiters k s)"
    using v assms(5) by (auto simp: sem_inv_def)
  then show "kernel_inv (k\<lparr>scb := (scb k)(s := (scb k s)\<lparr>scount := scount (scb k s) - 1\<rparr>)\<rparr>)"
    by (rule kernel_inv_scb [OF assms(1,2)]) simp
qed

lemma take_blocks:
  assumes "kernel_inv k" and "hr_semaphore_is_valid (Some s) k" and "\<not> inside_isr k"
    and "scount (scb k s) = 0" and "timeout \<noteq> HR_NO_WAIT" and "may_block k t"
  obtains k' where "hr_semaphore_take (Some s) timeout k = Some (Blocked t, k')" and "kernel_inv k'" and "pendsv k'"
    and "sem_waiters k' s = insert_fifo (npriority (kmem k)) (WaitNode t) (sem_waiters k s)"
    and "tcb k' = (tcb k)(t := sem_block_tcb s timeout (g_kernel_tick k) (tcb k t))"
    and "entered t (Some (SemaphoreWaiters s)) timeout (kmem k) (kmem k')" and "scb k' = scb k"
    and "g_current_task k' = g_current_task k" and "same_objects k k'"
proof -
  define k0 where "k0 = k\<lparr>primask := 1\<rparr>"
  have k0: "kernel_inv k0" "may_block k0 t" using assms(1,6) by (simp_all add: k0_def may_block_def)
  note v = sem_valid [OF kernel_invD(2) [OF assms(1)], of s]
  have i: "inited (kmem k0) (SemaphoreWaiters s)" using v(2) assms(2) by (simp add: k0_def)
  have rq: "wait_request (SemaphoreWaiters s) (Obj_semaphore s) HR_TASK_WAIT_SEMAPHORE_TAKE None None"
    by (simp add: wait_request_def)
  have cur: "g_current_task k = Some t" "g_kernel_state k = HR_KERNEL_STATE_RUNNING" using assms(6) by (simp_all add: may_block_def)
  show thesis
  proof (rule block_inv [OF k0 rq i assms(5)])
    fix k1 assume b: "hr_kernel_block_current_on_wait_list_ex (Some (SemaphoreWaiters s)) (Some (Obj_semaphore s))
          HR_TASK_WAIT_SEMAPHORE_TAKE None timeout None k0 = Some (HR_OK, k1)"
      and k1: "kinv k1" "calm {SemaphoreWaiters s} k0 k1" "same_objects k0 k1"
      and e: "entered t (Some (SemaphoreWaiters s)) timeout (kmem k0) (kmem k1)"
      and T: "tcb k1 = (tcb k0)(t := block_tcb (SemaphoreWaiters s) (Obj_semaphore s) HR_TASK_WAIT_SEMAPHORE_TAKE None
          timeout None (g_kernel_tick k0) (tcb k0 t))"
      and c: "g_current_task k1 = g_current_task k0"
    let ?k = "hr_port_request_context_switch (hr_port_exit_critical (primask k) k1)"
    have "kernel_inv k1"
      by (rule entered_objects [OF k0(1) e k1(3,2) _ k1(1)]) (use assms(4) in \<open>simp add: may_wait_def k0_def\<close>)
    then have ki: "kernel_inv ?k" by simp
    have q: "nodes_of (kmem k1) (SemaphoreWaiters s) = insert_fifo (npriority (kmem k)) (WaitNode t) (sem_waiters k s)"
      using e i by (simp add: entered_def k0_def)
    have t: "hr_semaphore_take (Some s) timeout k = Some (Blocked t, ?k)"
      using assms(2-5) cur b
      by (simp add: hr_semaphore_take_def hr_port_is_inside_isr_def hr_kernel_is_running_def hr_port_enter_critical_def
          k0_def [symmetric] hr_task_current_def hr_kernel_current_task_internal_def) (simp add: k0_def)
    show thesis
      by (rule that [OF t ki]) (use q T e c k1(3) in
        \<open>simp_all add: hr_port_request_context_switch_def hr_port_exit_critical_def k0_def sem_block_tcb_def same_objects_def\<close>)
  qed
qed

lemma take_refused:
  assumes "\<not> hr_semaphore_is_valid (Some s) k \<or> inside_isr k \<or>
      (timeout \<noteq> HR_NO_WAIT \<and> g_kernel_state k \<noteq> HR_KERNEL_STATE_RUNNING) \<or>
      scount (scb k s) = 0 \<and> (timeout = HR_NO_WAIT \<or> (\<forall>t. \<not> may_block k t))"
  shows "\<exists>st. st \<noteq> HR_OK \<and> hr_semaphore_take (Some s) timeout k = Some (Returned st, k)"
proof (cases "\<not> hr_semaphore_is_valid (Some s) k \<or> inside_isr k \<or>
      (timeout \<noteq> HR_NO_WAIT \<and> g_kernel_state k \<noteq> HR_KERNEL_STATE_RUNNING)")
  case True
  then show ?thesis
    by (auto simp: hr_semaphore_take_def hr_port_is_inside_isr_def hr_kernel_is_running_def)
next
  case False
  then have z: "scount (scb k s) = 0" "timeout = HR_NO_WAIT \<or> (\<forall>t. \<not> may_block k t)" using assms by auto
  note d = hr_semaphore_take_def hr_port_is_inside_isr_def hr_kernel_is_running_def hr_port_enter_critical_def
    hr_task_current_def hr_kernel_current_task_internal_def hr_port_exit_critical_def
  show ?thesis
  proof (cases "timeout = HR_NO_WAIT \<or> g_current_task k = None")
    case True
    then show ?thesis using False z(1) by (auto simp: d)
  next
    case c: False
    then obtain t where t: "g_current_task k = Some t" by auto
    have "\<not> may_block (k\<lparr>primask := 1\<rparr>) t" using z(2) c by (auto simp: may_block_def)
    then obtain st where "st \<noteq> HR_OK" "hr_kernel_block_current_on_wait_list_ex (Some (SemaphoreWaiters s)) (Some (Obj_semaphore s))
          HR_TASK_WAIT_SEMAPHORE_TAKE None timeout None (k\<lparr>primask := 1\<rparr>) = Some (st, k\<lparr>primask := 1\<rparr>)"
      using block_refused [of "k\<lparr>primask := 1\<rparr>" t] t by force
    then show ?thesis using False c t z(1) by (auto simp: d)
  qed
qed

lemma take_inv:
  assumes "kernel_inv k"
  obtains out k' where "hr_semaphore_take sem timeout k = Some (out, k')" and "kernel_inv k'"
proof (cases sem)
  case None
  then show thesis using that assms by (simp add: hr_semaphore_take_def)
next
  case (Some s)
  consider (token) "hr_semaphore_is_valid (Some s) k" "\<not> inside_isr k"
      "timeout = HR_NO_WAIT \<or> g_kernel_state k = HR_KERNEL_STATE_RUNNING" "0 < scount (scb k s)"
    | (block) t where "hr_semaphore_is_valid (Some s) k" "\<not> inside_isr k" "scount (scb k s) = 0" "timeout \<noteq> HR_NO_WAIT" "may_block k t"
    | (refused) "\<not> hr_semaphore_is_valid (Some s) k \<or> inside_isr k \<or>
      (timeout \<noteq> HR_NO_WAIT \<and> g_kernel_state k \<noteq> HR_KERNEL_STATE_RUNNING) \<or>
      scount (scb k s) = 0 \<and> (timeout = HR_NO_WAIT \<or> (\<forall>t. \<not> may_block k t))"
    by (metis word_gt_0)
  then show thesis
  proof cases
    case token
    then show thesis using take_token [OF assms token] that Some by simp
  next
    case block
    then show thesis using that Some by (metis take_blocks [OF assms block])
  next
    case refused
    then show thesis using take_refused [OF refused] that Some assms by blast
  qed
qed

section \<open>Creating\<close>

definition new_sem_mem :: "sem_ptr \<Rightarrow> mem \<Rightarrow> mem" where
  "new_sem_mem s m = hr_list_init (Some (SemaphoreWaiters s))
     (set_size (SemaphoreWaiters s) 0 (set_node (Root (SemaphoreWaiters s)) zero_node m))"

lemma new_sem_mem:
  assumes "mem_ok m" and "\<not> inited m (SemaphoreWaiters s)"
  shows "set_up {SemaphoreWaiters s} {Root (SemaphoreWaiters s)} m (new_sem_mem s m)"
proof -
  let ?m = "set_size (SemaphoreWaiters s) 0 (set_node (Root (SemaphoreWaiters s)) zero_node m)"
  have z: "set_up {} {Root (SemaphoreWaiters s)} m ?m"
    by (rule set_up_nodes [OF assms(1)])
      (use assms(2) free_root [OF assms] in \<open>auto simp: node_upd_defs zero_node_def\<close>)
  then have "mem_ok ?m" "\<not> inited ?m (SemaphoreWaiters s)" using assms(2) by (simp_all add: set_up_def)
  from set_up_trans [OF z set_up_new [OF this]] show ?thesis by (simp add: new_sem_mem_def)
qed

lemma sem_create_eq:
  "hr_semaphore_create_counting semaphore initial_count max_count k =
     (case semaphore of
        None \<Rightarrow> (HR_ERROR_INVALID_ARGUMENT, k)
      | Some s \<Rightarrow>
          if max_count = 0 \<or> initial_count > max_count then (HR_ERROR_INVALID_ARGUMENT, k)
          else if hr_semaphore_is_valid semaphore k then (HR_ERROR_INVALID_STATE, k)
          else (HR_OK, k\<lparr>kmem := new_sem_mem s (kmem k), scb := (scb k)(s :=
            \<lparr>scount = initial_count, smax_count = max_count, smagic = HR_CFG_SEMAPHORE_MAGIC\<rparr>)\<rparr>))"
  by (cases semaphore) (simp_all add: hr_semaphore_create_counting_def hr_semaphore_zero_control_block_def Let_def
      hr_wait_list_init_def zero_scb_def new_sem_mem_def)

lemma sem_created:
  assumes "kernel_inv k" and "\<not> hr_semaphore_is_valid (Some s) k" and "0 < max_count" and "initial_count \<le> max_count"
  shows "kernel_inv (k\<lparr>kmem := new_sem_mem s (kmem k), scb := (scb k)(s :=
            \<lparr>scount = initial_count, smax_count = max_count, smagic = HR_CFG_SEMAPHORE_MAGIC\<rparr>)\<rparr>)" (is "kernel_inv ?k")
proof -
  note i = kernel_invD [OF assms(1)]
  have ni: "\<not> inited (kmem k) (SemaphoreWaiters s)" "smagic (scb k s) \<noteq> HR_CFG_SEMAPHORE_MAGIC"
    using assms(2) sem_valid(1) [OF i(2)] i(2) by (auto simp: sems_ok_def)
  note u = new_sem_mem [OF kinvD(1) [OF i(1)] ni(1)]
  have o: "owners_ok (new_sem_mem s (kmem k)) (tcb k) (mcb k)"
    by (rule set_up_owners [OF kinvD(3) [OF i(1)] u]) auto
  have "kinv ?k" using set_up_kinv [OF i(1) u _ o] by simp
  moreover have "sems_ok ?k"
    using i(2) u assms(3,4) ni unfolding sems_ok_def set_up_def by (auto simp: sem_inv_def)
  moreover have "queues_ok ?k"
    by (rule queues_ok_calm [OF i(3)], rule set_up_same(2) [where k' = ?k]) (use u in auto)
  moreover have "mutexes_ok ?k"
    by (rule mutexes_ok_calm [OF i(5) kinvD(3) [OF i(1)]], rule set_up_same(3) [where k' = ?k]) (use u in auto)
  moreover have "timers_ok ?k"
    by (rule timers_ok_calm [OF i(4)], rule set_up_same(4) [where k' = ?k]) (use u i(4) ni in \<open>auto\<close>)
  ultimately show ?thesis by (simp add: kernel_inv_def)
qed

lemma sem_create_inv:
  assumes "kernel_inv k"
  shows "kernel_inv (snd (hr_semaphore_create_counting semaphore initial_count max_count k))"
  using assms sem_created [OF assms]
  by (cases semaphore) (simp_all add: sem_create_eq word_gt_0 not_less)

end
