(* ===== verification/HR_Timer_Lists.thy ===== *)
theory HR_Timer_Lists
  imports HR_Objects
begin

text \<open>
  The timer lists of \<open>hr_timer.c\<close> in the memory of the kernel: arming and disarming a timer,
  the list of pending callbacks, and what such a step leaves alone for tasks, semaphores,
  queues and mutexes. The advance of a timeout list by one tick is shown for the list of the
  tasks and for the one of the timers at once.
\<close>

section \<open>Frame\<close>

fun timer_list :: "list_addr \<Rightarrow> bool" where
  "timer_list (TimeoutList a i) = (a = G_timer_timeouts)"
| "timer_list PendingTimers = True"
| "timer_list ExpiredTimers = True"
| "timer_list _ = False"

definition kernel_same :: "mem \<Rightarrow> mem \<Rightarrow> bool" where
  "kernel_same m m' \<longleftrightarrow>
     mem_ok m' \<and> view m' = view m \<and> (\<forall>l. \<not> timer_list l \<longrightarrow> inited m' l = inited m l) \<and>
     (\<forall>x. nlist (nodes m' (OwnerNode x)) = nlist (nodes m (OwnerNode x)) \<and> nowner (nodes m' (OwnerNode x)) = nowner (nodes m (OwnerNode x))) \<and>
     (\<forall>l. inited m l \<longrightarrow> \<not> timer_list l \<longrightarrow> nodes_of m' l = nodes_of m l) \<and>
     timeout_lists m' G_timeout_list = timeout_lists m G_timeout_list \<and> npriority m' = npriority m \<and>
     (\<forall>t. nwake_tick m' (TimeoutNode t) = nwake_tick m (TimeoutNode t)) \<and>
     ready_seq m' G_scheduler = ready_seq m G_scheduler"

lemma kernel_same_refl: "mem_ok m \<Longrightarrow> kernel_same m m"
  by (simp add: kernel_same_def)

lemma kernel_same_trans: "kernel_same m m1 \<Longrightarrow> kernel_same m1 m2 \<Longrightarrow> kernel_same m m2"
  by (simp add: kernel_same_def)

lemma kernel_same_kinv:
  assumes "kinvx E X k" and "kernel_same (kmem k) m"
  shows "kinvx E X (k\<lparr>kmem := m\<rparr>)"
proof -
  note s = assms(2) [unfolded kernel_same_def]
  have o: "owners_ok m (tcb k) (mcb k)"
    using kinvD(3) [OF assms(1)] s unfolding owners_ok_def by simp
  have "inited (kmem k) AllTasks" by (rule mem_okD(3) [OF kinvD(1) [OF assms(1)]])
  then show ?thesis
    using assms(1) s o unfolding kinvx_def by (simp add: tasks_ok_def current_ok_def)
qed

lemma kernel_same_objects:
  assumes "kernel_same (kmem k) (kmem k')"
  shows "scb k' = scb k \<Longrightarrow> sems_same {} k k'" and "qcb k' = qcb k \<Longrightarrow> queues_same {} k k'"
    and "mcb k' = mcb k \<Longrightarrow> mutexes_same {} k k'"
proof -
  have "sem_list l \<Longrightarrow> \<not> timer_list l" "queue_list l \<Longrightarrow> \<not> timer_list l" "mutex_list l \<Longrightarrow> \<not> timer_list l" for l
    by (cases l; simp)+
  then show "scb k' = scb k \<Longrightarrow> sems_same {} k k'" "qcb k' = qcb k \<Longrightarrow> queues_same {} k k'" "mcb k' = mcb k \<Longrightarrow> mutexes_same {} k k'"
    using assms by (simp_all add: kernel_same_def sems_same_def queues_same_def mutexes_same_def fewer_waiters_def)
qed

text \<open>An operation on timers keeps everything else.\<close>

lemma kernel_same_rest:
  assumes "kinvx E X k" and "sems_ok k" and "queues_ok k" and "mutexes_ok k" and "kernel_same (kmem k) (kmem k')"
    and "k' = k\<lparr>kmem := kmem k', tmcb := tmcb k'\<rparr>"
  shows "kinvx E X k'" and "sems_ok k'" and "queues_ok k'" and "mutexes_ok k'"
proof -
  have e: "scb k' = scb k" "qcb k' = qcb k" "mcb k' = mcb k" by (subst assms(6), simp)+
  note o = kernel_same_objects [OF assms(5)]
  show "sems_ok k'" "queues_ok k'" "mutexes_ok k'"
    using sems_ok_calm [OF assms(2) o(1)] queues_ok_calm [OF assms(3) o(2)] mutexes_ok_calm [OF assms(4) kinvD(3) [OF assms(1)] o(3)] e
    by simp_all
  show "kinvx E X k'" by (subst assms(6)) (use kernel_same_kinv [OF assms(1,5)] in simp)
qed

section \<open>Arming and disarming\<close>

lemma kernel_sameI:
  assumes "mem_ok m'" and "inited m' = inited m" and "\<And>n. \<not> timer_node n \<Longrightarrow> nlist (nodes m' n) = nlist (nodes m n)"
    and "\<And>n. nowner (nodes m' n) = nowner (nodes m n)" and "\<And>l. inited m l \<Longrightarrow> \<not> timer_list l \<Longrightarrow> nodes_of m' l = nodes_of m l"
    and "timeout_lists m' G_timeout_list = timeout_lists m G_timeout_list" and "npriority m' = npriority m"
    and "\<And>t. nwake_tick m' (TimeoutNode t) = nwake_tick m (TimeoutNode t)" and "ready_seq m' G_scheduler = ready_seq m G_scheduler"
  shows "kernel_same m m'"
  using assms by (simp add: kernel_same_def view_def fun_eq_iff del: node_view)

lemma mem_timer_arm:
  assumes "mem_ok m" and "tcurrent (timeout_lists m G_timer_timeouts) \<noteq> None" and "nlist (nodes m (TimerNode x)) = None"
    and "d \<noteq> 0xFFFFFFFF" and "d \<noteq> 0"
  defines "m' \<equiv> timeout_link G_timer_timeouts (TimerNode x) d m"
  shows "hr_timeout_list_insert (Some G_timer_timeouts) (Some (TimerNode x)) d m = Some (HR_OK, m')"
    and "kernel_same m m'" and "inited m' = inited m"
    and "nlist (nodes m' n) = (if n = TimerNode x then Some (timeout_target m G_timer_timeouts d) else nlist (nodes m n))"
    and "timeout_target m G_timer_timeouts d \<noteq> ExpiredTimers"
    and "nowner (nodes m' n) = nowner (nodes m n)"
    and "tcurrent (timeout_lists m' G_timer_timeouts) = tcurrent (timeout_lists m G_timer_timeouts)"
    and "last_tick m' G_timer_timeouts = last_tick m G_timer_timeouts"
    and "plain_list l \<Longrightarrow> inited m l \<Longrightarrow> nodes_of m' l = nodes_of m l"
    and "timeout_seq m' G_timer_timeouts = insert_fifo (remaining m' G_timer_timeouts) (TimerNode x) (timeout_seq m G_timer_timeouts)"
    and "remaining m' G_timer_timeouts = (remaining m G_timer_timeouts)(TimerNode x := d)"
proof -
  note ok = mem_okD(1) [OF assms(1)] and ta = mem_okD(5) [OF assms(1,2)]
  note w = timeout_insert_wf [OF ok ta _ assms(3-5), folded m'_def, simplified]
  note sq = timeout_insert_seq [OF ok ta _ assms(3-5), folded m'_def, simplified]
  note f = mem_timeout_link [OF assms(1,2) timeout_kind_simps(2) assms(3-5), folded m'_def]
  have "nodes_of m' l = nodes_of m l" if "inited m l" "\<not> timer_list l" for l using that by (intro f(6)) auto
  then show "kernel_same m m'"
    by (intro kernel_sameI) (auto simp: w f(1,2))
  show "timeout_target m G_timer_timeouts d \<noteq> ExpiredTimers" using timeout_target_cases [OF ta, of d] by auto
  show "plain_list l \<Longrightarrow> inited m l \<Longrightarrow> nodes_of m' l = nodes_of m l" by (rule f)
qed (use timeout_insert_wf [OF mem_okD(1) [OF assms(1)] mem_okD(5) [OF assms(1,2)] _ assms(3-5), folded m'_def, simplified]
    timeout_insert_seq [OF mem_okD(1) [OF assms(1)] mem_okD(5) [OF assms(1,2)] _ assms(3-5), folded m'_def, simplified] in simp_all)

lemma mem_timer_disarm:
  assumes "mem_ok m" and "tcurrent (timeout_lists m G_timer_timeouts) \<noteq> None" and "nlist (nodes m (TimerNode x)) \<noteq> None"
    and "nlist (nodes m (TimerNode x)) \<noteq> Some ExpiredTimers"
  defines "m' \<equiv> timeout_unlink G_timer_timeouts (TimerNode x) m"
  shows "hr_timeout_list_remove (Some G_timer_timeouts) (Some (TimerNode x)) m = Some (HR_OK, m')"
    and "kernel_same m m'" and "inited m' = inited m"
    and "nlist (nodes m' n) = (if n = TimerNode x then None else nlist (nodes m n))"
    and "nowner (nodes m' n) = nowner (nodes m n)"
    and "tcurrent (timeout_lists m' G_timer_timeouts) = tcurrent (timeout_lists m G_timer_timeouts)"
    and "last_tick m' G_timer_timeouts = last_tick m G_timer_timeouts"
    and "plain_list l \<Longrightarrow> inited m l \<Longrightarrow> nodes_of m' l = nodes_of m l"
    and "timeout_seq m' G_timer_timeouts = remove1 (TimerNode x) (timeout_seq m G_timer_timeouts)"
    and "remaining m' G_timer_timeouts = remaining m G_timer_timeouts"
proof -
  note ok = mem_okD [OF assms(1)] and ta = mem_okD(5) [OF assms(1,2)]
  obtain i where i: "nlist (nodes m (TimerNode x)) = Some (TimeoutList G_timer_timeouts i)"
    using assms(3,4) ok(6) [of "TimerNode x"] by (auto split: list_addr.splits)
  note f = mem_timeout_unlink [OF assms(1,2) timeout_kind_simps(2) i, folded m'_def]
  note w = timeout_remove_wf [OF ok(1) ta _ f(1), folded m'_def, simplified]
    and sq = timeout_remove_seq [OF ok(1) ta _ f(1), folded m'_def, simplified]
  show "hr_timeout_list_remove (Some G_timer_timeouts) (Some (TimerNode x)) m = Some (HR_OK, m')" by (rule w)
  have "nodes_of m' l = nodes_of m l" if "inited m l" "\<not> timer_list l" for l using that by (intro f(7)) auto
  then show "kernel_same m m'" by (intro kernel_sameI) (auto simp: w f(2,3))
  show "plain_list l \<Longrightarrow> inited m l \<Longrightarrow> nodes_of m' l = nodes_of m l" by (rule f)
  show "inited m' = inited m" "nlist (nodes m' n) = (if n = TimerNode x then None else nlist (nodes m n))"
    "nowner (nodes m' n) = nowner (nodes m n)" "tcurrent (timeout_lists m' G_timer_timeouts) = tcurrent (timeout_lists m G_timer_timeouts)"
    "last_tick m' G_timer_timeouts = last_tick m G_timer_timeouts" by (simp_all add: w)
  show "timeout_seq m' G_timer_timeouts = remove1 (TimerNode x) (timeout_seq m G_timer_timeouts)"
    "remaining m' G_timer_timeouts = remaining m G_timer_timeouts" by (rule sq)+
qed

section \<open>Pending and expired timers\<close>

lemma mem_pending_push:
  assumes "mem_ok m" and "inited m PendingTimers" and "nlist (nodes m (PendingNode x)) = None"
  defines "m' \<equiv> link_at PendingTimers (nodes_of m PendingTimers) [] (PendingNode x) m"
  shows "hr_list_push_back (Some PendingTimers) (Some (PendingNode x)) m = Some (HR_OK, m')"
    and "kernel_same m m'" and "same_timeouts m m'"
    and "nlist (nodes m' n) = (if n = PendingNode x then Some PendingTimers else nlist (nodes m n))"
    and "nowner (nodes m' n) = nowner (nodes m n)"
    and "inited m k \<Longrightarrow> nodes_of m' k = (if k = PendingTimers then nodes_of m PendingTimers @ [PendingNode x] else nodes_of m k)"
proof -
  note p = mem_plain_push [OF assms(1) _ assms(2) _ _ assms(3), folded m'_def, simplified]
  show "kernel_same m m'" by (intro kernel_sameI) (auto simp: p)
qed (use mem_plain_push [OF assms(1) _ assms(2) _ _ assms(3), folded m'_def, simplified] in simp_all)

lemma mem_timer_unlink:
  assumes "mem_ok m" and "timer_node n" and "nlist (nodes m n) = Some l" and "l = PendingTimers \<or> l = ExpiredTimers"
  defines "m' \<equiv> unlink n m"
  shows "hr_list_remove (Some n) m = Some (HR_OK, m')"
    and "kernel_same m m'" and "same_timeouts m m'"
    and "nlist (nodes m' j) = (if j = n then None else nlist (nodes m j))" and "nowner (nodes m' j) = nowner (nodes m j)"
    and "inited m k \<Longrightarrow> nodes_of m' k = (if k = l then remove1 n (nodes_of m k) else nodes_of m k)"
proof -
  have l: "plain_list l" using assms(4) by auto
  have n: "\<not> is_root n" using assms(2) by (cases n) simp_all
  note p = mem_plain_remove [OF assms(1) l n assms(3), folded m'_def]
  have "nodes_of m' k = nodes_of m k" if "inited m k" "\<not> timer_list k" for k
    using p(5) [OF that(1)] that(2) assms(4) by auto
  then show "kernel_same m m'" using assms(2) by (intro kernel_sameI) (auto simp: p(2,4,6-11))
  show "hr_list_remove (Some n) m = Some (HR_OK, m')" "same_timeouts m m'"
    "nlist (nodes m' j) = (if j = n then None else nlist (nodes m j))" "nowner (nodes m' j) = nowner (nodes m j)"
    "inited m k \<Longrightarrow> nodes_of m' k = (if k = l then remove1 n (nodes_of m k) else nodes_of m k)" by (rule p; assumption)+
qed

lemma mem_timer_pop:
  assumes "mem_ok m" and "inited m l" and "l = PendingTimers \<or> l = ExpiredTimers"
  shows "nodes_of m l = [] \<Longrightarrow> hr_list_pop_front (Some l) m = Some (None, m)"
    and "nodes_of m l = n # ns \<Longrightarrow> hr_list_pop_front (Some l) m = Some (Some n, unlink n m) \<and> nlist (nodes m n) = Some l"
  using pop_front_wf [OF mem_okD(1) [OF assms(1)] assms(2)] wf_in_list [OF mem_okD(1) [OF assms(1)] assms(2), of n] by auto

section \<open>One tick\<close>

text \<open>The list that collects the expired nodes of each of the two timeout lists.\<close>

fun expired_of :: "tlist_addr \<Rightarrow> list_addr" where
  "expired_of G_timeout_list = ExpiredNodes"
| "expired_of G_timer_timeouts = ExpiredTimers"

lemma timeout_member:
  assumes "mem_ok m" and "timeout_ok m a" and "x \<in> set (timeout_seq m a)"
  shows "\<exists>i < 2. node_fits x (TimeoutList a i)" and "\<not> is_root x"
proof -
  note wf = mem_okD(1) [OF assms(1)]
  obtain i j where l: "current_of m a = TimeoutList a i" "overflow_of m a = TimeoutList a j" "i < 2" "j < 2"
    by (rule timeout_lists_of [OF assms(2)])
  then obtain r where r: "r < 2" "x \<in> set (nodes_of m (TimeoutList a r))"
    using assms(3) by (auto simp: timeout_seq_def)
  have n: "inited m (TimeoutList a r)" by (rule timeout_inited [OF assms(2) r(1)])
  show "\<exists>i < 2. node_fits x (TimeoutList a i)" using member_fits [OF assms(1) n r(2)] r(1) by blast
  show "\<not> is_root x" using wf_linked [OF wf n] r(2) by (simp add: linked_def)
qed

lemma mem_tick:
  assumes "mem_ok m" and "tcurrent (timeout_lists m a) \<noteq> None" and "inited m (expired_of a)" and "nodes_of m (expired_of a) = []"
  obtains m' where "hr_timeout_list_advance (Some a) (last_tick m a + 1) (Some (expired_of a)) m = Some (HR_OK, m')"
    and "mem_ok m'" and "inited m' = inited m" and "last_tick m' a = last_tick m a + 1" and "tcurrent (timeout_lists m' a) \<noteq> None"
    and "nodes_of m' (expired_of a) = takeWhile (\<lambda>x. remaining m a x = 1) (timeout_seq m a)"
    and "timeout_seq m' a = dropWhile (\<lambda>x. remaining m a x = 1) (timeout_seq m a)"
    and "\<And>x. remaining m' a x = remaining m a x - 1"
    and "\<And>k. inited m k \<Longrightarrow> k \<noteq> expired_of a \<Longrightarrow> (\<And>i. k \<noteq> TimeoutList a i) \<Longrightarrow> nodes_of m' k = nodes_of m k"
    and "\<And>x. nlist (nodes m' x) = (if x \<in> set (nodes_of m' (expired_of a)) then Some (expired_of a) else nlist (nodes m x))"
    and "\<And>x. nowner (nodes m' x) = nowner (nodes m x)"
    and "npriority m' = npriority m" and "nwake_tick m' = nwake_tick m" and "ready_seq m' G_scheduler = ready_seq m G_scheduler"
    and "\<And>u. u \<noteq> a \<Longrightarrow> timeout_lists m' u = timeout_lists m u"
proof -
  let ?e = "expired_of a"
  note ok = mem_okD [OF assms(1)] and ta = mem_okD(5) [OF assms(1,2)]
  have er: "expire_ready m a ?e" using assms(3,4) by (cases a) (simp_all add: expire_ready_def)
  show thesis
  proof (rule tick_wf [OF ok(1) ta er])
    fix m' assume t: "hr_timeout_list_advance (Some a) (last_tick m a + 1) (Some ?e) m = Some (HR_OK, m')"
      "wf_mem m'" "inited m' = inited m" "timeout_ok m' a" "last_tick m' a = last_tick m a + 1"
      "nodes_of m' ?e = takeWhile (\<lambda>x. remaining m a x = 1) (timeout_seq m a)"
      "timeout_seq m' a = dropWhile (\<lambda>x. remaining m a x = 1) (timeout_seq m a)" "\<And>x. remaining m' a x = remaining m a x - 1"
      "\<And>k. inited m k \<Longrightarrow> k \<noteq> ?e \<Longrightarrow> (\<And>i. k \<noteq> TimeoutList a i) \<Longrightarrow> nodes_of m' k = nodes_of m k"
      "\<And>x. nlist (nodes m' x) = (if x \<in> set (nodes_of m' ?e) then Some ?e else nlist (nodes m x))"
      "\<And>x. nowner (nodes m' x) = nowner (nodes m x)" "npriority m' = npriority m" "nwake_tick m' = nwake_tick m"
      "ready_sets m' = ready_sets m" "\<And>u. u \<noteq> a \<Longrightarrow> timeout_lists m' u = timeout_lists m u"
    have ex: "node_fits x ?e" if "x \<in> set (nodes_of m' ?e)" for x
    proof -
      have "x \<in> set (timeout_seq m a)" using that t(6) set_takeWhileD by metis
      from timeout_member [OF assms(1) ta this] show ?thesis by (cases x; cases a) auto
    qed
    have other: "nodes_of m' (TimeoutList u i) = nodes_of m (TimeoutList u i)" if "u \<noteq> a" "timeout_ok m u" "i < 2" for u i
      using that timeout_inited [OF that(2,3)] by (intro t(9)) (cases a; auto)+
    have to: "timeout_ok m' u" if "tcurrent (timeout_lists m' u) \<noteq> None" for u
    proof (cases "u = a")
      case False
      then have u: "timeout_ok m u" using that t(15) ok(5) by simp
      show ?thesis by (rule timeout_ok_frame [OF u]) (simp_all add: t(3,13) t(15) [OF False] other [OF False u])
    qed (simp add: t(4))
    have wl: "nodes_of m' l = nodes_of m l" if "inited m l" "is_wait_list l" for l
      using that by (intro t(9)) (cases a; auto)+
    have rq: "nodes_of m' (ReadyQueue r i) = nodes_of m (ReadyQueue r i)" if "inited m (ReadyQueue r i)" for r i
      using that by (intro t(9)) (cases a; auto)+
    have rd: "same_ready m m'" by (simp add: same_ready_def t(3,12,14) rq)
    have tg: "tcurrent (timeout_lists m' G_timeout_list) \<noteq> None" "tcurrent (timeout_lists m' a) \<noteq> None"
      using t(4,15) task_list_current [OF assms(1)] by (cases a; auto simp: timeout_ok_def)+
    have "mem_ok m'"
      unfolding mem_ok_def
    proof (intro conjI allI impI)
      show "wf_mem m'" "ready_ok m' G_scheduler" "inited m' AllTasks" "tcurrent (timeout_lists m' G_timeout_list) \<noteq> None"
        using t(2,3) ok(3) same_ready_ok [OF rd ok(1,2)] tg(1) by simp_all
      show "tcurrent (timeout_lists m' u) \<noteq> None \<Longrightarrow> timeout_ok m' u" for u by (rule to)
      show "nlist (nodes m' x) = Some l \<Longrightarrow> node_fits x l" for x l
        using ex [of x] ok(6) [of x l] t(10) [of x] by (auto split: if_splits)
      show "is_wait_list l \<Longrightarrow> inited m' l \<Longrightarrow> sorted (map (npriority m') (nodes_of m' l))" for l
        using ok(7) [of l] wl [of l] t(3,12) by simp
    qed
    then show thesis
      by (rule that [OF t(1) _ t(3,5) tg(2) t(6-13) same_ready_ok(2) [OF rd ok(1,2)] t(15)])
  qed
qed

end
