(* ===== verification/HR_Timer.thy ===== *)
theory HR_Timer
  imports HR_Semaphore HR_Timer_Lists
begin

text \<open>
  The software timers of \<open>kernel/src/hr_timer.c\<close>: a timeout list of armed timers that the tick
  handler advances, a list of timers with callbacks to run, and the service task that runs
  them. Callbacks are application code: \<open>hr_timer_process_one_pending\<close> takes their effect as
  an argument.
\<close>

section \<open>Operations\<close>

definition hr_timer_zero_control_block :: "timer_ptr \<Rightarrow> hr_kernel \<Rightarrow> hr_kernel" where
  "hr_timer_zero_control_block x k =
     (let m = set_node (PendingNode x) zero_node (set_node (TimerNode x) zero_node (kmem k))
      in k\<lparr>tmcb := (tmcb k)(x := zero_tmcb),
           kmem := m\<lparr>nwake_tick := (nwake_tick m)(TimerNode x := 0)\<rparr>\<rparr>)"

definition hr_timer_control_block :: "timer_ptr option \<Rightarrow> timer_ptr option" where
  [simp]: "hr_timer_control_block timer = timer"

definition hr_timer_control_block_const :: "timer_ptr option \<Rightarrow> timer_ptr option" where
  [simp]: "hr_timer_control_block_const timer = timer"

definition hr_timer_is_valid :: "timer_ptr option \<Rightarrow> hr_kernel \<Rightarrow> bool" where
  "hr_timer_is_valid timer k =
     (case hr_timer_control_block_const timer of
        None \<Rightarrow> False
      | Some x \<Rightarrow>
          tmmagic (tmcb k x) = HR_CFG_TIMER_MAGIC \<and> tmname (tmcb k x) \<noteq> None \<and>
          tmcallback (tmcb k x) \<noteq> None \<and> tmperiod_ticks (tmcb k x) > 0 \<and>
          tmperiod_ticks (tmcb k x) \<noteq> HR_WAIT_FOREVER)"

definition hr_timer_validate_internal :: "timer_ptr option \<Rightarrow> hr_kernel \<Rightarrow> bool" where
  "hr_timer_validate_internal timer k \<longleftrightarrow>
     hr_timer_is_valid timer k \<and>
     tmactive (tmcb k (the timer)) = hr_list_node_is_linked (Some (TimerNode (the timer))) (kmem k) \<and>
     (tmpending_count (tmcb k (the timer)) = 0) =
       (\<not> hr_list_node_is_linked (Some (PendingNode (the timer))) (kmem k))"

definition upd_tmcb :: "timer_ptr \<Rightarrow> (hr_timer_control_block \<Rightarrow> hr_timer_control_block) \<Rightarrow> hr_kernel \<Rightarrow> hr_kernel" where
  "upd_tmcb x f k = k\<lparr>tmcb := (tmcb k)(x := f (tmcb k x))\<rparr>"

definition hr_timer_system_reset :: "hr_kernel \<Rightarrow> hr_kernel" where
  "hr_timer_system_reset k = k\<lparr>g_timer_system_initialized := False\<rparr>"

text \<open>The addresses of the service task's entry function and stack come from the linker.\<close>

definition hr_timer_system_ensure_initialized ::
  "32 word \<Rightarrow> 32 word \<Rightarrow> hr_kernel \<Rightarrow> (hr_status \<times> hr_kernel) option" where
  "hr_timer_system_ensure_initialized service_entry service_stack k =
     (if g_timer_system_initialized k then Some (HR_OK, k)
      else if hr_kernel_get_state k \<noteq> HR_KERNEL_STATE_INITIALIZED then Some (HR_ERROR_INVALID_STATE, k)
      else do {
        let k = k\<lparr>kmem := hr_timeout_list_init (Some G_timer_timeouts) (hr_kernel_get_tick k) (kmem k)\<rparr>;
        let k = k\<lparr>kmem := hr_list_init (Some PendingTimers) (kmem k)\<rparr>;
        let (status, k) = hr_semaphore_create_binary (Some g_timer_signal) False k;
        if status \<noteq> HR_OK then Some (status, k)
        else do {
          let (status, k) = hr_task_create_static (Some g_timer_service_task) (Some ''timer-service'')
            (Some service_entry) 0 (Some service_stack) 160 (HR_CFG_IDLE_PRIORITY - 1) k;
          if status \<noteq> HR_OK then Some (status, k)
          else do {
            (status, k) \<leftarrow> hr_task_start (Some g_timer_service_task) k;
            if status \<noteq> HR_OK then Some (status, k)
            else Some (HR_OK, k\<lparr>g_timer_system_initialized := True\<rparr>)
          }
        }
      })"

definition hr_timer_create_static ::
  "32 word \<Rightarrow> 32 word \<Rightarrow> timer_ptr option \<Rightarrow> string option \<Rightarrow> hr_tick \<Rightarrow> bool \<Rightarrow> nat option \<Rightarrow> nat \<Rightarrow>
   hr_kernel \<Rightarrow> (hr_status \<times> hr_kernel) option" where
  "hr_timer_create_static service_entry service_stack timer name period_ticks auto_reload callback argument k =
     (case timer of
        None \<Rightarrow> Some (HR_ERROR_INVALID_ARGUMENT, k)
      | Some x \<Rightarrow>
          if name = None \<or> callback = None \<or> period_ticks = 0 \<or> period_ticks = HR_WAIT_FOREVER
          then Some (HR_ERROR_INVALID_ARGUMENT, k)
          else if hr_port_is_inside_isr k then Some (HR_ERROR_FROM_ISR, k)
          else if hr_timer_is_valid timer k then Some (HR_ERROR_INVALID_STATE, k)
          else do {
            (status, k) \<leftarrow> hr_timer_system_ensure_initialized service_entry service_stack k;
            if status \<noteq> HR_OK then Some (status, k)
            else do {
              let k = hr_timer_zero_control_block x k;
              let k = k\<lparr>kmem := hr_timeout_node_init (Some (TimerNode x)) (Some (Timer_obj x)) (kmem k)\<rparr>;
              let k = k\<lparr>kmem := hr_list_node_init (Some (PendingNode x)) (Some (Timer_obj x)) (kmem k)\<rparr>;
              Some (HR_OK, upd_tmcb x (\<lambda>c. c\<lparr>tmname := name, tmcallback := callback, tmargument := argument,
                tmperiod_ticks := period_ticks, tmauto_reload := auto_reload, tmactive := False,
                tmcallback_running := False, tmpending_count := 0, tmmagic := HR_CFG_TIMER_MAGIC\<rparr>) k)
            }
          })"

definition hr_timer_is_active :: "timer_ptr option \<Rightarrow> hr_kernel \<Rightarrow> bool" where
  "hr_timer_is_active timer k \<longleftrightarrow> hr_timer_is_valid timer k \<and> tmactive (tmcb k (the timer))"

definition hr_timer_get_name :: "timer_ptr option \<Rightarrow> hr_kernel \<Rightarrow> string option" where
  "hr_timer_get_name timer k = (if hr_timer_is_valid timer k then tmname (tmcb k (the timer)) else None)"

definition hr_timer_get_period :: "timer_ptr option \<Rightarrow> hr_kernel \<Rightarrow> hr_tick" where
  "hr_timer_get_period timer k = (if hr_timer_is_valid timer k then tmperiod_ticks (tmcb k (the timer)) else 0)"

definition hr_timer_get_pending_count :: "timer_ptr option \<Rightarrow> hr_kernel \<Rightarrow> 32 word" where
  "hr_timer_get_pending_count timer k =
     (if hr_timer_is_valid timer k then tmpending_count (tmcb k (the timer)) else 0)"

definition hr_timer_clear_pending_locked :: "timer_ptr \<Rightarrow> hr_kernel \<Rightarrow> hr_kernel option" where
  "hr_timer_clear_pending_locked x k = do {
     (_, k) \<leftarrow> (if hr_list_node_is_linked (Some (PendingNode x)) (kmem k)
               then on_mem (hr_list_remove (Some (PendingNode x))) k else Some (HR_OK, k));
     Some (upd_tmcb x (\<lambda>c. c\<lparr>tmpending_count := 0\<rparr>) k)
   }"

definition hr_timer_arm_locked :: "timer_ptr \<Rightarrow> hr_kernel \<Rightarrow> (hr_status \<times> hr_kernel) option" where
  "hr_timer_arm_locked x k = do {
     (status, k) \<leftarrow> on_mem (hr_timeout_list_insert (Some G_timer_timeouts) (Some (TimerNode x))
                      (tmperiod_ticks (tmcb k x))) k;
     Some (status, if status = HR_OK then upd_tmcb x (\<lambda>c. c\<lparr>tmactive := True\<rparr>) k else k)
   }"

text \<open>The step that \<open>stop\<close>, \<open>reset\<close> and \<open>change_period\<close> share: take an active timer out.\<close>

definition timer_disarm :: "timer_ptr \<Rightarrow> hr_kernel \<Rightarrow> (hr_status \<times> hr_kernel) option" where
  "timer_disarm x k =
     (if tmactive (tmcb k x) then do {
        (status, k) \<leftarrow> on_mem (hr_timeout_list_remove (Some G_timer_timeouts) (Some (TimerNode x))) k;
        Some (status, if status = HR_OK then upd_tmcb x (\<lambda>c. c\<lparr>tmactive := False\<rparr>) k else k)
      }
      else Some (HR_OK, k))"

definition hr_timer_start :: "timer_ptr option \<Rightarrow> hr_kernel \<Rightarrow> (hr_status \<times> hr_kernel) option" where
  "hr_timer_start timer k =
     (case timer of
        None \<Rightarrow> Some (HR_ERROR_INVALID_ARGUMENT, k)
      | Some x \<Rightarrow>
          if \<not> hr_timer_is_valid timer k then Some (HR_ERROR_INVALID_ARGUMENT, k)
          else if hr_port_is_inside_isr k then Some (HR_ERROR_FROM_ISR, k)
          else do {
            let (irq_state, k) = hr_port_enter_critical k;
            (status, k) \<leftarrow>
              (if tmactive (tmcb k x) then Some (HR_ERROR_INVALID_STATE, k)
               else do {
                 k \<leftarrow> hr_timer_clear_pending_locked x k;
                 hr_timer_arm_locked x k
               });
            Some (status, hr_port_exit_critical irq_state k)
          })"

definition hr_timer_stop :: "timer_ptr option \<Rightarrow> hr_kernel \<Rightarrow> (hr_status \<times> hr_kernel) option" where
  "hr_timer_stop timer k =
     (case timer of
        None \<Rightarrow> Some (HR_ERROR_INVALID_ARGUMENT, k)
      | Some x \<Rightarrow>
          if \<not> hr_timer_is_valid timer k then Some (HR_ERROR_INVALID_ARGUMENT, k)
          else if hr_port_is_inside_isr k then Some (HR_ERROR_FROM_ISR, k)
          else do {
            let (irq_state, k) = hr_port_enter_critical k;
            (status, k) \<leftarrow> timer_disarm x k;
            k \<leftarrow> hr_timer_clear_pending_locked x k;
            Some (status, hr_port_exit_critical irq_state k)
          })"

definition hr_timer_reset :: "timer_ptr option \<Rightarrow> hr_kernel \<Rightarrow> (hr_status \<times> hr_kernel) option" where
  "hr_timer_reset timer k =
     (case timer of
        None \<Rightarrow> Some (HR_ERROR_INVALID_ARGUMENT, k)
      | Some x \<Rightarrow>
          if \<not> hr_timer_is_valid timer k then Some (HR_ERROR_INVALID_ARGUMENT, k)
          else if hr_port_is_inside_isr k then Some (HR_ERROR_FROM_ISR, k)
          else do {
            let (irq_state, k) = hr_port_enter_critical k;
            (status, k) \<leftarrow> timer_disarm x k;
            (status, k) \<leftarrow>
              (if status = HR_OK then do {
                 k \<leftarrow> hr_timer_clear_pending_locked x k;
                 hr_timer_arm_locked x k
               }
               else Some (status, k));
            Some (status, hr_port_exit_critical irq_state k)
          })"

definition hr_timer_change_period :: "timer_ptr option \<Rightarrow> hr_tick \<Rightarrow> hr_kernel \<Rightarrow> (hr_status \<times> hr_kernel) option" where
  "hr_timer_change_period timer new_period_ticks k =
     (case timer of
        None \<Rightarrow> Some (HR_ERROR_INVALID_ARGUMENT, k)
      | Some x \<Rightarrow>
          if \<not> hr_timer_is_valid timer k \<or> new_period_ticks = 0 \<or> new_period_ticks = HR_WAIT_FOREVER
          then Some (HR_ERROR_INVALID_ARGUMENT, k)
          else if hr_port_is_inside_isr k then Some (HR_ERROR_FROM_ISR, k)
          else do {
            let (irq_state, k) = hr_port_enter_critical k;
            (status, k) \<leftarrow> timer_disarm x k;
            (status, k) \<leftarrow>
              (if status = HR_OK then do {
                 let k = upd_tmcb x (\<lambda>c. c\<lparr>tmperiod_ticks := new_period_ticks\<rparr>) k;
                 k \<leftarrow> hr_timer_clear_pending_locked x k;
                 hr_timer_arm_locked x k
               }
               else Some (status, k));
            Some (status, hr_port_exit_critical irq_state k)
          })"

section \<open>Expiry and callbacks\<close>

text \<open>
  The loop of \<open>hr_timer_tick_from_isr\<close> over the expired timers. \<open>None\<close> in the first
  component is the early return of the handler; otherwise it is \<open>signal_required\<close>.
\<close>

partial_function (option) timer_expire_loop ::
  "node_addr option \<Rightarrow> bool \<Rightarrow> hr_kernel \<Rightarrow> (bool option \<times> hr_kernel) option" where
  "timer_expire_loop node signal_required k =
     (case node of
        None \<Rightarrow> Some (Some signal_required, k)
      | Some n \<Rightarrow> do {
          timer \<leftarrow> as_timer (hr_list_node_owner node (kmem k));
          (case timer of
             None \<Rightarrow> Some (None, k)
           | Some x \<Rightarrow>
               if \<not> hr_timer_is_valid timer k \<or> \<not> tmactive (tmcb k x) then Some (None, k)
               else do {
                 let k = upd_tmcb x (\<lambda>c. c\<lparr>tmactive := False,
                   tmpending_count := (if tmpending_count c < UINT32_MAX then tmpending_count c + 1
                                       else tmpending_count c)\<rparr>) k;
                 (_, k) \<leftarrow>
                   (if \<not> hr_list_node_is_linked (Some (PendingNode x)) (kmem k)
                    then on_mem (hr_list_push_back (Some PendingTimers) (Some (PendingNode x))) k
                    else Some (HR_OK, k));
                 (status, k) \<leftarrow> (if tmauto_reload (tmcb k x) then hr_timer_arm_locked x k else Some (HR_OK, k));
                 if status \<noteq> HR_OK then Some (None, k)
                 else do {
                   (node, k) \<leftarrow> on_mem (hr_list_pop_front (Some ExpiredTimers)) k;
                   timer_expire_loop node True k
                 }
               })
        })"

definition hr_timer_tick_from_isr ::
  "hr_tick \<Rightarrow> bool option \<Rightarrow> hr_kernel \<Rightarrow> (bool option \<times> hr_kernel) option" where
  "hr_timer_tick_from_isr now switch_required k =
     (let sw = map_option (\<lambda>_. False) switch_required
      in if \<not> g_timer_system_initialized k then Some (sw, k)
         else do {
           let k = k\<lparr>kmem := hr_list_init (Some ExpiredTimers) (kmem k)\<rparr>;
           (status, k) \<leftarrow> on_mem (hr_timeout_list_advance (Some G_timer_timeouts) now (Some ExpiredTimers)) k;
           if status \<noteq> HR_OK then Some (sw, k)
           else do {
             (node, k) \<leftarrow> on_mem (hr_list_pop_front (Some ExpiredTimers)) k;
             (done_flag, k) \<leftarrow> timer_expire_loop node False k;
             (case done_flag of
                None \<Rightarrow> Some (sw, k)
              | Some signal_required \<Rightarrow>
                  if signal_required then do {
                    ((signal_status, timer_task_woken), k) \<leftarrow>
                      hr_semaphore_give_from_isr (Some g_timer_signal) (Some False) k;
                    if signal_status \<noteq> HR_OK \<and> signal_status \<noteq> HR_ERROR_SEMAPHORE_FULL then Some (sw, k)
                    else Some (map_option (\<lambda>_. timer_task_woken = Some True) sw, k)
                  }
                  else Some (map_option (\<lambda>_. False) sw, k))
           }
         })"

definition hr_timer_process_one_pending ::
  "(nat \<Rightarrow> nat \<Rightarrow> hr_kernel \<Rightarrow> hr_kernel option) \<Rightarrow> hr_kernel \<Rightarrow> (bool \<times> hr_kernel) option" where
  "hr_timer_process_one_pending run_callback k =
     (if \<not> g_timer_system_initialized k then Some (False, k)
      else do {
        let (irq_state, k) = hr_port_enter_critical k;
        (node, k) \<leftarrow> on_mem (hr_list_pop_front (Some PendingTimers)) k;
        if node = None then Some (False, hr_port_exit_critical irq_state k)
        else do {
          timer \<leftarrow> as_timer (hr_list_node_owner node (kmem k));
          (case timer of
             None \<Rightarrow> Some (False, hr_port_exit_critical irq_state k)
           | Some x \<Rightarrow>
               if \<not> hr_timer_is_valid timer k \<or> tmpending_count (tmcb k x) = 0
               then Some (False, hr_port_exit_critical irq_state k)
               else do {
                 let k = upd_tmcb x (\<lambda>c. c\<lparr>tmpending_count := tmpending_count c - 1\<rparr>) k;
                 (_, k) \<leftarrow>
                   (if tmpending_count (tmcb k x) > 0
                    then on_mem (hr_list_push_back (Some PendingTimers) (Some (PendingNode x))) k
                    else Some (HR_OK, k));
                 callback \<leftarrow> tmcallback (tmcb k x);
                 let argument = tmargument (tmcb k x);
                 let k = upd_tmcb x (\<lambda>c. c\<lparr>tmcallback_running := True\<rparr>) k;
                 let k = hr_port_exit_critical irq_state k;
                 k \<leftarrow> run_callback callback argument k;
                 let (irq_state, k) = hr_port_enter_critical k;
                 let k = upd_tmcb x (\<lambda>c. c\<lparr>tmcallback_running := False\<rparr>) k;
                 Some (True, hr_port_exit_critical irq_state k)
               })
        }
      })"

section \<open>Frame\<close>

definition timer_only :: "timer_ptr \<Rightarrow> hr_kernel \<Rightarrow> hr_kernel \<Rightarrow> bool" where
  "timer_only x k k' \<longleftrightarrow>
     k' = k\<lparr>kmem := kmem k', tmcb := tmcb k'\<rparr> \<and> kernel_same (kmem k) (kmem k') \<and>
     (\<forall>y. y \<noteq> x \<longrightarrow> tmcb k' y = tmcb k y \<and> nlist (nodes (kmem k') (TimerNode y)) = nlist (nodes (kmem k) (TimerNode y)) \<and>
        nlist (nodes (kmem k') (PendingNode y)) = nlist (nodes (kmem k) (PendingNode y))) \<and>
     (\<forall>n. nowner (nodes (kmem k') n) = nowner (nodes (kmem k) n)) \<and> inited (kmem k') = inited (kmem k) \<and>
     tcurrent (timeout_lists (kmem k') G_timer_timeouts) = tcurrent (timeout_lists (kmem k) G_timer_timeouts) \<and>
     last_tick (kmem k') G_timer_timeouts = last_tick (kmem k) G_timer_timeouts"

lemma timer_onlyD:
  assumes "timer_only x k k'"
  shows "k' = k\<lparr>kmem := kmem k', tmcb := tmcb k'\<rparr>" and "kernel_same (kmem k) (kmem k')" and "inited (kmem k') = inited (kmem k)"
    and "g_timer_system_initialized k' = g_timer_system_initialized k" and "scb k' = scb k" and "g_kernel_tick k' = g_kernel_tick k"
    and "inside_isr k' = inside_isr k" and "g_current_task k' = g_current_task k" and "g_kernel_state k' = g_kernel_state k"
    and "primask k' = primask k" and "tcb k' = tcb k" and "qcb k' = qcb k" and "mcb k' = mcb k" and "bytes k' = bytes k"
proof -
  show e: "k' = k\<lparr>kmem := kmem k', tmcb := tmcb k'\<rparr>" and "kernel_same (kmem k) (kmem k')" and "inited (kmem k') = inited (kmem k)"
    using assms by (auto simp: timer_only_def)
  show "g_timer_system_initialized k' = g_timer_system_initialized k" "scb k' = scb k" "g_kernel_tick k' = g_kernel_tick k"
    "inside_isr k' = inside_isr k" "g_current_task k' = g_current_task k" "g_kernel_state k' = g_kernel_state k"
    "primask k' = primask k" "tcb k' = tcb k" "qcb k' = qcb k" "mcb k' = mcb k" "bytes k' = bytes k"
    by (subst e, simp)+
qed

lemma timer_only_trans:
  assumes "timer_only x k k1" and "timer_only x k1 k2"
  shows "timer_only x k k2"
proof -
  note e1 = timer_onlyD(1) [OF assms(1)] and e2 = timer_onlyD(1) [OF assms(2)]
  have "k2 = k\<lparr>kmem := kmem k2, tmcb := tmcb k2\<rparr>" by (subst e2, subst e1) simp
  then show ?thesis
    using assms kernel_same_trans [OF timer_onlyD(2) [OF assms(1)] timer_onlyD(2) [OF assms(2)]] unfolding timer_only_def by simp
qed

lemma timer_only_upd: "mem_ok (kmem k) \<Longrightarrow> timer_only x k (upd_tmcb x f k)"
  by (simp add: timer_only_def upd_tmcb_def kernel_same_refl)

lemma timer_only_ok:
  assumes "timers_okx X now k" and "timer_only x k k'" and "g_timer_system_initialized k"
    and "if x \<in> X' then tmmagic (tmcb k' x) = HR_CFG_TIMER_MAGIC \<and> timer_shape (tmcb k' x) (kmem k') x \<and> tmactive (tmcb k' x)
      else timer_inv (tmcb k' x) (kmem k') x" and "\<And>y. y \<noteq> x \<Longrightarrow> y \<in> X' \<longleftrightarrow> y \<in> X"
  shows "timers_okx X' now k'"
proof -
  note o = assms(2) [unfolded timer_only_def] and d = timer_onlyD [OF assms(2)]
  have "timer_shape (tmcb k' y) (kmem k') y = timer_shape (tmcb k y) (kmem k) y"
    "timer_inv (tmcb k' y) (kmem k') y = timer_inv (tmcb k y) (kmem k) y" "tmcb k' y = tmcb k y" if "y \<noteq> x" for y
    using o that by (simp_all add: timer_inv_def timer_shape_def)
  then have "if y \<in> X' then tmmagic (tmcb k' y) = HR_CFG_TIMER_MAGIC \<and> timer_shape (tmcb k' y) (kmem k') y \<and> tmactive (tmcb k' y)
      else timer_inv (tmcb k' y) (kmem k') y" for y
    using assms(1,4,5) unfolding timers_okx_def by (cases "y = x") auto
  then show ?thesis using assms(1,3) o d(4,5) unfolding timers_okx_def by simp
qed

lemma timer_only_inv:
  assumes "kernel_inv k" and "timer_only x k k'" and "timers_ok k'"
  shows "kernel_inv k'"
  using kernel_same_rest [OF kernel_invD(1,2,3,5) [OF assms(1)] timer_onlyD(2,1) [OF assms(2)]] assms(3)
  by (simp add: kernel_inv_def)

lemma timer_valid:
  assumes "timers_okx X now k"
  shows "hr_timer_is_valid (Some x) k \<longleftrightarrow> tmmagic (tmcb k x) = HR_CFG_TIMER_MAGIC"
    and "tmmagic (tmcb k x) = HR_CFG_TIMER_MAGIC \<Longrightarrow> g_timer_system_initialized k"
    and "tmmagic (tmcb k x) = HR_CFG_TIMER_MAGIC \<Longrightarrow> timer_shape (tmcb k x) (kmem k) x"
    and "tmmagic (tmcb k x) = HR_CFG_TIMER_MAGIC \<Longrightarrow> x \<notin> X \<Longrightarrow> tmactive (tmcb k x) \<longleftrightarrow> nlist (nodes (kmem k) (TimerNode x)) \<noteq> None"
    and "tmmagic (tmcb k x) = HR_CFG_TIMER_MAGIC \<Longrightarrow> x \<notin> X \<Longrightarrow> nlist (nodes (kmem k) (TimerNode x)) \<noteq> Some ExpiredTimers"
    and "g_timer_system_initialized k \<Longrightarrow> tcurrent (timeout_lists (kmem k) G_timer_timeouts) \<noteq> None"
    and "g_timer_system_initialized k \<Longrightarrow> inited (kmem k) PendingTimers"
proof -
  show s: "tmmagic (tmcb k x) = HR_CFG_TIMER_MAGIC \<Longrightarrow> timer_shape (tmcb k x) (kmem k) x"
    using assms unfolding timers_okx_def timer_inv_def by meson
  then show "hr_timer_is_valid (Some x) k \<longleftrightarrow> tmmagic (tmcb k x) = HR_CFG_TIMER_MAGIC"
    by (auto simp: hr_timer_is_valid_def timer_shape_def word_gt_0)
  show "tmmagic (tmcb k x) = HR_CFG_TIMER_MAGIC \<Longrightarrow> g_timer_system_initialized k"
    "g_timer_system_initialized k \<Longrightarrow> tcurrent (timeout_lists (kmem k) G_timer_timeouts) \<noteq> None"
    "g_timer_system_initialized k \<Longrightarrow> inited (kmem k) PendingTimers"
    using assms unfolding timers_okx_def by (auto split: if_splits)
  show "tmmagic (tmcb k x) = HR_CFG_TIMER_MAGIC \<Longrightarrow> x \<notin> X \<Longrightarrow> tmactive (tmcb k x) \<longleftrightarrow> nlist (nodes (kmem k) (TimerNode x)) \<noteq> None"
    "tmmagic (tmcb k x) = HR_CFG_TIMER_MAGIC \<Longrightarrow> x \<notin> X \<Longrightarrow> nlist (nodes (kmem k) (TimerNode x)) \<noteq> Some ExpiredTimers"
    using assms unfolding timers_okx_def timer_inv_def by meson+
qed

section \<open>Arming, disarming and clearing\<close>

lemma arm_ok:
  assumes "mem_ok (kmem k)" and "tcurrent (timeout_lists (kmem k) G_timer_timeouts) \<noteq> None"
    and "nlist (nodes (kmem k) (TimerNode x)) = None" and "tmperiod_ticks (tmcb k x) \<noteq> 0" and "tmperiod_ticks (tmcb k x) \<noteq> HR_WAIT_FOREVER"
  obtains k' where "hr_timer_arm_locked x k = Some (HR_OK, k')" and "timer_only x k k'"
    and "tmcb k' x = (tmcb k x)\<lparr>tmactive := True\<rparr>" and "nlist (nodes (kmem k') (TimerNode x)) \<noteq> None"
    and "nlist (nodes (kmem k') (TimerNode x)) \<noteq> Some ExpiredTimers"
    and "nlist (nodes (kmem k') (PendingNode x)) = nlist (nodes (kmem k) (PendingNode x))"
    and "\<And>l. plain_list l \<Longrightarrow> inited (kmem k) l \<Longrightarrow> nodes_of (kmem k') l = nodes_of (kmem k) l"
    and "timeout_seq (kmem k') G_timer_timeouts =
      insert_fifo (remaining (kmem k') G_timer_timeouts) (TimerNode x) (timeout_seq (kmem k) G_timer_timeouts)"
    and "remaining (kmem k') G_timer_timeouts = (remaining (kmem k) G_timer_timeouts)(TimerNode x := tmperiod_ticks (tmcb k x))"
proof -
  note a = mem_timer_arm [OF assms(1-3,5,4)]
  let ?m = "timeout_link G_timer_timeouts (TimerNode x) (tmperiod_ticks (tmcb k x)) (kmem k)"
  let ?k = "upd_tmcb x (\<lambda>c. c\<lparr>tmactive := True\<rparr>) (k\<lparr>kmem := ?m\<rparr>)"
  have r: "hr_timer_arm_locked x k = Some (HR_OK, ?k)" using a(1) by (simp add: hr_timer_arm_locked_def on_mem_def)
  have t: "timer_only x k ?k" using a by (simp add: timer_only_def upd_tmcb_def)
  show thesis by (rule that [OF r t]) (simp_all add: upd_tmcb_def a)
qed

lemma disarm_ok:
  assumes "timers_ok k" and "mem_ok (kmem k)" and "tmmagic (tmcb k x) = HR_CFG_TIMER_MAGIC"
  obtains k' where "timer_disarm x k = Some (HR_OK, k')" and "timer_only x k k'"
    and "tmcb k' x = (tmcb k x)\<lparr>tmactive := False\<rparr>" and "nlist (nodes (kmem k') (TimerNode x)) = None"
    and "nlist (nodes (kmem k') (PendingNode x)) = nlist (nodes (kmem k) (PendingNode x))"
    and "timeout_seq (kmem k') G_timer_timeouts = remove1 (TimerNode x) (timeout_seq (kmem k) G_timer_timeouts)"
    and "remaining (kmem k') G_timer_timeouts = remaining (kmem k) G_timer_timeouts"
proof (cases "tmactive (tmcb k x)")
  case False
  note v = timer_valid [OF assms(1) [unfolded timers_ok_def]]
  have n: "nlist (nodes (kmem k) (TimerNode x)) = None" using v(4) [OF assms(3)] False by simp
  have "TimerNode x \<notin> set (timeout_seq (kmem k) G_timer_timeouts)"
    using timeout_seq_linked [OF mem_okD(1) [OF assms(2)] mem_okD(5) [OF assms(2) v(6) [OF v(2) [OF assms(3)]]], of "TimerNode x"] n by simp
  then show thesis
    using False n assms(2) by (intro that [of k]) (simp_all add: timer_disarm_def timer_only_def kernel_same_refl remove1_idem)
next
  case True
  note v = timer_valid [OF assms(1) [unfolded timers_ok_def]]
  have n: "nlist (nodes (kmem k) (TimerNode x)) \<noteq> None" "nlist (nodes (kmem k) (TimerNode x)) \<noteq> Some ExpiredTimers"
    using v(4,5) [OF assms(3)] True by simp_all
  note a = mem_timer_disarm [OF assms(2) v(6) [OF v(2) [OF assms(3)]] n]
  let ?m = "timeout_unlink G_timer_timeouts (TimerNode x) (kmem k)"
  let ?k = "upd_tmcb x (\<lambda>c. c\<lparr>tmactive := False\<rparr>) (k\<lparr>kmem := ?m\<rparr>)"
  have r: "timer_disarm x k = Some (HR_OK, ?k)" using a(1) True by (simp add: timer_disarm_def on_mem_def)
  have t: "timer_only x k ?k" using a by (simp add: timer_only_def upd_tmcb_def)
  show thesis by (rule that [OF r t]) (simp_all add: upd_tmcb_def a)
qed

lemma clear_pending_ok:
  assumes "mem_ok (kmem k)"
  obtains k' where "hr_timer_clear_pending_locked x k = Some k'" and "timer_only x k k'"
    and "tmcb k' x = (tmcb k x)\<lparr>tmpending_count := 0\<rparr>" and "nlist (nodes (kmem k') (PendingNode x)) = None"
    and "nlist (nodes (kmem k') (TimerNode x)) = nlist (nodes (kmem k) (TimerNode x))"
    and "same_timeouts (kmem k) (kmem k')"
proof (cases "nlist (nodes (kmem k) (PendingNode x))")
  case None
  then show thesis
    using assms by (intro that [of "upd_tmcb x (\<lambda>c. c\<lparr>tmpending_count := 0\<rparr>) k"])
      (simp_all add: hr_timer_clear_pending_locked_def hr_list_node_is_linked_def timer_only_upd, simp_all add: upd_tmcb_def)
next
  case (Some l)
  have l: "nlist (nodes (kmem k) (PendingNode x)) = Some PendingTimers"
    using mem_okD(6) [OF assms Some] Some by simp
  note a = mem_timer_unlink [OF assms _ l, simplified]
  let ?k = "upd_tmcb x (\<lambda>c. c\<lparr>tmpending_count := 0\<rparr>) (k\<lparr>kmem := unlink (PendingNode x) (kmem k)\<rparr>)"
  have r: "hr_timer_clear_pending_locked x k = Some ?k"
    using a(1) l by (simp add: hr_timer_clear_pending_locked_def on_mem_def hr_list_node_is_linked_def)
  have t: "timer_only x k ?k" using a by (simp add: timer_only_def upd_tmcb_def same_timeouts_def)
  show thesis by (rule that [OF r t]) (simp_all add: upd_tmcb_def a)
qed

section \<open>The calls\<close>

text \<open>A timer that was just armed for \<open>p\<close> ticks, with no callback pending.\<close>

definition armed_for :: "timer_ptr \<Rightarrow> hr_tick \<Rightarrow> hr_kernel \<Rightarrow> bool" where
  "armed_for x p k \<longleftrightarrow>
     tmactive (tmcb k x) \<and> tmpending_count (tmcb k x) = 0 \<and> tmperiod_ticks (tmcb k x) = p \<and>
     TimerNode x \<in> set (timeout_seq (kmem k) G_timer_timeouts) \<and> remaining (kmem k) G_timer_timeouts (TimerNode x) = p"

lemma rearm_ok:
  assumes "kernel_inv k" and "tmmagic (tmcb k x) = HR_CFG_TIMER_MAGIC" and "timer_only x k k1"
    and "tmcb k1 x = (tmcb k x)\<lparr>tmactive := False, tmperiod_ticks := p\<rparr>" and "nlist (nodes (kmem k1) (TimerNode x)) = None"
    and "p \<noteq> 0" and "p \<noteq> HR_WAIT_FOREVER"
  obtains k2 k3 where "hr_timer_clear_pending_locked x k1 = Some k2" and "hr_timer_arm_locked x k2 = Some (HR_OK, k3)"
    and "kernel_inv k3" and "armed_for x p k3" and "timer_only x k k3"
    and "tmcb k3 x = (tmcb k x)\<lparr>tmactive := True, tmperiod_ticks := p, tmpending_count := 0\<rparr>"
proof -
  note ti = kernel_invD(4) [OF assms(1), unfolded timers_ok_def]
  note v = timer_valid [OF ti]
  have m1: "mem_ok (kmem k1)" using timer_onlyD(2) [OF assms(3)] by (simp add: kernel_same_def)
  show thesis
  proof (rule clear_pending_ok [OF m1, of x])
    fix k2 assume c: "hr_timer_clear_pending_locked x k1 = Some k2" "timer_only x k1 k2"
      "tmcb k2 x = (tmcb k1 x)\<lparr>tmpending_count := 0\<rparr>" "nlist (nodes (kmem k2) (PendingNode x)) = None"
      "nlist (nodes (kmem k2) (TimerNode x)) = nlist (nodes (kmem k1) (TimerNode x))" "same_timeouts (kmem k1) (kmem k2)"
    note t2 = timer_only_trans [OF assms(3) c(2)]
    have m2: "mem_ok (kmem k2)" "tcurrent (timeout_lists (kmem k2) G_timer_timeouts) \<noteq> None"
      "nlist (nodes (kmem k2) (TimerNode x)) = None" "tmperiod_ticks (tmcb k2 x) \<noteq> 0" "tmperiod_ticks (tmcb k2 x) \<noteq> HR_WAIT_FOREVER"
      using t2 v(6) [OF v(2) [OF assms(2)]] assms(4-7) c(3,5) by (simp_all add: timer_only_def kernel_same_def)
    show thesis
    proof (rule arm_ok [OF m2])
      fix k3 assume a: "hr_timer_arm_locked x k2 = Some (HR_OK, k3)" "timer_only x k2 k3"
        "tmcb k3 x = (tmcb k2 x)\<lparr>tmactive := True\<rparr>" "nlist (nodes (kmem k3) (TimerNode x)) \<noteq> None"
        "nlist (nodes (kmem k3) (TimerNode x)) \<noteq> Some ExpiredTimers"
        "nlist (nodes (kmem k3) (PendingNode x)) = nlist (nodes (kmem k2) (PendingNode x))"
        "timeout_seq (kmem k3) G_timer_timeouts =
          insert_fifo (remaining (kmem k3) G_timer_timeouts) (TimerNode x) (timeout_seq (kmem k2) G_timer_timeouts)"
        "remaining (kmem k3) G_timer_timeouts = (remaining (kmem k2) G_timer_timeouts)(TimerNode x := tmperiod_ticks (tmcb k2 x))"
      note t3 = timer_only_trans [OF t2 a(2)]
      have "\<And>n. nowner (nodes (kmem k3) n) = nowner (nodes (kmem k) n)" using t3 by (simp add: timer_only_def)
      then have "timer_inv (tmcb k3 x) (kmem k3) x"
        using v(3) [OF assms(2)] assms(2,4,6,7) a(3-6) c(3,4) by (simp add: timer_inv_def timer_shape_def)
      then have "timers_okx {} (g_kernel_tick k) k3" by (intro timer_only_ok [OF ti t3 v(2) [OF assms(2)]]) simp_all
      then have "kernel_inv k3"
        using timer_only_inv [OF assms(1) t3] timer_onlyD(6) [OF t3] by (simp add: timers_ok_def)
      moreover have "armed_for x p k3" using a(3,7,8) c(3) assms(4) by (simp add: armed_for_def)
      moreover have "tmcb k3 x = (tmcb k x)\<lparr>tmactive := True, tmperiod_ticks := p, tmpending_count := 0\<rparr>"
        using a(3) c(3) assms(4) by simp
      ultimately show thesis using that c(1) a(1) t3 by blast
    qed
  qed
qed

lemma timer_start_ok:
  assumes "kernel_inv k" and "hr_timer_is_valid (Some x) k" and "\<not> inside_isr k" and "\<not> tmactive (tmcb k x)"
  obtains k' where "hr_timer_start (Some x) k = Some (HR_OK, k')" and "kernel_inv k'" and "armed_for x (tmperiod_ticks (tmcb k x)) k'"
    and "tmcb k' x = (tmcb k x)\<lparr>tmactive := True, tmpending_count := 0\<rparr>" and "g_kernel_state k' = g_kernel_state k"
proof -
  define k0 where "k0 = k\<lparr>primask := 1\<rparr>"
  have k0: "kernel_inv k0" "tmcb k0 = tmcb k" "kmem k0 = kmem k" using assms(1) by (simp_all add: k0_def)
  note ti = kernel_invD(4) [OF assms(1), unfolded timers_ok_def]
  note v = timer_valid [OF ti]
  have mg: "tmmagic (tmcb k0 x) = HR_CFG_TIMER_MAGIC" using v(1) assms(2) k0 by simp
  have ok: "mem_ok (kmem k0)" by (rule kinvD(1) [OF kernel_invD(1) [OF k0(1)]])
  have n: "nlist (nodes (kmem k0) (TimerNode x)) = None" using v(4) [of x] mg assms(4) k0 by simp
  have p: "tmperiod_ticks (tmcb k0 x) \<noteq> 0" "tmperiod_ticks (tmcb k0 x) \<noteq> HR_WAIT_FOREVER"
    using v(3) [of x] mg k0 by (simp_all add: timer_shape_def)
  have t: "timer_only x k0 k0" by (simp add: timer_only_def kernel_same_refl [OF ok])
  have c: "tmcb k0 x = (tmcb k0 x)\<lparr>tmactive := False, tmperiod_ticks := tmperiod_ticks (tmcb k0 x)\<rparr>" using assms(4) k0 by simp
  show thesis
  proof (rule rearm_ok [OF k0(1) mg t c n p])
    fix k2 k3 assume a: "hr_timer_clear_pending_locked x k0 = Some k2" "hr_timer_arm_locked x k2 = Some (HR_OK, k3)"
      "kernel_inv k3" "armed_for x (tmperiod_ticks (tmcb k0 x)) k3"
      and e: "tmcb k3 x = (tmcb k0 x)\<lparr>tmactive := True, tmperiod_ticks := tmperiod_ticks (tmcb k0 x), tmpending_count := 0\<rparr>"
      and o: "timer_only x k0 k3"
    have st: "g_kernel_state k3 = g_kernel_state k" using timer_onlyD(9) [OF o] by (simp add: k0_def)
    have r: "hr_timer_start (Some x) k = Some (HR_OK, hr_port_exit_critical (primask k) k3)"
      using a(1,2) assms(2-4) k0(2)
      by (simp add: hr_timer_start_def hr_port_is_inside_isr_def hr_port_enter_critical_def k0_def [symmetric])
    show thesis by (rule that [OF r]) (use a k0 e st in \<open>simp_all add: armed_for_def hr_port_exit_critical_def\<close>)
  qed
qed

lemma timer_change_ok:
  assumes "kernel_inv k" and "hr_timer_is_valid (Some x) k" and "\<not> inside_isr k"
  shows "p \<noteq> 0 \<Longrightarrow> p \<noteq> HR_WAIT_FOREVER \<Longrightarrow>
      \<exists>k'. hr_timer_change_period (Some x) p k = Some (HR_OK, k') \<and> kernel_inv k' \<and> armed_for x p k'"
    and "\<exists>k'. hr_timer_reset (Some x) k = Some (HR_OK, k') \<and> kernel_inv k' \<and> armed_for x (tmperiod_ticks (tmcb k x)) k'"
proof -
  define k0 where "k0 = k\<lparr>primask := 1\<rparr>"
  have k0: "kernel_inv k0" "tmcb k0 = tmcb k" "kmem k0 = kmem k" using assms(1) by (simp_all add: k0_def)
  note ti = kernel_invD(4) [OF assms(1), unfolded timers_ok_def]
  note v = timer_valid [OF ti]
  have mg: "tmmagic (tmcb k0 x) = HR_CFG_TIMER_MAGIC" using v(1) assms(2) k0 by simp
  have ok: "mem_ok (kmem k0)" by (rule kinvD(1) [OF kernel_invD(1) [OF k0(1)]])
  obtain k1 where d: "timer_disarm x k0 = Some (HR_OK, k1)" "timer_only x k0 k1"
    "tmcb k1 x = (tmcb k0 x)\<lparr>tmactive := False\<rparr>" "nlist (nodes (kmem k1) (TimerNode x)) = None"
    by (rule disarm_ok [OF kernel_invD(4) [OF k0(1)] ok mg])
  have m1: "mem_ok (kmem k1)" using timer_onlyD(2) [OF d(2)] by (simp add: kernel_same_def)
  note u = hr_port_is_inside_isr_def hr_port_enter_critical_def k0_def [symmetric]
  show "\<exists>k'. hr_timer_change_period (Some x) p k = Some (HR_OK, k') \<and> kernel_inv k' \<and> armed_for x p k'"
    if p: "p \<noteq> 0" "p \<noteq> HR_WAIT_FOREVER"
  proof -
    let ?k1 = "upd_tmcb x (\<lambda>c. c\<lparr>tmperiod_ticks := p\<rparr>) k1"
    have t: "timer_only x k0 ?k1" by (rule timer_only_trans [OF d(2) timer_only_upd [OF m1]])
    have c: "tmcb ?k1 x = (tmcb k0 x)\<lparr>tmactive := False, tmperiod_ticks := p\<rparr>" using d(3) by (simp add: upd_tmcb_def)
    have n: "nlist (nodes (kmem ?k1) (TimerNode x)) = None" using d(4) by (simp add: upd_tmcb_def)
    show ?thesis
    proof (rule rearm_ok [OF k0(1) mg t c n p])
      fix k2 k3 assume a: "hr_timer_clear_pending_locked x ?k1 = Some k2" "hr_timer_arm_locked x k2 = Some (HR_OK, k3)"
        "kernel_inv k3" "armed_for x p k3"
      have "hr_timer_change_period (Some x) p k = Some (HR_OK, hr_port_exit_critical (primask k) k3)"
        using a(1,2) d(1) assms(2,3) p by (simp add: hr_timer_change_period_def u)
      then show ?thesis using a(3,4) by (simp add: armed_for_def hr_port_exit_critical_def)
    qed
  qed
  show "\<exists>k'. hr_timer_reset (Some x) k = Some (HR_OK, k') \<and> kernel_inv k' \<and> armed_for x (tmperiod_ticks (tmcb k x)) k'"
  proof -
    have c: "tmcb k1 x = (tmcb k0 x)\<lparr>tmactive := False, tmperiod_ticks := tmperiod_ticks (tmcb k0 x)\<rparr>" using d(3) by simp
    have p: "tmperiod_ticks (tmcb k0 x) \<noteq> 0" "tmperiod_ticks (tmcb k0 x) \<noteq> HR_WAIT_FOREVER"
      using v(3) [of x] mg k0 by (simp_all add: timer_shape_def)
    show ?thesis
    proof (rule rearm_ok [OF k0(1) mg d(2) c d(4) p])
      fix k2 k3 assume a: "hr_timer_clear_pending_locked x k1 = Some k2" "hr_timer_arm_locked x k2 = Some (HR_OK, k3)"
        "kernel_inv k3" "armed_for x (tmperiod_ticks (tmcb k0 x)) k3"
      have "hr_timer_reset (Some x) k = Some (HR_OK, hr_port_exit_critical (primask k) k3)"
        using a(1,2) d(1) assms(2,3) by (simp add: hr_timer_reset_def u)
      then show ?thesis using a(3,4) k0(2) by (simp add: armed_for_def hr_port_exit_critical_def)
    qed
  qed
qed

lemma timer_stop_ok:
  assumes "kernel_inv k" and "hr_timer_is_valid (Some x) k" and "\<not> inside_isr k"
  obtains k' where "hr_timer_stop (Some x) k = Some (HR_OK, k')" and "kernel_inv k'"
    and "\<not> tmactive (tmcb k' x)" and "tmpending_count (tmcb k' x) = 0"
    and "nlist (nodes (kmem k') (TimerNode x)) = None" and "nlist (nodes (kmem k') (PendingNode x)) = None"
proof -
  define k0 where "k0 = k\<lparr>primask := 1\<rparr>"
  have k0: "kernel_inv k0" "tmcb k0 = tmcb k" "kmem k0 = kmem k" using assms(1) by (simp_all add: k0_def)
  note ti = kernel_invD(4) [OF k0(1), unfolded timers_ok_def]
  note v = timer_valid [OF ti]
  have mg: "tmmagic (tmcb k0 x) = HR_CFG_TIMER_MAGIC"
    using timer_valid(1) [OF kernel_invD(4) [OF assms(1), unfolded timers_ok_def]] assms(2) k0 by simp
  have ok: "mem_ok (kmem k0)" by (rule kinvD(1) [OF kernel_invD(1) [OF k0(1)]])
  obtain k1 where d: "timer_disarm x k0 = Some (HR_OK, k1)" "timer_only x k0 k1"
    "tmcb k1 x = (tmcb k0 x)\<lparr>tmactive := False\<rparr>" "nlist (nodes (kmem k1) (TimerNode x)) = None"
    by (rule disarm_ok [OF kernel_invD(4) [OF k0(1)] ok mg])
  have m1: "mem_ok (kmem k1)" using timer_onlyD(2) [OF d(2)] by (simp add: kernel_same_def)
  obtain k2 where c: "hr_timer_clear_pending_locked x k1 = Some k2" "timer_only x k1 k2"
    "tmcb k2 x = (tmcb k1 x)\<lparr>tmpending_count := 0\<rparr>" "nlist (nodes (kmem k2) (PendingNode x)) = None"
    "nlist (nodes (kmem k2) (TimerNode x)) = nlist (nodes (kmem k1) (TimerNode x))"
    by (rule clear_pending_ok [OF m1, of x])
  note t = timer_only_trans [OF d(2) c(2)]
  have "\<And>n. nowner (nodes (kmem k2) n) = nowner (nodes (kmem k0) n)" using t by (simp add: timer_only_def)
  then have "timer_inv (tmcb k2 x) (kmem k2) x"
    using v(3) [OF mg] mg d(3,4) c(3-5) by (simp add: timer_inv_def timer_shape_def)
  then have "timers_okx {} (g_kernel_tick k0) k2" by (intro timer_only_ok [OF ti t v(2) [OF mg]]) simp_all
  then have "kernel_inv k2" using timer_only_inv [OF k0(1) t] timer_onlyD(6) [OF t] by (simp add: timers_ok_def)
  moreover have "hr_timer_stop (Some x) k = Some (HR_OK, hr_port_exit_critical (primask k) k2)"
    using d(1) c(1) assms(2,3)
    by (simp add: hr_timer_stop_def hr_port_is_inside_isr_def hr_port_enter_critical_def k0_def [symmetric])
  ultimately show thesis
    using that d(3,4) c(3-5) by (simp add: hr_port_exit_critical_def)
qed

lemma timer_call_inv:
  assumes "kernel_inv k"
  shows "\<exists>st k'. hr_timer_start timer k = Some (st, k') \<and> kernel_inv k'"
    and "\<exists>st k'. hr_timer_stop timer k = Some (st, k') \<and> kernel_inv k'"
    and "\<exists>st k'. hr_timer_reset timer k = Some (st, k') \<and> kernel_inv k'"
    and "\<exists>st k'. hr_timer_change_period timer p k = Some (st, k') \<and> kernel_inv k'"
proof -
  have bad: "\<exists>st. hr_timer_start timer k = Some (st, k)" "\<exists>st. hr_timer_stop timer k = Some (st, k)"
    "\<exists>st. hr_timer_reset timer k = Some (st, k)" "\<exists>st. hr_timer_change_period timer p k = Some (st, k)"
    if "\<not> (\<exists>x. timer = Some x \<and> hr_timer_is_valid timer k \<and> \<not> inside_isr k)"
    using that by (cases timer; auto simp: hr_timer_start_def hr_timer_stop_def hr_timer_reset_def hr_timer_change_period_def
        hr_port_is_inside_isr_def)+
  have busy: "\<exists>st k'. hr_timer_start (Some x) k = Some (st, k') \<and> kernel_inv k'"
    if "hr_timer_is_valid (Some x) k" "\<not> inside_isr k" "tmactive (tmcb k x)" for x
    using that assms by (simp add: hr_timer_start_def hr_port_is_inside_isr_def hr_port_enter_critical_def)
  have badp: "\<exists>st. hr_timer_change_period timer p k = Some (st, k)" if "p = 0 \<or> p = HR_WAIT_FOREVER"
    using that by (cases timer) (auto simp: hr_timer_change_period_def)
  show "\<exists>st k'. hr_timer_start timer k = Some (st, k') \<and> kernel_inv k'"
    using bad(1) busy timer_start_ok [OF assms] assms by metis
  show "\<exists>st k'. hr_timer_stop timer k = Some (st, k') \<and> kernel_inv k'"
    using bad(2) timer_stop_ok [OF assms] assms by metis
  show "\<exists>st k'. hr_timer_reset timer k = Some (st, k') \<and> kernel_inv k'"
    using bad(3) timer_change_ok(2) [OF assms] assms by metis
  show "\<exists>st k'. hr_timer_change_period timer p k = Some (st, k') \<and> kernel_inv k'"
    using bad(4) badp timer_change_ok(1) [OF assms] assms by metis
qed

section \<open>Expiry\<close>

definition expire_tmcb :: "hr_timer_control_block \<Rightarrow> hr_timer_control_block" where
  "expire_tmcb c =
     c\<lparr>tmactive := tmauto_reload c,
       tmpending_count := (if tmpending_count c < UINT32_MAX then tmpending_count c + 1 else tmpending_count c)\<rparr>"

text \<open>The body of the loop for one expired timer.\<close>

definition expire_timer :: "timer_ptr \<Rightarrow> hr_kernel \<Rightarrow> (hr_status \<times> hr_kernel) option" where
  "expire_timer x k = do {
     let k = upd_tmcb x (\<lambda>c. c\<lparr>tmactive := False,
       tmpending_count := (if tmpending_count c < UINT32_MAX then tmpending_count c + 1
                           else tmpending_count c)\<rparr>) k;
     (_, k) \<leftarrow>
       (if \<not> hr_list_node_is_linked (Some (PendingNode x)) (kmem k)
        then on_mem (hr_list_push_back (Some PendingTimers) (Some (PendingNode x))) k
        else Some (HR_OK, k));
     if tmauto_reload (tmcb k x) then hr_timer_arm_locked x k else Some (HR_OK, k)
   }"

lemma pend_ok:
  assumes "mem_ok (kmem k)" and "inited (kmem k) PendingTimers"
  obtains k' where "(if \<not> hr_list_node_is_linked (Some (PendingNode x)) (kmem k)
        then on_mem (hr_list_push_back (Some PendingTimers) (Some (PendingNode x))) k else Some (HR_OK, k)) = Some (HR_OK, k')"
    and "timer_only x k k'" and "tmcb k' = tmcb k" and "nlist (nodes (kmem k') (PendingNode x)) = Some PendingTimers"
    and "nlist (nodes (kmem k') (TimerNode x)) = nlist (nodes (kmem k) (TimerNode x))"
    and "nodes_of (kmem k') PendingTimers = nodes_of (kmem k) PendingTimers @
      (if nlist (nodes (kmem k) (PendingNode x)) = None then [PendingNode x] else [])"
    and "inited (kmem k) ExpiredTimers \<Longrightarrow> nodes_of (kmem k') ExpiredTimers = nodes_of (kmem k) ExpiredTimers"
    and "same_timeouts (kmem k) (kmem k')"
proof (cases "nlist (nodes (kmem k) (PendingNode x))")
  case None
  note p = mem_pending_push [OF assms None]
  let ?m = "link_at PendingTimers (nodes_of (kmem k) PendingTimers) [] (PendingNode x) (kmem k)"
  have t: "timer_only x k (k\<lparr>kmem := ?m\<rparr>)" using p(2-5) by (simp add: timer_only_def same_timeouts_def)
  show thesis by (rule that [of "k\<lparr>kmem := ?m\<rparr>"]) (use None p t assms(2) in \<open>simp_all add: hr_list_node_is_linked_def on_mem_def\<close>)
next
  case (Some l)
  then have "l = PendingTimers" using mem_okD(6) [OF assms(1)] by fastforce
  then show thesis
    using Some assms by (intro that [of k]) (simp_all add: hr_list_node_is_linked_def timer_only_def kernel_same_refl)
qed

lemma remaining_same: "same_timeouts m m' \<Longrightarrow> remaining m' a = remaining m a"
  by (simp add: remaining_def same_timeouts_def fun_eq_iff)

lemma expire_timer_ok:
  assumes "mem_ok (kmem k)" and "timers_okx (insert x X) now k" and "x \<notin> X" and "nlist (nodes (kmem k) (TimerNode x)) = None"
    and "inited (kmem k) ExpiredTimers"
  obtains k' where "expire_timer x k = Some (HR_OK, k')" and "timer_only x k k'" and "timers_okx X now k'"
    and "tmcb k' x = expire_tmcb (tmcb k x)" and "nodes_of (kmem k') ExpiredTimers = nodes_of (kmem k) ExpiredTimers"
    and "nodes_of (kmem k') PendingTimers = nodes_of (kmem k) PendingTimers @ (if tmpending_count (tmcb k x) = 0 then [PendingNode x] else [])"
    and "remaining (kmem k') G_timer_timeouts =
      (if tmauto_reload (tmcb k x) then (remaining (kmem k) G_timer_timeouts)(TimerNode x := tmperiod_ticks (tmcb k x))
       else remaining (kmem k) G_timer_timeouts)"
proof -
  note v = timer_valid [OF assms(2)]
  have mg: "tmmagic (tmcb k x) = HR_CFG_TIMER_MAGIC" using assms(2) unfolding timers_okx_def by auto
  have sh: "timer_shape (tmcb k x) (kmem k) x" by (rule v(3) [OF mg])
  have init: "g_timer_system_initialized k" by (rule v(2) [OF mg])
  let ?u = "upd_tmcb x (\<lambda>c. c\<lparr>tmactive := False,
       tmpending_count := (if tmpending_count c < UINT32_MAX then tmpending_count c + 1 else tmpending_count c)\<rparr>) k"
  have u: "timer_only x k ?u" "kmem ?u = kmem k" "tmcb ?u x = (expire_tmcb (tmcb k x))\<lparr>tmactive := False\<rparr>"
    by (rule timer_only_upd [OF assms(1)]) (simp_all add: upd_tmcb_def expire_tmcb_def)
  have um: "mem_ok (kmem ?u)" "inited (kmem ?u) PendingTimers" using assms(1) v(7) [OF init] u(2) by simp_all
  show thesis
  proof (rule pend_ok [OF um, of x])
    fix k1 assume p: "(if \<not> hr_list_node_is_linked (Some (PendingNode x)) (kmem ?u)
        then on_mem (hr_list_push_back (Some PendingTimers) (Some (PendingNode x))) ?u else Some (HR_OK, ?u)) = Some (HR_OK, k1)"
      "timer_only x ?u k1" "tmcb k1 = tmcb ?u" "nlist (nodes (kmem k1) (PendingNode x)) = Some PendingTimers"
      "nlist (nodes (kmem k1) (TimerNode x)) = nlist (nodes (kmem ?u) (TimerNode x))"
      "nodes_of (kmem k1) PendingTimers = nodes_of (kmem ?u) PendingTimers @
        (if nlist (nodes (kmem ?u) (PendingNode x)) = None then [PendingNode x] else [])"
      "inited (kmem ?u) ExpiredTimers \<Longrightarrow> nodes_of (kmem k1) ExpiredTimers = nodes_of (kmem ?u) ExpiredTimers"
      "same_timeouts (kmem ?u) (kmem k1)"
    note t1 = timer_only_trans [OF u(1) p(2)]
    have o1: "\<And>n. nowner (nodes (kmem k1) n) = nowner (nodes (kmem k) n)" using t1 by (simp add: timer_only_def)
    have cnt: "tmpending_count (expire_tmcb (tmcb k x)) \<noteq> 0"
      using inc_nonzero [of "tmpending_count (tmcb k x)"] by (auto simp: expire_tmcb_def)
    have pend: "nodes_of (kmem k1) PendingTimers = nodes_of (kmem k) PendingTimers @ (if tmpending_count (tmcb k x) = 0 then [PendingNode x] else [])"
      using p(6) u(2) sh by (simp add: timer_shape_def)
    have c1: "tmcb k1 x = (expire_tmcb (tmcb k x))\<lparr>tmactive := False\<rparr>" using p(3) u(3) by simp
    have ex1: "nodes_of (kmem k1) ExpiredTimers = nodes_of (kmem k) ExpiredTimers" using p(7) u(2) assms(5) by simp
    have ar: "tmauto_reload (tmcb k1 x) = tmauto_reload (tmcb k x)" using c1 by (simp add: expire_tmcb_def)
    have step: "expire_timer x k = (if tmauto_reload (tmcb k1 x) then hr_timer_arm_locked x k1 else Some (HR_OK, k1))"
      using p(1) by (simp add: expire_timer_def Let_def)
    show thesis
    proof (cases "tmauto_reload (tmcb k x)")
      case False
      have "timer_inv (tmcb k1 x) (kmem k1) x"
        using c1 mg sh o1 p(4,5) assms(4) u(2) cnt by (simp add: timer_inv_def timer_shape_def expire_tmcb_def)
      then have "timers_okx X now k1" using assms(3) by (intro timer_only_ok [OF assms(2) t1 init]) auto
      then show thesis
        using that [of k1] step False ar t1 c1 ex1 pend remaining_same [OF p(8)] u(2) by (simp add: expire_tmcb_def)
    next
      case True
      have m1: "mem_ok (kmem k1)" "tcurrent (timeout_lists (kmem k1) G_timer_timeouts) \<noteq> None" "nlist (nodes (kmem k1) (TimerNode x)) = None"
        "tmperiod_ticks (tmcb k1 x) \<noteq> 0" "tmperiod_ticks (tmcb k1 x) \<noteq> HR_WAIT_FOREVER"
        using t1 v(6) [OF init] assms(4) p(5) u(2) c1 sh by (simp_all add: timer_only_def kernel_same_def expire_tmcb_def timer_shape_def)
      show thesis
      proof (rule arm_ok [OF m1])
        fix k2 assume a: "hr_timer_arm_locked x k1 = Some (HR_OK, k2)" "timer_only x k1 k2" "tmcb k2 x = (tmcb k1 x)\<lparr>tmactive := True\<rparr>"
          "nlist (nodes (kmem k2) (TimerNode x)) \<noteq> None" "nlist (nodes (kmem k2) (TimerNode x)) \<noteq> Some ExpiredTimers"
          "nlist (nodes (kmem k2) (PendingNode x)) = nlist (nodes (kmem k1) (PendingNode x))"
          "\<And>l. plain_list l \<Longrightarrow> inited (kmem k1) l \<Longrightarrow> nodes_of (kmem k2) l = nodes_of (kmem k1) l"
          "remaining (kmem k2) G_timer_timeouts = (remaining (kmem k1) G_timer_timeouts)(TimerNode x := tmperiod_ticks (tmcb k1 x))"
        note t2 = timer_only_trans [OF t1 a(2)]
        have o2: "\<And>n. nowner (nodes (kmem k2) n) = nowner (nodes (kmem k) n)" using t2 by (simp add: timer_only_def)
        have c2: "tmcb k2 x = expire_tmcb (tmcb k x)" using a(3) c1 True by (simp add: expire_tmcb_def)
        have "timer_inv (tmcb k2 x) (kmem k2) x"
          using c2 mg sh o2 a(4-6) p(4) cnt True by (simp add: timer_inv_def timer_shape_def expire_tmcb_def)
        then have ok2: "timers_okx X now k2" using assms(3) by (intro timer_only_ok [OF assms(2) t2 init]) auto
        have i1: "inited (kmem k1) PendingTimers" "inited (kmem k1) ExpiredTimers"
          using timer_onlyD(3) [OF t1] um(2) u(2) assms(5) by simp_all
        have per: "tmperiod_ticks (tmcb k1 x) = tmperiod_ticks (tmcb k x)" using c1 by (simp add: expire_tmcb_def)
        show thesis
          by (rule that [OF _ t2 ok2 c2])
            (use step True ar a(1,8) a(7) [OF _ i1(1)] a(7) [OF _ i1(2)] ex1 pend remaining_same [OF p(8)] u(2) per in simp_all)
      qed
    qed
  qed
qed

text \<open>The loop, with the pop that fetches its next node.\<close>

definition next_expired :: "bool \<Rightarrow> hr_kernel \<Rightarrow> (bool option \<times> hr_kernel) option" where
  "next_expired s k = do {
     (node, k) \<leftarrow> on_mem (hr_list_pop_front (Some ExpiredTimers)) k;
     timer_expire_loop node s k
   }"

lemma expire_loop_step:
  assumes "hr_list_node_owner (Some n) (kmem k) = Some (Timer_obj x)" and "hr_timer_is_valid (Some x) k" and "tmactive (tmcb k x)"
    and "expire_timer x k = Some (HR_OK, k')"
  shows "timer_expire_loop (Some n) s k = next_expired True k'"
proof -
  have "timer_expire_loop (Some n) s k =
      (expire_timer x k \<bind> (\<lambda>(status, k). if status \<noteq> HR_OK then Some (None, k) else next_expired True k))"
    using assms(1-3)
    by (subst timer_expire_loop.simps, unfold next_expired_def expire_timer_def Let_def case_prod_unfold)
      (simp add: as_timer_def Option.bind_assoc)
  then show ?thesis using assms(4) by simp
qed

text \<open>The state between two rounds: the timers \<open>xs\<close> are still to be handled.\<close>

definition expiring :: "timer_ptr list \<Rightarrow> hr_tick \<Rightarrow> hr_kernel \<Rightarrow> bool" where
  "expiring xs now k \<longleftrightarrow>
     mem_ok (kmem k) \<and> inited (kmem k) ExpiredTimers \<and> nodes_of (kmem k) ExpiredTimers = map TimerNode xs \<and> distinct xs \<and>
     timers_okx (set xs) now k"

text \<open>What handling the timers \<open>xs\<close> does to control blocks, pending callbacks and arming.\<close>

definition expired :: "timer_ptr list \<Rightarrow> hr_kernel \<Rightarrow> hr_kernel \<Rightarrow> bool" where
  "expired xs k k' \<longleftrightarrow>
     k' = k\<lparr>kmem := kmem k', tmcb := tmcb k'\<rparr> \<and> kernel_same (kmem k) (kmem k') \<and>
     (\<forall>y. tmcb k' y = (if y \<in> set xs then expire_tmcb (tmcb k y) else tmcb k y)) \<and>
     nodes_of (kmem k') PendingTimers = nodes_of (kmem k) PendingTimers @ map PendingNode (filter (\<lambda>x. tmpending_count (tmcb k x) = 0) xs) \<and>
     (\<forall>y. remaining (kmem k') G_timer_timeouts (TimerNode y) =
        (if y \<in> set xs \<and> tmauto_reload (tmcb k y) then tmperiod_ticks (tmcb k y) else remaining (kmem k) G_timer_timeouts (TimerNode y)))"

lemma expired_round:
  assumes "expiring (x # xs) now k"
  obtains k' where "next_expired s k = next_expired True k'" and "expiring xs now k'" and "expired [x] k k'"
proof -
  note e = assms [unfolded expiring_def]
  have ok: "mem_ok (kmem k)" "inited (kmem k) ExpiredTimers" "nodes_of (kmem k) ExpiredTimers = TimerNode x # map TimerNode xs"
    using e by simp_all
  note p = mem_timer_pop(2) [OF ok(1,2) _ ok(3)]
  have n: "nlist (nodes (kmem k) (TimerNode x)) = Some ExpiredTimers" using p by simp
  let ?m = "unlink (TimerNode x) (kmem k)"
  let ?k = "k\<lparr>kmem := ?m\<rparr>"
  note u = mem_timer_unlink [OF ok(1) _ n, simplified]
  have t0: "timer_only x k ?k" using u(2-5) by (simp add: timer_only_def same_timeouts_def)
  have okx: "timers_okx (insert x (set xs)) now k" and xn: "x \<notin> set xs" using e by simp_all
  note v = timer_valid [OF okx]
  have mg: "tmmagic (tmcb k x) = HR_CFG_TIMER_MAGIC" "tmactive (tmcb k x)" using okx unfolding timers_okx_def by auto
  note sh = v(3) [OF mg(1)] and init = v(2) [OF mg(1)]
  have "timer_shape (tmcb ?k x) (kmem ?k) x" using sh u(4,5) by (simp add: timer_shape_def)
  then have ok0: "timers_okx (insert x (set xs)) now ?k" using mg by (intro timer_only_ok [OF okx t0 init]) simp_all
  have m0: "mem_ok (kmem ?k)" "nlist (nodes (kmem ?k) (TimerNode x)) = None" "inited (kmem ?k) ExpiredTimers"
    using u(2-4) ok(2) by (simp_all add: kernel_same_def same_timeouts_def)
  show thesis
  proof (rule expire_timer_ok [OF m0(1) ok0 xn m0(2,3)])
    fix k' assume a: "expire_timer x ?k = Some (HR_OK, k')" "timer_only x ?k k'" "timers_okx (set xs) now k'"
      "tmcb k' x = expire_tmcb (tmcb ?k x)" "nodes_of (kmem k') ExpiredTimers = nodes_of (kmem ?k) ExpiredTimers"
      "nodes_of (kmem k') PendingTimers = nodes_of (kmem ?k) PendingTimers @ (if tmpending_count (tmcb ?k x) = 0 then [PendingNode x] else [])"
      "remaining (kmem k') G_timer_timeouts =
        (if tmauto_reload (tmcb ?k x) then (remaining (kmem ?k) G_timer_timeouts)(TimerNode x := tmperiod_ticks (tmcb ?k x))
         else remaining (kmem ?k) G_timer_timeouts)"
    have ow: "hr_list_node_owner (Some (TimerNode x)) (kmem ?k) = Some (Timer_obj x)"
      using sh u(5) by (simp add: hr_list_node_owner_def timer_shape_def)
    have va: "hr_timer_is_valid (Some x) ?k" using timer_valid(1) [OF ok0] mg(1) by simp
    have "timer_expire_loop (Some (TimerNode x)) s ?k = next_expired True k'"
      by (rule expire_loop_step [OF ow va _ a(1)]) (simp add: mg)
    then have r: "next_expired s k = next_expired True k'"
      using p by (simp add: next_expired_def on_mem_def)
    note t = timer_only_trans [OF t0 a(2)]
    have "mem_ok (kmem k')" "inited (kmem k') ExpiredTimers"
      using timer_onlyD(2,3) [OF t] ok(2) by (simp_all add: kernel_same_def)
    then have ex: "expiring xs now k'" using a(3,5) u(6) [OF ok(2)] ok(3) e by (simp add: expiring_def)
    have i: "inited (kmem k) PendingTimers" by (rule v(7) [OF init])
    have "\<And>y. y \<noteq> x \<Longrightarrow> tmcb k' y = tmcb k y" using t by (simp add: timer_only_def)
    then have "expired [x] k k'"
      using timer_onlyD(1,2) [OF t] a(4,6,7) u(6) [OF i] remaining_same [OF u(3)] by (simp add: expired_def)
    then show thesis using that r ex by blast
  qed
qed

lemma expired_Cons:
  assumes "expired [x] k k1" and "expired xs k1 k2" and "x \<notin> set xs"
  shows "expired (x # xs) k k2"
proof -
  note a = assms(1) [unfolded expired_def] and b = assms(2) [unfolded expired_def]
  have e: "k1 = k\<lparr>kmem := kmem k1, tmcb := tmcb k1\<rparr>" "k2 = k1\<lparr>kmem := kmem k2, tmcb := tmcb k2\<rparr>" using a b by blast+
  have "k2 = k\<lparr>kmem := kmem k2, tmcb := tmcb k2\<rparr>" by (subst e(2), subst e(1)) simp
  moreover have "kernel_same (kmem k) (kmem k2)" using a b kernel_same_trans by blast
  moreover have y: "tmcb k1 y = (if y = x then expire_tmcb (tmcb k y) else tmcb k y)" for y using a by simp
  have "tmcb k2 y = (if y \<in> set (x # xs) then expire_tmcb (tmcb k y) else tmcb k y)" for y
    using b y [of y] assms(3) by auto
  moreover have "filter (\<lambda>x. tmpending_count (tmcb k1 x) = 0) xs = filter (\<lambda>x. tmpending_count (tmcb k x) = 0) xs"
    using y assms(3) by (intro filter_cong) auto
  moreover have "remaining (kmem k2) G_timer_timeouts (TimerNode z) = (if z \<in> set (x # xs) \<and> tmauto_reload (tmcb k z)
      then tmperiod_ticks (tmcb k z) else remaining (kmem k) G_timer_timeouts (TimerNode z))" for z
    using a b y [of z] assms(3) by auto
  ultimately show ?thesis using a b unfolding expired_def by simp
qed

lemma expire_all:
  "expiring xs now k \<Longrightarrow> \<exists>k'. next_expired s k = Some (Some (s \<or> xs \<noteq> []), k') \<and> expiring [] now k' \<and> expired xs k k'"
proof (induction xs arbitrary: k s)
  case Nil
  then have e: "mem_ok (kmem k)" "inited (kmem k) ExpiredTimers" "nodes_of (kmem k) ExpiredTimers = []" by (simp_all add: expiring_def)
  have "next_expired s k = Some (Some s, k)"
    using mem_timer_pop(1) [OF e(1,2) _ e(3)] by (simp add: next_expired_def on_mem_def timer_expire_loop.simps)
  then show ?case using Nil kernel_same_refl [OF e(1)] by (simp add: expired_def)
next
  case (Cons x xs)
  have x: "x \<notin> set xs" using Cons.prems by (simp add: expiring_def)
  show ?case
  proof (rule expired_round [OF Cons.prems, of s])
    fix k1 assume r: "next_expired s k = next_expired True k1" "expiring xs now k1" "expired [x] k k1"
    from Cons.IH [OF r(2), of True] obtain k' where
      "next_expired True k1 = Some (Some True, k')" "expiring [] now k'" "expired xs k1 k'" by auto
    then show ?thesis using r(1) expired_Cons [OF r(3) _ x] by auto
  qed
qed

lemma no_expired:
  assumes "mem_ok (kmem k)" and "timers_okx {} now k" and "inited (kmem k) ExpiredTimers"
  shows "nodes_of (kmem k) ExpiredTimers = []"
proof (rule ccontr)
  assume "nodes_of (kmem k) ExpiredTimers \<noteq> []"
  then obtain n where n: "n \<in> set (nodes_of (kmem k) ExpiredTimers)" by (cases "nodes_of (kmem k) ExpiredTimers") auto
  note wf = mem_okD(1) [OF assms(1)]
  have "node_fits n ExpiredTimers" "\<not> is_root n" "nlist (nodes (kmem k) n) = Some ExpiredTimers"
    using member_fits [OF assms(1,3) n] wf_linked [OF wf assms(3)] wf_in_list [OF wf assms(3) n] n by (simp_all add: linked_def)
  then obtain x where "nlist (nodes (kmem k) (TimerNode x)) = Some ExpiredTimers" by (cases n) auto
  moreover have "timer_inv (tmcb k x) (kmem k) x" using assms(2) unfolding timers_okx_def by simp
  ultimately show False by (simp add: timer_inv_def split: if_splits)
qed

lemma timer_nodes:
  assumes "mem_ok m" and "timeout_ok m G_timer_timeouts" and "set ns \<subseteq> set (timeout_seq m G_timer_timeouts)"
  obtains xs where "ns = map TimerNode xs"
proof -
  have "\<exists>x. n = TimerNode x" if "n \<in> set ns" for n
  proof -
    have "n \<in> set (timeout_seq m G_timer_timeouts)" using that assms(3) by blast
    from timeout_member [OF assms(1,2) this] show ?thesis by (cases n) auto
  qed
  then have "\<exists>xs. ns = map TimerNode xs" by (simp add: ex_map_conv)
  then show thesis using that by blast
qed

definition due_timers :: "hr_kernel \<Rightarrow> timer_ptr list \<Rightarrow> bool" where
  "due_timers k xs \<longleftrightarrow>
     map TimerNode xs = takeWhile (\<lambda>n. remaining (kmem k) G_timer_timeouts n = 1) (timeout_seq (kmem k) G_timer_timeouts)"

lemma timer_inv_cong:
  assumes "\<And>n. n \<in> {TimerNode x, PendingNode x} \<Longrightarrow> nowner (nodes m' n) = nowner (nodes m n)"
    and "nlist (nodes m' (PendingNode x)) = nlist (nodes m (PendingNode x))"
  shows "timer_shape c m' x = timer_shape c m x"
    and "nlist (nodes m' (TimerNode x)) = nlist (nodes m (TimerNode x)) \<Longrightarrow> timer_inv c m' x = timer_inv c m x"
  using assms by (simp_all add: timer_inv_def timer_shape_def)

lemma timer_tick_setup:
  assumes "mem_ok (kmem k)" and "timers_okx {} now k" and "g_timer_system_initialized k"
  defines "m \<equiv> hr_list_init (Some ExpiredTimers) (kmem k)"
  shows "mem_ok m" and "kernel_same (kmem k) m" and "timers_okx {} now (k\<lparr>kmem := m\<rparr>)" and "inited m ExpiredTimers"
    and "nodes_of m ExpiredTimers = []" and "nodes_of m PendingTimers = nodes_of (kmem k) PendingTimers"
    and "remaining m G_timer_timeouts = remaining (kmem k) G_timer_timeouts"
    and "timeout_seq m G_timer_timeouts = timeout_seq (kmem k) G_timer_timeouts"
proof -
  note v = timer_valid [OF assms(2)]
  note s = set_up_list [OF assms(1) no_expired [OF assms(1,2)], folded m_def]
  note sd = s(1) [unfolded set_up_def]
  show "mem_ok m" "inited m ExpiredTimers" "nodes_of m ExpiredTimers = []" "nodes_of m PendingTimers = nodes_of (kmem k) PendingTimers"
    using sd s(2) v(7) [OF assms(3)] by simp_all
  show ks: "kernel_same (kmem k) m" using sd setup_view [OF s(1)] by (auto simp: kernel_same_def m_def)
  show "remaining m G_timer_timeouts = remaining (kmem k) G_timer_timeouts" by (simp add: remaining_def fun_eq_iff m_def)
  have ta: "timeout_ok (kmem k) G_timer_timeouts" by (rule mem_okD(5) [OF assms(1) v(6) [OF assms(3)]])
  show "timeout_seq m G_timer_timeouts = timeout_seq (kmem k) G_timer_timeouts"
  proof -
    obtain i j where "current_of (kmem k) G_timer_timeouts = TimeoutList G_timer_timeouts i"
      "overflow_of (kmem k) G_timer_timeouts = TimeoutList G_timer_timeouts j" "i < 2" "j < 2" by (rule timeout_lists_of [OF ta])
    then have "inited (kmem k) (current_of (kmem k) G_timer_timeouts)" "inited (kmem k) (overflow_of (kmem k) G_timer_timeouts)"
      using timeout_inited [OF ta] by simp_all
    then show ?thesis using sd by (simp add: timeout_seq_def current_of_def overflow_of_def)
  qed
  show "timers_okx {} now (k\<lparr>kmem := m\<rparr>)"
  proof -
    have "timer_inv c m x = timer_inv c (kmem k) x" for c x by (rule timer_inv_cong) (use sd in auto)
    then show ?thesis using assms(2) sd by (simp add: timers_okx_def)
  qed
qed

text \<open>One tick of the timer list: the timers due are in the list of expired timers, still marked active.\<close>

lemma timer_tick_advance:
  assumes "mem_ok (kmem k)" and "timers_okx {} now k" and "g_timer_system_initialized k"
    and "inited (kmem k) ExpiredTimers" and "nodes_of (kmem k) ExpiredTimers = []"
  obtains m xs where "hr_timeout_list_advance (Some G_timer_timeouts) (now + 1) (Some ExpiredTimers) (kmem k) = Some (HR_OK, m)"
    and "kernel_same (kmem k) m" and "expiring xs (now + 1) (k\<lparr>kmem := m\<rparr>)" and "due_timers k xs"
    and "nodes_of m PendingTimers = nodes_of (kmem k) PendingTimers"
    and "\<And>n. remaining m G_timer_timeouts n = remaining (kmem k) G_timer_timeouts n - 1"
    and "timeout_seq m G_timer_timeouts = dropWhile (\<lambda>n. remaining (kmem k) G_timer_timeouts n = 1) (timeout_seq (kmem k) G_timer_timeouts)"
proof -
  note v = timer_valid [OF assms(2)]
  note tc = v(6) [OF assms(3)] and ta = mem_okD(5) [OF assms(1) v(6) [OF assms(3)]]
  have last: "last_tick (kmem k) G_timer_timeouts = now" using assms(2,3) by (simp add: timers_okx_def)
  show thesis
  proof (rule mem_tick [OF assms(1) tc, unfolded last expired_of.simps, OF assms(4,5)])
    fix m assume
    m: "hr_timeout_list_advance (Some G_timer_timeouts) (now + 1) (Some ExpiredTimers) (kmem k) = Some (HR_OK, m)"
      "mem_ok m" "inited m = inited (kmem k)" "last_tick m G_timer_timeouts = now + 1" "tcurrent (timeout_lists m G_timer_timeouts) \<noteq> None"
      "nodes_of m ExpiredTimers = takeWhile (\<lambda>x. remaining (kmem k) G_timer_timeouts x = 1) (timeout_seq (kmem k) G_timer_timeouts)"
      "timeout_seq m G_timer_timeouts = dropWhile (\<lambda>x. remaining (kmem k) G_timer_timeouts x = 1) (timeout_seq (kmem k) G_timer_timeouts)"
      "\<And>x. remaining m G_timer_timeouts x = remaining (kmem k) G_timer_timeouts x - 1"
    and n: "\<And>l. inited (kmem k) l \<Longrightarrow> l \<noteq> ExpiredTimers \<Longrightarrow> (\<And>i. l \<noteq> TimeoutList G_timer_timeouts i) \<Longrightarrow> nodes_of m l = nodes_of (kmem k) l"
      "\<And>x. nlist (nodes m x) = (if x \<in> set (nodes_of m ExpiredTimers) then Some ExpiredTimers else nlist (nodes (kmem k) x))"
      "\<And>x. nowner (nodes m x) = nowner (nodes (kmem k) x)"
      "npriority m = npriority (kmem k)" "nwake_tick m = nwake_tick (kmem k)" "ready_seq m G_scheduler = ready_seq (kmem k) G_scheduler"
      "\<And>u. u \<noteq> G_timer_timeouts \<Longrightarrow> timeout_lists m u = timeout_lists (kmem k) u"
  have sub: "set (nodes_of m ExpiredTimers) \<subseteq> set (timeout_seq (kmem k) G_timer_timeouts)" using m(6) set_takeWhileD by fastforce
  then obtain xs where xs: "nodes_of m ExpiredTimers = map TimerNode xs" by (rule timer_nodes [OF assms(1) ta])
  have due: "due_timers k xs" using m(6) xs by (simp add: due_timers_def)
  have "distinct (map TimerNode xs)" using wf_distinct [OF mem_okD(1) [OF m(2)]] m(3) assms(4) unfolding xs [symmetric] by simp
  then have d: "distinct xs" by (simp add: distinct_map)
  have act: "tmmagic (tmcb k y) = HR_CFG_TIMER_MAGIC \<and> tmactive (tmcb k y)" if "y \<in> set xs" for y
  proof -
    have "TimerNode y \<in> set (timeout_seq (kmem k) G_timer_timeouts)" using sub xs that by auto
    then have "nlist (nodes (kmem k) (TimerNode y)) \<noteq> None"
      using timeout_seq_linked [OF mem_okD(1) [OF assms(1)] ta, of "TimerNode y"] by auto
    moreover have "timer_inv (tmcb k y) (kmem k) y" using assms(2) by (simp add: timers_okx_def)
    ultimately show ?thesis by (simp add: timer_inv_def split: if_splits)
  qed
  have c: "timer_shape (tmcb k y) m y = timer_shape (tmcb k y) (kmem k) y"
    "y \<notin> set xs \<Longrightarrow> timer_inv (tmcb k y) m y = timer_inv (tmcb k y) (kmem k) y" for y
    by (rule timer_inv_cong; simp add: n(2,3) xs image_iff)+
  have "timers_okx (set xs) (now + 1) (k\<lparr>kmem := m\<rparr>)"
    using assms(2,3) act m(3,4,5) v(3) c by (simp add: timers_okx_def)
  then have ex: "expiring xs (now + 1) (k\<lparr>kmem := m\<rparr>)" using m(2,3) assms(4) xs d by (simp add: expiring_def)
  have "nodes_of m l = nodes_of (kmem k) l" if "inited (kmem k) l" "\<not> timer_list l" for l using that by (intro n(1)) auto
  then have ks: "kernel_same (kmem k) m"
    using m(2,3) n(2-) by (intro kernel_sameI) (auto simp: xs)
  have "nodes_of m PendingTimers = nodes_of (kmem k) PendingTimers" using n(1) v(7) [OF assms(3)] by simp
  from that [OF m(1) ks ex due this m(8,7)] show thesis .
  qed
qed

text \<open>
  What the tick does to the timers: those due are handled in the order of the timer list, the
  others come one tick closer.
\<close>

definition timers_fired :: "timer_ptr list \<Rightarrow> hr_kernel \<Rightarrow> hr_kernel \<Rightarrow> bool" where
  "timers_fired xs k k' \<longleftrightarrow>
     (\<forall>y. tmcb k' y = (if y \<in> set xs then expire_tmcb (tmcb k y) else tmcb k y)) \<and>
     nodes_of (kmem k') PendingTimers = nodes_of (kmem k) PendingTimers @ map PendingNode (filter (\<lambda>x. tmpending_count (tmcb k x) = 0) xs) \<and>
     (\<forall>y. remaining (kmem k') G_timer_timeouts (TimerNode y) =
        (if y \<in> set xs \<and> tmauto_reload (tmcb k y) then tmperiod_ticks (tmcb k y)
         else remaining (kmem k) G_timer_timeouts (TimerNode y) - 1))"

definition timers_ticked :: "timer_ptr list \<Rightarrow> hr_kernel \<Rightarrow> hr_kernel \<Rightarrow> bool" where
  "timers_ticked xs k k' \<longleftrightarrow>
     k' = k\<lparr>kmem := kmem k', tmcb := tmcb k'\<rparr> \<and> kernel_same (kmem k) (kmem k') \<and> timers_fired xs k k'"

lemma timer_tick_timers:
  assumes "mem_ok (kmem k)" and "timers_okx {} now k" and "g_timer_system_initialized k"
  obtains m k' xs where "hr_timeout_list_advance (Some G_timer_timeouts) (now + 1) (Some ExpiredTimers)
      (hr_list_init (Some ExpiredTimers) (kmem k)) = Some (HR_OK, m)"
    and "next_expired False (k\<lparr>kmem := m\<rparr>) = Some (Some (xs \<noteq> []), k')"
    and "due_timers k xs" and "timers_ticked xs k k'" and "timers_okx {} (now + 1) k'"
proof -
  define i where "i = hr_list_init (Some ExpiredTimers) (kmem k)"
  note s = timer_tick_setup [OF assms, folded i_def]
  obtain m xs where m: "hr_timeout_list_advance (Some G_timer_timeouts) (now + 1) (Some ExpiredTimers) i = Some (HR_OK, m)"
      "kernel_same i m" "expiring xs (now + 1) (k\<lparr>kmem := m\<rparr>)" "due_timers (k\<lparr>kmem := i\<rparr>) xs"
      "nodes_of m PendingTimers = nodes_of i PendingTimers" "\<And>n. remaining m G_timer_timeouts n = remaining i G_timer_timeouts n - 1"
    by (rule timer_tick_advance [of "k\<lparr>kmem := i\<rparr>" now, simplified, OF s(1,3) assms(3) s(4,5)]) blast
  from expire_all [OF m(3), of False] obtain k' where
    k': "next_expired False (k\<lparr>kmem := m\<rparr>) = Some (Some (xs \<noteq> []), k')" "expiring [] (now + 1) k'" "expired xs (k\<lparr>kmem := m\<rparr>) k'" by auto
  note e = k'(3) [unfolded expired_def]
  have "k' = (k\<lparr>kmem := m\<rparr>)\<lparr>kmem := kmem k', tmcb := tmcb k'\<rparr>" using e by blast
  then have "k' = k\<lparr>kmem := kmem k', tmcb := tmcb k'\<rparr>" by simp
  moreover have "kernel_same (kmem k) (kmem k')"
    using kernel_same_trans [OF s(2) kernel_same_trans [OF m(2)]] e by simp
  ultimately have t: "timers_ticked xs k k'" using e m(5,6) s(6,7) unfolding timers_ticked_def timers_fired_def by simp
  have "due_timers k xs" using m(4) s(7,8) by (simp add: due_timers_def)
  from that [OF _ k'(1) this t] m(1) k'(2) show thesis by (simp add: i_def expiring_def)
qed

lemma timer_tick_ok:
  assumes "kinv k" and "sems_ok k" and "queues_ok k" and "mutexes_ok k" and "timers_okx {} now k" and "g_kernel_tick k = now + 1"
    and "inside_isr k"
  obtains sw k' where "hr_timer_tick_from_isr (g_kernel_tick k) (Some b) k = Some (Some sw, k')" and "kernel_inv k'"
    and "g_kernel_state k' = g_kernel_state k" and "g_current_task k' = g_current_task k" and "g_kernel_tick k' = g_kernel_tick k"
    and "\<exists>xs. if g_timer_system_initialized k then due_timers k xs \<and> timers_fired xs k k' else k' = k"
    and "\<And>u. vwait (view (kmem k) u) \<noteq> Some (SemaphoreWaiters g_timer_signal) \<Longrightarrow> task_kept u k k'"
proof (cases "g_timer_system_initialized k")
  case False
  then have "timers_ok k" using assms(5) by (simp add: timers_ok_def timers_okx_def)
  then show thesis using that [of False k] assms False by (simp add: hr_timer_tick_from_isr_def kernel_inv_def task_kept_def)
next
  case True
  obtain m k1 xs where r: "hr_timeout_list_advance (Some G_timer_timeouts) (now + 1) (Some ExpiredTimers)
        (hr_list_init (Some ExpiredTimers) (kmem k)) = Some (HR_OK, m)"
      "next_expired False (k\<lparr>kmem := m\<rparr>) = Some (Some (xs \<noteq> []), k1)" "timers_ticked xs k k1" "timers_okx {} (now + 1) k1"
      "due_timers k xs"
    by (rule timer_tick_timers [OF kinvD(1) [OF assms(1)] assms(5) True]) blast
  have e: "k1 = k\<lparr>kmem := kmem k1, tmcb := tmcb k1\<rparr>" "kernel_same (kmem k) (kmem k1)" using r(3) by (simp_all add: timers_ticked_def)
  have f: "g_kernel_state k1 = g_kernel_state k" "g_current_task k1 = g_current_task k" "g_kernel_tick k1 = g_kernel_tick k"
    "inside_isr k1 = inside_isr k" "scb k1 = scb k" "g_timer_system_initialized k1" "tcb k1 = tcb k"
    by (subst e(1), use True in simp)+
  have inv: "kernel_inv k1"
    using kernel_same_rest [OF assms(1-4) e(2,1)] r(4) f(3) assms(6) by (simp add: kernel_inv_def timers_ok_def)
  have run: "hr_timer_tick_from_isr (g_kernel_tick k) (Some b) k =
      (if xs \<noteq> [] then do {
         ((signal_status, timer_task_woken), k) \<leftarrow> hr_semaphore_give_from_isr (Some g_timer_signal) (Some False) k1;
         if signal_status \<noteq> HR_OK \<and> signal_status \<noteq> HR_ERROR_SEMAPHORE_FULL then Some (Some False, k)
         else Some (Some (timer_task_woken = Some True), k) }
       else Some (Some False, k1))"
    using True r(1,2) assms(6)
    by (simp add: hr_timer_tick_from_isr_def on_mem_def next_expired_def case_prod_unfold Option.bind_assoc split: Option.bind_splits)
  have fired: "\<exists>xs. due_timers k xs \<and> timers_fired xs k k1" using r(3,5) by (auto simp: timers_ticked_def)
  have kept: "task_kept u k k1" for u
    using e(2) f(7) by (simp add: task_kept_def kernel_same_def remaining_def)
  obtain st w k' where g: "hr_semaphore_give_from_isr (Some g_timer_signal) (Some False) k1 = Some ((st, w), k')" "kernel_inv k'"
    "g_kernel_state k' = g_kernel_state k1" "g_current_task k' = g_current_task k1" "timers_same k1 k'"
    and gk: "\<And>u. vwait (view (kmem k1) u) \<noteq> Some (SemaphoreWaiters g_timer_signal) \<Longrightarrow> task_kept u k1 k'"
    by (rule give_from_isr_inv [OF inv, where s = g_timer_signal and sem = "Some g_timer_signal" and woken = "Some False"]) blast
  have pend: "inited (kmem k1) PendingTimers" using timer_valid(7) [OF r(4) f(6)] .
  show thesis
  proof (cases "xs = []")
    case True
    then show ?thesis using that [of False k1] run inv f fired kept \<open>g_timer_system_initialized k\<close> by simp
  next
    case False
    then have "hr_timer_tick_from_isr (g_kernel_tick k) (Some b) k =
        Some (Some ((st = HR_OK \<or> st = HR_ERROR_SEMAPHORE_FULL) \<and> w = Some True), k')" using run g(1) by simp
    moreover have "\<exists>xs. due_timers k xs \<and> timers_fired xs k k'"
      using fired g(5) pend by (simp add: timers_fired_def timers_same_def remaining_def)
    moreover have "task_kept u k k'" if "vwait (view (kmem k) u) \<noteq> Some (SemaphoreWaiters g_timer_signal)" for u
      using kept [of u] gk [of u] that by (simp add: task_kept_def)
    moreover have "g_kernel_tick k' = g_kernel_tick k" using g(5) f(3) by (simp add: timers_same_def)
    ultimately show ?thesis using g(2-4) f \<open>g_timer_system_initialized k\<close> by (intro that) simp_all
  qed
qed

end
