(* ===== verification/HR_Tick.thy ===== *)
theory HR_Tick
  imports HR_Timer
begin

text \<open>
  The tick handler and the start of the kernel (\<open>hr_kernel_tick_from_isr\<close> and
  \<open>hr_kernel_start\<close> of \<open>kernel/src/hr_kernel.c\<close>), with \<open>hr_time.c\<close>.
\<close>

section \<open>Operations\<close>

text \<open>
  The loop over the expired timeout nodes. The boolean is false when the handler panicked and
  returned.
\<close>

partial_function (option) tick_expire_loop :: "node_addr option \<Rightarrow> hr_kernel \<Rightarrow> (bool \<times> hr_kernel) option" where
  "tick_expire_loop node k =
     (case node of
        None \<Rightarrow> Some (True, k)
      | Some n \<Rightarrow> do {
          task \<leftarrow> as_task (hr_list_node_owner node (kmem k));
          (case task of
             None \<Rightarrow> Some (False, hr_kernel_panic k)
           | Some t \<Rightarrow>
               if \<not> hr_task_is_valid task k then Some (False, hr_kernel_panic k)
               else if tstate (tcb k t) \<noteq> HR_TASK_STATE_BLOCKED \<and>
                       \<not> (tstate (tcb k t) = HR_TASK_STATE_SUSPENDED \<and>
                          tsuspended_resume_state (tcb k t) = HR_TASK_STATE_BLOCKED)
               then Some (False, hr_kernel_panic k)
               else do {
                 (ok, k) \<leftarrow>
                   (if twait_kind (tcb k t) = HR_TASK_WAIT_DELAY then
                      (if twaiting_object (tcb k t) \<noteq> Some Obj_timeout_list then Some (False, k)
                       else do {
                         ((status, _), k) \<leftarrow> hr_kernel_make_task_ready task HR_OK None k;
                         Some (status = HR_OK, k)
                       })
                    else if twait_kind (tcb k t) = HR_TASK_WAIT_QUEUE_SEND \<or>
                            twait_kind (tcb k t) = HR_TASK_WAIT_QUEUE_RECEIVE \<or>
                            twait_kind (tcb k t) = HR_TASK_WAIT_SEMAPHORE_TAKE \<or>
                            twait_kind (tcb k t) = HR_TASK_WAIT_MUTEX_LOCK then
                      (if twaiting_object (tcb k t) = None \<or> tblocked_wait_list (tcb k t) = None
                       then Some (False, k)
                       else do {
                         ((status, _), k) \<leftarrow> hr_kernel_make_task_ready task HR_ERROR_TIMEOUT None k;
                         Some (status = HR_OK, k)
                       })
                    else Some (False, k));
                 if \<not> ok then Some (False, hr_kernel_panic k)
                 else do {
                   (node, k) \<leftarrow> on_mem (hr_list_pop_front (Some ExpiredNodes)) k;
                   tick_expire_loop node k
                 }
               })
        })"

text \<open>The end of the handler: run-time accounting, preemption and time slicing of the current task.\<close>

definition tick_time_slice :: "task_ptr \<Rightarrow> hr_kernel \<Rightarrow> bool \<times> hr_kernel" where
  "tick_time_slice cur k =
     (if hr_scheduler_has_equal_priority_peer (Some G_scheduler) (Some (ReadyNode cur)) (kmem k) then
        (let k = (if ttime_slice_remaining (tcb k cur) > 0
                  then upd_tcb cur (\<lambda>c. c\<lparr>ttime_slice_remaining := ttime_slice_remaining c - 1\<rparr>) k else k)
         in if ttime_slice_remaining (tcb k cur) = 0
            then (True, hr_kernel_mark_switch_reason HR_SWITCH_REASON_TIME_SLICE
                          (hr_kernel_reload_time_slice (Some cur) k))
            else (False, k))
      else (False, hr_kernel_reload_time_slice (Some cur) k))"

definition tick_account :: "task_ptr \<Rightarrow> bool \<Rightarrow> hr_kernel \<Rightarrow> hr_kernel" where
  "tick_account cur switch_required k =
     (if tstate (tcb k cur) = HR_TASK_STATE_RUNNING then
        (let k = upd_tcb cur (\<lambda>c. c\<lparr>truntime_counter := truntime_counter c + 1\<rparr>) k;
             (switch_required, k) =
               (if hr_scheduler_should_preempt (Some G_scheduler) (Some (ReadyNode cur)) (kmem k)
                then (True, hr_kernel_mark_switch_reason HR_SWITCH_REASON_PREEMPT k)
                else (switch_required, k));
             (switch_required, k) = (if \<not> switch_required then tick_time_slice cur k else (switch_required, k))
         in hr_port_yield_from_isr switch_required k)
      else hr_port_yield_from_isr switch_required k)"

definition hr_kernel_tick_from_isr :: "hr_kernel \<Rightarrow> hr_kernel option" where
  "hr_kernel_tick_from_isr k =
     (if g_kernel_state k \<noteq> HR_KERNEL_STATE_RUNNING then Some k
      else do {
        let k = k\<lparr>g_kernel_tick := g_kernel_tick k + 1\<rparr>;
        let k = k\<lparr>kmem := hr_list_init (Some ExpiredNodes) (kmem k)\<rparr>;
        (status, k) \<leftarrow> on_mem (hr_timeout_list_advance (Some G_timeout_list) (g_kernel_tick k) (Some ExpiredNodes)) k;
        if status \<noteq> HR_OK then Some (hr_kernel_panic k)
        else do {
          (node, k) \<leftarrow> on_mem (hr_list_pop_front (Some ExpiredNodes)) k;
          (ok, k) \<leftarrow> tick_expire_loop node k;
          if \<not> ok then Some k
          else do {
            (timer_switch_required, k) \<leftarrow> hr_timer_tick_from_isr (g_kernel_tick k) (Some False) k;
            (case g_current_task k of
               None \<Rightarrow> Some (hr_kernel_panic k)
             | Some cur \<Rightarrow>
                 if \<not> hr_task_is_valid (Some cur) k then Some (hr_kernel_panic k)
                 else Some (tick_account cur (timer_switch_required = Some True) k))
          }
        }
      })"

text \<open>The tick interrupt: the handler runs inside an exception.\<close>

definition tick_interrupt :: "hr_kernel \<Rightarrow> hr_kernel option" where
  "tick_interrupt k =
     (case hr_kernel_tick_from_isr (k\<lparr>inside_isr := True\<rparr>) of
        None \<Rightarrow> None
      | Some k' \<Rightarrow> Some (k'\<lparr>inside_isr := False\<rparr>))"

text \<open>
  A successful start does not return (\<open>None\<close>): the SVC handler enters the first task.
  The exception registers the port configures are not part of the state.
\<close>

definition hr_kernel_start :: "hr_kernel \<Rightarrow> (hr_status option \<times> hr_kernel) option" where
  "hr_kernel_start k = do {
     (status, k) \<leftarrow> hr_kernel_prepare_start k;
     if status \<noteq> HR_OK then Some (Some status, k) else Some (None, k)
   }"

text \<open>The wrappers of \<open>kernel/src/hr_context.c\<close> and \<open>hr_time.c\<close> that applications call.\<close>

definition hr_critical_enter :: "hr_kernel \<Rightarrow> 32 word \<times> hr_kernel" where
  "hr_critical_enter k = hr_port_enter_critical k"

definition hr_critical_exit :: "32 word \<Rightarrow> hr_kernel \<Rightarrow> hr_kernel" where
  "hr_critical_exit irq_state k = hr_port_exit_critical irq_state k"

definition hr_is_inside_isr :: "hr_kernel \<Rightarrow> bool" where
  "hr_is_inside_isr k = hr_port_is_inside_isr k"

definition hr_yield_from_isr :: "bool \<Rightarrow> hr_kernel \<Rightarrow> hr_kernel" where
  "hr_yield_from_isr switch_required k = hr_port_yield_from_isr switch_required k"

definition hr_time_now :: "hr_kernel \<Rightarrow> hr_tick" where
  "hr_time_now k = hr_kernel_get_tick k"

section \<open>The tasks whose time has come\<close>

definition timeout_status :: "hr_task_control_block \<Rightarrow> hr_status" where
  "timeout_status c = (if twait_kind c = HR_TASK_WAIT_DELAY then HR_OK else HR_ERROR_TIMEOUT)"

lemma armed_blocked:
  assumes "kinvx {} X k" and "vtimeout (view (kmem k) t) \<noteq> None"
  shows "registered k t" and "blocked (tcb k t)" and "waiting (view (kmem k) t) (tcb k t)"
proof -
  show r: "registered k t"
    using kinvD(8) [OF assms(1), of t] assms(2) by (auto simp: task_ok_def created_ok_def split: if_splits)
  have s: "task_state_ok (view (kmem k) t) (tcb k t)" using registeredD(5) [OF assms(1) r] by simp
  then show b: "blocked (tcb k t)"
    using assms(2) by (auto simp: task_state_ok_def blocked_def suspended_wait_def in_ready_def detached_def
        split: hr_task_state.splits)
  show "waiting (view (kmem k) t) (tcb k t)" by (rule state_blocked(1) [OF s b])
qed

lemma waiting_branch:
  assumes "waiting v c"
  shows "twait_kind c = HR_TASK_WAIT_DELAY \<Longrightarrow> twaiting_object c = Some Obj_timeout_list"
    and "twait_kind c \<noteq> HR_TASK_WAIT_DELAY \<Longrightarrow> twait_kind c \<in> {HR_TASK_WAIT_QUEUE_SEND, HR_TASK_WAIT_QUEUE_RECEIVE,
        HR_TASK_WAIT_SEMAPHORE_TAKE, HR_TASK_WAIT_MUTEX_LOCK} \<and> twaiting_object c \<noteq> None \<and> tblocked_wait_list c \<noteq> None"
proof -
  have "delaying v c \<or> on_wait_list v c" using assms by (simp add: waiting_def)
  then show "twait_kind c = HR_TASK_WAIT_DELAY \<Longrightarrow> twaiting_object c = Some Obj_timeout_list"
    "twait_kind c \<noteq> HR_TASK_WAIT_DELAY \<Longrightarrow> twait_kind c \<in> {HR_TASK_WAIT_QUEUE_SEND, HR_TASK_WAIT_QUEUE_RECEIVE,
        HR_TASK_WAIT_SEMAPHORE_TAKE, HR_TASK_WAIT_MUTEX_LOCK} \<and> twaiting_object c \<noteq> None \<and> tblocked_wait_list c \<noteq> None"
    by (auto simp: delaying_def on_wait_list_def elim!: wait_target.elims)
qed

lemma armed_task_ok:
  assumes "kinvx {} X k" and "vtimeout (view (kmem k) t) \<noteq> None" and "t \<in> Y"
  shows "task_ok {} Y ((view (kmem k) t)\<lparr>vtimeout := l\<rparr>) (tcb k t) t"
proof -
  note a = armed_blocked [OF assms(1,2)]
  let ?v = "(view (kmem k) t)\<lparr>vtimeout := l\<rparr>"
  have "waiting ?v (tcb k t)" using a(3) by (simp add: waiting_def delaying_def on_wait_list_def)
  then have "task_state_ok ?v (tcb k t)" using a(2) by (auto simp: task_state_ok_def blocked_def suspended_wait_def)
  then show ?thesis
    using registeredD(1) [OF assms(1) a(1)] a(1) assms(3) by (cases "t = 0") (auto simp: task_ok_def registered_ok_def prio_ok_def)
qed

lemma unlink_expired:
  assumes "kinvx {} X k" and "t \<in> X" and "vtimeout (view (kmem k) t) = Some ExpiredNodes"
  defines "m \<equiv> unlink (TimeoutNode t) (kmem k)"
  shows "kinvx {} X (k\<lparr>kmem := m\<rparr>)" and "calm {} k (k\<lparr>kmem := m\<rparr>)" and "same_timeouts (kmem k) m"
    and "view m = (view (kmem k))(t := (view (kmem k) t)\<lparr>vtimeout := None\<rparr>)" and "inited m = inited (kmem k)"
    and "inited (kmem k) l \<Longrightarrow> nodes_of m l = (if l = ExpiredNodes then remove1 (TimeoutNode t) (nodes_of (kmem k) l) else nodes_of (kmem k) l)"
proof -
  note ok = kinvD [OF assms(1)]
  have "nlist (nodes (kmem k) (TimeoutNode t)) = Some ExpiredNodes" using assms(3) by simp
  note p = mem_plain_remove [OF ok(1) _ _ this, simplified, folded m_def]
  show v: "view m = (view (kmem k))(t := (view (kmem k) t)\<lparr>vtimeout := None\<rparr>)"
    by (simp add: fun_eq_iff view_def p del: node_view)
  have "task_ok {} X ((view (kmem k) t)\<lparr>vtimeout := None\<rparr>) (tcb k t) t" using armed_task_ok [OF assms(1) _ assms(2)] assms(3) by simp
  from tasks_ok_upd [OF ok(2) v this] have "tasks_ok {} X m (tcb k)" by simp
  moreover have va: "vall (view m u) = vall (view (kmem k) u)" for u by (simp add: v)
  moreover have "owners_ok m (tcb k) (mcb k)" using ok(3) by (simp add: owners_ok_def p va)
  moreover have "inited (kmem k) AllTasks" by (rule mem_okD(3) [OF ok(1)])
  ultimately show "kinvx {} X (k\<lparr>kmem := m\<rparr>)"
    using assms(1) by (simp add: kinvx_def p current_ok_def)
  show "same_timeouts (kmem k) m" "inited m = inited (kmem k)" by (rule p)+
  show "inited (kmem k) l \<Longrightarrow> nodes_of m l = (if l = ExpiredNodes then remove1 (TimeoutNode t) (nodes_of (kmem k) l) else nodes_of (kmem k) l)"
    by (simp add: p)
  show "calm {} k (k\<lparr>kmem := m\<rparr>)"
    by (auto simp: calm_def sems_same_def queues_same_def mutexes_same_def timers_same_def fewer_waiters_def p)
qed

text \<open>The tasks \<open>ts\<close> have left the timeout list and wait to be handled; the timers are one tick behind.\<close>

definition waking :: "task_ptr list \<Rightarrow> hr_tick \<Rightarrow> hr_kernel \<Rightarrow> bool" where
  "waking ts now k \<longleftrightarrow>
     kinvx {} (set ts) k \<and> sems_ok k \<and> queues_ok k \<and> mutexes_ok k \<and> timers_okx {} now k \<and>
     inited (kmem k) ExpiredNodes \<and> nodes_of (kmem k) ExpiredNodes = map TimeoutNode ts \<and> distinct ts"

text \<open>
  Handling \<open>ts\<close>: each wakes with the status of its wait; of the others at most the effective
  priority changes (a mutex waiter that gives up no longer lends its priority).
\<close>

definition but_priority :: "hr_task_control_block \<Rightarrow> hr_task_control_block \<Rightarrow> bool" where
  "but_priority c c' \<longleftrightarrow> c' = c\<lparr>teffective_priority := teffective_priority c'\<rparr>"

lemma but_priority_refl: "but_priority c c"
  by (simp add: but_priority_def)

lemma but_priority_trans: "but_priority c c1 \<Longrightarrow> but_priority c1 c2 \<Longrightarrow> but_priority c c2"
  unfolding but_priority_def by (rule record_update_trans(1))

lemma but_priority_same:
  assumes "but_priority c c'"
  shows "tstate c' = tstate c" "tsuspended_resume_state c' = tsuspended_resume_state c" "twait_result c' = twait_result c"
    "twait_kind c' = twait_kind c" "twaiting_object c' = twaiting_object c" "tmagic c' = tmagic c"
    "tbase_priority c' = tbase_priority c" "timeout_status c' = timeout_status c"
  unfolding timeout_status_def by (subst assms [unfolded but_priority_def], simp)+

definition timed_out :: "task_ptr list \<Rightarrow> hr_kernel \<Rightarrow> hr_kernel \<Rightarrow> bool" where
  "timed_out ts k k' \<longleftrightarrow>
     (\<forall>t \<in> set ts. woken_as (tcb k t) (tcb k' t) \<and> twait_result (tcb k' t) = timeout_status (tcb k t) \<and>
        twait_kind (tcb k' t) = HR_TASK_WAIT_NONE) \<and>
     (\<forall>u. u \<notin> set ts \<longrightarrow> but_priority (tcb k u) (tcb k' u) \<and>
        vtimeout (view (kmem k') u) = vtimeout (view (kmem k) u) \<and> vwait (view (kmem k') u) = vwait (view (kmem k) u)) \<and>
     timeout_seq (kmem k') G_timeout_list = timeout_seq (kmem k) G_timeout_list \<and>
     remaining (kmem k') G_timeout_list = remaining (kmem k) G_timeout_list \<and>
     calm {} k k' \<and> same_objects k k' \<and> g_current_task k' = g_current_task k \<and> primask k' = primask k"

definition next_woken :: "hr_kernel \<Rightarrow> (bool \<times> hr_kernel) option" where
  "next_woken k = do {
     (node, k) \<leftarrow> on_mem (hr_list_pop_front (Some ExpiredNodes)) k;
     tick_expire_loop node k
   }"

lemma tick_loop_step:
  assumes "vowned (view (kmem k) t)" and "tmagic (tcb k t) = HR_CFG_TASK_MAGIC" and "blocked (tcb k t)"
    and "waiting v (tcb k t)" and "hr_kernel_make_task_ready (Some t) (timeout_status (tcb k t)) None k = Some ((HR_OK, None), k')"
  shows "tick_expire_loop (Some (TimeoutNode t)) k = next_woken k'"
proof -
  note w = waiting_branch [OF assms(4)]
  have b: "tstate (tcb k t) = HR_TASK_STATE_BLOCKED \<or>
      tstate (tcb k t) = HR_TASK_STATE_SUSPENDED \<and> tsuspended_resume_state (tcb k t) = HR_TASK_STATE_BLOCKED"
    using assms(3) by (auto simp: blocked_def suspended_wait_def)
  show ?thesis
  proof (cases "twait_kind (tcb k t) = HR_TASK_WAIT_DELAY")
    case True
    show ?thesis
      by (subst tick_expire_loop.simps)
        (use True w(1) b assms(2,5) owner_view(3) [OF assms(1)] in \<open>auto simp: timeout_status_def next_woken_def as_task_def\<close>)
  next
    case False
    show ?thesis
      by (subst tick_expire_loop.simps)
        (use False w(2) b assms(2,5) owner_view(3) [OF assms(1)] in \<open>auto simp: timeout_status_def next_woken_def as_task_def\<close>)
  qed
qed

lemma wake_timed_out:
  assumes "kinvx {} X k" and "vtimeout (view (kmem k) t) = None" and "registered k t" and "blocked (tcb k t)"
  obtains k' where "hr_kernel_make_task_ready (Some t) (timeout_status (tcb k t)) None k = Some ((HR_OK, None), k')"
    and "kinvx {} (X - {t}) k'" and "calm {} k k'" and "timed_out [t] k k'" and "same_others (kmem k) (kmem k')"
proof -
  let ?r = "timeout_status (tcb k t)"
  obtain m k1 where r: "left t (kmem k) m" "repri (k\<lparr>kmem := m\<rparr>) k1"
    "\<And>woken. hr_kernel_make_task_ready (Some t) ?r woken k =
      Some ((HR_OK, map_option (\<lambda>_. \<not> suspended_wait (tcb k t) \<and> outranks (wake t ?r k1) t) woken), wake t ?r k1)"
    "kinvx {} (X - {t}) (wake t ?r k1)" "kinvx {t} X k1" "registered k1 t"
    by (rule make_ready_ok [OF assms(1,3,4), of ?r]) (use assms(2) in auto)
  let ?k = "wake t ?r k1"
  note rp = r(2) [unfolded repri_def] and lf = r(1) [unfolded left_def]
  note wl = wake_lists_kept [OF r(5,6), of ?r, unfolded lists_kept_def] and rs = repri_same [OF r(2)] and rf = repri_frame [OF r(2)]
  have e: "k1 = (k\<lparr>kmem := m\<rparr>)\<lparr>kmem := kmem k1, tcb := tcb k1\<rparr>" using rp by blast
  have t1: "tcb k1 u = (tcb k u)\<lparr>teffective_priority := teffective_priority (tcb k1 u)\<rparr>" for u using rp by simp
  have eh: "exit_handler k1 = exit_handler k" by (subst e) simp
  have "blocked (tcb k1 t)" using assms(4) rs(5,7) by (simp add: blocked_def suspended_wait_def)
  note wk = wake_woken [OF this, of ?r]
  have oth: "but_priority (tcb k u) (tcb ?k u)" if "u \<noteq> t" for u
    using t1 [of u] that by (simp add: wake_def but_priority_def)
  have vo: "vtimeout (view (kmem ?k) u) = vtimeout (view (kmem k) u) \<and> vwait (view (kmem ?k) u) = vwait (view (kmem k) u)" if "u \<noteq> t" for u
    using that wl(2,3) rs(1,2) lf by simp
  note ta = mem_okD(4) [OF kinvD(1) [OF assms(1)]]
  have ts: "timeout_seq (kmem ?k) G_timeout_list = timeout_seq (kmem k) G_timeout_list \<and>
      remaining (kmem ?k) G_timeout_list = remaining (kmem k) G_timeout_list"
  proof -
    have "TimeoutNode t \<notin> set (timeout_seq (kmem k) G_timeout_list)"
      using timeout_seq_linked [OF mem_okD(1) [OF kinvD(1) [OF assms(1)]] ta, of "TimeoutNode t"] assms(2) by simp
    then have "timeout_seq m G_timeout_list = timeout_seq (kmem k) G_timeout_list" using lf by (simp add: remove1_idem)
    moreover have "timeout_ok m G_timeout_list" using lf mem_okD(4) by blast
    moreover have "same_timeouts m (kmem ?k)" using same_timeouts_trans wl(1) rp by auto
    ultimately show ?thesis using same_timeouts_ok lf by simp
  qed
  have c: "calm {} k ?k" by (rule calm_make_ready [OF r(1,2,5,6)])
  have so: "same_objects k ?k" using rf eh by (simp add: same_objects_def wake_def)
  have "woken_as (tcb k t) (tcb ?k t)" using wk(4) rs(5) [of t] by (simp add: woken_as_def)
  then have "timed_out [t] k ?k"
    using wk oth vo ts c so rf by (simp add: timed_out_def wake_def)
  moreover have "same_others (kmem k) (kmem ?k)"
    using same_others_trans [OF same_others_trans] lf rp wl(1) by auto
  ultimately show thesis using that [of ?k] r(3,4) c by simp
qed

lemma timed_out_Cons:
  assumes "timed_out [t] k k1" and "timed_out ts k1 k2" and "t \<notin> set ts"
  shows "timed_out (t # ts) k k2"
proof -
  note a = assms(1) [unfolded timed_out_def] and b = assms(2) [unfolded timed_out_def]
  have a1: "but_priority (tcb k u) (tcb k1 u)" if "u \<noteq> t" for u using a that by simp
  have b1: "but_priority (tcb k1 u) (tcb k2 u)" if "u \<notin> set ts" for u using b that by simp
  have w: "woken_as (tcb k u) (tcb k2 u) \<and> twait_result (tcb k2 u) = timeout_status (tcb k u) \<and> twait_kind (tcb k2 u) = HR_TASK_WAIT_NONE"
    if "u \<in> set ts" for u
  proof -
    have "u \<noteq> t" using that assms(3) by blast
    then show ?thesis using b that but_priority_same(1,8) [OF a1 [of u]] by (simp add: woken_as_def)
  qed
  have t: "woken_as (tcb k t) (tcb k2 t) \<and> twait_result (tcb k2 t) = timeout_status (tcb k t) \<and> twait_kind (tcb k2 t) = HR_TASK_WAIT_NONE"
    using a but_priority_same [OF b1 [OF assms(3)]] by (auto simp: woken_as_def woken_tcb_def)
  have "but_priority (tcb k u) (tcb k2 u)" if "u \<notin> set (t # ts)" for u
    using but_priority_trans [OF a1 b1] that by simp
  moreover have "calm {} k k2" using a b calm_trans by blast
  moreover have "same_objects k k2" using a b by (simp add: same_objects_def)
  ultimately show ?thesis using a b w t unfolding timed_out_def by simp
qed

lemma woken_round:
  assumes "waking (t # ts) now k"
  obtains k' where "next_woken k = next_woken k'" and "waking ts now k'" and "timed_out [t] k k'"
proof -
  have w: "kinvx {} (set (t # ts)) k" "sems_ok k" "queues_ok k" "mutexes_ok k" "timers_okx {} now k" "inited (kmem k) ExpiredNodes"
    "nodes_of (kmem k) ExpiredNodes = TimeoutNode t # map TimeoutNode ts" "t \<notin> set ts" "distinct ts"
    using assms by (simp_all add: waking_def)
  note wf = mem_okD(1) [OF kinvD(1) [OF w(1)]]
  have v: "vtimeout (view (kmem k) t) = Some ExpiredNodes" using wf_in_list [OF wf w(6), of "TimeoutNode t"] w(7) by simp
  define m where "m = unlink (TimeoutNode t) (kmem k)"
  define k0 where "k0 = k\<lparr>kmem := m\<rparr>"
  note u = unlink_expired [OF w(1) _ v, simplified, folded m_def, folded k0_def]
  have pop: "hr_list_pop_front (Some ExpiredNodes) (kmem k) = Some (Some (TimeoutNode t), m)"
    using pop_front_wf [OF wf w(6)] w(7) by (simp add: m_def)
  have a: "registered k t" "blocked (tcb k t)" "waiting (view (kmem k) t) (tcb k t)"
    using armed_blocked [OF w(1), of t] v by simp_all
  have k0: "vtimeout (view (kmem k0) t) = None" "registered k0 t" "blocked (tcb k0 t)" "tcb k0 = tcb k"
    using a u(4) by (simp_all add: k0_def)
  obtain k' where r: "hr_kernel_make_task_ready (Some t) (timeout_status (tcb k0 t)) None k0 = Some ((HR_OK, None), k')"
    "kinvx {} (insert t (set ts) - {t}) k'" "calm {} k0 k'" "timed_out [t] k0 k'" "same_others (kmem k0) (kmem k')"
    by (rule wake_timed_out [OF u(1) k0(1-3)])
  have run: "next_woken k = next_woken k'"
    using tick_loop_step [OF _ _ k0(3) _ r(1), of "view (kmem k) t"] pop a registeredD(2,3) [OF u(1) k0(2)] k0(4)
    by (simp add: next_woken_def [of k] on_mem_def k0_def)
  have c: "calm {} k k'" by (rule calm_trans [OF u(2) r(3)])
  have ex: "nodes_of (kmem k') ExpiredNodes = map TimeoutNode ts" "inited (kmem k') ExpiredNodes"
    using r(5) u(5,6) w(6,7) by (simp_all add: same_others_def k0_def)
  have "smagic (scb k' 0) = smagic (scb k 0)" using c by (simp add: calm_def sems_same_def)
  then have "waking ts now k'"
    using w(2-5,8,9) r(2) c ex sems_ok_calm queues_ok_calm mutexes_ok_calm [OF _ kinvD(3) [OF w(1)]] timers_okx_calm
    by (simp add: waking_def calm_def)
  moreover have "timed_out [t] k k'"
    using r(4) c k0(4) u(4) same_timeouts_ok [OF u(3) mem_okD(4) [OF kinvD(1) [OF w(1)]]]
    unfolding timed_out_def by (simp add: k0_def same_objects_def)
  ultimately show thesis using that run by blast
qed

lemma wake_all:
  "waking ts now k \<Longrightarrow> \<exists>k'. next_woken k = Some (True, k') \<and> waking [] now k' \<and> timed_out ts k k'"
proof (induction ts arbitrary: k)
  case Nil
  then have "inited (kmem k) ExpiredNodes" "nodes_of (kmem k) ExpiredNodes = []" "mem_ok (kmem k)"
    using kinvD(1) by (auto simp: waking_def)
  then have "next_woken k = Some (True, k)"
    using pop_front_wf [OF mem_okD(1)] by (simp add: next_woken_def on_mem_def tick_expire_loop.simps)
  then show ?case using Nil by (simp add: timed_out_def same_objects_def but_priority_refl)
next
  case (Cons t ts)
  have t: "t \<notin> set ts" using Cons.prems by (simp add: waking_def)
  show ?case
  proof (rule woken_round [OF Cons.prems])
    fix k1 assume r: "next_woken k = next_woken k1" "waking ts now k1" "timed_out [t] k k1"
    from Cons.IH [OF r(2)] obtain k' where "next_woken k1 = Some (True, k')" "waking [] now k'" "timed_out ts k1 k'" by auto
    then show ?thesis using r(1) timed_out_Cons [OF r(3) _ t] by auto
  qed
qed

lemma no_expired_nodes:
  assumes "kinv k" and "inited (kmem k) ExpiredNodes"
  shows "nodes_of (kmem k) ExpiredNodes = []"
proof (rule ccontr)
  assume "nodes_of (kmem k) ExpiredNodes \<noteq> []"
  then obtain n where n: "n \<in> set (nodes_of (kmem k) ExpiredNodes)" by (cases "nodes_of (kmem k) ExpiredNodes") auto
  note wf = mem_okD(1) [OF kinvD(1) [OF assms(1)]]
  have "node_fits n ExpiredNodes" "\<not> is_root n" "nlist (nodes (kmem k) n) = Some ExpiredNodes"
    using member_fits [OF kinvD(1) [OF assms(1)] assms(2) n] wf_linked [OF wf assms(2)] wf_in_list [OF wf assms(2) n] n
    by (simp_all add: linked_def)
  then obtain t where t: "vtimeout (view (kmem k) t) = Some ExpiredNodes" by (cases n) auto
  have "registered k t" by (rule armed_blocked(1) [OF assms(1)]) (simp add: t)
  then have "timeout_armed (view (kmem k) t) (tcb k t)" using registeredD(7) [OF assms(1)] by simp
  then show False using t by (simp add: timeout_armed_def)
qed

lemma tick_setup:
  assumes "kernel_inv k"
  defines "m \<equiv> hr_list_init (Some ExpiredNodes) (kmem k)"
  shows "kernel_inv (k\<lparr>kmem := m\<rparr>)" and "inited m ExpiredNodes" and "nodes_of m ExpiredNodes = []"
    and "remaining m G_timeout_list = remaining (kmem k) G_timeout_list"
    and "timeout_seq m G_timeout_list = timeout_seq (kmem k) G_timeout_list" and "view m = view (kmem k)"
    and "remaining m G_timer_timeouts = remaining (kmem k) G_timer_timeouts"
proof -
  note inv = kernel_invD [OF assms(1)]
  note ok = kinvD [OF inv(1)]
  note s = set_up_list [OF ok(1) no_expired_nodes [OF inv(1)], folded m_def]
  note sd = s(1) [unfolded set_up_def]
  show "inited m ExpiredNodes" "nodes_of m ExpiredNodes = []" using sd s(2) by simp_all
  show "view m = view (kmem k)" using setup_view [OF s(1)] by simp
  show "remaining m G_timeout_list = remaining (kmem k) G_timeout_list"
    "remaining m G_timer_timeouts = remaining (kmem k) G_timer_timeouts" by (simp_all add: remaining_def fun_eq_iff m_def)
  obtain i j where "current_of (kmem k) G_timeout_list = TimeoutList G_timeout_list i"
    "overflow_of (kmem k) G_timeout_list = TimeoutList G_timeout_list j" "i < 2" "j < 2" by (rule timeout_lists_of [OF mem_okD(4) [OF ok(1)]])
  then have "inited (kmem k) (current_of (kmem k) G_timeout_list)" "inited (kmem k) (overflow_of (kmem k) G_timeout_list)"
    using timeout_inited [OF mem_okD(4) [OF ok(1)]] by simp_all
  then show "timeout_seq m G_timeout_list = timeout_seq (kmem k) G_timeout_list"
    using sd by (simp add: timeout_seq_def current_of_def overflow_of_def)
  have "owners_ok m (tcb k) (mcb k)" by (rule set_up_owners [OF ok(3) s(1)]) simp_all
  from set_up_kinv [OF inv(1) s(1) _ this] have "kinv (k\<lparr>kmem := m\<rparr>)" by simp
  moreover have "calm {} k (k\<lparr>kmem := m\<rparr>)"
    using set_up_same [of "{ExpiredNodes}" "{}" k "k\<lparr>kmem := m\<rparr>"] s(1) by (simp add: calm_def)
  ultimately show "kernel_inv (k\<lparr>kmem := m\<rparr>)" by (intro kernel_inv_calm [OF assms(1)])
qed

definition due_tasks :: "hr_kernel \<Rightarrow> task_ptr list \<Rightarrow> bool" where
  "due_tasks k ts \<longleftrightarrow>
     map TimeoutNode ts = takeWhile (\<lambda>n. remaining (kmem k) G_timeout_list n = 1) (timeout_seq (kmem k) G_timeout_list)"

lemma task_nodes:
  assumes "mem_ok m" and "set ns \<subseteq> set (timeout_seq m G_timeout_list)"
  obtains ts where "ns = map TimeoutNode ts"
proof -
  have "\<exists>t. n = TimeoutNode t" if "n \<in> set ns" for n
  proof -
    have "n \<in> set (timeout_seq m G_timeout_list)" using that assms(2) by blast
    from timeout_member [OF assms(1) mem_okD(4) [OF assms(1)] this] show ?thesis by (cases n) auto
  qed
  then have "\<exists>ts. ns = map TimeoutNode ts" by (simp add: ex_map_conv)
  then show thesis using that by blast
qed

lemma expire_kinv:
  assumes "kinv k" and "mem_ok m" and "inited m = inited (kmem k)"
    and "\<And>u. view m u = (if u \<in> T then (view (kmem k) u)\<lparr>vtimeout := Some ExpiredNodes\<rparr> else view (kmem k) u)"
    and "\<And>t. t \<in> T \<Longrightarrow> vtimeout (view (kmem k) t) \<noteq> None"
    and "\<And>l. inited (kmem k) l \<Longrightarrow> l \<noteq> ExpiredNodes \<Longrightarrow> (\<And>i. l \<noteq> TimeoutList G_timeout_list i) \<Longrightarrow> nodes_of m l = nodes_of (kmem k) l"
    and "\<And>x. \<not> task_node x \<Longrightarrow> nlist (nodes m x) = nlist (nodes (kmem k) x)"
    and "\<And>x. nowner (nodes m x) = nowner (nodes (kmem k) x)" and "last_tick m G_timeout_list = now"
  shows "kinvx {} T (k\<lparr>g_kernel_tick := now, kmem := m\<rparr>)"
proof -
  note ok = kinvD [OF assms(1)]
  have va: "vall (view m u) = vall (view (kmem k) u)" for u by (simp add: assms(4))
  have "task_ok {} T (view m u) (tcb k u) u" for u
    using armed_task_ok [OF assms(1), of u T] assms(5) ok(8) [of u] task_ok_cong [of u "{}" "{}" T "{}"] by (simp add: assms(4))
  then have t: "tasks_ok {} T m (tcb k)" by (simp add: tasks_ok_def)
  have at: "inited (kmem k) AllTasks" by (rule mem_okD(3) [OF ok(1)])
  have no: "nodes_of m AllTasks = nodes_of (kmem k) AllTasks"
    "inited (kmem k) (OwnedMutexes u) \<Longrightarrow> nodes_of m (OwnedMutexes u) = nodes_of (kmem k) (OwnedMutexes u)" for u
    using assms(6) at by simp_all
  have "owners_ok m (tcb k) (mcb k)" using ok(3) by (simp add: owners_ok_def assms(3,7,8) va no(2))
  then show ?thesis using assms(1,2,9) t va no by (simp add: kinvx_def current_ok_def)
qed

lemma tick_advance:
  assumes "kernel_inv k" and "inited (kmem k) ExpiredNodes" and "nodes_of (kmem k) ExpiredNodes = []"
  defines "now \<equiv> g_kernel_tick k"
  obtains m ts where "hr_timeout_list_advance (Some G_timeout_list) (now + 1) (Some ExpiredNodes) (kmem k) = Some (HR_OK, m)"
    and "waking ts now (k\<lparr>g_kernel_tick := now + 1, kmem := m\<rparr>)" and "due_tasks k ts"
    and "\<And>n. remaining m G_timeout_list n = remaining (kmem k) G_timeout_list n - 1"
    and "timeout_seq m G_timeout_list = dropWhile (\<lambda>n. remaining (kmem k) G_timeout_list n = 1) (timeout_seq (kmem k) G_timeout_list)"
    and "\<And>u. u \<notin> set ts \<Longrightarrow> view m u = view (kmem k) u"
    and "remaining m G_timer_timeouts = remaining (kmem k) G_timer_timeouts"
proof -
  note inv = kernel_invD [OF assms(1)]
  note ok = kinvD [OF inv(1)]
  have last: "last_tick (kmem k) G_timeout_list = now" using ok(6) by (simp add: now_def)
  have tc: "tcurrent (timeout_lists (kmem k) G_timeout_list) \<noteq> None" using ok(1) by (simp add: mem_ok_def)
  show thesis
  proof (rule mem_tick [OF ok(1) tc, unfolded last expired_of.simps, OF assms(2,3)])
    fix m assume
      m: "hr_timeout_list_advance (Some G_timeout_list) (now + 1) (Some ExpiredNodes) (kmem k) = Some (HR_OK, m)"
        "mem_ok m" "inited m = inited (kmem k)" "last_tick m G_timeout_list = now + 1" "tcurrent (timeout_lists m G_timeout_list) \<noteq> None"
        "nodes_of m ExpiredNodes = takeWhile (\<lambda>x. remaining (kmem k) G_timeout_list x = 1) (timeout_seq (kmem k) G_timeout_list)"
        "timeout_seq m G_timeout_list = dropWhile (\<lambda>x. remaining (kmem k) G_timeout_list x = 1) (timeout_seq (kmem k) G_timeout_list)"
        "\<And>x. remaining m G_timeout_list x = remaining (kmem k) G_timeout_list x - 1"
      and n: "\<And>l. inited (kmem k) l \<Longrightarrow> l \<noteq> ExpiredNodes \<Longrightarrow> (\<And>i. l \<noteq> TimeoutList G_timeout_list i) \<Longrightarrow> nodes_of m l = nodes_of (kmem k) l"
        "\<And>x. nlist (nodes m x) = (if x \<in> set (nodes_of m ExpiredNodes) then Some ExpiredNodes else nlist (nodes (kmem k) x))"
        "\<And>x. nowner (nodes m x) = nowner (nodes (kmem k) x)"
        "npriority m = npriority (kmem k)" "nwake_tick m = nwake_tick (kmem k)" "ready_seq m G_scheduler = ready_seq (kmem k) G_scheduler"
        "\<And>u. u \<noteq> G_timeout_list \<Longrightarrow> timeout_lists m u = timeout_lists (kmem k) u"
    have sub: "set (nodes_of m ExpiredNodes) \<subseteq> set (timeout_seq (kmem k) G_timeout_list)" using m(6) set_takeWhileD by fastforce
    then obtain ts where ts: "nodes_of m ExpiredNodes = map TimeoutNode ts" by (rule task_nodes [OF ok(1)])
    have due: "due_tasks k ts" using m(6) ts by (simp add: due_tasks_def)
    have "distinct (map TimeoutNode ts)" using wf_distinct [OF mem_okD(1) [OF m(2)]] m(3) assms(2) unfolding ts [symmetric] by simp
    then have d: "distinct ts" by (simp add: distinct_map)
    have v: "view m u = (if u \<in> set ts then (view (kmem k) u)\<lparr>vtimeout := Some ExpiredNodes\<rparr> else view (kmem k) u)" for u
      by (simp add: view_def n(2,3,4) ts image_iff del: node_view)
    define k' where "k' = k\<lparr>g_kernel_tick := now + 1, kmem := m\<rparr>"
    have ar: "vtimeout (view (kmem k) t) \<noteq> None" if "t \<in> set ts" for t
    proof -
      have "TimeoutNode t \<in> set (timeout_seq (kmem k) G_timeout_list)" using sub ts that by auto
      then show ?thesis using timeout_seq_linked [OF mem_okD(1,4) [OF ok(1)], of "TimeoutNode t"] by auto
    qed
    have kv: "kinvx {} (set ts) k'"
      unfolding k'_def by (rule expire_kinv [OF inv(1) m(2,3) v ar n(1) _ n(3) m(4)]) (auto simp: n(2) ts)
    have wl: "nodes_of m l = nodes_of (kmem k) l" if "sem_list l \<or> queue_list l \<or> mutex_list l" "inited (kmem k) l" for l
      using that by (intro n(1)) auto
    have "sems_ok k'" "queues_ok k'" "mutexes_ok k'"
      using inv(2,3,5) kinvD(3) [OF inv(1)] wl m(3) unfolding k'_def sems_ok_def queues_ok_def mutexes_ok_def owners_ok_def by auto
    moreover have "timer_inv c m x = timer_inv c (kmem k) x" for c x
      by (rule timer_inv_cong(2)) (auto simp: n(2,3) ts)
    then have "timers_okx {} now k'"
      using inv(4) m(3) n(7) [of G_timer_timeouts] by (simp add: timers_ok_def timers_okx_def k'_def now_def)
    ultimately have w: "waking ts now (k\<lparr>g_kernel_tick := now + 1, kmem := m\<rparr>)"
      using kv ts d m(3) assms(2) by (simp add: waking_def k'_def)
    show thesis by (rule that [OF m(1) w due m(8,7)]) (simp_all add: v remaining_def fun_eq_iff n(5,7))
  qed
qed

section \<open>The whole tick\<close>

lemma kernel_inv_counters:
  assumes "kernel_inv k" and "\<And>E X v. task_ok E X v c t = task_ok E X v (tcb k t) t" and "tmagic c = tmagic (tcb k t)"
    and "towned_mutex_count c = towned_mutex_count (tcb k t)" and "tstate c = tstate (tcb k t)"
  shows "kernel_inv (k\<lparr>tcb := (tcb k)(t := c)\<rparr>)"
proof -
  note kv = kernel_invD(1) [OF assms(1)]
  have "kinv (k\<lparr>kmem := kmem k, tcb := (tcb k)(t := c)\<rparr>)"
    by (rule kinv_task_step [OF kv kinvD(1) [OF kv] same_others_refl, of t "view (kmem k) t"])
      (use assms kinvD(8) [OF kv, of t] in simp_all)
  then have "kinv (k\<lparr>tcb := (tcb k)(t := c)\<rparr>)" by simp
  then show ?thesis by (intro kernel_inv_calm [OF assms(1) calm_fields [OF calm_refl]]) simp_all
qed

definition clock_upd :: "32 word \<Rightarrow> 32 word \<Rightarrow> hr_task_control_block \<Rightarrow> hr_task_control_block" where
  "clock_upd r q c = c\<lparr>truntime_counter := r, ttime_slice_remaining := q\<rparr>"

lemma clock_upd_simps [simp]:
  "tstate (clock_upd r q c) = tstate c" "tsuspended_resume_state (clock_upd r q c) = tsuspended_resume_state c"
  "twait_kind (clock_upd r q c) = twait_kind c" "twaiting_object (clock_upd r q c) = twaiting_object c"
  "tblocked_wait_list (clock_upd r q c) = tblocked_wait_list c" "twait_cleanup (clock_upd r q c) = twait_cleanup c"
  "twait_buffer (clock_upd r q c) = twait_buffer c" "twait_result (clock_upd r q c) = twait_result c" "tmagic (clock_upd r q c) = tmagic c"
  "teffective_priority (clock_upd r q c) = teffective_priority c" "tbase_priority (clock_upd r q c) = tbase_priority c"
  "towned_mutex_count (clock_upd r q c) = towned_mutex_count c" "truntime_counter (clock_upd r q c) = r"
  "ttime_slice_remaining (clock_upd r q c) = q" "clock_upd r q (clock_upd r' q' c) = clock_upd r q c"
  "clock_upd (truntime_counter c) (ttime_slice_remaining c) c = c"
  by (simp_all add: clock_upd_def)

lemma task_ok_clock: "task_ok E X v (clock_upd r q c) t = task_ok E X v c t"
proof -
  have w: "in_ready v (clock_upd r q c) = in_ready v c" "detached v (clock_upd r q c) = detached v c"
    "waiting v (clock_upd r q c) = waiting v c"
    by (simp_all add: in_ready_def detached_def waiting_def delaying_def on_wait_list_def no_wait_def)
  then have "task_state_ok v (clock_upd r q c) = task_state_ok v c"
    by (cases "tstate c"; cases "tsuspended_resume_state c") (simp_all add: task_state_ok_def)
  then show ?thesis
    by (simp add: task_ok_def created_ok_def registered_ok_def prio_ok_def limbo_def timeout_armed_def no_wait_def)
qed

text \<open>The accounting touches the counters of the running task, the switch reasons and the PendSV request only.\<close>

definition clocked :: "task_ptr \<Rightarrow> hr_kernel \<Rightarrow> hr_kernel \<Rightarrow> bool" where
  "clocked cur k k' \<longleftrightarrow>
     (\<exists>r q w p. k' = k\<lparr>tcb := (tcb k)(cur := clock_upd r q (tcb k cur)), g_switch_reasons := w, pendsv := p\<rparr>)"

lemma clockedI:
  "k' = k\<lparr>tcb := (tcb k)(cur := clock_upd r q (tcb k cur)), g_switch_reasons := w, pendsv := p\<rparr> \<Longrightarrow> clocked cur k k'"
  unfolding clocked_def by blast

lemma clocked_trans:
  assumes "clocked cur k k1" and "clocked cur k1 k2"
  shows "clocked cur k k2"
proof -
  obtain r q w p where 1: "k1 = k\<lparr>tcb := (tcb k)(cur := clock_upd r q (tcb k cur)), g_switch_reasons := w, pendsv := p\<rparr>"
    using assms(1) unfolding clocked_def by blast
  obtain r' q' w' p' where 2: "k2 = k1\<lparr>tcb := (tcb k1)(cur := clock_upd r' q' (tcb k1 cur)), g_switch_reasons := w', pendsv := p'\<rparr>"
    using assms(2) unfolding clocked_def by blast
  show ?thesis by (rule clockedI [where r = r' and q = q' and w = w' and p = p']) (simp add: 1 2)
qed

lemma clocked_steps:
  "clocked cur k k" "clocked cur k (upd_tcb cur (\<lambda>c. c\<lparr>truntime_counter := f c\<rparr>) k)"
  "clocked cur k (upd_tcb cur (\<lambda>c. c\<lparr>ttime_slice_remaining := g c\<rparr>) k)" "clocked cur k (hr_kernel_mark_switch_reason w k)"
  "clocked cur k (hr_kernel_reload_time_slice (Some cur) k)" "clocked cur k (hr_port_yield_from_isr b k)"
proof -
  let ?c = "tcb k cur"
  show "clocked cur k k"
    by (rule clockedI [where r = "truntime_counter ?c" and q = "ttime_slice_remaining ?c" and w = "g_switch_reasons k" and p = "pendsv k"]) simp
  show "clocked cur k (upd_tcb cur (\<lambda>c. c\<lparr>truntime_counter := f c\<rparr>) k)"
    by (rule clockedI [where r = "f ?c" and q = "ttime_slice_remaining ?c" and w = "g_switch_reasons k" and p = "pendsv k"]) (simp add: upd_tcb_def clock_upd_def)
  show sl: "clocked cur k (upd_tcb cur (\<lambda>c. c\<lparr>ttime_slice_remaining := g c\<rparr>) k)" for g
    by (rule clockedI [where r = "truntime_counter ?c" and q = "g ?c" and w = "g_switch_reasons k" and p = "pendsv k"]) (simp add: upd_tcb_def clock_upd_def)
  show "clocked cur k (hr_kernel_reload_time_slice (Some cur) k)" unfolding hr_kernel_reload_time_slice_def using sl by simp
  show "clocked cur k (hr_kernel_mark_switch_reason w k)"
    by (rule clockedI [where r = "truntime_counter ?c" and q = "ttime_slice_remaining ?c" and w = "g_switch_reasons k OR w" and p = "pendsv k"])
      (simp add: hr_kernel_mark_switch_reason_def)
  show "clocked cur k (hr_port_yield_from_isr b k)"
    by (rule clockedI [where r = "truntime_counter ?c" and q = "ttime_slice_remaining ?c" and w = "g_switch_reasons k" and p = "b \<or> pendsv k"])
      (simp add: hr_port_yield_from_isr_def hr_port_request_context_switch_def)
qed

lemma clocked_slice: "clocked cur k (snd (tick_time_slice cur k))"
proof -
  have a: "clocked cur k (hr_kernel_mark_switch_reason HR_SWITCH_REASON_TIME_SLICE (hr_kernel_reload_time_slice (Some cur) k))" for k
    by (rule clocked_trans [OF clocked_steps(5,4)])
  note u = clocked_steps(3) [of cur k "\<lambda>c. ttime_slice_remaining c - 1"]
  show ?thesis
    unfolding tick_time_slice_def Let_def
    using a [of k] u clocked_trans [OF u a] clocked_steps(1,5) by simp
qed

lemma clocked_account: "clocked cur k (tick_account cur sw k)"
proof (cases "tstate (tcb k cur) = HR_TASK_STATE_RUNNING")
  case False
  then show ?thesis by (simp add: tick_account_def clocked_steps)
next
  case True
  define k1 where "k1 = upd_tcb cur (\<lambda>c. c\<lparr>truntime_counter := truntime_counter c + 1\<rparr>) k"
  define p where "p = hr_scheduler_should_preempt (Some G_scheduler) (Some (ReadyNode cur)) (kmem k1)"
  have 1: "clocked cur k k1" unfolding k1_def by (rule clocked_steps)
  have 2: "clocked cur k1 (hr_kernel_mark_switch_reason HR_SWITCH_REASON_PREEMPT k1)" by (rule clocked_steps)
  have e: "tick_account cur sw k =
      (if p then hr_port_yield_from_isr True (hr_kernel_mark_switch_reason HR_SWITCH_REASON_PREEMPT k1)
       else if sw then hr_port_yield_from_isr True k1
       else hr_port_yield_from_isr (fst (tick_time_slice cur k1)) (snd (tick_time_slice cur k1)))"
    using True by (simp add: tick_account_def Let_def k1_def [symmetric] p_def [symmetric] case_prod_unfold)
  show ?thesis
    unfolding e using clocked_trans [OF 1 clocked_trans [OF 2 clocked_steps(6)]] clocked_trans [OF 1 clocked_steps(6)]
      clocked_trans [OF 1 clocked_trans [OF clocked_slice clocked_steps(6)]] by simp
qed

lemma clocked_inv:
  assumes "kernel_inv k" and "clocked cur k k'"
  shows "kernel_inv k'"
proof -
  obtain r q w p where e: "k' = k\<lparr>tcb := (tcb k)(cur := clock_upd r q (tcb k cur)), g_switch_reasons := w, pendsv := p\<rparr>"
    using assms(2) unfolding clocked_def by blast
  have "kernel_inv (k\<lparr>tcb := (tcb k)(cur := clock_upd r q (tcb k cur))\<rparr>)"
    by (rule kernel_inv_counters [OF assms(1)]) (simp_all add: task_ok_clock)
  then show ?thesis by (simp add: e)
qed

lemma clockedD:
  assumes "clocked cur k k'"
  shows "kmem k' = kmem k" and "g_kernel_state k' = g_kernel_state k" and "g_current_task k' = g_current_task k"
    and "g_kernel_tick k' = g_kernel_tick k" and "tmcb k' = tmcb k" and "\<exists>r q. tcb k' u = clock_upd r q (tcb k u)"
    and "u \<noteq> cur \<Longrightarrow> tcb k' u = tcb k u" and "scb k' = scb k" and "inside_isr k' = inside_isr k"
proof -
  obtain r q w p where e: "k' = k\<lparr>tcb := (tcb k)(cur := clock_upd r q (tcb k cur)), g_switch_reasons := w, pendsv := p\<rparr>"
    using assms unfolding clocked_def by blast
  show "kmem k' = kmem k" "g_kernel_state k' = g_kernel_state k" "g_current_task k' = g_current_task k"
    "g_kernel_tick k' = g_kernel_tick k" "tmcb k' = tmcb k" "u \<noteq> cur \<Longrightarrow> tcb k' u = tcb k u" "scb k' = scb k" "inside_isr k' = inside_isr k"
    by (simp_all add: e)
  have "tcb k' u = tcb k u \<or> (\<exists>r q. tcb k' u = clock_upd r q (tcb k u))" by (cases "u = cur") (auto simp: e)
  then show "\<exists>r q. tcb k' u = clock_upd r q (tcb k u)" using clock_upd_simps(16) by metis
qed

lemma due_iff:
  assumes "wf_mem m" and "timeout_ok m a" and "\<not> is_root n"
  shows "n \<in> set (takeWhile (\<lambda>n. remaining m a n = 1) (timeout_seq m a)) \<longleftrightarrow>
    (\<exists>i < 2. nlist (nodes m n) = Some (TimeoutList a i)) \<and> remaining m a n = 1"
  using sorted_least(1) [OF sorted_timeout_seq [OF assms(2)] remaining_least [OF assms(2)]] timeout_seq_linked [OF assms] by auto

lemma due_task_iff:
  assumes "kinv k" and "due_tasks k ts"
  shows "t \<in> set ts \<longleftrightarrow> vtimeout (view (kmem k) t) \<noteq> None \<and> remaining (kmem k) G_timeout_list (TimeoutNode t) = 1"
proof -
  note ok = mem_okD [OF kinvD(1) [OF assms(1)]]
  have "t \<in> set ts \<longleftrightarrow> TimeoutNode t \<in> set (map TimeoutNode ts)" by auto
  also have "\<dots> \<longleftrightarrow> (\<exists>i < 2. vtimeout (view (kmem k) t) = Some (TimeoutList G_timeout_list i)) \<and>
      remaining (kmem k) G_timeout_list (TimeoutNode t) = 1"
    unfolding assms(2) [unfolded due_tasks_def] using due_iff [OF ok(1,4), of "TimeoutNode t"] by simp
  also have "(\<exists>i < 2. vtimeout (view (kmem k) t) = Some (TimeoutList G_timeout_list i)) \<longleftrightarrow> vtimeout (view (kmem k) t) \<noteq> None"
  proof -
    have "vtimeout (view (kmem k) t) \<noteq> Some ExpiredNodes"
      using armed_blocked(1) [OF assms(1), of t] registeredD(7) [OF assms(1), of t] by (auto simp: timeout_armed_def)
    then show ?thesis using ok(6) [of "TimeoutNode t"] by (auto split: list_addr.splits)
  qed
  finally show ?thesis .
qed

definition timer_due :: "hr_kernel \<Rightarrow> timer_ptr \<Rightarrow> bool" where
  "timer_due k x \<longleftrightarrow> hr_timer_is_active (Some x) k \<and> remaining (kmem k) G_timer_timeouts (TimerNode x) = 1"

lemma due_timer_iff:
  assumes "mem_ok (kmem k)" and "timers_okx {} now k" and "g_timer_system_initialized k" and "due_timers k xs"
  shows "x \<in> set xs \<longleftrightarrow> timer_due k x"
proof -
  note ok = mem_okD [OF assms(1)] and v = timer_valid [OF assms(2)]
  have ta: "timeout_ok (kmem k) G_timer_timeouts" by (rule ok(5) [OF v(6) [OF assms(3)]])
  have "x \<in> set xs \<longleftrightarrow> TimerNode x \<in> set (map TimerNode xs)" by auto
  also have "\<dots> \<longleftrightarrow> (\<exists>i < 2. nlist (nodes (kmem k) (TimerNode x)) = Some (TimeoutList G_timer_timeouts i)) \<and>
      remaining (kmem k) G_timer_timeouts (TimerNode x) = 1"
    unfolding assms(4) [unfolded due_timers_def] using due_iff [OF ok(1) ta, of "TimerNode x"] by simp
  also have "(\<exists>i < 2. nlist (nodes (kmem k) (TimerNode x)) = Some (TimeoutList G_timer_timeouts i)) \<longleftrightarrow>
      nlist (nodes (kmem k) (TimerNode x)) \<noteq> None \<and> nlist (nodes (kmem k) (TimerNode x)) \<noteq> Some ExpiredTimers"
    using ok(6) [of "TimerNode x"] by (auto split: list_addr.splits)
  also have "\<dots> \<longleftrightarrow> hr_timer_is_active (Some x) k"
    using v(1,4,5) [of x] assms(2) by (auto simp: hr_timer_is_active_def timers_okx_def timer_inv_def split: if_splits)
  finally show ?thesis by (simp add: timer_due_def)
qed

text \<open>
  What one tick does. A task whose time runs out wakes up with the status of its wait. Any other
  task that does not wait for the signal of the timer service keeps its control block but for its
  effective priority and its counters, and a pending timeout comes one tick closer. The timers that
  are due expire, the others come one tick closer.
\<close>

definition ticked :: "hr_kernel \<Rightarrow> hr_kernel \<Rightarrow> bool" where
  "ticked k k' \<longleftrightarrow>
     g_kernel_tick k' = g_kernel_tick k + 1 \<and> g_kernel_state k' = g_kernel_state k \<and> g_current_task k' = g_current_task k \<and>
     (\<forall>t. vtimeout (view (kmem k) t) \<noteq> None \<longrightarrow> remaining (kmem k) G_timeout_list (TimeoutNode t) = 1 \<longrightarrow>
        woken_as (tcb k t) (tcb k' t) \<and> twait_result (tcb k' t) = timeout_status (tcb k t)) \<and>
     (\<forall>t. vtimeout (view (kmem k) t) = None \<or> remaining (kmem k) G_timeout_list (TimeoutNode t) \<noteq> 1 \<longrightarrow>
        vwait (view (kmem k) t) \<noteq> Some (SemaphoreWaiters g_timer_signal) \<longrightarrow>
        (\<exists>p r q. tcb k' t = clock_upd r q ((tcb k t)\<lparr>teffective_priority := p\<rparr>)) \<and>
        vwait (view (kmem k') t) = vwait (view (kmem k) t) \<and>
        vtimeout (view (kmem k') t) = vtimeout (view (kmem k) t) \<and>
        remaining (kmem k') G_timeout_list (TimeoutNode t) = remaining (kmem k) G_timeout_list (TimeoutNode t) - 1) \<and>
     (\<forall>x. tmcb k' x = (if timer_due k x then expire_tmcb (tmcb k x) else tmcb k x)) \<and>
     (\<forall>x. hr_timer_is_active (Some x) k \<longrightarrow> remaining (kmem k') G_timer_timeouts (TimerNode x) =
        (if timer_due k x \<and> tmauto_reload (tmcb k x) then tmperiod_ticks (tmcb k x)
         else remaining (kmem k) G_timer_timeouts (TimerNode x) - 1))"

lemma tick_parts:
  assumes "kernel_inv k" and "g_kernel_state k = HR_KERNEL_STATE_RUNNING" and "inside_isr k"
  obtains ts m k2 sw k3 cur where "due_tasks k ts"
    and "waking ts (g_kernel_tick k) (k\<lparr>g_kernel_tick := g_kernel_tick k + 1, kmem := m\<rparr>)"
    and "\<And>n. remaining m G_timeout_list n = remaining (kmem k) G_timeout_list n - 1"
    and "\<And>u. u \<notin> set ts \<Longrightarrow> view m u = view (kmem k) u" and "remaining m G_timer_timeouts = remaining (kmem k) G_timer_timeouts"
    and "timed_out ts (k\<lparr>g_kernel_tick := g_kernel_tick k + 1, kmem := m\<rparr>) k2" and "waking [] (g_kernel_tick k) k2"
    and "hr_timer_tick_from_isr (g_kernel_tick k2) (Some False) k2 = Some (Some sw, k3)" and "kernel_inv k3"
    and "g_kernel_state k3 = g_kernel_state k2" and "g_current_task k3 = g_current_task k2" and "g_kernel_tick k3 = g_kernel_tick k2"
    and "\<exists>xs. if g_timer_system_initialized k2 then due_timers k2 xs \<and> timers_fired xs k2 k3 else k3 = k2"
    and "\<And>u. vwait (view (kmem k2) u) \<noteq> Some (SemaphoreWaiters g_timer_signal) \<Longrightarrow> task_kept u k2 k3"
    and "g_current_task k3 = Some cur" and "hr_kernel_tick_from_isr k = Some (tick_account cur sw k3)"
proof -
  define now where "now = g_kernel_tick k"
  define i where "i = hr_list_init (Some ExpiredNodes) (kmem k)"
  note s = tick_setup [OF assms(1), folded i_def]
  obtain m ts where a: "hr_timeout_list_advance (Some G_timeout_list) (now + 1) (Some ExpiredNodes) i = Some (HR_OK, m)"
      "waking ts now (k\<lparr>g_kernel_tick := now + 1, kmem := m\<rparr>)" "due_tasks (k\<lparr>kmem := i\<rparr>) ts"
      "\<And>n. remaining m G_timeout_list n = remaining i G_timeout_list n - 1" "\<And>u. u \<notin> set ts \<Longrightarrow> view m u = view i u"
      "remaining m G_timer_timeouts = remaining i G_timer_timeouts"
    by (rule tick_advance [OF s(1), simplified, OF s(2,3), folded now_def]) blast
  define k1 where "k1 = k\<lparr>g_kernel_tick := now + 1, kmem := m\<rparr>"
  from wake_all [OF a(2)] obtain k2 where k2: "next_woken k1 = Some (True, k2)" "waking [] now k2" "timed_out ts k1 k2"
    unfolding k1_def by auto
  have tick: "g_kernel_tick k2 = now + 1" "inside_isr k2" "g_kernel_state k2 = HR_KERNEL_STATE_RUNNING"
    "g_current_task k2 = g_current_task k"
    using k2(3) assms(2,3) by (simp_all add: timed_out_def same_objects_def k1_def)
  have w: "kinv k2" "sems_ok k2" "queues_ok k2" "mutexes_ok k2" "timers_okx {} now k2" using k2(2) by (simp_all add: waking_def)
  obtain sw k3 where k3: "hr_timer_tick_from_isr (g_kernel_tick k2) (Some False) k2 = Some (Some sw, k3)" "kernel_inv k3"
      "g_kernel_state k3 = g_kernel_state k2" "g_current_task k3 = g_current_task k2" "g_kernel_tick k3 = g_kernel_tick k2"
      "\<exists>xs. if g_timer_system_initialized k2 then due_timers k2 xs \<and> timers_fired xs k2 k3 else k3 = k2"
      "\<And>u. vwait (view (kmem k2) u) \<noteq> Some (SemaphoreWaiters g_timer_signal) \<Longrightarrow> task_kept u k2 k3"
    by (rule timer_tick_ok [OF w tick(1,2)]) blast
  obtain cur where cur: "g_current_task k3 = Some cur" "registered k3 cur"
    using kinvD(4) [OF kernel_invD(1) [OF k3(2)]] tick(3) k3(3) by (auto simp: current_ok_def)
  obtain nd m' where nx: "hr_list_pop_front (Some ExpiredNodes) m = Some (nd, m')" "tick_expire_loop nd (k1\<lparr>kmem := m'\<rparr>) = Some (True, k2)"
    using k2(1) by (auto simp: next_woken_def on_mem_def k1_def split: Option.bind_splits option.splits)
  have run: "hr_kernel_tick_from_isr k = Some (tick_account cur sw k3)"
    using a(1) nx k3(1) cur(1) assms(2) registeredD(2) [OF kernel_invD(1) [OF k3(2)] cur(2)]
    by (simp add: hr_kernel_tick_from_isr_def on_mem_def i_def [symmetric] now_def [symmetric] k1_def)
  have "due_tasks k ts" using a(3) s(4,5) by (simp add: due_tasks_def)
  from that [OF this _ _ _ _ _ _ k3 cur(1) run] a(2,4-6) k2(2,3) s(4,6,7) show thesis by (simp add: k1_def now_def)
qed

lemma woken_free:
  assumes "kinv k" and "woken_tcb (tcb k t)"
  shows "vwait (view (kmem k) t) = None" and "vtimeout (view (kmem k) t) = None"
proof -
  have "registered k t" using assms registered_iff [OF assms(1), of t] by (auto simp: woken_tcb_def)
  then have "task_state_ok (view (kmem k) t) (tcb k t)" using registeredD(5) [OF assms(1)] by simp
  then show "vwait (view (kmem k) t) = None" "vtimeout (view (kmem k) t) = None"
    using assms(2) by (auto simp: woken_tcb_def task_state_ok_def in_ready_def detached_def)
qed

lemma tick_timers:
  assumes "waking [] now k2" and "timers_same k1 k2"
    and "\<exists>xs. if g_timer_system_initialized k2 then due_timers k2 xs \<and> timers_fired xs k2 k3 else k3 = k2"
  shows "tmcb k3 x = (if timer_due k1 x then expire_tmcb (tmcb k1 x) else tmcb k1 x)"
    and "hr_timer_is_active (Some x) k1 \<Longrightarrow> remaining (kmem k3) G_timer_timeouts (TimerNode x) =
      (if timer_due k1 x \<and> tmauto_reload (tmcb k1 x) then tmperiod_ticks (tmcb k1 x)
       else remaining (kmem k1) G_timer_timeouts (TimerNode x) - 1)"
proof -
  have w: "mem_ok (kmem k2)" "timers_okx {} now k2" using assms(1) kinvD(1) by (auto simp: waking_def)
  have d: "timer_due k2 x = timer_due k1 x" "tmcb k2 = tmcb k1" "hr_timer_is_active (Some x) k2 = hr_timer_is_active (Some x) k1"
    "remaining (kmem k2) G_timer_timeouts (TimerNode x) = remaining (kmem k1) G_timer_timeouts (TimerNode x)"
    using assms(2) by (simp_all add: timer_due_def timers_same_def hr_timer_is_active_def hr_timer_is_valid_def remaining_def)
  have "tmcb k3 x = (if timer_due k1 x then expire_tmcb (tmcb k1 x) else tmcb k1 x) \<and>
      (hr_timer_is_active (Some x) k1 \<longrightarrow> remaining (kmem k3) G_timer_timeouts (TimerNode x) =
        (if timer_due k1 x \<and> tmauto_reload (tmcb k1 x) then tmperiod_ticks (tmcb k1 x)
         else remaining (kmem k1) G_timer_timeouts (TimerNode x) - 1))"
  proof (cases "g_timer_system_initialized k2")
    case True
    then obtain xs where x: "due_timers k2 xs" "timers_fired xs k2 k3" using assms(3) by auto
    show ?thesis using due_timer_iff [OF w True x(1)] x(2) d by (simp add: timers_fired_def)
  next
    case False
    then have "\<not> hr_timer_is_active (Some x) k2"
      using w(2) timer_valid(1) [OF w(2)] by (simp add: hr_timer_is_active_def timers_okx_def)
    moreover from this have "\<not> timer_due k2 x" by (simp add: timer_due_def)
    ultimately show ?thesis using assms(3) False d by simp
  qed
  then show "tmcb k3 x = (if timer_due k1 x then expire_tmcb (tmcb k1 x) else tmcb k1 x)"
    and "hr_timer_is_active (Some x) k1 \<Longrightarrow> remaining (kmem k3) G_timer_timeouts (TimerNode x) =
      (if timer_due k1 x \<and> tmauto_reload (tmcb k1 x) then tmperiod_ticks (tmcb k1 x)
       else remaining (kmem k1) G_timer_timeouts (TimerNode x) - 1)" by simp_all
qed

theorem tick_ok:
  assumes "kernel_inv k" and "g_kernel_state k = HR_KERNEL_STATE_RUNNING" and "inside_isr k"
  obtains k' where "hr_kernel_tick_from_isr k = Some k'" and "kernel_inv k'" and "ticked k k'"
proof (rule tick_parts [OF assms])
  fix ts m k2 sw k3 cur
  let ?k = "k\<lparr>g_kernel_tick := g_kernel_tick k + 1, kmem := m\<rparr>" and ?k' = "tick_account cur sw k3"
  assume due: "due_tasks k ts" and w1: "waking ts (g_kernel_tick k) ?k"
    and rm: "\<And>n. remaining m G_timeout_list n = remaining (kmem k) G_timeout_list n - 1"
    and vm: "\<And>u. u \<notin> set ts \<Longrightarrow> view m u = view (kmem k) u" and rt: "remaining m G_timer_timeouts = remaining (kmem k) G_timer_timeouts"
    and t: "timed_out ts ?k k2" and w: "waking [] (g_kernel_tick k) k2" and k3: "kernel_inv k3"
      "g_kernel_state k3 = g_kernel_state k2" "g_current_task k3 = g_current_task k2" "g_kernel_tick k3 = g_kernel_tick k2"
    and fired: "\<exists>xs. if g_timer_system_initialized k2 then due_timers k2 xs \<and> timers_fired xs k2 k3 else k3 = k2"
    and kept: "\<And>u. vwait (view (kmem k2) u) \<noteq> Some (SemaphoreWaiters g_timer_signal) \<Longrightarrow> task_kept u k2 k3"
    and run: "hr_kernel_tick_from_isr k = Some ?k'"
  note c = clockedD [OF clocked_account [of cur k3 sw]] and td = t [unfolded timed_out_def same_objects_def]
  note di = due_task_iff [OF kernel_invD(1) [OF assms(1)] due]
  have kv: "kinv k2" using w by (simp add: waking_def)
  have "woken_as (tcb k u) (tcb ?k' u) \<and> twait_result (tcb ?k' u) = timeout_status (tcb k u)" if "u \<in> set ts" for u
  proof -
    have u: "woken_tcb (tcb k2 u)" "twait_result (tcb k2 u) = timeout_status (tcb k u)" "woken_as (tcb k u) (tcb k2 u)"
      using td that by (simp_all add: woken_as_def)
    then have "tcb k3 u = tcb k2 u" using kept [of u] woken_free(1) [OF kv u(1)] by (simp add: task_kept_def)
    moreover obtain r q where "tcb ?k' u = clock_upd r q (tcb k3 u)" using c(6) by blast
    ultimately show ?thesis using u(2,3) by (auto simp: woken_as_def woken_tcb_def)
  qed
  moreover have "(\<exists>p r q. tcb ?k' u = clock_upd r q ((tcb k u)\<lparr>teffective_priority := p\<rparr>)) \<and>
      vwait (view (kmem ?k') u) = vwait (view (kmem k) u) \<and> vtimeout (view (kmem ?k') u) = vtimeout (view (kmem k) u) \<and>
      remaining (kmem ?k') G_timeout_list (TimeoutNode u) = remaining (kmem k) G_timeout_list (TimeoutNode u) - 1"
    if u: "u \<notin> set ts" "vwait (view (kmem k) u) \<noteq> Some (SemaphoreWaiters g_timer_signal)" for u
  proof -
    have b: "but_priority (tcb k u) (tcb k2 u)" using td u(1) by simp
    have v: "vwait (view (kmem k2) u) = vwait (view (kmem k) u)" "vtimeout (view (kmem k2) u) = vtimeout (view (kmem k) u)"
      "remaining (kmem k2) G_timeout_list (TimeoutNode u) = remaining (kmem k) G_timeout_list (TimeoutNode u) - 1"
      using td u(1) vm rm by simp_all
    have kp: "task_kept u k2 k3" by (rule kept) (use v(1) u(2) in simp)
    obtain r q where "tcb ?k' u = clock_upd r q (tcb k2 u)" using c(6) kp unfolding task_kept_def by metis
    then have "tcb ?k' u = clock_upd r q ((tcb k u)\<lparr>teffective_priority := teffective_priority (tcb k2 u)\<rparr>)"
      using b [unfolded but_priority_def] by metis
    then show ?thesis using v kp by (auto simp: task_kept_def c(1))
  qed
  moreover have "tmcb ?k' x = (if timer_due k x then expire_tmcb (tmcb k x) else tmcb k x) \<and>
      (hr_timer_is_active (Some x) k \<longrightarrow> remaining (kmem ?k') G_timer_timeouts (TimerNode x) =
        (if timer_due k x \<and> tmauto_reload (tmcb k x) then tmperiod_ticks (tmcb k x)
         else remaining (kmem k) G_timer_timeouts (TimerNode x) - 1))" for x
  proof -
    have "timers_same ?k k2" using td by (simp add: calm_def)
    note tt = tick_timers [OF w this fired, of x]
    have "timer_due ?k x = timer_due k x" "hr_timer_is_active (Some x) ?k = hr_timer_is_active (Some x) k"
      using rt by (simp_all add: timer_due_def hr_timer_is_active_def hr_timer_is_valid_def)
    then show ?thesis using tt c(1,5) rt by simp
  qed
  ultimately have "ticked k ?k'"
    using c k3(2-4) td unfolding ticked_def by (simp add: di)
  then show thesis using that [OF run clocked_inv [OF k3(1) clocked_account]] by blast
qed

end
