(* ===== verification/HR_Calls.thy ===== *)
theory HR_Calls
  imports HR_Queue HR_Mutex HR_Tick
begin

text \<open>
  The calls on tasks and on the kernel (\<open>hr_task.c\<close>, \<open>hr_kernel.c\<close>) return, whatever their
  arguments, and keep the invariant of the whole kernel: what \<open>HR_Block\<close>, \<open>HR_Switch\<close> and
  \<open>HR_Boot\<close> show of the tasks is extended to semaphores, queues, mutexes and timers.
\<close>

section \<open>Delays\<close>

lemma current_task_running:
  assumes "kinv k" and "g_kernel_state k = HR_KERNEL_STATE_RUNNING"
  obtains t where "g_current_task k = Some t" and "registered k t"
  using kinvD(4) [OF assms(1)] assms(2) by (auto simp: current_ok_def)

lemma delay_current_inv:
  assumes "kernel_inv k" and "g_kernel_state k = HR_KERNEL_STATE_RUNNING"
  obtains st k' where "hr_kernel_delay_current d k = Some (st, k')" and "kernel_inv k'"
proof -
  note kv = kernel_invD(1) [OF assms(1)]
  obtain t where t: "g_current_task k = Some t" by (rule current_task_running [OF kv assms(2)])
  show thesis
  proof (cases "may_block k t \<and> d \<noteq> 0 \<and> d \<noteq> HR_WAIT_FOREVER")
    case True
    then have a: "may_block k t" "d \<noteq> 0" "d \<noteq> HR_WAIT_FOREVER" by simp_all
    obtain m k' where d: "hr_kernel_delay_current d k = Some (HR_OK, k')"
      "k' = hr_kernel_mark_switch_reason HR_SWITCH_REASON_BLOCK
        (k\<lparr>kmem := m, tcb := (tcb k)(t := delay_tcb (g_kernel_tick k + d) (tcb k t))\<rparr>)"
      "entered t None d (kmem k) m" "kinv k'"
      by (rule delay_ok [OF kv a])
    have "calm {} k k'"
      using calm_fields [OF calm_entered [OF d(3)]] by (simp add: d(2) hr_kernel_mark_switch_reason_def)
    then show ?thesis using that [OF d(1) kernel_inv_calm [OF assms(1) _ d(4)]] by simp
  next
    case False
    then show ?thesis using that [OF delay_refused [OF _ t]] assms(1) by blast
  qed
qed

lemma request_yield_inv: "kernel_inv k \<Longrightarrow> kernel_inv (hr_kernel_request_yield k)"
  by (simp add: hr_kernel_request_yield_def Let_def hr_port_enter_critical_def)

lemma yield_inv: "kernel_inv k \<Longrightarrow> kernel_inv (hr_task_yield k)"
  by (simp add: hr_task_yield_def request_yield_inv)

lemma delay_inv:
  assumes "kernel_inv k"
  shows "\<exists>st k'. hr_task_delay d k = Some (st, k') \<and> kernel_inv k'"
proof (cases "g_kernel_state k = HR_KERNEL_STATE_RUNNING \<and> \<not> inside_isr k \<and> d \<noteq> 0 \<and> d \<noteq> HR_WAIT_FOREVER")
  case True
  have "kernel_inv (k\<lparr>primask := 1\<rparr>)" "g_kernel_state (k\<lparr>primask := 1\<rparr>) = HR_KERNEL_STATE_RUNNING" using assms True by simp_all
  then obtain st k' where "hr_kernel_delay_current d (k\<lparr>primask := 1\<rparr>) = Some (st, k')" "kernel_inv k'"
    by (rule delay_current_inv)
  then show ?thesis
    using True by (simp add: hr_task_delay_def hr_kernel_is_running_def hr_port_is_inside_isr_def hr_port_enter_critical_def Let_def)
next
  case False
  then show ?thesis using assms yield_inv [OF assms]
    by (auto simp: hr_task_delay_def hr_kernel_is_running_def hr_port_is_inside_isr_def)
qed

lemma delay_until_inv:
  assumes "kernel_inv k"
  shows "\<exists>r k'. hr_task_delay_until lw p k = Some (r, k') \<and> kernel_inv k'"
proof (cases "lw = None \<or> g_kernel_state k \<noteq> HR_KERNEL_STATE_RUNNING \<or> inside_isr k \<or> p = 0 \<or> p > 0x7FFFFFFF")
  case True
  then show ?thesis using assms
    by (cases lw) (auto simp: hr_task_delay_until_def hr_kernel_is_running_def hr_port_is_inside_isr_def)
next
  case False
  then obtain w where w: "lw = Some w" by auto
  define k0 where "k0 = k\<lparr>primask := 1\<rparr>"
  define d where "d = w + p - g_kernel_tick k"
  have k0: "kernel_inv k0" "g_kernel_state k0 = HR_KERNEL_STATE_RUNNING" "g_kernel_tick k0 = g_kernel_tick k"
    using assms False by (simp_all add: k0_def)
  obtain st k' where "hr_kernel_delay_current d k0 = Some (st, k')" "kernel_inv k'" by (rule delay_current_inv [OF k0(1,2)])
  then show ?thesis
    using False k0(1) by (simp add: w hr_task_delay_until_def hr_kernel_is_running_def hr_port_is_inside_isr_def
        hr_port_enter_critical_def hr_kernel_get_tick_def Let_def k0_def [symmetric] d_def [symmetric] k0(3))
qed

section \<open>Suspending and resuming\<close>

lemma suspend_task_inv:
  assumes "kernel_inv k"
  obtains st sw' k' where "hr_kernel_suspend_task (Some t) sw k = Some ((st, sw'), k')" and "kernel_inv k'"
proof (cases "may_suspend k t")
  case True
  note kv = kernel_invD(1) [OF assms]
  obtain m k' where s: "hr_kernel_suspend_task (Some t) sw k =
      Some ((HR_OK, map_option (\<lambda>_. tstate (tcb k t) = HR_TASK_STATE_RUNNING) sw), k')" "kinv k'"
    "k' = k\<lparr>kmem := m, tcb := tcb k', g_switch_reasons := g_switch_reasons k'\<rparr>" "lists_kept (kmem k) m"
    by (rule suspend_ok [OF kv True, of sw])
  have "calm {} k k'" by (rule calm_fields [OF calm_lists_kept [OF s(4)]]) (subst s(3), simp)+
  then show thesis using that [OF s(1)] kernel_inv_calm [OF assms _ s(2)] by blast
next
  case False
  then show thesis using that [OF suspend_refused [OF kernel_invD(1) [OF assms]]] assms by blast
qed

lemma resume_task_inv:
  assumes "kernel_inv k"
  obtains st sw' k' where "hr_kernel_resume_task (Some t) sw k = Some ((st, sw'), k')" and "kernel_inv k'"
proof -
  note kv = kernel_invD(1) [OF assms]
  consider (no) "\<not> may_resume k t" | (blocked) "may_resume k t" "tsuspended_resume_state (tcb k t) = HR_TASK_STATE_BLOCKED"
    | (ready) "may_resume k t" "tsuspended_resume_state (tcb k t) \<noteq> HR_TASK_STATE_BLOCKED" by blast
  then show thesis
  proof cases
    case no
    then show thesis using that [OF resume_refused] assms by blast
  next
    case blocked
    have "calm {} k (k\<lparr>tcb := (tcb k)(t := resume_tcb (tcb k t))\<rparr>)" by (rule calm_fields [OF calm_refl]) simp_all
    then show thesis
      using that [OF resume_blocked_ok(2) [OF kv blocked]] kernel_inv_calm [OF assms _ resume_blocked_ok(1) [OF kv blocked]] by blast
  next
    case ready
    obtain m k' where s: "hr_kernel_resume_task (Some t) sw k = Some ((HR_OK, map_option (\<lambda>_. outranks k' t) sw), k')" "kinv k'"
      "k' = k\<lparr>kmem := m, tcb := tcb k', g_switch_reasons := g_switch_reasons k'\<rparr>" "lists_kept (kmem k) m"
      by (rule resume_ready_ok [OF kv ready, of sw])
    have "calm {} k k'" by (rule calm_fields [OF calm_lists_kept [OF s(4)]]) (subst s(3), simp)+
    then show thesis using that [OF s(1)] kernel_inv_calm [OF assms _ s(2)] by blast
  qed
qed

lemma suspend_inv:
  assumes "kernel_inv k"
  shows "\<exists>st k'. hr_task_suspend task k = Some (st, k') \<and> kernel_inv k'"
    and "\<exists>st k'. hr_task_resume task k = Some (st, k') \<and> kernel_inv k'"
proof -
  let ?ok = "hr_task_is_valid task k \<and> g_kernel_state k = HR_KERNEL_STATE_RUNNING \<and> \<not> inside_isr k"
  let ?k = "k\<lparr>primask := 1\<rparr>"
  have bad: "\<exists>st. hr_task_suspend task k = Some (st, k)" "\<exists>st. hr_task_resume task k = Some (st, k)" if "\<not> ?ok"
    using that by (auto simp: hr_task_suspend_def hr_task_resume_def hr_kernel_is_running_def hr_port_is_inside_isr_def)
  have t: "\<exists>t. task = Some t" if ?ok using that by (cases task) (simp_all add: hr_task_is_valid_def)
  have inv: "kernel_inv ?k" using assms by simp
  show "\<exists>st k'. hr_task_suspend task k = Some (st, k') \<and> kernel_inv k'"
  proof (cases ?ok)
    case True
    then obtain t where t: "task = Some t" using t by blast
    obtain st sw k' where "hr_kernel_suspend_task (Some t) (Some False) ?k = Some ((st, sw), k')" "kernel_inv k'"
      by (rule suspend_task_inv [OF inv])
    then show ?thesis using True
      by (simp add: t hr_task_suspend_def hr_kernel_is_running_def hr_port_is_inside_isr_def hr_port_enter_critical_def Let_def)
  next
    case False
    then show ?thesis using bad(1) assms by blast
  qed
  show "\<exists>st k'. hr_task_resume task k = Some (st, k') \<and> kernel_inv k'"
  proof (cases ?ok)
    case True
    then obtain t where t: "task = Some t" using t by blast
    obtain st sw k' where "hr_kernel_resume_task (Some t) (Some False) ?k = Some ((st, sw), k')" "kernel_inv k'"
      by (rule resume_task_inv [OF inv])
    then show ?thesis using True
      by (simp add: t hr_task_resume_def hr_kernel_is_running_def hr_port_is_inside_isr_def hr_port_enter_critical_def Let_def)
  next
    case False
    then show ?thesis using bad(2) assms by blast
  qed
qed

section \<open>Switching, starting and creating\<close>

lemma pendsv_inv:
  assumes "kernel_inv k" and "g_kernel_state k = HR_KERNEL_STATE_RUNNING"
  obtains k' where "pendsv_exception k = Some k'" and "kernel_inv k'" and "g_kernel_state k' = HR_KERNEL_STATE_RUNNING"
proof -
  note kv = kernel_invD(1) [OF assms(1)]
  obtain cur where "g_current_task k = Some cur" by (rule current_task_running [OF kv assms(2)])
  then obtain k' where k': "pendsv_exception k = Some k'" "kinv k'" "same_but_run k k'"
    using pendsv_ok [OF kv assms(2)] by metis
  show thesis
    using that [OF k'(1) kernel_inv_calm [OF assms(1) calm_run [OF k'(3)] k'(2)]] k'(3) assms(2)
    by (simp add: same_but_run_def same_objects_def)
qed

lemma prepare_start_inv:
  assumes "kernel_inv k"
  shows "\<exists>st k'. hr_kernel_prepare_start k = Some (st, k') \<and> kernel_inv k'"
proof (cases "g_kernel_state k = HR_KERNEL_STATE_INITIALIZED")
  case True
  obtain t k' where k': "hr_kernel_prepare_start k = Some (HR_OK, k')" "kinv k'"
    "k' = k\<lparr>tcb := (tcb k)(t := start_tcb (tcb k t)), g_current_task := Some t,
      g_hr_current_task_control_block := Some t, g_kernel_state := HR_KERNEL_STATE_RUNNING\<rparr>"
    by (rule prepare_start_ok [OF kernel_invD(1) [OF assms] True])
  have "calm {} k k'" by (rule calm_fields [OF calm_refl]) (simp_all add: k'(3))
  then show ?thesis using k'(1) kernel_inv_calm [OF assms _ k'(2)] by blast
next
  case False
  then show ?thesis using assms by (simp add: hr_kernel_prepare_start_def)
qed

lemma create_inv:
  assumes "kernel_inv k"
  shows "kernel_inv (snd (hr_task_create_static task name entry argument stack stack_words priority k))" (is "kernel_inv ?k")
    and "calm {} k (snd (hr_task_create_static task name entry argument stack stack_words priority k))"
proof -
  have "kernel_inv ?k \<and> calm {} k ?k"
  proof (cases task)
    case None
    then show ?thesis using assms by (simp add: hr_task_create_static_def)
  next
    case (Some t)
    obtain st k' where e: "hr_task_create_static (Some t) name entry argument stack stack_words priority k = (st, k')"
      by fastforce
    have kp: "kpre k" "registered k g_idle_task" using kernel_invD(1) [OF assms] kinv_kpre by auto
    note c = create_ok [OF kp(1) e]
    have "kinv k'" using c(1,2) kp(2) kinv_kpre by auto
    then show ?thesis using kernel_inv_calm [OF assms calm_created [OF c(3)]] calm_created [OF c(3)] by (simp add: Some e)
  qed
  then show "kernel_inv ?k" "calm {} k ?k" by simp_all
qed

lemma start_inv:
  assumes "kernel_inv k"
  shows "\<exists>st k'. hr_task_start task k = Some (st, k') \<and> kernel_inv k' \<and> calm {} k k'"
proof (cases task)
  case None
  then show ?thesis using assms by (simp add: hr_task_start_def hr_task_is_valid_def)
next
  case (Some t)
  note kv = kernel_invD(1) [OF assms]
  have kp: "kpre k" "registered k g_idle_task" using kv kinv_kpre by auto
  consider (bad) "tmagic (tcb k t) \<noteq> HR_CFG_TASK_MAGIC" | (no) "\<not> may_register k t" "tmagic (tcb k t) = HR_CFG_TASK_MAGIC"
    | (ok) "may_register k t" "tmagic (tcb k t) = HR_CFG_TASK_MAGIC" by blast
  then show ?thesis
  proof cases
    case bad
    then show ?thesis using assms by (simp add: Some hr_task_start_def)
  next
    case no
    then show ?thesis using register_refused [OF kp(1) no(1)] assms by (auto simp: Some hr_task_start_def)
  next
    case ok
    have "\<not> registered k t" using created_unregistered(1) [OF kp(1)] ok by (simp add: may_register_def)
    then have idle: "t = g_idle_task \<longrightarrow> tbase_priority (tcb k t) = HR_CFG_IDLE_PRIORITY" using kp(2) by metis
    show ?thesis
    proof (rule register_ok [OF kp(1) ok(1) idle])
      fix m k' assume r: "hr_kernel_register_task (Some t) k = Some (HR_OK, k')" "kpre k'" "\<And>u. registered k u \<Longrightarrow> registered k' u"
        and k': "k' = k\<lparr>kmem := m, tcb := (tcb k)(t := register_tcb (tcb k t)), g_task_count := g_task_count k + 1\<rparr>"
        and m: "\<And>l. inited (kmem k) l \<Longrightarrow> is_wait_list l \<or> plain_list l \<and> l \<noteq> AllTasks \<Longrightarrow> nodes_of m l = nodes_of (kmem k) l"
          "inited m = inited (kmem k)" "same_timeouts (kmem k) m"
          "\<And>x. \<not> task_node x \<Longrightarrow> nlist (nodes m x) = nlist (nodes (kmem k) x)" "\<And>x. nowner (nodes m x) = nowner (nodes (kmem k) x)"
      have "calm {} k k'" by (rule calm_fields [OF calm_registered [OF m]]) (simp_all add: k')
      moreover have "kinv k'" using r(2,3) kp(2) kinv_kpre by blast
      ultimately show ?thesis using kernel_inv_calm [OF assms] r(1) ok(2) by (auto simp: Some hr_task_start_def)
    qed
  qed
qed

end
