(* ===== verification/HR_Timer_Service.thy ===== *)
theory HR_Timer_Service
  imports HR_Calls
begin

text \<open>
  Setting up the timer service and creating timers (\<open>hr_timer_system_ensure_initialized\<close> and
  \<open>hr_timer_create_static\<close> of \<open>hr_timer.c\<close>), and running the pending callbacks.
\<close>

section \<open>The timer lists\<close>

lemma no_timer_nodes:
  assumes "mem_ok m" and "\<And>x. nlist (nodes m (TimerNode x)) = None \<and> nlist (nodes m (PendingNode x)) = None"
    and "inited m l" and "l = PendingTimers \<or> l = TimeoutList G_timer_timeouts i"
  shows "nodes_of m l = []"
proof (rule ccontr)
  assume "nodes_of m l \<noteq> []"
  then obtain n where n: "n \<in> set (nodes_of m l)" by (cases "nodes_of m l") auto
  note wf = mem_okD(1) [OF assms(1)]
  have "node_fits n l" "\<not> is_root n" "nlist (nodes m n) = Some l"
    using member_fits [OF assms(1,3) n] wf_linked [OF wf assms(3)] wf_in_list [OF wf assms(3) n] n by (simp_all add: linked_def)
  then show False using assms(2,4) by (cases n) auto
qed

lemma mem_timer_lists:
  fixes start :: hr_tick
  assumes "mem_ok m" and "\<And>i. inited m (TimeoutList G_timer_timeouts i) \<Longrightarrow> nodes_of m (TimeoutList G_timer_timeouts i) = []"
  defines "m' \<equiv> hr_timeout_list_init (Some G_timer_timeouts) start m"
  shows "kernel_same m m'" and "tcurrent (timeout_lists m' G_timer_timeouts) \<noteq> None" and "last_tick m' G_timer_timeouts = start"
    and "\<not> is_root x \<Longrightarrow> nodes m' x = nodes m x" and "inited m' PendingTimers = inited m PendingTimers"
    and "inited m PendingTimers \<Longrightarrow> nodes_of m' PendingTimers = nodes_of m PendingTimers"
proof -
  let ?t = "TimeoutList G_timer_timeouts"
  note t = timeout_init_wf [OF mem_okD(1) [OF assms(1)], where t = G_timer_timeouts and start = start, OF assms(2), folded m'_def]
  define m1 where "m1 = hr_list_init (Some (?t 0)) m"
  define m2 where "m2 = hr_list_init (Some (?t 1)) m1"
  have s1: "set_up {?t 0} {} m m1" unfolding m1_def by (rule set_up_list(1) [OF assms(1,2)])
  note d1 = s1 [unfolded set_up_def]
  have "nodes_of m1 (?t 1) = []" if "inited m1 (?t 1)" using that d1 assms(2) by simp
  then have s2: "set_up {?t 1} {} m1 m2" unfolding m2_def using d1 by (intro set_up_list(1)) auto
  have s: "set_up {?t 0, ?t 1} {} m m2" using set_up_trans [OF s1 s2] by (simp add: insert_commute)
  note d = s [unfolded set_up_def]
  have e: "m' = set_tlist G_timer_timeouts \<lparr>tcurrent = Some (?t 0), toverflow = Some (?t 1), tlast_tick = start, tcount = 0\<rparr> m2"
    by (simp add: m'_def hr_timeout_list_init_def Let_def m1_def m2_def)
  have ok2: "mem_ok m2" using d by simp
  have n: "nodes m' = nodes m2" "npriority m' = npriority m2" "nwake_tick m' = nwake_tick m2" "inited m' = inited m2"
    "nodes_of m' = nodes_of m2" "ready_sets m' = ready_sets m2" by (simp_all add: e fun_eq_iff)
  have "timeout_ok m' G_timeout_list"
    by (rule timeout_ok_frame [OF mem_okD(4) [OF ok2]]) (auto simp: n e)
  then have to: "timeout_ok m' a" for a using t(2) by (cases a) auto
  have "ready_ok m' G_scheduler" by (rule ready_ok_frame [OF mem_okD(2) [OF ok2]]) (auto simp: n)
  then have ok: "mem_ok m'"
    using ok2 t(1) t(10) [of G_timeout_list] to d assms(1) unfolding mem_ok_def by (simp add: n)
  have v: "view m' = view m" using setup_view [OF s] by (simp add: view_def fun_eq_iff n del: node_view)
  have "ready_seq m' G_scheduler = ready_seq m2 G_scheduler" by (simp add: ready_seq_def n)
  then show "kernel_same m m'"
    using ok v d t(7,10) by (auto simp: kernel_same_def n)
  show "tcurrent (timeout_lists m' G_timer_timeouts) \<noteq> None" by (simp add: e)
  show "last_tick m' G_timer_timeouts = start" by (rule t)
  show "\<not> is_root x \<Longrightarrow> nodes m' x = nodes m x" by (rule t)
  show "inited m' PendingTimers = inited m PendingTimers" using t(5) by simp
  show "inited m PendingTimers \<Longrightarrow> nodes_of m' PendingTimers = nodes_of m PendingTimers" using t(6) by simp
qed

lemma sem_create_timers:
  assumes "kernel_inv k" and "hr_semaphore_create_counting (Some s) i n k = (st, k')"
  shows "timers_same k k'" and "st = HR_OK \<Longrightarrow> smagic (scb k' s) = HR_CFG_SEMAPHORE_MAGIC"
proof -
  note inv = kernel_invD [OF assms(1)]
  have ni: "\<not> inited (kmem k) (SemaphoreWaiters s)" if "\<not> hr_semaphore_is_valid (Some s) k"
    using that sem_valid(1) [OF inv(2)] inv(2) by (auto simp: sems_ok_def)
  have "timers_same k (k\<lparr>kmem := new_sem_mem s (kmem k), scb := f\<rparr>)" if "\<not> hr_semaphore_is_valid (Some s) k" for f
    using set_up_same(4) [of "{SemaphoreWaiters s}" "{Root (SemaphoreWaiters s)}" k "k\<lparr>kmem := new_sem_mem s (kmem k), scb := f\<rparr>"]
      new_sem_mem [OF kinvD(1) [OF inv(1)] ni [OF that]] by simp
  moreover have "timers_same k k" by (simp add: timers_same_def)
  ultimately show "timers_same k k'" using assms(2) by (auto simp: sem_create_eq split: if_splits)
  show "st = HR_OK \<Longrightarrow> smagic (scb k' s) = HR_CFG_SEMAPHORE_MAGIC" using assms(2) by (auto simp: sem_create_eq split: if_splits)
qed

section \<open>The timer service\<close>

definition service_lists :: "hr_kernel \<Rightarrow> bool" where
  "service_lists k \<longleftrightarrow>
     \<not> g_timer_system_initialized k \<and> tcurrent (timeout_lists (kmem k) G_timer_timeouts) \<noteq> None \<and> inited (kmem k) PendingTimers \<and>
     last_tick (kmem k) G_timer_timeouts = g_kernel_tick k"

lemma service_lists_same: "service_lists k \<Longrightarrow> timers_same k k' \<Longrightarrow> service_lists k'"
  by (simp add: service_lists_def timers_same_def)

lemma no_timers:
  assumes "kernel_inv k" and "\<not> g_timer_system_initialized k"
  shows "tmmagic (tmcb k x) \<noteq> HR_CFG_TIMER_MAGIC" and "nlist (nodes (kmem k) (TimerNode x)) = None"
    and "nlist (nodes (kmem k) (PendingNode x)) = None"
  using kernel_invD(4) [OF assms(1)] assms(2) by (simp_all add: timers_ok_def timers_okx_def timer_inv_def)

lemma lists_set_up:
  assumes "kernel_inv k" and "\<not> g_timer_system_initialized k"
  defines "m \<equiv> hr_list_init (Some PendingTimers) (hr_timeout_list_init (Some G_timer_timeouts) (g_kernel_tick k) (kmem k))"
  shows "kernel_inv (k\<lparr>kmem := m\<rparr>)" and "service_lists (k\<lparr>kmem := m\<rparr>)"
proof -
  note inv = kernel_invD [OF assms(1)] and no = no_timers [OF assms(1,2)]
  note ok = kinvD(1) [OF inv(1)]
  define m1 where "m1 = hr_timeout_list_init (Some G_timer_timeouts) (g_kernel_tick k) (kmem k)"
  have e: "nodes_of (kmem k) (TimeoutList G_timer_timeouts i) = []" if "inited (kmem k) (TimeoutList G_timer_timeouts i)" for i
    using no_timer_nodes [OF ok _ that] no by simp
  note a = mem_timer_lists [OF ok, where start = "g_kernel_tick k", OF e, folded m1_def]
  have ok1: "mem_ok m1" using a(1) by (simp add: kernel_same_def)
  have "nlist (nodes m1 n) = None" if "n = TimerNode x \<or> n = PendingNode x" for n x using a(4) [of n] no that by auto
  then have "nodes_of m1 PendingTimers = []" if "inited m1 PendingTimers" using no_timer_nodes [OF ok1 _ that] by blast
  note s = set_up_list(1) [OF ok1 this, folded m_def [folded m1_def]]
  note d = s [unfolded set_up_def]
  have "kernel_same m1 m" using d setup_view [OF s] by (auto simp: kernel_same_def m_def m1_def)
  then have ks: "kernel_same (kmem k) m" using kernel_same_trans [OF a(1)] by blast
  have n: "nlist (nodes m (TimerNode x)) = None" "nlist (nodes m (PendingNode x)) = None" for x using d a(4) no by simp_all
  have "timers_ok (k\<lparr>kmem := m\<rparr>)" using no(1) n assms(2) by (simp add: timers_ok_def timers_okx_def timer_inv_def)
  then show "kernel_inv (k\<lparr>kmem := m\<rparr>)"
    using kernel_same_rest [OF inv(1,2,3,5), of "k\<lparr>kmem := m\<rparr>"] ks by (simp add: kernel_inv_def)
  show "service_lists (k\<lparr>kmem := m\<rparr>)" using d a(2,3) assms(2) by (simp add: service_lists_def)
qed

lemma service_start:
  assumes "kernel_inv k" and "service_lists k" and "smagic (scb k g_timer_signal) = HR_CFG_SEMAPHORE_MAGIC"
  shows "kernel_inv (k\<lparr>g_timer_system_initialized := True\<rparr>)"
proof -
  note inv = kernel_invD [OF assms(1)]
  have i: "\<not> g_timer_system_initialized k" using assms(2) by (simp add: service_lists_def)
  have "timers_ok (k\<lparr>g_timer_system_initialized := True\<rparr>)"
    using inv(4) assms(2,3) by (simp add: timers_ok_def timers_okx_def service_lists_def)
  then show ?thesis using inv by (simp add: kernel_inv_def sems_ok_def queues_ok_def mutexes_ok_def)
qed

lemma ensure_initialized_inv:
  assumes "kernel_inv k"
  shows "\<exists>st k'. hr_timer_system_ensure_initialized en sk k = Some (st, k') \<and> kernel_inv k' \<and>
    (st = HR_OK \<longrightarrow> g_timer_system_initialized k') \<and> tmcb k' = tmcb k"
proof (cases "g_timer_system_initialized k \<or> g_kernel_state k \<noteq> HR_KERNEL_STATE_INITIALIZED")
  case True
  then show ?thesis using assms by (auto simp: hr_timer_system_ensure_initialized_def hr_kernel_get_state_def)
next
  case False
  define m where "m = hr_list_init (Some PendingTimers) (hr_timeout_list_init (Some G_timer_timeouts) (g_kernel_tick k) (kmem k))"
  define k2 where "k2 = k\<lparr>kmem := m\<rparr>"
  have k2: "kernel_inv k2" "service_lists k2" using lists_set_up [OF assms] False by (simp_all add: k2_def m_def)
  obtain st3 k3 where c3: "hr_semaphore_create_counting (Some g_timer_signal) 0 1 k2 = (st3, k3)" by fastforce
  have k3: "kernel_inv k3" "service_lists k3" "tmcb k3 = tmcb k2"
    using sem_create_inv [OF k2(1), of "Some g_timer_signal" 0 1] c3 service_lists_same [OF k2(2)] sem_create_timers(1) [OF k2(1) c3]
    by (simp_all add: timers_same_def)
  obtain st4 k4 where c4: "hr_task_create_static (Some g_timer_service_task) (Some ''timer-service'') (Some en) 0 (Some sk) 160
      (HR_CFG_IDLE_PRIORITY - 1) k3 = (st4, k4)" by fastforce
  have k4: "kernel_inv k4" "calm {} k3 k4"
    using create_inv [OF k3(1), of "Some g_timer_service_task" "Some ''timer-service''" "Some en" 0 "Some sk" 160 "HR_CFG_IDLE_PRIORITY - 1"]
    unfolding c4 by simp_all
  obtain st5 k5 where c5: "hr_task_start (Some g_timer_service_task) k4 = Some (st5, k5)" and k5: "kernel_inv k5" "calm {} k4 k5"
    using start_inv [OF k4(1)] by metis
  have cm: "calm {} k3 k5" by (rule calm_trans [OF k4(2) k5(2)])
  have s5: "service_lists k5" using service_lists_same [OF k3(2)] cm by (simp add: calm_def)
  have tm: "tmcb k4 = tmcb k" "tmcb k5 = tmcb k" "tmcb k3 = tmcb k" and sc: "scb k5 = scb k3"
    using k4(2) cm k3(3) by (simp_all add: calm_def timers_same_def sems_same_def k2_def)
  have fin: "kernel_inv (k5\<lparr>g_timer_system_initialized := True\<rparr>)" if "st3 = HR_OK"
    using service_start [OF k5(1) s5] sc sem_create_timers(2) [OF k2(1) c3 that] by simp
  have "hr_timer_system_ensure_initialized en sk k =
      (if st3 \<noteq> HR_OK then Some (st3, k3) else if st4 \<noteq> HR_OK then Some (st4, k4) else if st5 \<noteq> HR_OK then Some (st5, k5)
       else Some (HR_OK, k5\<lparr>g_timer_system_initialized := True\<rparr>))"
    using False c3 c4 c5 by (simp add: hr_timer_system_ensure_initialized_def hr_kernel_get_state_def hr_kernel_get_tick_def Let_def
        hr_semaphore_create_binary_def k2_def m_def)
  then show ?thesis using k3(1) k4(1) k5(1) fin tm by auto
qed

section \<open>Creating a timer\<close>

definition new_timer_mem :: "timer_ptr \<Rightarrow> mem \<Rightarrow> mem" where
  "new_timer_mem x m = hr_list_node_init (Some (PendingNode x)) (Some (Timer_obj x))
     (hr_timeout_node_init (Some (TimerNode x)) (Some (Timer_obj x))
       ((set_node (PendingNode x) zero_node (set_node (TimerNode x) zero_node m))\<lparr>nwake_tick := (nwake_tick m)(TimerNode x := 0)\<rparr>))"

lemma new_timer_mem:
  assumes "mem_ok m" and "nlist (nodes m (TimerNode x)) = None" and "nlist (nodes m (PendingNode x)) = None"
  shows "set_up {} {TimerNode x, PendingNode x} m (new_timer_mem x m)"
    and "nowner (nodes (new_timer_mem x m) (TimerNode x)) = Some (Timer_obj x)"
    and "nowner (nodes (new_timer_mem x m) (PendingNode x)) = Some (Timer_obj x)"
proof -
  show "set_up {} {TimerNode x, PendingNode x} m (new_timer_mem x m)"
    by (rule set_up_nodes [OF assms(1)])
      (use assms(2,3) in \<open>auto simp: new_timer_mem_def hr_list_node_init_def hr_timeout_node_init_def Let_def node_upd_defs\<close>)
qed (simp_all add: new_timer_mem_def hr_list_node_init_def hr_timeout_node_init_def Let_def node_upd_defs)

definition new_tmcb :: "string option \<Rightarrow> hr_tick \<Rightarrow> bool \<Rightarrow> nat option \<Rightarrow> nat \<Rightarrow> hr_timer_control_block" where
  "new_tmcb name period_ticks auto_reload callback argument =
     zero_tmcb\<lparr>tmname := name, tmcallback := callback, tmargument := argument, tmperiod_ticks := period_ticks,
       tmauto_reload := auto_reload, tmactive := False, tmcallback_running := False, tmpending_count := 0, tmmagic := HR_CFG_TIMER_MAGIC\<rparr>"

lemma timer_created:
  assumes "kernel_inv k" and "g_timer_system_initialized k" and "\<not> hr_timer_is_valid (Some x) k"
    and "name \<noteq> None" and "callback \<noteq> None" and "period_ticks \<noteq> 0" and "period_ticks \<noteq> HR_WAIT_FOREVER"
  shows "kernel_inv (k\<lparr>kmem := new_timer_mem x (kmem k), tmcb := (tmcb k)(x := new_tmcb name period_ticks auto_reload callback argument)\<rparr>)"
    (is "kernel_inv ?k")
proof -
  note i = kernel_invD [OF assms(1)]
  have mg: "tmmagic (tmcb k x) \<noteq> HR_CFG_TIMER_MAGIC" using assms(3) timer_valid(1) [OF i(4) [unfolded timers_ok_def]] by simp
  then have nl: "nlist (nodes (kmem k) (TimerNode x)) = None" "nlist (nodes (kmem k) (PendingNode x)) = None"
    using i(4) by (auto simp: timers_ok_def timers_okx_def timer_inv_def)
  note u = new_timer_mem [OF kinvD(1) [OF i(1)] nl] and ud = new_timer_mem(1) [OF kinvD(1) [OF i(1)] nl, unfolded set_up_def]
  have "owners_ok (new_timer_mem x (kmem k)) (tcb k) (mcb k)" by (rule set_up_owners [OF kinvD(3) [OF i(1)] u(1)]) auto
  then have "kinv (k\<lparr>kmem := new_timer_mem x (kmem k), mcb := mcb k\<rparr>)" by (intro set_up_kinv [OF i(1) u(1)]) auto
  then have "kinv ?k" by simp
  moreover have "sems_ok ?k" by (rule sems_ok_calm [OF i(2)], rule set_up_same(1) [where k' = ?k]) (use u in auto)
  moreover have "queues_ok ?k" by (rule queues_ok_calm [OF i(3)], rule set_up_same(2) [where k' = ?k]) (use u in auto)
  moreover have "mutexes_ok ?k"
    by (rule mutexes_ok_calm [OF i(5) kinvD(3) [OF i(1)]], rule set_up_same(3) [where k' = ?k]) (use u in auto)
  moreover have "timer_inv (tmcb ?k y) (kmem ?k) y" for y
  proof (cases "y = x")
    case True
    then show ?thesis using u(2,3) ud nl assms(4-7) by (simp add: timer_inv_def timer_shape_def new_tmcb_def)
  next
    case False
    then have "timer_inv c (new_timer_mem x (kmem k)) y = timer_inv c (kmem k) y" for c
      using ud by (intro timer_inv_cong) auto
    then show ?thesis using i(4) False by (simp add: timers_ok_def timers_okx_def)
  qed
  then have "timers_ok ?k" using i(4) assms(2) ud by (simp add: timers_ok_def timers_okx_def)
  ultimately show ?thesis by (simp add: kernel_inv_def)
qed

lemma timer_create_inv:
  assumes "kernel_inv k"
  shows "\<exists>st k'. hr_timer_create_static en sk timer name period_ticks auto_reload callback argument k = Some (st, k') \<and> kernel_inv k'"
proof (cases "\<exists>x. timer = Some x \<and> name \<noteq> None \<and> callback \<noteq> None \<and> period_ticks \<noteq> 0 \<and> period_ticks \<noteq> HR_WAIT_FOREVER \<and>
    \<not> inside_isr k \<and> \<not> hr_timer_is_valid timer k")
  case False
  then show ?thesis using assms by (cases timer) (auto simp: hr_timer_create_static_def hr_port_is_inside_isr_def)
next
  case True
  then obtain x where x: "timer = Some x" "name \<noteq> None" "callback \<noteq> None" "period_ticks \<noteq> 0" "period_ticks \<noteq> HR_WAIT_FOREVER"
    "\<not> inside_isr k" "\<not> hr_timer_is_valid (Some x) k" by auto
  obtain st k' where e: "hr_timer_system_ensure_initialized en sk k = Some (st, k')" "kernel_inv k'"
    "st = HR_OK \<longrightarrow> g_timer_system_initialized k'" "tmcb k' = tmcb k" using ensure_initialized_inv [OF assms] by metis
  have v: "\<not> hr_timer_is_valid (Some x) k'" using x(7) e(4) by (simp add: hr_timer_is_valid_def)
  have "hr_timer_create_static en sk timer name period_ticks auto_reload callback argument k =
      (if st \<noteq> HR_OK then Some (st, k') else Some (HR_OK, k'\<lparr>kmem := new_timer_mem x (kmem k'),
         tmcb := (tmcb k')(x := new_tmcb name period_ticks auto_reload callback argument)\<rparr>))"
    using x e(1) by (cases name; cases callback) (simp_all add: hr_timer_create_static_def hr_port_is_inside_isr_def hr_timer_zero_control_block_def Let_def
        new_timer_mem_def new_tmcb_def upd_tmcb_def node_upd_defs)
  then show ?thesis using timer_created [OF e(2) _ v x(2-5)] e(2,3) by auto
qed

section \<open>Pending callbacks\<close>

lemma running_inv [simp]: "kernel_inv (upd_tmcb x (\<lambda>c. c\<lparr>tmcallback_running := b\<rparr>) k) = kernel_inv k"
proof -
  have "timer_inv (c\<lparr>tmcallback_running := b\<rparr>) m y = timer_inv c m y" for c m y by (simp add: timer_inv_def timer_shape_def)
  then have "timers_ok (upd_tmcb x (\<lambda>c. c\<lparr>tmcallback_running := b\<rparr>) k) = timers_ok k"
    by (auto simp: timers_ok_def timers_okx_def upd_tmcb_def)
  then show ?thesis by (simp add: kernel_inv_def upd_tmcb_def sems_ok_def queues_ok_def mutexes_ok_def)
qed

text \<open>Before its callback runs, the first pending timer has one expiry less and, when more remain, queues up again.\<close>

definition pending_taken :: "timer_ptr \<Rightarrow> node_addr list \<Rightarrow> hr_kernel \<Rightarrow> hr_kernel \<Rightarrow> bool" where
  "pending_taken x ns k k' \<longleftrightarrow>
     timer_only x k k' \<and> tmcb k' x = (tmcb k x)\<lparr>tmpending_count := tmpending_count (tmcb k x) - 1, tmcallback_running := True\<rparr> \<and>
     nodes_of (kmem k') PendingTimers = ns @ (if tmpending_count (tmcb k x) = 1 then [] else [PendingNode x])"

lemma pending_first:
  assumes "kernel_inv k" and "g_timer_system_initialized k" and "nodes_of (kmem k) PendingTimers = n # ns"
  obtains x where "n = PendingNode x" and "nlist (nodes (kmem k) (PendingNode x)) = Some PendingTimers"
    and "tmmagic (tmcb k x) = HR_CFG_TIMER_MAGIC" and "tmpending_count (tmcb k x) \<noteq> 0" and "n \<notin> set ns"
proof -
  note inv = kernel_invD [OF assms(1)]
  note ok = kinvD(1) [OF inv(1)]
  note wf = mem_okD(1) [OF ok] and v = timer_valid [OF inv(4) [unfolded timers_ok_def]]
  have i: "inited (kmem k) PendingTimers" by (rule v(7) [OF assms(2)])
  have "node_fits n PendingTimers" "\<not> is_root n" "nlist (nodes (kmem k) n) = Some PendingTimers" "n \<notin> set ns"
    using member_fits [OF ok i, of n] wf_linked [OF wf i] wf_in_list [OF wf i, of n] wf_distinct [OF wf i] assms(3)
    by (simp_all add: linked_def)
  then obtain x where x: "n = PendingNode x" "nlist (nodes (kmem k) (PendingNode x)) = Some PendingTimers" by (cases n) auto
  have m: "tmmagic (tmcb k x) = HR_CFG_TIMER_MAGIC"
    using inv(4) x(2) by (auto simp: timers_ok_def timers_okx_def timer_inv_def split: if_splits)
  show thesis using that [OF x m] v(3) [OF m] x(2) \<open>n \<notin> set ns\<close> by (simp add: timer_shape_def)
qed

lemma take_pending:
  assumes "kernel_inv k" and "g_timer_system_initialized k" and "nodes_of (kmem k) PendingTimers = PendingNode x # ns"
    and "tmmagic (tmcb k x) = HR_CFG_TIMER_MAGIC" and "nlist (nodes (kmem k) (PendingNode x)) = Some PendingTimers"
    and "tmpending_count (tmcb k x) \<noteq> 0"
  defines "k1 \<equiv> upd_tmcb x (\<lambda>c. c\<lparr>tmpending_count := tmpending_count c - 1\<rparr>) (k\<lparr>kmem := unlink (PendingNode x) (kmem k)\<rparr>)"
  obtains k2 where "(if tmpending_count (tmcb k1 x) > 0
      then on_mem (hr_list_push_back (Some PendingTimers) (Some (PendingNode x))) k1 else Some (HR_OK, k1)) = Some (HR_OK, k2)"
    and "kernel_inv k2" and "pending_taken x ns k (upd_tmcb x (\<lambda>c. c\<lparr>tmcallback_running := True\<rparr>) k2)" and "tmcb k2 = tmcb k1"
proof -
  note inv = kernel_invD [OF assms(1)]
  note ok = kinvD(1) [OF inv(1)] and v = timer_valid [OF inv(4) [unfolded timers_ok_def]]
  note i = v(7) [OF assms(2)]
  note u = mem_timer_unlink [OF ok _ assms(5), simplified]
  let ?m = "unlink (PendingNode x) (kmem k)"
  have ok1: "mem_ok ?m" using u(2) by (simp add: kernel_same_def)
  have i1: "inited ?m PendingTimers" using u(3) i by (simp add: same_timeouts_def)
  have "timer_only x k (k\<lparr>kmem := ?m\<rparr>)" using u(2-5) by (simp add: timer_only_def same_timeouts_def)
  then have o1: "timer_only x k k1" unfolding k1_def by (rule timer_only_trans) (rule timer_only_upd, simp add: ok1)
  have n1: "nodes_of ?m PendingTimers = ns" using u(6) [OF i] assms(3) by simp
  have sh: "timer_shape (tmcb k x) (kmem k) x" "tmactive (tmcb k x) \<longleftrightarrow> nlist (nodes (kmem k) (TimerNode x)) \<noteq> None"
    "nlist (nodes (kmem k) (TimerNode x)) \<noteq> Some ExpiredTimers" using v(3-5) [OF assms(4)] by simp_all
  have inv': "kernel_inv k'" if o: "timer_only x k k'" and "tmcb k' x = (tmcb k x)\<lparr>tmpending_count := tmpending_count (tmcb k x) - 1\<rparr>"
      "nlist (nodes (kmem k') (TimerNode x)) = nlist (nodes (kmem k) (TimerNode x))"
      "tmpending_count (tmcb k x) = 1 \<longleftrightarrow> nlist (nodes (kmem k') (PendingNode x)) = None" for k'
  proof -
    have "timer_inv (tmcb k' x) (kmem k') x"
      using that sh assms(4) o [unfolded timer_only_def] by (simp add: timer_inv_def timer_shape_def right_minus_eq)
    then have "timers_okx {} (g_kernel_tick k) k'"
      by (intro timer_only_ok [OF inv(4) [unfolded timers_ok_def] o assms(2)]) simp_all
    then show ?thesis using timer_only_inv [OF assms(1) o] timer_onlyD(6) [OF o] by (simp add: timers_ok_def)
  qed
  have taken: "pending_taken x ns k (upd_tmcb x (\<lambda>c. c\<lparr>tmcallback_running := True\<rparr>) k')"
    if o: "timer_only x k k'" and c: "tmcb k' x = (tmcb k x)\<lparr>tmpending_count := tmpending_count (tmcb k x) - 1\<rparr>"
      "nodes_of (kmem k') PendingTimers = ns @ (if tmpending_count (tmcb k x) = 1 then [] else [PendingNode x])" for k'
  proof -
    have "mem_ok (kmem k')" using timer_onlyD(2) [OF o] by (simp add: kernel_same_def)
    from timer_only_trans [OF o timer_only_upd [OF this]] show ?thesis
      using c unfolding pending_taken_def by (simp add: upd_tmcb_def)
  qed
  have c1: "tmcb k1 x = (tmcb k x)\<lparr>tmpending_count := tmpending_count (tmcb k x) - 1\<rparr>" "kmem k1 = ?m"
    by (simp_all add: k1_def upd_tmcb_def)
  show thesis
  proof (cases "tmpending_count (tmcb k x) = 1")
    case True
    have "kernel_inv k1" by (rule inv' [OF o1]) (use True u(4) c1 in simp_all)
    then show ?thesis using that [of k1] taken [OF o1] c1 n1 True by simp
  next
    case False
    have p: "nlist (nodes (kmem k1) (PendingNode x)) = None" "inited (kmem k1) PendingTimers" "mem_ok (kmem k1)"
      using u(4) ok1 i1 c1 by simp_all
    note q = mem_pending_push [OF p(3,2,1)]
    define k2 where "k2 = k1\<lparr>kmem := link_at PendingTimers (nodes_of (kmem k1) PendingTimers) [] (PendingNode x) (kmem k1)\<rparr>"
    have "timer_only x k1 k2" using q(2-5) by (simp add: timer_only_def same_timeouts_def k2_def)
    then have o2: "timer_only x k k2" by (rule timer_only_trans [OF o1])
    have t2: "tmcb k2 = tmcb k1" by (simp add: k2_def)
    have "kernel_inv k2" by (rule inv' [OF o2]) (use False u(4) c1 q(4) t2 in \<open>simp_all add: k2_def\<close>)
    moreover have "nodes_of (kmem k2) PendingTimers = ns @ [PendingNode x]" using q(6) [OF p(2)] n1 c1(2) by (simp add: k2_def)
    moreover have "tmpending_count (tmcb k1 x) > 0" using False c1(1) by (simp add: word_gt_0 right_minus_eq)
    ultimately show ?thesis
      using that [of k2] taken [OF o2] t2 c1(1) False q(1) by (simp add: on_mem_def k2_def)
  qed
qed

lemma timer_only_primask:
  assumes "timer_only x (k\<lparr>primask := a\<rparr>) k'"
  shows "timer_only x k (k'\<lparr>primask := primask k\<rparr>)"
proof -
  have e: "k' = (k\<lparr>primask := a\<rparr>)\<lparr>kmem := kmem k', tmcb := tmcb k'\<rparr>" by (rule timer_onlyD(1) [OF assms])
  have "k'\<lparr>primask := primask k\<rparr> = k\<lparr>kmem := kmem k', tmcb := tmcb k'\<rparr>" by (subst e) simp
  then show ?thesis using assms unfolding timer_only_def by simp
qed

lemma process_pending_ok:
  assumes "kernel_inv k" and "g_timer_system_initialized k" and "nodes_of (kmem k) PendingTimers = n # ns"
  obtains x k2 cb where "n = PendingNode x" and "kernel_inv k2" and "pending_taken x ns k k2" and "tmcallback (tmcb k x) = Some cb"
    and "\<And>run_callback. hr_timer_process_one_pending run_callback k =
      do { k3 \<leftarrow> run_callback cb (tmargument (tmcb k x)) k2;
           Some (True, upd_tmcb x (\<lambda>c. c\<lparr>tmcallback_running := False\<rparr>) k3) }"
proof -
  define k0 where "k0 = k\<lparr>primask := 1\<rparr>"
  have k0: "kernel_inv k0" "g_timer_system_initialized k0" "nodes_of (kmem k0) PendingTimers = n # ns"
    "kmem k0 = kmem k" "tmcb k0 = tmcb k" using assms by (simp_all add: k0_def)
  obtain x where x: "n = PendingNode x" "nlist (nodes (kmem k0) (PendingNode x)) = Some PendingTimers"
    "tmmagic (tmcb k0 x) = HR_CFG_TIMER_MAGIC" "tmpending_count (tmcb k0 x) \<noteq> 0"
    by (rule pending_first [OF k0(1-3)])
  define k1 where "k1 = upd_tmcb x (\<lambda>c. c\<lparr>tmpending_count := tmpending_count c - 1\<rparr>) (k0\<lparr>kmem := unlink (PendingNode x) (kmem k0)\<rparr>)"
  obtain k2 where t: "(if tmpending_count (tmcb k1 x) > 0
      then on_mem (hr_list_push_back (Some PendingTimers) (Some (PendingNode x))) k1 else Some (HR_OK, k1)) = Some (HR_OK, k2)"
    "kernel_inv k2" "pending_taken x ns k0 (upd_tmcb x (\<lambda>c. c\<lparr>tmcallback_running := True\<rparr>) k2)" "tmcb k2 = tmcb k1"
    using take_pending [OF k0(1,2) k0(3) [unfolded x(1)] x(3,2,4), folded k1_def] by blast
  note v = timer_valid [OF kernel_invD(4) [OF k0(1), unfolded timers_ok_def]]
  obtain cb where cb: "tmcallback (tmcb k x) = Some cb" using v(3) [OF x(3)] k0(5) by (auto simp: timer_shape_def)
  have own: "hr_list_node_owner (Some (PendingNode x)) (unlink (PendingNode x) (kmem k0)) = Some (Timer_obj x)"
    using v(3) [OF x(3)] mem_timer_unlink(5) [OF kinvD(1) [OF kernel_invD(1) [OF k0(1)]] _ x(2)]
    by (simp add: timer_shape_def hr_list_node_owner_def)
  define k3 where "k3 = (upd_tmcb x (\<lambda>c. c\<lparr>tmcallback_running := True\<rparr>) k2)\<lparr>primask := primask k\<rparr>"
  have c1: "tmcallback (tmcb k1 x) = Some cb" "tmargument (tmcb k1 x) = tmargument (tmcb k x)"
    using cb by (simp_all add: k1_def upd_tmcb_def k0_def)
  have "hr_list_pop_front (Some PendingTimers) (kmem k0) = Some (Some (PendingNode x), unlink (PendingNode x) (kmem k0))"
    using mem_timer_pop(2) [OF kinvD(1) [OF kernel_invD(1) [OF k0(1)]] v(7) [OF k0(2)] disjI1 [OF refl]] k0(3) x(1) by blast
  moreover have r: "(upd_tmcb x f (j\<lparr>primask := 1\<rparr>))\<lparr>primask := primask j\<rparr> = upd_tmcb x f j" for f j by (simp add: upd_tmcb_def)
  ultimately have "hr_timer_process_one_pending run_callback k =
      do { k3 \<leftarrow> run_callback cb (tmargument (tmcb k x)) k3;
           Some (True, upd_tmcb x (\<lambda>c. c\<lparr>tmcallback_running := False\<rparr>) k3) }" for run_callback
    using assms(2) own v(1) [of x] x(3,4) t(1) c1 t(4)
    by (simp add: hr_timer_process_one_pending_def hr_port_enter_critical_def hr_port_exit_critical_def on_mem_def [of "hr_list_pop_front _"]
        k0_def [symmetric] as_timer_def k1_def [symmetric] k3_def hr_timer_is_valid_def r)
  moreover have "pending_taken x ns k k3"
    using t(3) timer_only_primask [where x = x and k = k and a = 1] unfolding pending_taken_def by (simp add: k3_def k0_def)
  ultimately show thesis using that [OF x(1) _ _ cb, of k3] t(2) by (simp add: k3_def)
qed

lemma process_empty:
  assumes "kernel_inv k" and "g_timer_system_initialized k \<Longrightarrow> nodes_of (kmem k) PendingTimers = []"
  shows "hr_timer_process_one_pending run_callback k = Some (False, k)"
proof (cases "g_timer_system_initialized k")
  case True
  note inv = kernel_invD [OF assms(1)]
  have i: "inited (kmem k) PendingTimers" by (rule timer_valid(7) [OF inv(4) [unfolded timers_ok_def] True])
  then show ?thesis
    using True assms(2) mem_timer_pop(1) [OF kinvD(1) [OF inv(1)] i]
    by (simp add: hr_timer_process_one_pending_def hr_port_enter_critical_def hr_port_exit_critical_def on_mem_def)
qed (simp add: hr_timer_process_one_pending_def)

end
