(* ===== verification/HR_System.thy ===== *)
theory HR_System
  imports HR_Timer_Service
begin

text \<open>
  The kernel as a transition system. A step is a call of the API, in a task or in an interrupt
  handler, a tick or a PendSV exception; steps may follow each other in any order. The
  invariant of all components holds in every reachable state.
\<close>

section \<open>The contract of a kernel call\<close>

locale kernel_step =
  fixes op :: "hr_kernel \<Rightarrow> ('a \<times> hr_kernel) option"
  assumes keeps: "kernel_inv k \<Longrightarrow> \<exists>r k'. op k = Some (r, k') \<and> kernel_inv k'"
begin

lemma state_kept: "kernel_inv k \<Longrightarrow> \<exists>k'. map_option snd (op k) = Some k' \<and> kernel_inv k'"
  using keeps by fastforce

text \<open>The same call made by an interrupt handler.\<close>

lemma state_kept_isr:
  assumes "kernel_inv k"
  shows "\<exists>k'. map_option (\<lambda>r. (snd r)\<lparr>inside_isr := False\<rparr>) (op (k\<lparr>inside_isr := True\<rparr>)) = Some k' \<and> kernel_inv k'"
proof -
  have "kernel_inv (k\<lparr>inside_isr := True\<rparr>)" using assms by simp
  from keeps [OF this] show ?thesis by auto
qed

end

locale kernel_call =
  fixes f :: "hr_kernel \<Rightarrow> 'a \<times> hr_kernel"
  assumes call_keeps: "kernel_inv k \<Longrightarrow> kernel_inv (snd (f k))"

sublocale kernel_call \<subseteq> kernel_step "\<lambda>k. Some (f k)"
  by unfold_locales (metis call_keeps prod.collapse)

interpretation task_create: kernel_call "hr_task_create_static task name entry argument stack stack_words priority"
  for task name entry argument stack stack_words priority
  by unfold_locales (rule create_inv)

interpretation task_start: kernel_step "hr_task_start task" for task
  by unfold_locales (use start_inv in blast)

interpretation kernel_start: kernel_step hr_kernel_start
proof unfold_locales
  fix k assume "kernel_inv k"
  from prepare_start_inv [OF this] show "\<exists>r k'. hr_kernel_start k = Some (r, k') \<and> kernel_inv k'"
    by (auto simp: hr_kernel_start_def)
qed

interpretation task_yield: kernel_call "\<lambda>k. ((), hr_task_yield k)"
  by unfold_locales (simp add: yield_inv)

interpretation task_delay: kernel_step "hr_task_delay d" for d
  by unfold_locales (rule delay_inv)

interpretation task_delay_until: kernel_step "hr_task_delay_until w p" for w p
  by unfold_locales (rule delay_until_inv)

interpretation task_suspend: kernel_step "hr_task_suspend task" for task
  by unfold_locales (rule suspend_inv)

interpretation task_resume: kernel_step "hr_task_resume task" for task
  by unfold_locales (rule suspend_inv)

interpretation sem_create: kernel_call "hr_semaphore_create_counting s i n" for s i n
  by unfold_locales (rule sem_create_inv)

interpretation sem_take: kernel_step "hr_semaphore_take s timeout" for s timeout
  by unfold_locales (rule take_inv [where sem = s and timeout = timeout]; blast)

interpretation sem_give: kernel_step "hr_semaphore_give s" for s
  by unfold_locales (rule give_inv [where sem = s]; blast)

interpretation sem_give_isr: kernel_step "hr_semaphore_give_from_isr s woken" for s woken
  by unfold_locales (rule give_from_isr_inv [where sem = s and woken = woken]; blast)

interpretation queue_create: kernel_call "hr_queue_create_static q storage item_size capacity" for q storage item_size capacity
  by unfold_locales (rule queue_create_inv)

interpretation queue_send: kernel_step "hr_queue_send q item timeout" for q item timeout
  by unfold_locales (rule send_inv)

interpretation queue_receive: kernel_step "hr_queue_receive q item timeout" for q item timeout
  by unfold_locales (rule receive_inv)

interpretation queue_send_isr: kernel_step "hr_queue_send_from_isr q item woken" for q item woken
  by unfold_locales (use send_inv(2) in fastforce)

interpretation queue_receive_isr: kernel_step "hr_queue_receive_from_isr q item woken" for q item woken
  by unfold_locales (use receive_inv(2) in fastforce)

interpretation mutex_create: kernel_call "hr_mutex_create_internal x recursive" for x recursive
  by unfold_locales (rule mutex_create_inv)

interpretation mutex_lock: kernel_step "hr_mutex_lock x timeout" for x timeout
  by unfold_locales (rule lock_inv)

interpretation mutex_unlock: kernel_step "hr_mutex_unlock x" for x
  by unfold_locales (rule unlock_inv [where mutex = x]; blast)

interpretation timer_create: kernel_step "hr_timer_create_static en sk x name period auto callback argument"
  for en sk x name period auto callback argument
  by unfold_locales (rule timer_create_inv)

interpretation timer_start: kernel_step "hr_timer_start x" for x
  by unfold_locales (rule timer_call_inv)

interpretation timer_stop: kernel_step "hr_timer_stop x" for x
  by unfold_locales (rule timer_call_inv)

interpretation timer_reset: kernel_step "hr_timer_reset x" for x
  by unfold_locales (rule timer_call_inv)

interpretation timer_change_period: kernel_step "hr_timer_change_period x p" for x p
  by unfold_locales (rule timer_call_inv)

section \<open>Ticks, context switches and callbacks\<close>

lemma tick_interrupt_inv:
  assumes "kernel_inv k"
  obtains k' where "tick_interrupt k = Some k'" and "kernel_inv k'" and "inside_isr k' = False"
    and "g_kernel_state k = HR_KERNEL_STATE_RUNNING \<Longrightarrow> ticked (k\<lparr>inside_isr := True\<rparr>) (k'\<lparr>inside_isr := True\<rparr>)"
proof -
  let ?k = "k\<lparr>inside_isr := True\<rparr>"
  have inv: "kernel_inv ?k" using assms by simp
  show thesis
  proof (cases "g_kernel_state k = HR_KERNEL_STATE_RUNNING")
    case True
    have r: "g_kernel_state ?k = HR_KERNEL_STATE_RUNNING" "inside_isr ?k" using True by simp_all
    obtain k' where k': "hr_kernel_tick_from_isr ?k = Some k'" "kernel_inv k'" "ticked ?k k'" by (rule tick_ok [OF inv r])
    have "ticked ?k (k'\<lparr>inside_isr := b\<rparr>)" for b using k'(3) unfolding ticked_def by simp
    then show ?thesis using that [of "k'\<lparr>inside_isr := False\<rparr>"] k'(1,2) by (simp add: tick_interrupt_def)
  next
    case False
    then show ?thesis
      using that [of "k\<lparr>inside_isr := False\<rparr>"] assms by (simp add: tick_interrupt_def hr_kernel_tick_from_isr_def)
  qed
qed

text \<open>
  Code of the application: what a timer callback does to the kernel. It returns and leaves
  the kernel consistent, as code that only makes API calls does.
\<close>

type_synonym callbacks = "nat \<Rightarrow> nat \<Rightarrow> hr_kernel \<Rightarrow> hr_kernel option"

definition callbacks_ok :: "callbacks \<Rightarrow> bool" where
  "callbacks_ok cbs \<longleftrightarrow> (\<forall>f a k. kernel_inv k \<longrightarrow> (\<exists>k'. cbs f a k = Some k' \<and> kernel_inv k'))"

lemma process_one_inv:
  assumes "callbacks_ok cbs" and "kernel_inv k"
  shows "\<exists>b k'. hr_timer_process_one_pending cbs k = Some (b, k') \<and> kernel_inv k'"
proof (cases "g_timer_system_initialized k \<and> nodes_of (kmem k) PendingTimers \<noteq> []")
  case False
  then show ?thesis using process_empty [OF assms(2)] assms(2) by blast
next
  case True
  then obtain n ns where "g_timer_system_initialized k" "nodes_of (kmem k) PendingTimers = n # ns"
    by (cases "nodes_of (kmem k) PendingTimers") auto
  from process_pending_ok [OF assms(2) this] obtain x k2 cb where p: "kernel_inv k2"
    "hr_timer_process_one_pending cbs k = do { k3 \<leftarrow> cbs cb (tmargument (tmcb k x)) k2;
       Some (True, upd_tmcb x (\<lambda>c. c\<lparr>tmcallback_running := False\<rparr>) k3) }" by metis
  obtain k3 where "cbs cb (tmargument (tmcb k x)) k2 = Some k3" "kernel_inv k3"
    using assms(1) p(1) unfolding callbacks_ok_def by blast
  then show ?thesis by (auto simp: p(2))
qed

section \<open>Transition system\<close>

datatype operation =
    Task_create "task_ptr option" "string option" "32 word option" "32 word" "32 word option" nat hr_priority
  | Task_start "task_ptr option"
  | Kernel_start
  | Task_yield
  | Task_delay hr_tick
  | Task_delay_until "hr_tick option" hr_tick
  | Task_suspend "task_ptr option"
  | Task_resume "task_ptr option"
  | Semaphore_create "sem_ptr option" "32 word" "32 word"
  | Semaphore_take "sem_ptr option" hr_tick
  | Semaphore_give "sem_ptr option"
  | Semaphore_give_from_isr "sem_ptr option"
  | Queue_create "queue_ptr option" "byte_ptr option" nat nat
  | Queue_send "queue_ptr option" "byte_ptr option" hr_tick
  | Queue_receive "queue_ptr option" "byte_ptr option" hr_tick
  | Queue_send_from_isr "queue_ptr option" "byte_ptr option"
  | Queue_receive_from_isr "queue_ptr option" "byte_ptr option"
  | Mutex_create "mutex_ptr option" bool
  | Mutex_lock "mutex_ptr option" hr_tick
  | Mutex_unlock "mutex_ptr option"
  | Timer_create "32 word" "32 word" "timer_ptr option" "string option" hr_tick bool "nat option" nat
  | Timer_start "timer_ptr option"
  | Timer_stop "timer_ptr option"
  | Timer_reset "timer_ptr option"
  | Timer_change_period "timer_ptr option" hr_tick
  | Timer_process
  | Tick
  | PendSV

definition in_isr :: "(hr_kernel \<Rightarrow> ('a \<times> hr_kernel) option) \<Rightarrow> hr_kernel \<Rightarrow> hr_kernel option" where
  "in_isr op k = map_option (\<lambda>r. (snd r)\<lparr>inside_isr := False\<rparr>) (op (k\<lparr>inside_isr := True\<rparr>))"

definition in_task :: "(hr_kernel \<Rightarrow> ('a \<times> hr_kernel) option) \<Rightarrow> hr_kernel \<Rightarrow> hr_kernel option" where
  "in_task op k = map_option snd (op k)"

fun run_op :: "callbacks \<Rightarrow> operation \<Rightarrow> hr_kernel \<Rightarrow> hr_kernel option" where
  "run_op cbs (Task_create t nm en a sk n p) k = in_task (\<lambda>k. Some (hr_task_create_static t nm en a sk n p k)) k"
| "run_op cbs (Task_start t) k = in_task (hr_task_start t) k"
| "run_op cbs Kernel_start k = in_task hr_kernel_start k"
| "run_op cbs Task_yield k = in_task (\<lambda>k. Some ((), hr_task_yield k)) k"
| "run_op cbs (Task_delay d) k = in_task (hr_task_delay d) k"
| "run_op cbs (Task_delay_until w p) k = in_task (hr_task_delay_until w p) k"
| "run_op cbs (Task_suspend t) k = in_task (hr_task_suspend t) k"
| "run_op cbs (Task_resume t) k = in_task (hr_task_resume t) k"
| "run_op cbs (Semaphore_create s i n) k = in_task (\<lambda>k. Some (hr_semaphore_create_counting s i n k)) k"
| "run_op cbs (Semaphore_take s timeout) k = in_task (hr_semaphore_take s timeout) k"
| "run_op cbs (Semaphore_give s) k = in_task (hr_semaphore_give s) k"
| "run_op cbs (Semaphore_give_from_isr s) k = in_isr (hr_semaphore_give_from_isr s (Some False)) k"
| "run_op cbs (Queue_create q st i n) k = in_task (\<lambda>k. Some (hr_queue_create_static q st i n k)) k"
| "run_op cbs (Queue_send q item timeout) k = in_task (hr_queue_send q item timeout) k"
| "run_op cbs (Queue_receive q item timeout) k = in_task (hr_queue_receive q item timeout) k"
| "run_op cbs (Queue_send_from_isr q item) k = in_isr (hr_queue_send_from_isr q item (Some False)) k"
| "run_op cbs (Queue_receive_from_isr q item) k = in_isr (hr_queue_receive_from_isr q item (Some False)) k"
| "run_op cbs (Mutex_create x r) k = in_task (\<lambda>k. Some (hr_mutex_create_internal x r k)) k"
| "run_op cbs (Mutex_lock x timeout) k = in_task (hr_mutex_lock x timeout) k"
| "run_op cbs (Mutex_unlock x) k = in_task (hr_mutex_unlock x) k"
| "run_op cbs (Timer_create en sk x nm p a cb arg) k = in_task (hr_timer_create_static en sk x nm p a cb arg) k"
| "run_op cbs (Timer_start x) k = in_task (hr_timer_start x) k"
| "run_op cbs (Timer_stop x) k = in_task (hr_timer_stop x) k"
| "run_op cbs (Timer_reset x) k = in_task (hr_timer_reset x) k"
| "run_op cbs (Timer_change_period x p) k = in_task (hr_timer_change_period x p) k"
| "run_op cbs Timer_process k = in_task (hr_timer_process_one_pending cbs) k"
| "run_op cbs Tick k = tick_interrupt k"
| "run_op cbs PendSV k = (if hr_kernel_is_running k then pendsv_exception k else Some k)"

lemma run_op_inv:
  assumes "callbacks_ok cbs" and "kernel_inv k"
  shows "\<exists>k'. run_op cbs op k = Some k' \<and> kernel_inv k'"
proof (cases op)
  case Tick
  then show ?thesis using tick_interrupt_inv [OF assms(2)] by (simp, metis)
next
  case PendSV
  then show ?thesis using pendsv_inv [OF assms(2)] assms(2) by (simp add: hr_kernel_is_running_def, metis)
next
  case Timer_process
  then show ?thesis using process_one_inv [OF assms] by (auto simp: in_task_def)
qed (simp_all add: in_task_def in_isr_def task_create.state_kept task_start.state_kept kernel_start.state_kept task_yield.state_kept
    task_delay.state_kept task_delay_until.state_kept task_suspend.state_kept task_resume.state_kept sem_create.state_kept
    sem_take.state_kept sem_give.state_kept sem_give_isr.state_kept_isr queue_create.state_kept queue_send.state_kept
    queue_receive.state_kept queue_send_isr.state_kept_isr queue_receive_isr.state_kept_isr mutex_create.state_kept
    mutex_lock.state_kept mutex_unlock.state_kept timer_create.state_kept timer_start.state_kept timer_stop.state_kept
    timer_reset.state_kept timer_change_period.state_kept assms(2) del: map_option_eq_Some option.map)

text \<open>The link-time placement of the idle stack: word aligned and inside the address space.\<close>

definition stack_placed :: "32 word \<Rightarrow> bool" where
  "stack_placed sk \<longleftrightarrow> unat sk mod 4 = 0 \<and> unat sk + 512 < 2 ^ 32"

inductive reachable :: "callbacks \<Rightarrow> hr_kernel \<Rightarrow> bool" for cbs where
  boot: "stack_placed sk \<Longrightarrow> hr_kernel_init en sk (reset_kernel x) = Some (HR_OK, k) \<Longrightarrow> reachable cbs k"
| step: "reachable cbs k \<Longrightarrow> run_op cbs op k = Some k' \<Longrightarrow> reachable cbs k'"

lemma boot_inv:
  assumes "stack_placed sk"
  obtains k where "hr_kernel_init en sk (reset_kernel x) = Some (HR_OK, k)" and "kernel_inv k"
    and "g_kernel_state k = HR_KERNEL_STATE_INITIALIZED"
proof -
  have p: "unat sk mod 4 = 0" "unat sk + 512 < 2 ^ 32" using assms by (simp_all add: stack_placed_def)
  obtain k where k: "hr_kernel_init en sk (reset_kernel x) = Some (HR_OK, k)" "kinv k" "g_kernel_state k = HR_KERNEL_STATE_INITIALIZED"
    "scb k = (\<lambda>_. zero_scb)" "qcb k = (\<lambda>_. zero_qcb)" "mcb k = (\<lambda>_. zero_mcb)" "tmcb k = (\<lambda>_. zero_tmcb)" "\<not> g_timer_system_initialized k"
    by (rule kernel_init_ok [OF p, where idle_entry = en and x = x]) blast
  have i: "inited (kmem k) l \<longleftrightarrow> l = OwnedMutexes g_idle_task \<or> inited init_mem l" for l
    by (rule kernel_init_ok [OF p, where idle_entry = en and x = x and l = l]) (use k(1) in simp)
  have n: "nlist (nodes (kmem k) n) = None" if "\<not> task_node n" "\<not> is_root n" for n
    by (rule kernel_init_ok [OF p, where idle_entry = en and x = x and n = n]) (use k(1) that in simp)
  have "sems_ok k" "queues_ok k" "mutexes_ok k" "timers_ok k"
    using k(4-8) i n by (simp_all add: sems_ok_def queues_ok_def mutexes_ok_def timers_ok_def timers_okx_def timer_inv_def
        init_mem_ok(2) zero_scb_def zero_qcb_def zero_mcb_def zero_tmcb_def)
  then show thesis using that k(1-3) by (simp add: kernel_inv_def)
qed

lemma reachable_inv:
  assumes "callbacks_ok cbs" and "reachable cbs k"
  shows "kernel_inv k"
  using assms(2)
proof induction
  case (boot sk en x k)
  then show ?case using boot_inv [of sk en x] by (metis option.inject prod.inject)
next
  case (step k op k')
  then show ?case using run_op_inv [OF assms(1), of k op] by auto
qed

end
