(* ===== verification/HR_Inherit_Chain.thy ===== *)
theory HR_Inherit_Chain
  imports HR_Mutex
begin

text \<open>
  What the recursion of \<open>hr_mutex_recompute_task_priority\<close> achieves along a chain of owners: every
  task on the chain ends with exactly the priority that the mutexes it owns ask for.
\<close>

text \<open>A task has its own priority or the highest one of the tasks that wait for its mutexes.\<close>

definition waits_on :: "hr_kernel \<Rightarrow> task_ptr \<Rightarrow> mutex_ptr \<Rightarrow> bool" where
  "waits_on k u x \<longleftrightarrow> vwait (view (kmem k) u) = Some (MutexWaiters x)"

definition inherited :: "hr_kernel \<Rightarrow> task_ptr \<Rightarrow> bool" where
  "inherited k t \<longleftrightarrow>
     teffective_priority (tcb k t) \<le> tbase_priority (tcb k t) \<and>
     (\<forall>x u. owns k t x \<longrightarrow> waits_on k u x \<longrightarrow> teffective_priority (tcb k t) \<le> teffective_priority (tcb k u)) \<and>
     (teffective_priority (tcb k t) = tbase_priority (tcb k t) \<or>
      (\<exists>x u. owns k t x \<and> waits_on k u x \<and> teffective_priority (tcb k t) = teffective_priority (tcb k u)))"

text \<open>The owner that a blocked task waits for, and the chain of owners from a task on.\<close>

definition next_owner :: "hr_kernel \<Rightarrow> task_ptr \<Rightarrow> task_ptr option" where
  "next_owner k t =
     (if blocked (tcb k t) \<and> twait_kind (tcb k t) = HR_TASK_WAIT_MUTEX_LOCK
      then (case twaiting_object (tcb k t) of
              Some (Obj_mutex x) \<Rightarrow>
                if mmagic (mcb k x) = HR_CFG_MUTEX_MAGIC \<and> mowner (mcb k x) \<noteq> Some t then mowner (mcb k x) else None
            | _ \<Rightarrow> None)
      else None)"

fun owner_chain :: "nat \<Rightarrow> hr_kernel \<Rightarrow> task_ptr \<Rightarrow> task_ptr list option" where
  "owner_chain 0 k t = None"
| "owner_chain (Suc n) k t =
     (case next_owner k t of None \<Rightarrow> Some [t] | Some u \<Rightarrow> map_option (\<lambda>ts. t # ts) (owner_chain n k u))"

lemma owner_chain_fun:
  "owner_chain n k t = Some ts \<Longrightarrow> owner_chain m k t = Some ts' \<Longrightarrow> ts = ts'"
proof (induction n arbitrary: t ts m ts')
  case (Suc n)
  then show ?case by (cases m) (auto split: option.splits)
qed simp

lemma owner_chain_suffix:
  "owner_chain n k u = Some ts \<Longrightarrow> t \<in> set ts \<Longrightarrow> \<exists>m us vs. ts = us @ vs \<and> owner_chain m k t = Some vs"
proof (induction n arbitrary: u ts)
  case (Suc n)
  show ?case
  proof (cases "t = u")
    case True
    then show ?thesis using Suc.prems(1) by (intro exI [of _ "Suc n"] exI [of _ "[]"] exI [of _ ts]) simp
  next
    case False
    then obtain v ts' where v: "owner_chain n k v = Some ts'" "ts = u # ts'" "t \<in> set ts'"
      using Suc.prems by (auto split: option.splits)
    from Suc.IH [OF v(1,3)] obtain m us vs where "ts' = us @ vs" "owner_chain m k t = Some vs" by auto
    then show ?thesis using v(2) by (intro exI [of _ m] exI [of _ "u # us"] exI [of _ vs]) simp
  qed
qed simp

lemma owner_chain_closed:
  assumes "owner_chain n k u = Some ts" and "w \<in> set ts" and "next_owner k w = Some t"
  shows "t \<in> set ts"
proof -
  obtain m us vs where v: "ts = us @ vs" "owner_chain m k w = Some vs" using owner_chain_suffix [OF assms(1,2)] by blast
  then obtain j vs' where "owner_chain j k t = Some vs'" "vs = w # vs'" using assms(3) by (cases m) auto
  then have "t \<in> set vs'" by (cases j) (auto split: option.splits)
  then show ?thesis using v(1) \<open>vs = w # vs'\<close> by simp
qed

lemma owner_chain_acyclic:
  assumes "owner_chain n k u = Some ts" and "next_owner k t = Some u"
  shows "t \<notin> set ts"
proof
  assume "t \<in> set ts"
  then obtain m us vs where v: "ts = us @ vs" "owner_chain m k t = Some vs" using owner_chain_suffix [OF assms(1)] by blast
  have "owner_chain (Suc n) k t = Some (t # ts)" using assms by simp
  then have "vs = t # ts" using owner_chain_fun v(2) by blast
  then show False using v(1) by simp
qed

lemma next_owner_repri:
  assumes "repri k k'"
  shows "next_owner k' t = next_owner k t"
  unfolding next_owner_def blocked_def suspended_wait_def repri_same(5,7,9,10) [OF assms] repri_frame(1) [OF assms] ..

lemma owner_chain_repri: "repri k k' \<Longrightarrow> owner_chain n k' t = owner_chain n k t"
  by (induction n arbitrary: t) (simp_all add: next_owner_repri cong: option.case_cong)

lemma links_repri: "repri k k' \<Longrightarrow> owns k' t x = owns k t x" "repri k k' \<Longrightarrow> waits_on k' u x = waits_on k u x"
  by (simp_all add: owns_def waits_on_def repri_frame(1) repri_same(1))

lemma wait_target_mutex:
  "wait_target kind ob = Some (MutexWaiters x) \<Longrightarrow> kind = HR_TASK_WAIT_MUTEX_LOCK \<and> ob = Some (Obj_mutex x)"
  by (elim wait_target.elims) auto

lemma waits_next_owner:
  assumes "kinv k" and "owns k t x" and "waits_on k u x" and "u \<noteq> t"
  shows "next_owner k u = Some t"
proof -
  note b = waiter_blocked [OF assms(1) assms(3) [unfolded waits_on_def]]
  have "wait_target (twait_kind (tcb k u)) (twaiting_object (tcb k u)) = Some (MutexWaiters x)"
    using b(3,4) by (simp add: on_wait_list_def)
  from wait_target_mutex [OF this] show ?thesis using b(2) assms(2,4) by (auto simp: next_owner_def owns_def)
qed

lemma waiter_priority:
  assumes "kinv k" and "waits_on k u x"
  shows "npriority (kmem k) (WaitNode u) = teffective_priority (tcb k u)"
proof -
  have "registered k u" using waiter_blocked(1) [OF assms(1) assms(2) [unfolded waits_on_def]] .
  from registeredD(4) [OF assms(1) this] show ?thesis by (simp add: prio_ok_def)
qed

lemma waiter_node:
  assumes "kinv k" and "owns k t x"
  shows "w \<in> set (waiters k x) \<longleftrightarrow> (\<exists>u. w = WaitNode u \<and> waits_on k u x)"
proof -
  note ok = kinvD(1) [OF assms(1)] and i = owned_mutex(1) [OF assms]
  have "\<exists>u. w = WaitNode u" if "w \<in> set (waiters k x)"
    using member_fits [OF ok i that] wf_linked [OF mem_okD(1) [OF ok] i] that by (cases w) (auto simp: linked_def)
  then show ?thesis using linked_wait [OF ok i] by (auto simp: waits_on_def)
qed

lemma required_spec:
  assumes "kinv k" and "registered k t"
  obtains r where "hr_mutex_required_priority t k = Some r" and "r \<le> tbase_priority (tcb k t)"
    and "\<And>x u. owns k t x \<Longrightarrow> waits_on k u x \<Longrightarrow> r \<le> teffective_priority (tcb k u)"
    and "r = tbase_priority (tcb k t) \<or> (\<exists>x u. owns k t x \<and> waits_on k u x \<and> r = teffective_priority (tcb k u))"
proof (rule required_priority_ok [OF assms])
  fix r assume r: "hr_mutex_required_priority t k = Some r" "r \<le> tbase_priority (tcb k t)"
    and le: "\<And>x w. owns k t x \<Longrightarrow> w \<in> set (waiters k x) \<Longrightarrow> r \<le> npriority (kmem k) w"
    and ex: "r = tbase_priority (tcb k t) \<or> (\<exists>x w. owns k t x \<and> w \<in> set (waiters k x) \<and> r = npriority (kmem k) w)"
  have 1: "r \<le> teffective_priority (tcb k u)" if "owns k t x" "waits_on k u x" for x u
    using le [OF that(1), of "WaitNode u"] waiter_node [OF assms(1) that(1)] that(2) waiter_priority [OF assms(1) that(2)] by auto
  have 2: "r = tbase_priority (tcb k t) \<or> (\<exists>x u. owns k t x \<and> waits_on k u x \<and> r = teffective_priority (tcb k u))"
    using ex waiter_node [OF assms(1)] waiter_priority [OF assms(1)] by metis
  show thesis by (rule that [OF r 1 2])
qed

text \<open>One call of the recursion sets the priority of one task.\<close>

lemma recompute_step:
  assumes "kinv k" and "registered k t" and "recompute_loop (Suc n) (Some t) k = Some (HR_OK, k')"
  obtains k1 where "kinv k1" and "repri k k1" and "inherited k1 t"
    and "\<And>u. u \<noteq> t \<Longrightarrow> teffective_priority (tcb k1 u) = teffective_priority (tcb k u)"
    and "next_owner k t = None \<Longrightarrow> k' = k1"
    and "\<And>u. next_owner k t = Some u \<Longrightarrow> recompute_loop n (Some u) k1 = Some (HR_OK, k') \<and> registered k1 u"
proof (rule required_spec [OF assms(1,2)])
  fix r assume r: "hr_mutex_required_priority t k = Some r" "r \<le> tbase_priority (tcb k t)"
    and le: "\<And>x u. owns k t x \<Longrightarrow> waits_on k u x \<Longrightarrow> r \<le> teffective_priority (tcb k u)"
    and ex: "r = tbase_priority (tcb k t) \<or> (\<exists>x u. owns k t x \<and> waits_on k u x \<and> r = teffective_priority (tcb k u))"
  have r7: "r < HR_CFG_IDLE_PRIORITY"
    using assms(3) r(1) by (auto simp: hr_kernel_set_task_effective_priority_def split: if_splits)
  obtain m where m: "hr_kernel_set_task_effective_priority (Some t) r k =
      Some (HR_OK, k\<lparr>kmem := m, tcb := (tcb k)(t := (tcb k t)\<lparr>teffective_priority := r\<rparr>)\<rparr>)"
    "kinv (k\<lparr>kmem := m, tcb := (tcb k)(t := (tcb k t)\<lparr>teffective_priority := r\<rparr>)\<rparr>)"
    "repri k (k\<lparr>kmem := m, tcb := (tcb k)(t := (tcb k t)\<lparr>teffective_priority := r\<rparr>)\<rparr>)"
    by (rule set_priority_ok [OF assms(1,2) r(2) r7])
  define k1 where "k1 = k\<lparr>kmem := m, tcb := (tcb k)(t := (tcb k t)\<lparr>teffective_priority := r\<rparr>)\<rparr>"
  note m = m [folded k1_def] and l = links_repri [OF m(3) [folded k1_def]]
  have e: "teffective_priority (tcb k1 u) = (if u = t then r else teffective_priority (tcb k u))" for u by (simp add: k1_def)
  have b: "tbase_priority (tcb k1 t) = tbase_priority (tcb k t)" by (simp add: k1_def)
  have inh: "inherited k1 t"
    unfolding inherited_def l b
  proof (intro conjI)
    show "teffective_priority (tcb k1 t) = tbase_priority (tcb k t) \<or>
        (\<exists>x u. owns k t x \<and> waits_on k u x \<and> teffective_priority (tcb k1 t) = teffective_priority (tcb k1 u))"
      using ex unfolding e by (metis (full_types))
  qed (use r(2) le in \<open>auto simp: e\<close>)
  have reg: "registered k1 t" using assms(2) by (simp add: repri_same(3) [OF m(3)])
  have nx: "next_owner k t = next_owner k1 t" by (simp add: next_owner_repri [OF m(3)])
  have run: "(if blocked (tcb k1 t) \<and> twait_kind (tcb k1 t) = HR_TASK_WAIT_MUTEX_LOCK \<and> twaiting_object (tcb k1 t) \<noteq> None
      then do {
        x \<leftarrow> wait_object_mutex (the (twaiting_object (tcb k1 t)));
        if mmagic (mcb k1 x) = HR_CFG_MUTEX_MAGIC \<and> mowner (mcb k1 x) \<noteq> None \<and>
           hr_task_is_valid (mowner (mcb k1 x)) k1 \<and> mowner (mcb k1 x) \<noteq> Some t
        then recompute_loop n (mowner (mcb k1 x)) k1 else Some (HR_OK, k1)
      }
      else Some (HR_OK, k1)) = Some (HR_OK, k')"
    using assms(3) r(1) m(1) by (simp add: blocked_def suspended_wait_def conj_assoc)
  show thesis
  proof (cases "blocked (tcb k1 t) \<and> twait_kind (tcb k1 t) = HR_TASK_WAIT_MUTEX_LOCK")
    case False
    then have "next_owner k1 t = None" by (auto simp: next_owner_def)
    then show thesis using run False by (intro that [of k1] m(2,3) inh) (auto simp: e nx)
  next
    case True
    obtain x where x: "twaiting_object (tcb k1 t) = Some (Obj_mutex x)" "mmagic (mcb k1 x) = HR_CFG_MUTEX_MAGIC"
      using waits_for_mutex [OF m(2) reg] True by (metis empty_iff)
    have v: "registered k1 u \<and> hr_task_is_valid (Some u) k1" if "mowner (mcb k1 x) = Some u" for u
      using owners_okD(6) [OF kinvD(3) [OF m(2)] x(2) that] registeredD(2) [OF m(2)] by auto
    have "next_owner k1 t = (if mowner (mcb k1 x) \<noteq> Some t then mowner (mcb k1 x) else None)"
      using True x by (simp add: next_owner_def)
    then show thesis using run True x v by (intro that [of k1] m(2,3) inh) (auto simp: e nx wait_object_mutex_def split: if_splits)
  qed
qed

definition settled :: "task_ptr list \<Rightarrow> hr_kernel \<Rightarrow> hr_kernel \<Rightarrow> bool" where
  "settled ts k k' \<longleftrightarrow>
     (\<forall>u \<in> set ts. inherited k' u) \<and> (\<forall>u. u \<notin> set ts \<longrightarrow> teffective_priority (tcb k' u) = teffective_priority (tcb k u))"

lemma recompute_chain:
  assumes "kinv k" and "registered k t" and "recompute_loop n (Some t) k = Some (HR_OK, k')"
  shows "\<exists>ts. owner_chain n k t = Some ts \<and> distinct ts \<and> settled ts k k'"
  using assms
proof (induction n arbitrary: t k)
  case (Suc n)
  show ?case
  proof (rule recompute_step [OF Suc.prems])
    fix k1 assume k1: "kinv k1" "repri k k1" "inherited k1 t"
      and eff: "\<And>u. u \<noteq> t \<Longrightarrow> teffective_priority (tcb k1 u) = teffective_priority (tcb k u)"
      and stop: "next_owner k t = None \<Longrightarrow> k' = k1"
      and go: "\<And>u. next_owner k t = Some u \<Longrightarrow> recompute_loop n (Some u) k1 = Some (HR_OK, k') \<and> registered k1 u"
    show ?case
    proof (cases "next_owner k t")
      case None
      then show ?thesis using stop k1(3) eff by (simp add: settled_def)
    next
      case (Some u)
      obtain ts where c1: "owner_chain n k1 u = Some ts" "distinct ts" and s: "settled ts k1 k'"
        using Suc.IH [OF k1(1)] go [OF Some] by blast
      have c: "owner_chain n k u = Some ts" using c1(1) owner_chain_repri [OF k1(2)] by simp
      have nt: "t \<notin> set ts" by (rule owner_chain_acyclic [OF c Some])
      obtain st k2 where "recompute_loop n (Some u) k1 = Some (st, k2)" "repri k1 k2"
        using recompute_ok [OF k1(1)] go [OF Some] by blast
      then have rp: "repri k1 k'" using go [OF Some] by simp
      have w: "teffective_priority (tcb k' w) = teffective_priority (tcb k1 w)" if "owns k1 t x" "waits_on k1 w x" for x w
      proof (cases "w = t")
        case True
        then show ?thesis using s nt by (simp add: settled_def)
      next
        case False
        have "next_owner k1 w = Some t" by (rule waits_next_owner [OF k1(1) that False])
        then have "w \<notin> set ts" using owner_chain_closed [OF c1(1)] nt by blast
        then show ?thesis using s by (simp add: settled_def)
      qed
      have tt: "teffective_priority (tcb k' t) = teffective_priority (tcb k1 t)" using s nt by (simp add: settled_def)
      have "inherited k' t"
        using k1(3) w unfolding inherited_def links_repri [OF rp] repri_same(8) [OF rp] tt by metis
      then have "settled (t # ts) k k'" using s eff by (simp add: settled_def)
      then show ?thesis using c Some c1(2) nt by simp
    qed
  qed
qed simp

lemma chain_cong:
  assumes "tcb k' = tcb k" and "mcb k' = mcb k" and "kmem k' = kmem k"
  shows "owner_chain n k' t = owner_chain n k t" and "inherited k' t = inherited k t" and "waits_on k' t x = waits_on k t x"
proof -
  have "next_owner k' u = next_owner k u" for u by (simp only: next_owner_def assms)
  then show "owner_chain n k' t = owner_chain n k t" by (induction n arbitrary: t) (simp_all cong: option.case_cong)
  show "inherited k' t = inherited k t" "waits_on k' t x = waits_on k t x"
    by (simp_all only: inherited_def owns_def waits_on_def assms)
qed

lemma owner_chain_hd: "owner_chain n k t = Some ts \<Longrightarrow> \<exists>us. ts = t # us"
  by (cases n) (auto split: option.splits)

text \<open>What \<open>hr_mutex_recompute_owner_priority\<close> achieves when it succeeds.\<close>

lemma recompute_owner_chain:
  assumes "kinv k" and "owns k ow x" and "hr_mutex_recompute_owner_priority (Some x) k = Some (HR_OK, k')"
  obtains us where "owner_chain (HR_CFG_MAX_TASKS + 1) k' ow = Some (ow # us)" and "settled (ow # us) k k'"
proof -
  note o = owned_mutex [OF assms(1,2)]
  have "recompute_loop (HR_CFG_MAX_TASKS + 1) (Some ow) k = Some (HR_OK, k')"
    using assms(2,3) o(4) by (simp add: hr_mutex_recompute_owner_priority_def hr_mutex_recompute_task_priority_def owns_def)
  note c = recompute_chain [OF assms(1) o(3) this]
  obtain st k2 where "hr_mutex_recompute_owner_priority (Some x) k = Some (st, k2)" "repri k k2"
    by (rule recompute_owner_ok [OF assms(1)])
  then have "repri k k'" using assms(3) by simp
  note e = owner_chain_repri [OF this]
  obtain ts where ts: "owner_chain (HR_CFG_MAX_TASKS + 1) k ow = Some ts" "settled ts k k'" using c by blast
  obtain us where us: "ts = ow # us" using owner_chain_hd [OF ts(1)] by blast
  show thesis by (rule that [of us]) (use e ts in \<open>simp_all only: us\<close>)
qed

text \<open>The recursion ends at once for an owner that does not wait itself.\<close>

lemma recompute_unblocked:
  assumes "kinv k" and "registered k t" and "\<not> blocked (tcb k t)" and "tbase_priority (tcb k t) < HR_CFG_IDLE_PRIORITY"
  shows "\<exists>k'. recompute_loop (Suc n) (Some t) k = Some (HR_OK, k')"
proof (rule required_spec [OF assms(1,2)])
  fix r assume r: "hr_mutex_required_priority t k = Some r" "r \<le> tbase_priority (tcb k t)"
  have r7: "r < HR_CFG_IDLE_PRIORITY" using r(2) assms(4) by simp
  show ?thesis
    by (rule set_priority_ok [OF assms(1,2) r(2) r7])
      (use r(1) assms(3) in \<open>auto simp: blocked_def suspended_wait_def\<close>)
qed

lemma recompute_task_chain:
  assumes "kinv k" and "registered k t" and "hr_mutex_recompute_task_priority (Some t) 0 k = Some (HR_OK, k')"
  obtains us where "owner_chain (HR_CFG_MAX_TASKS + 1) k t = Some (t # us)" and "settled (t # us) k k'" and "kinv k'" and "repri k k'"
proof -
  have r: "recompute_loop (HR_CFG_MAX_TASKS + 1) (Some t) k = Some (HR_OK, k')"
    using assms(3) by (simp add: hr_mutex_recompute_task_priority_def)
  obtain ts where ts: "owner_chain (HR_CFG_MAX_TASKS + 1) k t = Some ts" "settled ts k k'" using recompute_chain [OF assms(1,2) r] by blast
  obtain us where us: "ts = t # us" using owner_chain_hd [OF ts(1)] by blast
  have "kinv k'" "repri k k'" using recompute_ok [OF assms(1,2), of "HR_CFG_MAX_TASKS + 1"] r by auto
  then show thesis using that ts us by blast
qed

lemma inherited_kept:
  assumes "inherited k u" and "repri k k'" and "\<And>w. w \<noteq> t \<Longrightarrow> teffective_priority (tcb k' w) = teffective_priority (tcb k w)"
    and "u \<noteq> t" and "\<And>x. \<not> waits_on k t x"
  shows "inherited k' u"
proof -
  have "teffective_priority (tcb k' w) = teffective_priority (tcb k w)" if "waits_on k w x" for w x
    using assms(3,5) that by metis
  then show ?thesis
    using assms(1,4) unfolding inherited_def links_repri [OF assms(2)] repri_same(8) [OF assms(2)] assms(3) [OF assms(4)] by metis
qed

lemma settle_inherits:
  assumes "kinv k" and "registered k ow" and "settle (Some ow) n k = Some (HR_OK, k')"
    and "\<And>t. n = Some t \<Longrightarrow> registered k t \<and> \<not> blocked (tcb k t) \<and> t \<noteq> ow"
  shows "inherited k' ow" and "n = Some t \<Longrightarrow> inherited k' t"
proof -
  obtain k1 where k1: "hr_mutex_recompute_task_priority (Some ow) 0 k = Some (HR_OK, k1)"
    and k2: "if n = None then k' = k1 else hr_mutex_recompute_task_priority n 0 k1 = Some (HR_OK, k')"
    using assms(3) by (auto simp: settle_def split: Option.bind_splits if_splits)
  obtain us where c: "settled (ow # us) k k1" "kinv k1" "repri k k1" by (rule recompute_task_chain [OF assms(1,2) k1])
  have i: "inherited k1 ow" using c(1) by (simp add: settled_def)
  have "inherited k' ow \<and> (n = Some t \<longrightarrow> inherited k' t)"
  proof (cases n)
    case None
    then show ?thesis using k2 i by simp
  next
    case (Some u)
    have u: "registered k1 u" "\<not> blocked (tcb k1 u)" "u \<noteq> ow"
      using assms(4) [OF Some] repri_same(3,5,7) [OF c(3)] by (simp_all add: blocked_def suspended_wait_def)
    obtain vs where v: "owner_chain (HR_CFG_MAX_TASKS + 1) k1 u = Some (u # vs)" "settled (u # vs) k1 k'" "repri k1 k'"
      by (rule recompute_task_chain [OF c(2) u(1)]) (use k2 Some in auto)
    have "owner_chain (Suc 0) k1 u = Some [u]" using u(2) by (simp add: next_owner_def)
    from owner_chain_fun [OF v(1) this] have "vs = []" by simp
    then have s: "inherited k' u" "\<And>w. w \<noteq> u \<Longrightarrow> teffective_priority (tcb k' w) = teffective_priority (tcb k1 w)"
      using v(2) by (simp_all add: settled_def)
    have "\<not> waits_on k1 u x" for x using waiter_blocked(2) [OF c(2)] u(2) by (auto simp: waits_on_def)
    then have "inherited k' ow" using inherited_kept [OF i v(3) s(2)] u(3) by blast
    then show ?thesis using s(1) Some by auto
  qed
  then show "inherited k' ow" "n = Some t \<Longrightarrow> inherited k' t" by simp_all
qed

end
