(* ===== verification/HR_Example.thy ===== *)
theory HR_Example
  imports HR_System HR_Inherit_Chain
begin

text \<open>
  A small application on the kernel: the objects and tasks below are created through the API on
  the booted kernel. It shows that the hypotheses of the kernel's theorems hold in states that
  the code reaches.
\<close>

definition no_callbacks :: callbacks where
  "no_callbacks = (\<lambda>f a k. Some k)"

lemma no_callbacks_ok: "callbacks_ok no_callbacks"
  by (simp add: callbacks_ok_def no_callbacks_def)

lemma reach_call:
  assumes "reachable cbs k" and "run_op cbs op k = Some k'"
  shows "reachable cbs k'"
  by (rule reachable.step [OF assms])

definition app_task :: "task_ptr \<Rightarrow> hr_priority \<Rightarrow> hr_kernel \<Rightarrow> hr_kernel \<Rightarrow> bool" where
  "app_task t p k k' \<longleftrightarrow>
     tstate (tcb k' t) = HR_TASK_STATE_READY \<and> tmagic (tcb k' t) = HR_CFG_TASK_MAGIC \<and> tbase_priority (tcb k' t) = p \<and>
     teffective_priority (tcb k' t) = p \<and> towned_mutex_count (tcb k' t) = 0 \<and>
     (\<forall>u. u \<noteq> t \<longrightarrow> tcb k' u = tcb k u) \<and> g_task_count k' = g_task_count k + 1 \<and>
     scb k' = scb k \<and> qcb k' = qcb k \<and> mcb k' = mcb k \<and> tmcb k' = tmcb k \<and> bytes k' = bytes k \<and> primask k' = primask k \<and>
     g_kernel_state k' = g_kernel_state k \<and> inside_isr k' = inside_isr k \<and> g_kernel_tick k' = g_kernel_tick k \<and>
     g_timer_system_initialized k' = g_timer_system_initialized k"

lemma task_added:
  fixes sk :: "32 word"
  assumes "kernel_inv k" and "g_kernel_state k = HR_KERNEL_STATE_INITIALIZED"
    and "tmagic (tcb k t) \<noteq> HR_CFG_TASK_MAGIC" and "t \<noteq> g_idle_task" and "g_task_count k < HR_CFG_MAX_TASKS" and "p < HR_CFG_IDLE_PRIORITY"
    and "unat sk mod 4 = 0" and "unat sk + 4 * n < 2 ^ 32" and "32 \<le> n"
  obtains k1 k' where "hr_task_create_static (Some t) (Some name) (Some en) 0 (Some sk) n p k = (HR_OK, k1)"
    and "hr_task_start (Some t) k1 = Some (HR_OK, k')" and "app_task t p k k'"
proof -
  have kp: "kpre k" using kernel_invD(1) [OF assms(1)] kinv_kpre by blast
  have s: "17 \<le> n" "unat sk + 4 * n < 4294967296" "\<not> n < 32" using assms(8,9) by simp_all
  have p8: "p < HR_CFG_PRIORITY_COUNT" using assms(6) by (simp add: word_less_nat_alt)
  obtain sp sm where i: "hr_port_initialize_stack (Some sk) n en 0 (exit_handler k) (hr_task_fill_stack sk n (stack_mem k)) = (Some sp, sm)"
    unfolding hr_port_initialize_stack_def
    by (rule initialize_stack_frame [OF assms(7) s(2,1), of en 0 "exit_handler k" "hr_task_fill_stack sk n (stack_mem k)"])
  define k1 where "k1 = k\<lparr>kmem := task_init_nodes t p (zero_task_mem t (kmem k)),
      tcb := (tcb k)(t := new_tcb name en 0 sk n p sp), stack_mem := sm\<rparr>"
  have c: "hr_task_create_static (Some t) (Some name) (Some en) 0 (Some sk) n p k = (HR_OK, k1)"
    unfolding k1_def by (subst create_eq [OF assms(3) s(3) p8 i]) simp
  note k1 = create_ok [OF kp c]
  have e1: "g_kernel_state k1 = g_kernel_state k" "g_task_count k1 = g_task_count k" unfolding k1_def by simp_all
  have may: "may_register k1 t" using k1(4) assms(2,4,5,6) unfolding may_register_def e1 by simp
  show thesis
  proof (rule register_ok [OF k1(1) may])
    show "t = g_idle_task \<longrightarrow> tbase_priority (tcb k1 t) = HR_CFG_IDLE_PRIORITY" using assms(4) by simp
  next
    fix m k' assume r: "hr_kernel_register_task (Some t) k1 = Some (HR_OK, k')"
      and k': "k' = k1\<lparr>kmem := m, tcb := (tcb k1)(t := register_tcb (tcb k1 t)), g_task_count := g_task_count k1 + 1\<rparr>"
    have st: "hr_task_start (Some t) k1 = Some (HR_OK, k')" using r k1(4) by (simp add: hr_task_start_def)
    have t: "tcb k' t = register_tcb (new_tcb name en 0 sk n p sp)" unfolding k' k1_def by simp
    have r: "\<forall>u. u \<noteq> t \<longrightarrow> tcb k' u = tcb k u" unfolding k' k1_def by simp
    have f: "g_task_count k' = g_task_count k + 1" "scb k' = scb k" "qcb k' = qcb k" "mcb k' = mcb k" "tmcb k' = tmcb k"
      "bytes k' = bytes k" "primask k' = primask k" "g_kernel_state k' = g_kernel_state k" "inside_isr k' = inside_isr k"
      "g_kernel_tick k' = g_kernel_tick k" "g_timer_system_initialized k' = g_timer_system_initialized k"
      unfolding k' k1_def by simp_all
    have a: "app_task t p k k'" unfolding app_task_def t f
      by (intro conjI r refl) (simp_all add: register_tcb_def new_tcb_ok [OF p8])
    show thesis by (rule that [OF c st a])
  qed
qed

lemma add_task:
  fixes sk :: "32 word"
  assumes "reachable cbs k" and "callbacks_ok cbs" and "g_kernel_state k = HR_KERNEL_STATE_INITIALIZED"
    and "tmagic (tcb k t) \<noteq> HR_CFG_TASK_MAGIC" and "t \<noteq> g_idle_task" and "g_task_count k < HR_CFG_MAX_TASKS" and "p < HR_CFG_IDLE_PRIORITY"
    and "unat sk mod 4 = 0" and "unat sk + 512 < 2 ^ 32"
  obtains k' where "reachable cbs k'" and "app_task t p k k'"
proof -
  have s: "unat sk + 4 * 128 < 2 ^ 32" "32 \<le> (128 :: nat)" using assms(9) by simp_all
  obtain k1 k' where c: "hr_task_create_static (Some t) (Some ''app'') (Some 1) 0 (Some sk) 128 p k = (HR_OK, k1)"
    "hr_task_start (Some t) k1 = Some (HR_OK, k')" "app_task t p k k'"
    by (rule task_added [OF reachable_inv [OF assms(2,1)] assms(3-8) s, where name = "''app''" and en = 1])
  have r: "reachable cbs k1"
    by (rule reach_call [OF assms(1), of "Task_create (Some t) (Some ''app'') (Some 1) 0 (Some sk) 128 p"]) (simp add: in_task_def c(1))
  show thesis by (rule that [OF reach_call [OF r, of "Task_start (Some t)"] c(3)]) (simp add: in_task_def c(2))
qed

text \<open>The first timer brings up the timer service: its lists, its semaphore and its task.\<close>

lemma add_timer:
  fixes sk :: "32 word"
  assumes "reachable cbs k" and "callbacks_ok cbs" and "g_kernel_state k = HR_KERNEL_STATE_INITIALIZED"
    and "tmagic (tcb k g_timer_service_task) \<noteq> HR_CFG_TASK_MAGIC" and "g_task_count k < HR_CFG_MAX_TASKS"
    and "\<not> hr_semaphore_is_valid (Some g_timer_signal) k" and "\<not> hr_timer_is_valid (Some x) k"
    and "\<not> g_timer_system_initialized k" and "\<not> inside_isr k" and "p \<noteq> 0" and "p \<noteq> HR_WAIT_FOREVER"
    and "unat sk mod 4 = 0" and "unat sk + 640 < 2 ^ 32"
  obtains k' where "reachable cbs k'" and "tmcb k' = (tmcb k)(x := new_tmcb (Some ''t'') p True (Some 0) 0)"
    and "g_kernel_state k' = g_kernel_state k" and "g_task_count k' = g_task_count k + 1"
    and "\<And>u. u \<noteq> g_timer_service_task \<Longrightarrow> tcb k' u = tcb k u" and "teffective_priority (tcb k' g_timer_service_task) = HR_CFG_IDLE_PRIORITY - 1"
    and "\<And>s. s \<noteq> g_timer_signal \<Longrightarrow> scb k' s = scb k s" and "qcb k' = qcb k" and "mcb k' = mcb k" and "\<not> inside_isr k'"
    and "tstate (tcb k' g_timer_service_task) = HR_TASK_STATE_READY"
proof -
  let ?p = "HR_CFG_IDLE_PRIORITY - 1"
  note inv = reachable_inv [OF assms(2,1)]
  define m where "m = hr_list_init (Some PendingTimers) (hr_timeout_list_init (Some G_timer_timeouts) (g_kernel_tick k) (kmem k))"
  define k2 where "k2 = k\<lparr>kmem := m\<rparr>"
  define k3 where "k3 = k2\<lparr>kmem := new_sem_mem g_timer_signal (kmem k2), scb := (scb k2)(g_timer_signal :=
    \<lparr>scount = 0, smax_count = 1, smagic = HR_CFG_SEMAPHORE_MAGIC\<rparr>)\<rparr>"
  have i2: "kernel_inv k2" using lists_set_up [OF inv assms(8)] by (simp add: k2_def m_def)
  have v2: "\<not> hr_semaphore_is_valid (Some g_timer_signal) k2" using assms(6) by (simp add: k2_def hr_semaphore_is_valid_def)
  have c3: "hr_semaphore_create_counting (Some g_timer_signal) 0 1 k2 = (HR_OK, k3)" using v2 by (simp add: sem_create_eq k3_def)
  have i3: "kernel_inv k3" using sem_create_inv [OF i2, of "Some g_timer_signal" 0 1] c3 by simp
  have f3: "g_kernel_state k3 = g_kernel_state k" "tcb k3 = tcb k" "g_task_count k3 = g_task_count k" "tmcb k3 = tmcb k" "qcb k3 = qcb k"
    "mcb k3 = mcb k" "inside_isr k3 = inside_isr k" "\<And>s. s \<noteq> g_timer_signal \<Longrightarrow> scb k3 s = scb k s"
    unfolding k3_def k2_def by simp_all
  obtain k4 k5 where c4: "hr_task_create_static (Some g_timer_service_task) (Some ''timer-service'') (Some 1) 0 (Some sk) 160 ?p k3 = (HR_OK, k4)"
    and c5: "hr_task_start (Some g_timer_service_task) k4 = Some (HR_OK, k5)" and a: "app_task g_timer_service_task ?p k3 k5"
    by (rule task_added [OF i3, of g_timer_service_task ?p sk 160 "''timer-service''" 1])
      (use assms(3,4,5,12,13) f3(1-3) in simp_all)
  let ?k5 = "k5\<lparr>g_timer_system_initialized := True\<rparr>"
  define k' where "k' = ?k5\<lparr>kmem := new_timer_mem x (kmem k5), tmcb := (tmcb k5)(x := new_tmcb (Some ''t'') p True (Some 0) 0)\<rparr>"
  have e: "hr_timer_system_ensure_initialized 1 sk k = Some (HR_OK, ?k5)"
    using assms(3,8) c3 c4 c5 by (simp add: hr_timer_system_ensure_initialized_def hr_kernel_get_state_def hr_kernel_get_tick_def Let_def
        hr_semaphore_create_binary_def k2_def m_def)
  have "hr_timer_create_static 1 sk (Some x) (Some ''t'') p True (Some 0) 0 k = Some (HR_OK, k')"
    using e assms(7,9-11) by (simp add: hr_timer_create_static_def hr_port_is_inside_isr_def hr_timer_zero_control_block_def Let_def
        new_timer_mem_def new_tmcb_def upd_tmcb_def node_upd_defs k'_def)
  then have r: "reachable cbs k'"
    by (intro reach_call [OF assms(1), of "Timer_create 1 sk (Some x) (Some ''t'') p True (Some 0) 0"]) (simp add: in_task_def)
  have g: "tmcb k5 = tmcb k3" "g_kernel_state k5 = g_kernel_state k3" "g_task_count k5 = g_task_count k3 + 1" "scb k5 = scb k3"
    "qcb k5 = qcb k3" "mcb k5 = mcb k3" "inside_isr k5 = inside_isr k3" "teffective_priority (tcb k5 g_timer_service_task) = ?p" "tstate (tcb k5 g_timer_service_task) = HR_TASK_STATE_READY"
    "\<And>u. u \<noteq> g_timer_service_task \<Longrightarrow> tcb k5 u = tcb k3 u"
    using a unfolding app_task_def by simp_all
  have h: "g_kernel_state k' = g_kernel_state k5" "g_task_count k' = g_task_count k5" "tcb k' = tcb k5" "scb k' = scb k5" "qcb k' = qcb k5"
    "mcb k' = mcb k5" "inside_isr k' = inside_isr k5" "tmcb k' = (tmcb k5)(x := new_tmcb (Some ''t'') p True (Some 0) 0)"
    unfolding k'_def by simp_all
  show thesis by (rule that [OF r]) (simp_all only: h g f3 assms(9) not_False_eq_True)
qed

definition app_sem :: hr_semaphore_control_block where
  "app_sem = \<lparr>scount = 0, smax_count = 2, smagic = HR_CFG_SEMAPHORE_MAGIC\<rparr>"

definition app_queue :: hr_queue_control_block where
  "app_queue = \<lparr>qstorage = Some (1, 0), qitem_size = 4, qcapacity = 2, qhead = 0, qtail = 0, qcount = 0,
     qmagic = HR_CFG_QUEUE_MAGIC\<rparr>"

definition app_mutex :: hr_mutex_control_block where
  "app_mutex = \<lparr>mowner = None, mrecursion_count = 0, mrecursive = False, mmagic = HR_CFG_MUTEX_MAGIC\<rparr>"

text \<open>The kernel after boot, with a semaphore, a queue and a mutex.\<close>

lemma app_objects:
  obtains k where "reachable no_callbacks k" and "g_kernel_state k = HR_KERNEL_STATE_INITIALIZED" and "g_task_count k = 2"
    and "\<And>t. t \<noteq> g_idle_task \<Longrightarrow> t \<noteq> g_timer_service_task \<Longrightarrow> tcb k t = zero_tcb"
    and "teffective_priority (tcb k g_timer_service_task) = HR_CFG_IDLE_PRIORITY - 1" and "tmcb k 1 = new_tmcb (Some ''t'') 3 True (Some 0) 0" and "scb k 1 = app_sem" and "qcb k 1 = app_queue" and "mcb k 1 = app_mutex"
    and "\<not> inside_isr k" and "teffective_priority (tcb k g_idle_task) = HR_CFG_IDLE_PRIORITY"
    and "\<And>t. tstate (tcb k t) = HR_TASK_STATE_INVALID \<or> tstate (tcb k t) = HR_TASK_STATE_READY"
proof -
  have p: "unat (0x20000000 :: 32 word) mod 4 = 0" "unat (0x20000000 :: 32 word) + 512 < 2 ^ 32" by simp_all
  obtain k where i: "hr_kernel_init 1 0x20000000 (reset_kernel 1) = Some (HR_OK, k)" "kinv k"
    and k: "g_kernel_state k = HR_KERNEL_STATE_INITIALIZED" "g_task_count k = 1" "\<And>t. t \<noteq> g_idle_task \<Longrightarrow> tcb k t = zero_tcb"
      "scb k = (\<lambda>_. zero_scb)" "qcb k = (\<lambda>_. zero_qcb)" "mcb k = (\<lambda>_. zero_mcb)" "\<not> inside_isr k"
      "teffective_priority (tcb k g_idle_task) = HR_CFG_IDLE_PRIORITY" "tmcb k = (\<lambda>_. zero_tmcb)" "\<not> g_timer_system_initialized k"
      "tstate (tcb k g_idle_task) = HR_TASK_STATE_READY"
    by (rule kernel_init_ok [OF p, where idle_entry = 1 and x = 1]) blast
  have r: "reachable no_callbacks k" by (rule reachable.boot [OF _ i(1)]) (simp add: stack_placed_def)
  define k1 where "k1 = k\<lparr>kmem := new_sem_mem 1 (kmem k), scb := (scb k)(1 := app_sem)\<rparr>"
  define k2 where "k2 = k1\<lparr>kmem := new_queue_mem 1 (kmem k1), qcb := (qcb k1)(1 := app_queue)\<rparr>"
  define k3 where "k3 = k2\<lparr>kmem := new_mutex_mem 1 (kmem k2), mcb := (mcb k2)(1 := app_mutex)\<rparr>"
  have r1: "reachable no_callbacks k1"
    by (rule reach_call [OF r, of "Semaphore_create (Some 1) 0 2"])
      (simp add: in_task_def sem_create_eq k(4) hr_semaphore_is_valid_def zero_scb_def k1_def app_sem_def)
  have r2: "reachable no_callbacks k2"
    by (rule reach_call [OF r1, of "Queue_create (Some 1) (Some (1, 0)) 4 2"])
      (simp add: in_task_def queue_create_eq k(5) k1_def k2_def hr_queue_is_valid_def zero_qcb_def app_queue_def hr_queue_multiply_fits_def)
  have r3: "reachable no_callbacks k3"
    by (rule reach_call [OF r2, of "Mutex_create (Some 1) False"])
      (simp add: in_task_def mutex_create_eq k(6) k1_def k2_def k3_def hr_mutex_is_valid_def zero_mcb_def app_mutex_def)
  have e: "g_kernel_state k3 = g_kernel_state k" "g_task_count k3 = g_task_count k" "tcb k3 = tcb k" "inside_isr k3 = inside_isr k"
    "scb k3 = (scb k)(1 := app_sem)" "qcb k3 1 = app_queue" "mcb k3 1 = app_mutex" "tmcb k3 = tmcb k"
    "g_timer_system_initialized k3 = g_timer_system_initialized k"
    unfolding k3_def k2_def k1_def by simp_all
  have st: "g_kernel_state k3 = HR_KERNEL_STATE_INITIALIZED" "tmagic (tcb k3 g_timer_service_task) \<noteq> HR_CFG_TASK_MAGIC"
    "g_task_count k3 < HR_CFG_MAX_TASKS" "\<not> hr_semaphore_is_valid (Some g_timer_signal) k3" "\<not> hr_timer_is_valid (Some 1) k3"
    "\<not> g_timer_system_initialized k3" "\<not> inside_isr k3"
    using k(1,2,3,4,7,9,10) by (simp_all add: e zero_tcb_def hr_semaphore_is_valid_def hr_timer_is_valid_def zero_scb_def zero_tmcb_def)
  obtain k4 where r4: "reachable no_callbacks k4" and t4: "tmcb k4 = (tmcb k3)(1 := new_tmcb (Some ''t'') 3 True (Some 0) 0)"
    and k4: "g_kernel_state k4 = g_kernel_state k3" "g_task_count k4 = g_task_count k3 + 1"
      "\<And>u. u \<noteq> g_timer_service_task \<Longrightarrow> tcb k4 u = tcb k3 u" "teffective_priority (tcb k4 g_timer_service_task) = HR_CFG_IDLE_PRIORITY - 1"
      "\<And>s. s \<noteq> g_timer_signal \<Longrightarrow> scb k4 s = scb k3 s" "qcb k4 = qcb k3" "mcb k4 = mcb k3" "\<not> inside_isr k4"
      "tstate (tcb k4 g_timer_service_task) = HR_TASK_STATE_READY"
    by (rule add_timer [OF r3 no_callbacks_ok st, of 3 "0x20003000"]) (simp, simp, simp, simp, blast)
  have n: "(1 :: nat) \<noteq> g_timer_signal" "g_idle_task \<noteq> g_timer_service_task" by simp_all
  show thesis
  proof (rule that [OF r4])
    show "tcb k4 t = zero_tcb" if "t \<noteq> g_idle_task" "t \<noteq> g_timer_service_task" for t using k4(3) [OF that(2)] k(3) [OF that(1)] e(3) by simp
    show "tstate (tcb k4 t) = HR_TASK_STATE_INVALID \<or> tstate (tcb k4 t) = HR_TASK_STATE_READY" for t
      using k4(3) [of t] k4(9) k(3) [of t] k(11) e(3) by (cases "t = g_timer_service_task"; cases "t = g_idle_task") (simp_all add: zero_tcb_def)
    show "scb k4 1 = app_sem" using k4(5) [OF n(1)] e(5) by simp
    show "teffective_priority (tcb k4 g_idle_task) = HR_CFG_IDLE_PRIORITY" using k4(3) [OF n(2)] e(3) k(8) by simp
    show "tmcb k4 1 = new_tmcb (Some ''t'') 3 True (Some 0) 0" by (simp add: t4)
  qed (simp_all only: k4 e k, simp)
qed

text \<open>
  The application after \<open>hr_kernel_start\<close>: task 2 of priority 2 runs, task 3 of priority 4 and the
  idle task are ready.
\<close>

lemma app_running:
  obtains k where "reachable no_callbacks k" and "kernel_inv k" and "may_block k 2" and "tbase_priority (tcb k 2) = 2"
    and "tstate (tcb k 3) = HR_TASK_STATE_READY" and "tbase_priority (tcb k 3) = 4" and "teffective_priority (tcb k 2) = 2"
    and "teffective_priority (tcb k 3) = 4"
    and "scb k 1 = app_sem" and "qcb k 1 = app_queue" and "mcb k 1 = app_mutex" and "\<not> inside_isr k"
    and "\<And>t. \<not> blocked (tcb k t)" and "\<And>t. t \<notin> {0, 1, 2, 3} \<Longrightarrow> tstate (tcb k t) = HR_TASK_STATE_INVALID"
    and "teffective_priority (tcb k g_idle_task) = HR_CFG_IDLE_PRIORITY"
    and "teffective_priority (tcb k g_timer_service_task) = HR_CFG_IDLE_PRIORITY - 1" and "tmcb k 1 = new_tmcb (Some ''t'') 3 True (Some 0) 0"
proof -
  obtain k where r: "reachable no_callbacks k"
    and k: "g_kernel_state k = HR_KERNEL_STATE_INITIALIZED" "g_task_count k = 2"
      "\<And>t. t \<noteq> g_idle_task \<Longrightarrow> t \<noteq> g_timer_service_task \<Longrightarrow> tcb k t = zero_tcb"
      "scb k 1 = app_sem" "qcb k 1 = app_queue" "mcb k 1 = app_mutex" "\<not> inside_isr k"
      "teffective_priority (tcb k g_idle_task) = HR_CFG_IDLE_PRIORITY"
      "teffective_priority (tcb k g_timer_service_task) = HR_CFG_IDLE_PRIORITY - 1" "tmcb k 1 = new_tmcb (Some ''t'') 3 True (Some 0) 0"
      "\<And>t. tstate (tcb k t) = HR_TASK_STATE_INVALID \<or> tstate (tcb k t) = HR_TASK_STATE_READY"
    by (rule app_objects) blast
  have z: "tmagic (tcb k 2) \<noteq> HR_CFG_TASK_MAGIC" using k(3) [of 2] by (simp add: zero_tcb_def)
  obtain k1 where r1: "reachable no_callbacks k1" and a1: "app_task 2 2 k k1"
    by (rule add_task [OF r no_callbacks_ok k(1) z, of 2 "0x20001000"]) (use k(2) in simp_all)
  have z1: "tmagic (tcb k1 3) \<noteq> HR_CFG_TASK_MAGIC" using a1 k(3) [of 3] by (simp add: app_task_def zero_tcb_def)
  have s1: "g_kernel_state k1 = HR_KERNEL_STATE_INITIALIZED" "g_task_count k1 = 3" using a1 k(1,2) by (simp_all add: app_task_def)
  obtain k2 where r2: "reachable no_callbacks k2" and a2: "app_task 3 4 k1 k2"
    by (rule add_task [OF r1 no_callbacks_ok s1(1) z1, of 4 "0x20002000"]) (use s1(2) in simp_all)
  have s2: "g_kernel_state k2 = HR_KERNEL_STATE_INITIALIZED" "\<not> inside_isr k2" using a1 a2 k(1,7) by (simp_all add: app_task_def)
  note i2 = reachable_inv [OF no_callbacks_ok r2]
  show thesis
  proof (rule prepare_start_ok [OF kernel_invD(1) [OF i2] s2(1)])
    fix t ns k' assume p: "hr_kernel_prepare_start k2 = Some (HR_OK, k')"
      and k': "k' = k2\<lparr>tcb := (tcb k2)(t := start_tcb (tcb k2 t)), g_current_task := Some t,
        g_hr_current_task_control_block := Some t, g_kernel_state := HR_KERNEL_STATE_RUNNING\<rparr>"
      and t: "tstate (tcb k2 t) = HR_TASK_STATE_READY"
      and le: "\<And>u. tstate (tcb k2 u) = HR_TASK_STATE_READY \<Longrightarrow> teffective_priority (tcb k2 t) \<le> teffective_priority (tcb k2 u)"
    have c: "tstate (tcb k2 2) = HR_TASK_STATE_READY" "teffective_priority (tcb k2 2) = 2" "teffective_priority (tcb k2 3) = 4"
      "teffective_priority (tcb k2 g_idle_task) = HR_CFG_IDLE_PRIORITY" "teffective_priority (tcb k2 g_timer_service_task) = HR_CFG_IDLE_PRIORITY - 1"
      using a1 a2 k(8,9) by (simp_all add: app_task_def)
    have n: "t = 2 \<or> t = 3 \<or> t = g_idle_task \<or> t = g_timer_service_task"
    proof (rule ccontr)
      assume "\<not> ?thesis"
      then have "tcb k2 t = zero_tcb" using a1 a2 k(3) [of t] by (simp add: app_task_def)
      then show False using t by (simp add: zero_tcb_def)
    qed
    have "t \<noteq> 3" using le [OF c(1)] c(2,3) by (intro notI) simp
    moreover have "t \<noteq> g_idle_task" using le [OF c(1)] c(2,4) by (intro notI) (simp del: neq0_conv)
    moreover have "t \<noteq> g_timer_service_task" using le [OF c(1)] c(2,5) by (intro notI) (simp del: One_nat_def)
    ultimately have "t = 2" using n by blast
    have r3: "reachable no_callbacks k'"
      by (rule reach_call [OF r2, of Kernel_start]) (simp add: in_task_def hr_kernel_start_def p)
    have e: "tcb k' 2 = start_tcb (tcb k2 2)" "tcb k' 3 = tcb k2 3" "scb k' = scb k2" "qcb k' = qcb k2" "mcb k' = mcb k2" "tmcb k' = tmcb k2"
      "inside_isr k' = inside_isr k2" "g_current_task k' = Some 2" "g_kernel_state k' = HR_KERNEL_STATE_RUNNING"
      unfolding k' \<open>t = 2\<close> by simp_all
    have f: "scb k2 = scb k" "qcb k2 = qcb k" "mcb k2 = mcb k" "tmcb k2 = tmcb k" "tcb k2 2 = tcb k1 2" using a1 a2 by (simp_all add: app_task_def)
    have g: "tstate (tcb k2 3) = HR_TASK_STATE_READY" "tbase_priority (tcb k2 3) = 4" "tbase_priority (tcb k1 2) = 2"
      "teffective_priority (tcb k1 2) = 2" "teffective_priority (tcb k2 3) = 4"
      using a1 a2 by (simp_all add: app_task_def)
    have st: "tstate (tcb k2 u) = HR_TASK_STATE_INVALID \<or> tstate (tcb k2 u) = HR_TASK_STATE_READY" for u
      using a1 a2 k(11) [of u] by (cases "u = 2"; cases "u = 3") (simp_all add: app_task_def)
    have tu: "tcb k' u = (if u = 2 then start_tcb (tcb k2 2) else tcb k2 u)" for u unfolding k' \<open>t = 2\<close> by simp
    have inv: "tstate (tcb k' u) = HR_TASK_STATE_INVALID" if "u \<notin> {0, 1, 2, 3}" for u
      using tu [of u] a1 a2 k(3) [of u] that by (simp add: app_task_def zero_tcb_def)
    have prio: "teffective_priority (tcb k' g_idle_task) = HR_CFG_IDLE_PRIORITY"
      "teffective_priority (tcb k' g_timer_service_task) = HR_CFG_IDLE_PRIORITY - 1"
      using tu [of g_idle_task] tu [of g_timer_service_task] c(4,5) by simp_all
    have nb: "\<not> blocked (tcb k' u)" for u
      using st [of u] tu [of u] by (auto simp: blocked_def suspended_wait_def start_tcb_def)
    show thesis
      by (rule that [OF r3 reachable_inv [OF no_callbacks_ok r3] _ _ _ _ _ _ _ _ _ _ nb inv prio])
        (simp_all add: may_block_def start_tcb_def e f g k(4-6,10) s2(2) del: One_nat_def)
  qed
qed

text \<open>Where no task is blocked, nobody waits.\<close>

lemma no_waiters:
  assumes "kernel_inv k" and "\<And>t. \<not> blocked (tcb k t)" and "is_wait_list l" and "inited (kmem k) l"
  shows "nodes_of (kmem k) l = []"
proof (cases "nodes_of (kmem k) l")
  case (Cons n ns)
  show ?thesis
  proof (rule unblock_inv [OF assms(1,3,4) Cons, where woken = None])
    fix t assume "vwait (view (kmem k) t) = Some l"
    then show ?thesis using waiter_blocked(2) [OF kernel_invD(1) [OF assms(1)]] assms(2) by blast
  qed
qed simp

text \<open>The same application, where task 3 owns the mutex.\<close>

lemma app_owned:
  obtains k where "kernel_inv k" and "may_block k 2" and "\<not> inside_isr k" and "mowner (mcb k 1) = Some 3" and "hr_mutex_is_valid (Some 1) k"
    and "\<not> mrecursive (mcb k 1)" and "teffective_priority (tcb k 2) = 2" and "tbase_priority (tcb k 3) = 4"
    and "tstate (tcb k 3) = HR_TASK_STATE_READY" and "\<And>t. t \<notin> {0, 1, 2, 3} \<Longrightarrow> tstate (tcb k t) = HR_TASK_STATE_INVALID"
    and "teffective_priority (tcb k g_idle_task) = HR_CFG_IDLE_PRIORITY"
    and "teffective_priority (tcb k g_timer_service_task) = HR_CFG_IDLE_PRIORITY - 1" and "\<And>t. \<not> blocked (tcb k t)"
proof -
  obtain k where k: "kernel_inv k" "may_block k 2" "\<not> inside_isr k" "mcb k 1 = app_mutex" "tstate (tcb k 3) = HR_TASK_STATE_READY"
    and e: "teffective_priority (tcb k 2) = 2" "tbase_priority (tcb k 3) = 4" "teffective_priority (tcb k g_idle_task) = HR_CFG_IDLE_PRIORITY"
      "teffective_priority (tcb k g_timer_service_task) = HR_CFG_IDLE_PRIORITY - 1"
    and n: "\<And>t. \<not> blocked (tcb k t)" "\<And>t. t \<notin> {0, 1, 2, 3} \<Longrightarrow> tstate (tcb k t) = HR_TASK_STATE_INVALID"
    by (rule app_running) blast
  have m: "mmagic (mcb k 1) = HR_CFG_MUTEX_MAGIC" "mowner (mcb k 1) = None" "\<not> mrecursive (mcb k 1)" using k(4) by (simp_all add: app_mutex_def)
  have r: "registered k 3" using registered_iff [OF kernel_invD(1) [OF k(1)], of 3] k(5) by simp
  obtain m where a: "ownership 1 k (attach 1 3 m k)" "kernel_inv (attach 1 3 m k)" by (rule attach_inv [OF k(1) m(1,2) r])
  let ?k = "attach 1 3 m k"
  have f: "mowner (mcb ?k 1) = Some 3" "mmagic (mcb ?k 1) = HR_CFG_MUTEX_MAGIC" "mrecursive (mcb ?k 1) = mrecursive (mcb k 1)"
    "tstate (tcb ?k u) = tstate (tcb k u)" "teffective_priority (tcb ?k u) = teffective_priority (tcb k u)"
    "tbase_priority (tcb ?k u) = tbase_priority (tcb k u)" "blocked (tcb ?k u) = blocked (tcb k u)"
    "may_block ?k u = may_block k u" "inside_isr ?k = inside_isr k" for u
    using m(1) by (simp_all add: attach_def blocked_def suspended_wait_def may_block_def)
  show thesis
    by (rule that [OF a(2)]) (use f(1,2) mutex_valid [OF a(2)] k e n m in \<open>simp_all only: f not_False_eq_True\<close>)
qed

text \<open>Then task 2 waits for the mutex, and task 3 runs with the priority it inherits.\<close>

lemma app_waiting:
  obtains k where "kernel_inv k" and "\<not> inside_isr k" and "mowner (mcb k 1) = Some 3"
    and "hr_mutex_is_valid (Some 1) k" and "\<not> mrecursive (mcb k 1)" and "set (waiters k 1) = {WaitNode 2}"
    and "g_kernel_state k = HR_KERNEL_STATE_RUNNING" and "tstate (tcb k 2) = HR_TASK_STATE_BLOCKED"
    and "\<And>t. t \<notin> {0, 1, 2, 3} \<Longrightarrow> tstate (tcb k t) = HR_TASK_STATE_INVALID" and "tstate (tcb k 3) = HR_TASK_STATE_READY"
    and "teffective_priority (tcb k 3) \<le> 2" and "teffective_priority (tcb k g_idle_task) = HR_CFG_IDLE_PRIORITY"
    and "teffective_priority (tcb k g_timer_service_task) = HR_CFG_IDLE_PRIORITY - 1"
proof -
  obtain k where k: "kernel_inv k" "may_block k 2" "\<not> inside_isr k" "mowner (mcb k 1) = Some 3" "hr_mutex_is_valid (Some 1) k"
      "\<not> mrecursive (mcb k 1)" "tstate (tcb k 3) = HR_TASK_STATE_READY"
    and e: "teffective_priority (tcb k 2) = 2" "tbase_priority (tcb k 3) = 4" "teffective_priority (tcb k g_idle_task) = HR_CFG_IDLE_PRIORITY"
      "teffective_priority (tcb k g_timer_service_task) = HR_CFG_IDLE_PRIORITY - 1"
    and n: "\<And>t. \<not> blocked (tcb k t)" "\<And>t. t \<notin> {0, 1, 2, 3} \<Longrightarrow> tstate (tcb k t) = HR_TASK_STATE_INVALID"
    by (rule app_owned) blast
  have m: "mmagic (mcb k 1) = HR_CFG_MUTEX_MAGIC" "(3 :: nat) \<noteq> 2" "(5 :: hr_tick) \<noteq> HR_NO_WAIT" using k(5) mutex_valid [OF k(1)] by simp_all
  have l: "inited (kmem k) (MutexWaiters 1)" using m(1) owners_okD(2) [OF kinvD(3) [OF kernel_invD(1) [OF k(1)]]] by blast
  have w: "waiters k 1 = []" by (rule no_waiters [OF k(1) n(1) _ l]) simp
  show thesis
  proof (rule lock_blocks [OF k(1) m(1) k(4) m(2,3) k(2)])
    fix st k1 k2 k' assume i': "kernel_inv k'" and f': "inside_isr k' = inside_isr k" "mcb k' = mcb k"
      and en: "entered 2 (Some (MutexWaiters 1)) 5 (kmem k) (kmem k1)"
      and t1: "tcb k1 = (tcb k)(2 := block_tcb (MutexWaiters 1) (Obj_mutex 1) HR_TASK_WAIT_MUTEX_LOCK None 5 (Some Cleanup_mutex)
          (g_kernel_tick k) (tcb k 2))"
      and so: "same_objects k k1" and i1: "kernel_inv k1"
      and rc: "hr_mutex_recompute_owner_priority (Some 1) k1 = Some (st, k2)" "repri k1 k2" and ok: "st = HR_OK \<Longrightarrow> k' = k2"
      and l: "mutex_lock_locked 1 2 5 k = Some ((st, True), k')"
    note kv = kernel_invD(1) [OF i1]
    have o: "owns k1 3 1" using so k(4) m(1) by (simp add: owns_def same_objects_def)
    have u3: "\<not> blocked (tcb k1 3)" "tbase_priority (tcb k1 3) < HR_CFG_IDLE_PRIORITY" using n(1) [of 3] t1 e(2) by (simp_all add: word_less_nat_alt)
    have st: "st = HR_OK"
      using recompute_unblocked [OF kv owned_mutex(3) [OF kv o] u3, of HR_CFG_MAX_TASKS] rc(1) o owned_mutex(4) [OF kv o]
      by (auto simp: hr_mutex_recompute_owner_priority_def hr_mutex_recompute_task_priority_def owns_def)
    have k': "k' = k2" by (rule ok [OF st])
    obtain us where c: "owner_chain (HR_CFG_MAX_TASKS + 1) k2 3 = Some (3 # us)" "settled (3 # us) k1 k2"
      by (rule recompute_owner_chain [OF kv o]) (use rc(1) st in auto)
    have "next_owner k2 3 = None" using u3(1) next_owner_repri [OF rc(2)] by (simp add: next_owner_def)
    then have "owner_chain (Suc 0) k2 3 = Some [3]" by simp
    from owner_chain_fun [OF c(1) this] have "us = []" by simp
    then have s: "inherited k2 3" "\<And>u. u \<noteq> 3 \<Longrightarrow> teffective_priority (tcb k2 u) = teffective_priority (tcb k1 u)"
      using c(2) by (simp_all add: settled_def)
    have wt: "waits_on k2 2 1" "owns k2 3 1" using en links_repri [OF rc(2)] o by (simp_all add: entered_def waits_on_def)
    have b2: "teffective_priority (tcb k2 2) = 2" using s(2) [of 2] t1 e(1) by (simp add: block_tcb_def)
    then have p3: "teffective_priority (tcb k2 3) \<le> 2" using s(1) wt unfolding inherited_def by metis
    have ts: "tstate (tcb k2 u) = tstate (tcb k1 u)" for u by (rule repri_same(5) [OF rc(2)])
    have ws: "set (waiters k2 1) = {WaitNode 2}"
    proof -
      have "waiters k1 1 = [WaitNode 2]" using en l w \<open>inited (kmem k) (MutexWaiters 1)\<close> by (simp add: entered_def)
      moreover have "inited (kmem k1) (MutexWaiters 1)" by (rule owned_mutex(1) [OF kv o])
      ultimately show ?thesis using repriD(7) [OF rc(2), of "MutexWaiters 1"] by simp
    qed
    have g: "g_kernel_state k' = HR_KERNEL_STATE_RUNNING"
      using repri_frame(6) [OF rc(2)] so k(2) by (simp add: k' same_objects_def may_block_def)
    show thesis
    proof (rule that [OF i' _ _ _ _ _ g])
      show "tstate (tcb k' t) = HR_TASK_STATE_INVALID" if "t \<notin> {0, 1, 2, 3}" for t using n(2) [OF that] ts [of t] t1 that by (simp add: k')
      show "teffective_priority (tcb k' g_idle_task) = HR_CFG_IDLE_PRIORITY"
        "teffective_priority (tcb k' g_timer_service_task) = HR_CFG_IDLE_PRIORITY - 1"
        using s(2) [of g_idle_task] s(2) [of g_timer_service_task] t1 e(3,4) by (simp_all add: k')
      show "tstate (tcb k' 2) = HR_TASK_STATE_BLOCKED" "tstate (tcb k' 3) = HR_TASK_STATE_READY"
        using ts [of 2] ts [of 3] t1 k(7) by (simp_all add: k' block_tcb_def)
    qed (use f' k ws p3 mutex_valid [OF i'] m(1) in \<open>simp_all add: k'\<close>)
  qed
qed

text \<open>Task 3 is dispatched, with task 2 waiting for the mutex it owns.\<close>

lemma app_handover:
  obtains k where "kernel_inv k" and "may_block k 3" and "\<not> inside_isr k" and "mowner (mcb k 1) = Some 3"
    and "hr_mutex_is_valid (Some 1) k" and "\<not> mrecursive (mcb k 1)" and "set (waiters k 1) = {WaitNode 2}"
proof -
  obtain k where k: "kernel_inv k" "\<not> inside_isr k" "mowner (mcb k 1) = Some 3"
      "hr_mutex_is_valid (Some 1) k" "\<not> mrecursive (mcb k 1)" "set (waiters k 1) = {WaitNode 2}"
      "g_kernel_state k = HR_KERNEL_STATE_RUNNING" "tstate (tcb k 2) = HR_TASK_STATE_BLOCKED" "tstate (tcb k 3) = HR_TASK_STATE_READY"
    and n: "\<And>t. t \<notin> {0, 1, 2, 3} \<Longrightarrow> tstate (tcb k t) = HR_TASK_STATE_INVALID"
    and e: "teffective_priority (tcb k 3) \<le> 2" "teffective_priority (tcb k g_idle_task) = HR_CFG_IDLE_PRIORITY"
      "teffective_priority (tcb k g_timer_service_task) = HR_CFG_IDLE_PRIORITY - 1"
    by (rule app_waiting) blast
  note kv = kernel_invD(1) [OF k(1)]
  obtain cur where cur: "g_current_task k = Some cur" by (rule current_task_running [OF kv k(7)])
  obtain k2 where k2: "pendsv_exception k = Some k2" "kernel_inv k2" by (rule pendsv_inv [OF k(1,7)]) blast
  have l: "inited (kmem k) (MutexWaiters 1)"
    using mutex_valid [OF k(1)] k(4) owners_okD(2) [OF kinvD(3) [OF kv]] by blast
  show thesis
  proof (rule pendsv_ok [OF kv k(7) cur])
    fix t ns k' assume p: "pendsv_exception k = Some k'" "same_but_run k k'" "g_current_task k' = Some t" "tstate (tcb k' t) = HR_TASK_STATE_RUNNING"
      and r: "\<And>u. runnable (tstate (tcb k' u)) \<longleftrightarrow> runnable (tstate (tcb k u))"
      and le: "\<And>u. runnable (tstate (tcb k u)) \<Longrightarrow> teffective_priority (tcb k' t) \<le> teffective_priority (tcb k u)"
    have "teffective_priority (tcb k t) \<le> 2"
      using le [of 3] k(9) e(1) same_but_run_priority [OF p(2), of t] by (simp add: runnable_def)
    then have "t \<noteq> g_idle_task" "t \<noteq> g_timer_service_task" using e(2,3) by (intro notI, simp)+
    moreover have "runnable (tstate (tcb k t))" using r [of t] p(4) by (simp add: runnable_def)
    then have "t \<noteq> 2 \<and> tstate (tcb k t) \<noteq> HR_TASK_STATE_INVALID" using k(8) by (auto simp: runnable_def)
    then have "t \<noteq> 2" "t \<in> {0, 1, 2, 3}" using n [of t] by blast+
    ultimately have t: "t = 3" by auto
    note sb = p(2) [unfolded same_but_run_def same_objects_def]
    have f: "mcb k' = mcb k" "inside_isr k' = inside_isr k" "waiters k' 1 = waiters k 1" "g_kernel_state k' = g_kernel_state k"
      using sb l by simp_all
    have i: "kernel_inv k'" using k2 p(1) by simp
    show thesis by (rule that [OF i]) (use f k p(3,4) t mutex_valid [OF i] mutex_valid [OF k(1)] in \<open>simp_all add: may_block_def\<close>)
  qed
qed

end
