(* ===== verification/HR_Liveness.thy ===== *)
theory HR_Liveness
  imports HR_System
begin

text \<open>
  Sequences of operations, and the tasks that wait with a timeout while the clock runs: the
  system tick interrupt and PendSV in any order.
\<close>

fun run_ops :: "callbacks \<Rightarrow> operation list \<Rightarrow> hr_kernel \<Rightarrow> hr_kernel option" where
  "run_ops cbs [] k = Some k"
| "run_ops cbs (op # ops) k = do { k \<leftarrow> run_op cbs op k; run_ops cbs ops k }"

lemma run_ops_append:
  "run_ops cbs (ops @ ops') k = do { k \<leftarrow> run_ops cbs ops k; run_ops cbs ops' k }"
  by (induction ops arbitrary: k) (auto split: Option.bind_splits)

lemma run_ops_reachable:
  "reachable cbs k \<Longrightarrow> run_ops cbs ops k = Some k' \<Longrightarrow> reachable cbs k'"
  by (induction ops arbitrary: k) (auto split: Option.bind_splits intro: reachable.step)

section \<open>Waiting with a timeout\<close>

definition armed :: "task_ptr \<Rightarrow> list_addr option \<Rightarrow> hr_task_wait_kind \<Rightarrow> hr_tick \<Rightarrow> hr_kernel \<Rightarrow> bool" where
  "armed t wl kind d k \<longleftrightarrow>
     kernel_inv k \<and> g_kernel_state k = HR_KERNEL_STATE_RUNNING \<and> tstate (tcb k t) = HR_TASK_STATE_BLOCKED \<and>
     twait_kind (tcb k t) = kind \<and> vtimeout (view (kmem k) t) \<noteq> None \<and> vwait (view (kmem k) t) = wl \<and>
     remaining (kmem k) G_timeout_list (TimeoutNode t) = d"

lemma tickedD:
  assumes "ticked k k'"
  shows "g_kernel_tick k' = g_kernel_tick k + 1" and "g_kernel_state k' = g_kernel_state k"
    and "vtimeout (view (kmem k) t) \<noteq> None \<Longrightarrow> remaining (kmem k) G_timeout_list (TimeoutNode t) = 1 \<Longrightarrow>
      woken_as (tcb k t) (tcb k' t) \<and> twait_result (tcb k' t) = timeout_status (tcb k t)"
    and "remaining (kmem k) G_timeout_list (TimeoutNode t) \<noteq> 1 \<Longrightarrow> vwait (view (kmem k) t) \<noteq> Some (SemaphoreWaiters g_timer_signal) \<Longrightarrow>
      tstate (tcb k' t) = tstate (tcb k t) \<and> twait_kind (tcb k' t) = twait_kind (tcb k t) \<and>
      vwait (view (kmem k') t) = vwait (view (kmem k) t) \<and> vtimeout (view (kmem k') t) = vtimeout (view (kmem k) t) \<and>
      remaining (kmem k') G_timeout_list (TimeoutNode t) = remaining (kmem k) G_timeout_list (TimeoutNode t) - 1"
    and "tmcb k' x = (if timer_due k x then expire_tmcb (tmcb k x) else tmcb k x)"
    and "hr_timer_is_active (Some x) k \<Longrightarrow> remaining (kmem k') G_timer_timeouts (TimerNode x) =
        (if timer_due k x \<and> tmauto_reload (tmcb k x) then tmperiod_ticks (tmcb k x)
         else remaining (kmem k) G_timer_timeouts (TimerNode x) - 1)"
proof -
  note a = assms [unfolded ticked_def]
  show "g_kernel_tick k' = g_kernel_tick k + 1" "g_kernel_state k' = g_kernel_state k"
    "tmcb k' x = (if timer_due k x then expire_tmcb (tmcb k x) else tmcb k x)" using a by (blast, blast, blast)
  show "vtimeout (view (kmem k) t) \<noteq> None \<Longrightarrow> remaining (kmem k) G_timeout_list (TimeoutNode t) = 1 \<Longrightarrow>
      woken_as (tcb k t) (tcb k' t) \<and> twait_result (tcb k' t) = timeout_status (tcb k t)" using a by blast
  show "hr_timer_is_active (Some x) k \<Longrightarrow> remaining (kmem k') G_timer_timeouts (TimerNode x) =
        (if timer_due k x \<and> tmauto_reload (tmcb k x) then tmperiod_ticks (tmcb k x)
         else remaining (kmem k) G_timer_timeouts (TimerNode x) - 1)" using a by blast
  assume "remaining (kmem k) G_timeout_list (TimeoutNode t) \<noteq> 1" "vwait (view (kmem k) t) \<noteq> Some (SemaphoreWaiters g_timer_signal)"
  then have "(\<exists>p r q. tcb k' t = clock_upd r q ((tcb k t)\<lparr>teffective_priority := p\<rparr>)) \<and>
      vwait (view (kmem k') t) = vwait (view (kmem k) t) \<and> vtimeout (view (kmem k') t) = vtimeout (view (kmem k) t) \<and>
      remaining (kmem k') G_timeout_list (TimeoutNode t) = remaining (kmem k) G_timeout_list (TimeoutNode t) - 1"
    using a by blast
  then show "tstate (tcb k' t) = tstate (tcb k t) \<and> twait_kind (tcb k' t) = twait_kind (tcb k t) \<and>
      vwait (view (kmem k') t) = vwait (view (kmem k) t) \<and> vtimeout (view (kmem k') t) = vtimeout (view (kmem k) t) \<and>
      remaining (kmem k') G_timeout_list (TimeoutNode t) = remaining (kmem k) G_timeout_list (TimeoutNode t) - 1"
    by (auto simp: clock_upd_def)
qed

lemma ticked_isr: "ticked (k\<lparr>inside_isr := b\<rparr>) (k'\<lparr>inside_isr := c\<rparr>) \<Longrightarrow> ticked k k'"
  unfolding ticked_def timer_due_def hr_timer_is_active_def hr_timer_is_valid_def by (simp cong: if_cong)

lemma tick_running:
  assumes "kernel_inv k" and "g_kernel_state k = HR_KERNEL_STATE_RUNNING"
  obtains k' where "tick_interrupt k = Some k'" and "kernel_inv k'" and "g_kernel_state k' = HR_KERNEL_STATE_RUNNING" and "ticked k k'"
proof -
  obtain k' where k': "tick_interrupt k = Some k'" "kernel_inv k'" "ticked (k\<lparr>inside_isr := True\<rparr>) (k'\<lparr>inside_isr := True\<rparr>)"
    by (rule tick_interrupt_inv [OF assms(1)]) (use assms(2) in blast)
  note t = ticked_isr [OF k'(3)]
  show thesis by (rule that [OF k'(1,2) _ t]) (use tickedD(2) [OF t] assms(2) in simp)
qed

lemma armed_tick:
  assumes "armed t wl kind d k" and "wl \<noteq> Some (SemaphoreWaiters g_timer_signal)"
  obtains k' where "tick_interrupt k = Some k'" and "kernel_inv k'" and "g_kernel_state k' = HR_KERNEL_STATE_RUNNING"
    and "d \<noteq> 1 \<Longrightarrow> armed t wl kind (d - 1) k'"
    and "d = 1 \<Longrightarrow> tstate (tcb k' t) = HR_TASK_STATE_READY \<and>
      twait_result (tcb k' t) = (if kind = HR_TASK_WAIT_DELAY then HR_OK else HR_ERROR_TIMEOUT)"
proof -
  note a = assms(1) [unfolded armed_def]
  have inv: "kernel_inv k" and st: "g_kernel_state k = HR_KERNEL_STATE_RUNNING" using a by simp_all
  obtain k' where k': "tick_interrupt k = Some k'" "kernel_inv k'" "g_kernel_state k' = HR_KERNEL_STATE_RUNNING" "ticked k k'"
    by (rule tick_running [OF inv st])
  note t = tickedD(3,4) [OF k'(4), of t]
  have 1: "armed t wl kind (d - 1) k'" if "d \<noteq> 1" using t(2) a that assms(2) k'(2,3) by (simp add: armed_def)
  have 2: "tstate (tcb k' t) = HR_TASK_STATE_READY \<and>
      twait_result (tcb k' t) = (if kind = HR_TASK_WAIT_DELAY then HR_OK else HR_ERROR_TIMEOUT)" if "d = 1"
    using t(1) a that by (auto simp: woken_as_def woken_tcb_def timeout_status_def)
  show thesis by (rule that [OF k'(1,2,3) 1 2])
qed

lemma armed_pendsv:
  assumes "armed t wl kind d k"
  obtains k' where "pendsv_exception k = Some k'" and "armed t wl kind d k'"
proof -
  note a = assms [unfolded armed_def]
  have inv: "kinv k" "kernel_inv k" and st: "g_kernel_state k = HR_KERNEL_STATE_RUNNING" using a kernel_invD(1) by auto
  obtain cur where cur: "g_current_task k = Some cur" by (rule current_task_running [OF inv(1) st])
  show thesis
  proof (rule pendsv_ok [OF inv(1) st cur])
    fix u ns k' assume p: "pendsv_exception k = Some k'" and s: "same_but_run k k'"
      and r: "\<And>u. \<not> runnable (tstate (tcb k u)) \<Longrightarrow> tstate (tcb k' u) = tstate (tcb k u)"
    note sb = s [unfolded same_but_run_def same_objects_def]
    obtain k2 where "pendsv_exception k = Some k2" "kernel_inv k2" by (rule pendsv_inv [OF inv(2) st]) blast
    then have i: "kernel_inv k'" using p by simp
    have "tcb k' t = (tcb k t)\<lparr>tstate := tstate (tcb k' t), ttime_slice_remaining := ttime_slice_remaining (tcb k' t)\<rparr>" using sb by blast
    from arg_cong [OF this, of twait_kind] have kind: "twait_kind (tcb k' t) = twait_kind (tcb k t)" by simp
    have rm: "remaining (kmem k') G_timeout_list = remaining (kmem k) G_timeout_list"
      using same_timeouts_ok(3) [OF _ mem_okD(4) [OF kinvD(1) [OF inv(1)]]] sb by blast
    have v: "view (kmem k') = view (kmem k)" "g_kernel_state k' = g_kernel_state k" using sb by simp_all
    have "armed t wl kind d k'" using a i kind rm v r [of t] by (simp add: armed_def runnable_def)
    then show thesis by (rule that [OF p])
  qed
qed

abbreviation clock_step :: "operation \<Rightarrow> bool" where
  "clock_step op \<equiv> op = Tick \<or> op = PendSV"

lemma tick_countdown:
  fixes d :: hr_tick
  assumes "n + 1 < unat d"
  shows "d \<noteq> 1" and "n < unat (d - 1)"
proof -
  show "d \<noteq> 1" using assms by auto
  have "d \<noteq> 0" using assms by auto
  then show "n < unat (d - 1)" using assms by (simp add: unat_minus_one)
qed

text \<open>A waiting task stays blocked for as many ticks as its timeout allows, and no longer.\<close>

lemma armed_run:
  assumes "armed t wl kind d k" and "wl \<noteq> Some (SemaphoreWaiters g_timer_signal)" and "list_all clock_step ops"
    and "count_list ops Tick < unat d"
  shows "\<exists>k'. run_ops cbs ops k = Some k' \<and> armed t wl kind (d - of_nat (count_list ops Tick)) k'"
  using assms
proof (induction ops arbitrary: k d)
  case Nil
  then show ?case by simp
next
  case (Cons op ops)
  consider "op = Tick" | "op = PendSV" using Cons.prems(3) by auto
  then show ?case
  proof cases
    case 1
    have n: "d \<noteq> 1" "count_list ops Tick < unat (d - 1)"
      using tick_countdown [of "count_list ops Tick" d] Cons.prems(4) 1 by (simp_all del: One_nat_def)
    obtain k' where k': "tick_interrupt k = Some k'" "armed t wl kind (d - 1) k'"
      by (rule armed_tick [OF Cons.prems(1,2)]) (use n(1) in blast)
    show ?thesis using Cons.IH [OF k'(2) assms(2) _ n(2)] k'(1) 1 Cons.prems(3) by (simp add: algebra_simps)
  next
    case 2
    obtain k' where k': "pendsv_exception k = Some k'" "armed t wl kind d k'" by (rule armed_pendsv [OF Cons.prems(1)])
    have "hr_kernel_is_running k" using Cons.prems(1) by (simp add: armed_def hr_kernel_is_running_def)
    then show ?thesis using Cons.IH [OF k'(2) assms(2)] Cons.prems(3,4) k'(1) 2 by simp
  qed
qed

lemma armed_expires:
  assumes "armed t wl kind d k" and "wl \<noteq> Some (SemaphoreWaiters g_timer_signal)" and "list_all clock_step ops"
    and "count_list ops Tick + 1 = unat d"
  shows "\<exists>k'. run_ops cbs (ops @ [Tick]) k = Some k' \<and> kernel_inv k' \<and> tstate (tcb k' t) = HR_TASK_STATE_READY \<and>
    twait_result (tcb k' t) = (if kind = HR_TASK_WAIT_DELAY then HR_OK else HR_ERROR_TIMEOUT)"
proof -
  have c: "count_list ops Tick < unat d" using assms(4) by simp
  obtain k1 where k1: "run_ops cbs ops k = Some k1" "armed t wl kind (d - of_nat (count_list ops Tick)) k1"
    using armed_run [OF assms(1-3) c] by blast
  have "d = of_nat (count_list ops Tick) + 1" using arg_cong [OF assms(4), of "of_nat :: nat \<Rightarrow> 32 word"] by (simp add: add.commute)
  then have a: "armed t wl kind 1 k1" using k1(2) by simp
  obtain k' where "tick_interrupt k1 = Some k'" "kernel_inv k'" "tstate (tcb k' t) = HR_TASK_STATE_READY"
      "twait_result (tcb k' t) = (if kind = HR_TASK_WAIT_DELAY then HR_OK else HR_ERROR_TIMEOUT)"
    by (rule armed_tick [OF a assms(2)]) blast
  then show ?thesis using k1(1) by (simp add: run_ops_append)
qed

section \<open>Periodic timers\<close>

definition periodic :: "timer_ptr \<Rightarrow> hr_tick \<Rightarrow> nat \<Rightarrow> hr_tick \<Rightarrow> hr_kernel \<Rightarrow> bool" where
  "periodic x p c r k \<longleftrightarrow>
     kernel_inv k \<and> g_kernel_state k = HR_KERNEL_STATE_RUNNING \<and> hr_timer_is_active (Some x) k \<and> tmauto_reload (tmcb k x) \<and>
     tmperiod_ticks (tmcb k x) = p \<and> unat (tmpending_count (tmcb k x)) = c \<and>
     remaining (kmem k) G_timer_timeouts (TimerNode x) = r"

lemma unat_tick_next:
  fixes w :: "32 word"
  assumes "unat w < unat UINT32_MAX"
  shows "unat (w + 1) = unat w + 1"
  using assms by (simp add: unat_word_ariths)

lemma periodic_tick:
  assumes "periodic x p c r k" and "r = 1 \<Longrightarrow> c < unat UINT32_MAX"
  obtains k' where "tick_interrupt k = Some k'" and "periodic x p (if r = 1 then c + 1 else c) (if r = 1 then p else r - 1) k'"
proof -
  note a = assms(1) [unfolded periodic_def]
  have inv: "kernel_inv k" and st: "g_kernel_state k = HR_KERNEL_STATE_RUNNING" and act: "hr_timer_is_active (Some x) k" using a by simp_all
  obtain k' where k': "tick_interrupt k = Some k'" "kernel_inv k'" "g_kernel_state k' = HR_KERNEL_STATE_RUNNING" "ticked k k'"
    by (rule tick_running [OF inv st])
  note t = tickedD(5,6) [OF k'(4), of x]
  have due: "timer_due k x \<longleftrightarrow> r = 1" using a by (simp add: timer_due_def)
  have "tmpending_count (tmcb k x) < UINT32_MAX \<and> unat (tmpending_count (tmcb k x) + 1) = c + 1" if "r = 1"
    using a assms(2) [OF that] unat_tick_next [of "tmpending_count (tmcb k x)"] by (simp add: word_less_nat_alt)
  then have "periodic x p (if r = 1 then c + 1 else c) (if r = 1 then p else r - 1) k'"
    using a t(1) t(2) [OF act] k'(2,3) due
    by (auto simp: periodic_def hr_timer_is_active_def hr_timer_is_valid_def expire_tmcb_def)
  then show thesis by (rule that [OF k'(1)])
qed

lemma periodic_pendsv:
  assumes "periodic x p c r k"
  obtains k' where "pendsv_exception k = Some k'" and "periodic x p c r k'"
proof -
  note a = assms [unfolded periodic_def]
  have inv: "kinv k" "kernel_inv k" and st: "g_kernel_state k = HR_KERNEL_STATE_RUNNING" using a kernel_invD(1) by auto
  obtain cur where cur: "g_current_task k = Some cur" by (rule current_task_running [OF inv(1) st])
  show thesis
  proof (rule pendsv_ok [OF inv(1) st cur])
    fix u ns k' assume p: "pendsv_exception k = Some k'" and s: "same_but_run k k'"
    note sb = s [unfolded same_but_run_def same_objects_def]
    obtain k2 where "pendsv_exception k = Some k2" "kernel_inv k2" by (rule pendsv_inv [OF inv(2) st]) blast
    then have i: "kernel_inv k'" using p by simp
    have ti: "g_timer_system_initialized k" "tcurrent (timeout_lists (kmem k) G_timer_timeouts) \<noteq> None"
      using timer_valid(1,2,6) [OF kernel_invD(4) [OF inv(2), unfolded timers_ok_def]] a by (auto simp: hr_timer_is_active_def)
    have rm: "remaining (kmem k') G_timer_timeouts = remaining (kmem k) G_timer_timeouts"
      using same_timeouts_ok(3) [OF _ mem_okD(5) [OF kinvD(1) [OF inv(1)] ti(2)]] sb by blast
    have v: "tmcb k' = tmcb k" "g_kernel_state k' = g_kernel_state k" using sb by simp_all
    have "periodic x p c r k'" using a i rm v by (auto simp: periodic_def hr_timer_is_active_def hr_timer_is_valid_def)
    then show thesis by (rule that [OF p])
  qed
qed

text \<open>
  After \<open>n\<close> ticks a periodic timer with \<open>r\<close> ticks to go has expired \<open>(n + p - r) div p\<close> times.
\<close>

definition expiries :: "nat \<Rightarrow> nat \<Rightarrow> nat \<Rightarrow> nat" where
  "expiries p r n = (n + p - r) div p"

lemma expiries_0: "0 < r \<Longrightarrow> r \<le> p \<Longrightarrow> expiries p r 0 = 0"
  by (simp add: expiries_def)

lemma expiries_due: "0 < p \<Longrightarrow> expiries p 1 (Suc n) = Suc (expiries p p n)"
  by (simp add: expiries_def div_add_self2)

lemma expiries_step: "expiries p (Suc r) (Suc n) = expiries p r n"
  by (simp add: expiries_def)

lemma periodic_run:
  assumes "periodic x p c r k" and "r \<noteq> 0" and "r \<le> p" and "list_all clock_step ops"
    and "c + expiries (unat p) (unat r) (count_list ops Tick) \<le> unat UINT32_MAX"
  shows "\<exists>k' r'. run_ops cbs ops k = Some k' \<and> periodic x p (c + expiries (unat p) (unat r) (count_list ops Tick)) r' k'"
  using assms
proof (induction ops arbitrary: k c r)
  case Nil
  have "0 < unat r" "unat r \<le> unat p" using Nil.prems(2,3) by (simp_all add: word_le_nat_alt unat_gt_0)
  then show ?case using Nil expiries_0 by auto
next
  case (Cons op ops)
  note r = Cons.prems(2,3)
  have r0: "0 < unat r" "unat r \<le> unat p" using r by (simp_all add: unat_gt_0 word_le_nat_alt)
  then have p: "p \<noteq> 0" "0 < unat p" by auto
  consider "op = Tick" "r = 1" | "op = Tick" "r \<noteq> 1" | "op = PendSV" using Cons.prems(4) by auto
  then show ?case
  proof cases
    case 1
    have e: "expiries (unat p) (unat r) (count_list (op # ops) Tick) = Suc (expiries (unat p) (unat p) (count_list ops Tick))"
      using expiries_due [OF p(2)] 1 by simp
    obtain k' where k': "tick_interrupt k = Some k'" "periodic x p (c + 1) p k'"
      by (rule periodic_tick [OF Cons.prems(1)]) (use 1 Cons.prems(5) e in auto)
    show ?thesis using Cons.IH [OF k'(2) p(1) order_refl] Cons.prems(4,5) e k'(1) 1 by auto
  next
    case 2
    have u: "unat (r - 1) = unat r - 1" using r(1) by (simp add: unat_minus_one)
    have s: "unat r = Suc (unat (r - 1))" "r - 1 \<noteq> 0" "r - 1 \<le> p" using 2(2) u r0 by (simp_all add: word_le_nat_alt)
    have e: "expiries (unat p) (unat r) (count_list (op # ops) Tick) = expiries (unat p) (unat (r - 1)) (count_list ops Tick)"
      using expiries_step 2 s(1) by simp
    obtain k' where k': "tick_interrupt k = Some k'" "periodic x p c (r - 1) k'" 
      by (rule periodic_tick [OF Cons.prems(1) _]) (use 2 in \<open>simp_all\<close>)
    show ?thesis using Cons.IH [OF k'(2) s(2,3)] Cons.prems(4,5) e k'(1) 2 by auto
  next
    case 3
    obtain k' where k': "pendsv_exception k = Some k'" "periodic x p c r k'" by (rule periodic_pendsv [OF Cons.prems(1)])
    have "hr_kernel_is_running k" using Cons.prems(1) by (simp add: periodic_def hr_kernel_is_running_def)
    then show ?thesis using Cons.IH [OF k'(2) r] Cons.prems(4,5) k'(1) 3 by simp
  qed
qed

end
