(* ===== verification/HR_Kernel_Properties.thy ===== *)
theory HR_Kernel_Properties
  imports HR_Example HR_Liveness HR_Inherit_Chain
begin


lemma unlock_release:
  assumes "hr_mutex_is_valid (Some x) k" and "\<not> inside_isr k" and "g_current_task k = Some t" and "tmagic (tcb k t) = HR_CFG_TASK_MAGIC"
    and "mowner (mcb k x) = Some t" and "\<not> (mrecursive (mcb k x) \<and> mrecursion_count (mcb k x) > 1)"
    and "mutex_release x (k\<lparr>primask := 1\<rparr>) = Some (Inr (st, w), k1)"
  shows "hr_mutex_unlock (Some x) k = Some (st, if st = HR_OK \<and> w
    then hr_port_request_context_switch (hr_port_exit_critical (primask k) k1) else hr_port_exit_critical (primask k) k1)"
  using assms by (auto simp: hr_mutex_unlock_def hr_port_is_inside_isr_def hr_task_current_def
      hr_kernel_current_task_internal_def hr_port_enter_critical_def Let_def)

section \<open>Reachable states\<close>

text \<open>
  C1: In every state the kernel can reach from boot by API calls, system ticks and context
  switches, in any order and with any arguments, the kernel invariant holds (lists, task states,
  semaphores, queues, mutexes and timers are consistent), the kernel has not panicked, and every
  operation returns: no NULL pointer is followed and no loop runs forever.
\<close>

theorem reachable_sound:
  assumes "callbacks_ok cbs" and "reachable cbs k"
  shows "kernel_inv k \<and> g_kernel_state k \<noteq> HR_KERNEL_STATE_PANIC \<and> (\<forall>op. \<exists>k'. run_op cbs op k = Some k' \<and> kernel_inv k')"
proof -
  have i: "kernel_inv k" by (rule reachable_inv [OF assms])
  have "g_kernel_state k \<noteq> HR_KERNEL_STATE_PANIC"
    using kinvD(4) [OF kernel_invD(1) [OF i]] by (auto simp: current_ok_def)
  then show ?thesis using i run_op_inv [OF assms(1) i] by blast
qed

theorem reachable_sound_witness:
  "\<exists>k. reachable no_callbacks k \<and> kernel_inv k \<and> (\<exists>k'. run_op no_callbacks (Semaphore_take (Some 1) 5) k = Some k' \<and> kernel_inv k')"
proof -
  obtain k where "reachable no_callbacks k" by (rule app_running)
  then show ?thesis using reachable_sound [OF no_callbacks_ok] by blast
qed

text \<open>
  C13: In every reachable state at most one task is RUNNING, and it is the current task; the ready
  lists hold exactly the tasks that are READY or RUNNING; and no task runs below its base
  priority.
\<close>

theorem task_states_consistent:
  assumes "callbacks_ok cbs" and "reachable cbs k"
  shows "(tstate (tcb k t) = HR_TASK_STATE_RUNNING \<longrightarrow> g_current_task k = Some t) \<and>
    (ReadyNode t \<in> set (ready_seq (kmem k) G_scheduler) \<longleftrightarrow>
       tstate (tcb k t) = HR_TASK_STATE_READY \<or> tstate (tcb k t) = HR_TASK_STATE_RUNNING) \<and>
    (teffective_priority (tcb k t) \<le> tbase_priority (tcb k t) \<or> tstate (tcb k t) = HR_TASK_STATE_INVALID)"
proof -
  have kv: "kinv k" by (rule kernel_invD(1) [OF reachable_inv [OF assms]])
  have 1: "tstate (tcb k t) = HR_TASK_STATE_RUNNING \<longrightarrow> g_current_task k = Some t"
    using kinvD(4) [OF kv] by (auto simp: current_ok_def)
  have 2: "ReadyNode t \<in> set (ready_seq (kmem k) G_scheduler) \<longleftrightarrow> runnable (tstate (tcb k t))"
    using ready_member [OF kv, of "ReadyNode t"] runnable_ready(1) [OF kv, of t] by (metis node_addr.inject(2))
  have 3: "teffective_priority (tcb k t) \<le> tbase_priority (tcb k t) \<or> tstate (tcb k t) = HR_TASK_STATE_INVALID"
    using kinvD(8) [OF kv, of t] by (auto simp: task_ok_def created_ok_def registered_ok_def prio_ok_def split: if_splits)
  show ?thesis using 1 2 3 by (auto simp: runnable_def)
qed

theorem task_states_consistent_witness:
  "\<exists>k. reachable no_callbacks k \<and> tstate (tcb k 2) = HR_TASK_STATE_RUNNING \<and> g_current_task k = Some 2 \<and>
    ReadyNode 3 \<in> set (ready_seq (kmem k) G_scheduler)"
proof -
  obtain k where k: "reachable no_callbacks k" "may_block k 2" "tstate (tcb k 3) = HR_TASK_STATE_READY" by (rule app_running)
  show ?thesis
    using k task_states_consistent [OF no_callbacks_ok k(1), of 2] task_states_consistent [OF no_callbacks_ok k(1), of 3]
    by (intro exI [of _ k]) (simp add: may_block_def)
qed

text \<open>
  C14: In every reachable state a semaphore holds at most its maximum and tasks wait for it only
  when it is empty; a queue holds at most its capacity, senders wait only when it is full and
  receivers only when it is empty; and a mutex that tasks wait for has an owner.
\<close>

theorem object_bounds:
  assumes "callbacks_ok cbs" and "reachable cbs k"
  shows "(hr_semaphore_is_valid (Some s) k \<longrightarrow> scount (scb k s) \<le> smax_count (scb k s) \<and>
       (sem_waiters k s \<noteq> [] \<longrightarrow> scount (scb k s) = 0)) \<and>
    (hr_queue_is_valid (Some q) k \<longrightarrow> qcount (qcb k q) \<le> qcapacity (qcb k q) \<and>
       (send_waiters k q \<noteq> [] \<longrightarrow> qcount (qcb k q) = qcapacity (qcb k q)) \<and> (receive_waiters k q \<noteq> [] \<longrightarrow> qcount (qcb k q) = 0)) \<and>
    (hr_mutex_is_valid (Some x) k \<longrightarrow> waiters k x \<noteq> [] \<longrightarrow> mowner (mcb k x) \<noteq> None)"
proof -
  note i = reachable_inv [OF assms]
  show ?thesis
    using sem_valid(3) [OF kernel_invD(2) [OF i], of s] queue_valid(4) [OF kernel_invD(3) [OF i], of q]
      kernel_invD(5) [OF i] mutex_valid [OF i, of x]
    by (auto simp: sem_inv_def queue_inv_def mutexes_ok_def word_gt_0)
qed

theorem object_bounds_witness:
  "\<exists>k. reachable no_callbacks k \<and> hr_semaphore_is_valid (Some 1) k \<and> scount (scb k 1) \<le> smax_count (scb k 1)"
proof -
  obtain k where k: "reachable no_callbacks k" "scb k 1 = app_sem" by (rule app_running)
  have "hr_semaphore_is_valid (Some 1) k" using k(2) by (simp add: hr_semaphore_is_valid_def app_sem_def)
  then show ?thesis using object_bounds [OF no_callbacks_ok k(1), of 1] k(1) by blast
qed

section \<open>Scheduling and time\<close>

text \<open>
  C2: PendSV always dispatches: the task it makes current is RUNNING and no task that is READY or
  RUNNING has a higher priority.
\<close>

theorem pendsv_runs_highest:
  assumes "kernel_inv k" and "g_kernel_state k = HR_KERNEL_STATE_RUNNING"
  shows "\<exists>t k'. pendsv_exception k = Some k' \<and> kernel_inv k' \<and> g_current_task k' = Some t \<and>
    tstate (tcb k' t) = HR_TASK_STATE_RUNNING \<and>
    (\<forall>u. tstate (tcb k' u) \<in> {HR_TASK_STATE_READY, HR_TASK_STATE_RUNNING} \<longrightarrow>
       teffective_priority (tcb k' t) \<le> teffective_priority (tcb k' u))"
proof -
  note kv = kernel_invD(1) [OF assms(1)]
  obtain cur where cur: "g_current_task k = Some cur" by (rule current_task_running [OF kv assms(2)])
  obtain k2 where k2: "pendsv_exception k = Some k2" "kernel_inv k2" by (rule pendsv_inv [OF assms]) blast
  show ?thesis
  proof (rule pendsv_ok [OF kv assms(2) cur])
    fix t ns k' assume p: "pendsv_exception k = Some k'" "same_but_run k k'" "g_current_task k' = Some t"
      "tstate (tcb k' t) = HR_TASK_STATE_RUNNING"
      and r: "\<And>u. runnable (tstate (tcb k' u)) \<longleftrightarrow> runnable (tstate (tcb k u))"
      and le: "\<And>u. runnable (tstate (tcb k u)) \<Longrightarrow> teffective_priority (tcb k' t) \<le> teffective_priority (tcb k u)"
    have "teffective_priority (tcb k' t) \<le> teffective_priority (tcb k' u)"
      if "tstate (tcb k' u) \<in> {HR_TASK_STATE_READY, HR_TASK_STATE_RUNNING}" for u
      using le [of u] r [of u] that same_but_run_priority [OF p(2)] by (auto simp: runnable_def)
    then show ?thesis using p k2 by auto
  qed
qed

theorem pendsv_runs_highest_witness:
  "\<exists>k t k'. kernel_inv k \<and> g_kernel_state k = HR_KERNEL_STATE_RUNNING \<and> pendsv_exception k = Some k' \<and> g_current_task k' = Some t"
proof -
  obtain k where "kernel_inv k" "may_block k 2" by (rule app_running)
  then show ?thesis using pendsv_runs_highest [of k] by (auto simp: may_block_def)
qed

text \<open>
  C5: A task that calls \<open>hr_task_delay\<close> with \<open>d\<close> ticks is blocked after any sequence of system
  ticks and context switches with fewer than \<open>d\<close> ticks, and the tick number \<open>d\<close> makes it READY,
  with the result HR_OK.
\<close>

theorem delay_exact:
  assumes "kernel_inv k" and "\<not> inside_isr k" and "may_block k t" and "d \<noteq> 0" and "d \<noteq> HR_WAIT_FOREVER"
    and "list_all clock_step ops"
  shows "\<exists>k0. hr_task_delay d k = Some (HR_OK, k0) \<and>
    (count_list ops Tick < unat d \<longrightarrow> (\<exists>k'. run_ops cbs ops k0 = Some k' \<and> tstate (tcb k' t) = HR_TASK_STATE_BLOCKED)) \<and>
    (count_list ops Tick + 1 = unat d \<longrightarrow> (\<exists>k'. run_ops cbs (ops @ [Tick]) k0 = Some k' \<and>
       tstate (tcb k' t) = HR_TASK_STATE_READY \<and> twait_result (tcb k' t) = HR_OK))"
proof -
  have a: "kernel_inv (k\<lparr>primask := 1\<rparr>)" "may_block (k\<lparr>primask := 1\<rparr>) t" using assms(1,3) by (simp_all add: may_block_def)
  show ?thesis
  proof (rule delay_ok [OF kernel_invD(1) [OF a(1)] a(2) assms(4,5)])
    fix m k1 assume k1: "hr_kernel_delay_current d (k\<lparr>primask := 1\<rparr>) = Some (HR_OK, k1)" "kinv k1"
      and e: "k1 = hr_kernel_mark_switch_reason HR_SWITCH_REASON_BLOCK (k\<lparr>primask := 1\<rparr>\<lparr>kmem := m,
        tcb := (tcb (k\<lparr>primask := 1\<rparr>))(t := delay_tcb (g_kernel_tick (k\<lparr>primask := 1\<rparr>) + d) (tcb (k\<lparr>primask := 1\<rparr>) t))\<rparr>)"
      and en: "entered t None d (kmem (k\<lparr>primask := 1\<rparr>)) m"
    define k0 where "k0 = hr_port_request_context_switch (hr_port_exit_critical (primask k) k1)"
    have run: "hr_task_delay d k = Some (HR_OK, k0)"
      using k1(1) assms(2-5) by (simp add: hr_task_delay_def hr_kernel_is_running_def may_block_def hr_port_is_inside_isr_def
          hr_port_enter_critical_def k0_def)
    have f: "kmem k0 = m" "tcb k0 t = delay_tcb (g_kernel_tick k + d) (tcb k t)" "g_kernel_state k0 = HR_KERNEL_STATE_RUNNING"
      using assms(3) by (simp_all add: k0_def e hr_kernel_mark_switch_reason_def hr_port_request_context_switch_def
          hr_port_exit_critical_def may_block_def)
    obtain st k2 where "hr_task_delay d k = Some (st, k2)" "kernel_inv k2" using delay_inv [OF assms(1)] by blast
    then have i: "kernel_inv k0" using run by simp
    have "armed t None HR_TASK_WAIT_DELAY d k0"
      using i f en assms(5) by (simp add: armed_def delay_tcb_def entered_def)
    then show ?thesis
      using run armed_run [OF _ _ assms(6), of t None HR_TASK_WAIT_DELAY d k0 cbs]
        armed_expires [OF _ _ assms(6), of t None HR_TASK_WAIT_DELAY d k0 cbs]
      by (auto simp: armed_def)
  qed
qed

theorem delay_exact_witness:
  "\<exists>k k0 k'. kernel_inv k \<and> hr_task_delay 2 k = Some (HR_OK, k0) \<and>
    run_ops no_callbacks ([PendSV, Tick] @ [Tick]) k0 = Some k' \<and> tstate (tcb k' 2) = HR_TASK_STATE_READY"
proof -
  obtain k where k: "kernel_inv k" "may_block k 2" "\<not> inside_isr k" by (rule app_running)
  have c: "list_all clock_step [PendSV, Tick]" "count_list [PendSV, Tick] Tick + 1 = unat (2 :: hr_tick)" by simp_all
  have "(2 :: hr_tick) \<noteq> 0" "(2 :: hr_tick) \<noteq> HR_WAIT_FOREVER" by simp_all
  from delay_exact [OF k(1,3,2) this c(1), of no_callbacks] c(2) have "\<exists>k0. hr_task_delay 2 k = Some (HR_OK, k0) \<and>
      (\<exists>k'. run_ops no_callbacks ([PendSV, Tick] @ [Tick]) k0 = Some k' \<and> tstate (tcb k' 2) = HR_TASK_STATE_READY)" by blast
  then show ?thesis using k(1) by blast
qed

text \<open>
  C11: A task that finds a semaphore empty and waits for it with a timeout of \<open>d\<close> ticks stays
  blocked while fewer than \<open>d\<close> ticks pass, and the tick number \<open>d\<close> makes it READY with the
  result HR_ERROR_TIMEOUT, if nobody gave the semaphore in between.
\<close>

theorem take_timeout_exact:
  assumes "kernel_inv k" and "\<not> inside_isr k" and "may_block k t" and "hr_semaphore_is_valid (Some s) k" and "s \<noteq> g_timer_signal"
    and "scount (scb k s) = 0" and "d \<noteq> HR_NO_WAIT" and "d \<noteq> HR_WAIT_FOREVER" and "list_all clock_step ops"
  shows "\<exists>k0. hr_semaphore_take (Some s) d k = Some (Blocked t, k0) \<and>
    (count_list ops Tick < unat d \<longrightarrow> (\<exists>k'. run_ops cbs ops k0 = Some k' \<and> tstate (tcb k' t) = HR_TASK_STATE_BLOCKED)) \<and>
    (count_list ops Tick + 1 = unat d \<longrightarrow> (\<exists>k'. run_ops cbs (ops @ [Tick]) k0 = Some k' \<and>
       tstate (tcb k' t) = HR_TASK_STATE_READY \<and> twait_result (tcb k' t) = HR_ERROR_TIMEOUT))"
proof (rule take_blocks [OF assms(1,4,2,6,7,3)])
  fix k0 assume r: "hr_semaphore_take (Some s) d k = Some (Blocked t, k0)" and i: "kernel_inv k0"
    and tc: "tcb k0 = (tcb k)(t := sem_block_tcb s d (g_kernel_tick k) (tcb k t))"
    and e: "entered t (Some (SemaphoreWaiters s)) d (kmem k) (kmem k0)" and so: "same_objects k k0"
  have "armed t (Some (SemaphoreWaiters s)) HR_TASK_WAIT_SEMAPHORE_TAKE d k0"
    using i tc e so assms(3,8) by (simp add: armed_def sem_block_tcb_def block_tcb_def entered_def same_objects_def may_block_def)
  then show ?thesis
    using r assms(5) armed_run [OF _ _ assms(9), of t "Some (SemaphoreWaiters s)" HR_TASK_WAIT_SEMAPHORE_TAKE d k0 cbs]
      armed_expires [OF _ _ assms(9), of t "Some (SemaphoreWaiters s)" HR_TASK_WAIT_SEMAPHORE_TAKE d k0 cbs]
    by (auto simp: armed_def)
qed

theorem take_timeout_exact_witness:
  "\<exists>k k0 k'. kernel_inv k \<and> hr_semaphore_take (Some 1) 1 k = Some (Blocked 2, k0) \<and>
    run_ops no_callbacks ([] @ [Tick]) k0 = Some k' \<and> twait_result (tcb k' 2) = HR_ERROR_TIMEOUT"
proof -
  obtain k where k: "kernel_inv k" "may_block k 2" "\<not> inside_isr k" "scb k 1 = app_sem" by (rule app_running)
  have s: "hr_semaphore_is_valid (Some 1) k" "(1 :: nat) \<noteq> g_timer_signal" "scount (scb k 1) = 0"
    using k(4) by (simp_all add: hr_semaphore_is_valid_def app_sem_def)
  have d: "(1 :: hr_tick) \<noteq> HR_NO_WAIT" "(1 :: hr_tick) \<noteq> HR_WAIT_FOREVER" "list_all clock_step []"
    "count_list [] Tick + 1 = unat (1 :: hr_tick)" by simp_all
  from take_timeout_exact [OF k(1,3,2) s d(1-3), of no_callbacks] d(4) show ?thesis using k(1) by blast
qed

section \<open>Semaphores and queues\<close>

text \<open>The counting semaphore that the API promises: a count and the waiting tasks in order.\<close>

definition abstract_give :: "32 word \<Rightarrow> 32 word \<times> 'a list \<Rightarrow> hr_status \<times> 32 word \<times> 'a list" where
  "abstract_give most st =
     (case st of
        (c, w # ws) \<Rightarrow> (HR_OK, c, ws)
      | (c, []) \<Rightarrow> if c = most then (HR_ERROR_SEMAPHORE_FULL, c, []) else (HR_OK, c + 1, []))"

definition sem_state :: "hr_kernel \<Rightarrow> sem_ptr \<Rightarrow> 32 word \<times> node_addr list" where
  "sem_state k s = (scount (scb k s), sem_waiters k s)"

text \<open>
  C8: \<open>hr_semaphore_give\<close> refines the abstract counting semaphore: it hands the token to the
  first waiter, who becomes READY (or stays suspended) with HR_OK while the count stays as it is,
  or counts up, or refuses with HR_ERROR_SEMAPHORE_FULL at the maximum.
\<close>

theorem give_refines:
  assumes "kernel_inv k" and "hr_semaphore_is_valid (Some s) k" and "\<not> inside_isr k"
  shows "\<exists>st k'. hr_semaphore_give (Some s) k = Some (st, k') \<and> kernel_inv k' \<and>
    (st, sem_state k' s) = abstract_give (smax_count (scb k s)) (sem_state k s) \<and>
    (\<forall>t ns. sem_waiters k s = WaitNode t # ns \<longrightarrow> woken_as (tcb k t) (tcb k' t) \<and> twait_result (tcb k' t) = HR_OK)"
proof -
  have a: "kernel_inv (k\<lparr>primask := 1\<rparr>)" "hr_semaphore_is_valid (Some s) (k\<lparr>primask := 1\<rparr>)"
    using assms(1,2) by (simp_all add: hr_semaphore_is_valid_def)
  note u = hr_semaphore_give_def hr_port_is_inside_isr_def hr_port_enter_critical_def Let_def hr_port_exit_critical_def
    hr_port_request_context_switch_def sem_state_def abstract_give_def
  show ?thesis
  proof (cases "sem_waiters k s")
    case Nil
    then have e: "sem_waiters (k\<lparr>primask := 1\<rparr>) s = []" by simp
    show ?thesis using give_free(1) [OF a e, where w = False] give_free(2) [OF assms(1,2) Nil] assms Nil by (auto simp: u)
  next
    case (Cons n ns)
    then have e: "sem_waiters (k\<lparr>primask := 1\<rparr>) s = n # ns" by simp
    show ?thesis
    proof (rule give_waiter [OF a e, where w = False])
      fix t k' assume g: "n = WaitNode t" "hr_semaphore_give_locked s (Some False) (k\<lparr>primask := 1\<rparr>) =
          Some ((HR_OK, Some (\<not> suspended_wait (tcb (k\<lparr>primask := 1\<rparr>) t) \<and> outranks k' t)), k')"
        "kernel_inv k'" "sem_waiters k' s = ns" "woke t (k\<lparr>primask := 1\<rparr>) k'"
      then show ?thesis using assms Cons by (auto simp: u woke_def same_objects_def)
    qed
  qed
qed

theorem give_refines_witness:
  "\<exists>k k' n ns. kernel_inv k \<and> sem_waiters k 1 = n # ns \<and> hr_semaphore_give (Some 1) k = Some (HR_OK, k') \<and> sem_waiters k' 1 = ns"
proof -
  obtain k where k: "kernel_inv k" "may_block k 2" "\<not> inside_isr k" "scb k 1 = app_sem" by (rule app_running)
  have s: "hr_semaphore_is_valid (Some 1) k" "scount (scb k 1) = 0" "(5 :: hr_tick) \<noteq> HR_NO_WAIT"
    using k(4) by (simp_all add: hr_semaphore_is_valid_def app_sem_def)
  show ?thesis
  proof (rule take_blocks [OF k(1) s(1) k(3) s(2,3) k(2)])
    fix k0 assume k0: "kernel_inv k0" "sem_waiters k0 1 = insert_fifo (npriority (kmem k)) (WaitNode 2) (sem_waiters k 1)"
      "scb k0 = scb k" "same_objects k k0"
    then have "hr_semaphore_is_valid (Some 1) k0" "\<not> inside_isr k0" using s(1) k(3) by (simp_all add: hr_semaphore_is_valid_def same_objects_def)
    note g = give_refines [OF k0(1) this]
    have "sem_waiters k0 1 \<noteq> []" unfolding k0(2) by (simp add: insert_fifo_def)
    then obtain n ns where n: "sem_waiters k0 1 = n # ns" by (cases "sem_waiters k0 1") auto
    show ?thesis using g k0(1) n by (auto simp: sem_state_def abstract_give_def)
  qed
qed

text \<open>
  C16: With tokens left, \<open>hr_semaphore_take\<close> takes one and returns HR_OK at once. Without tokens
  it returns HR_ERROR_SEMAPHORE_EMPTY and changes nothing if the caller does not want to wait;
  otherwise the running task blocks behind the waiters of its own and higher priority.
\<close>

theorem take_cases:
  assumes "kernel_inv k" and "hr_semaphore_is_valid (Some s) k" and "\<not> inside_isr k" and "may_block k t"
  shows "(0 < scount (scb k s) \<longrightarrow> (\<exists>k'. hr_semaphore_take (Some s) timeout k = Some (Returned HR_OK, k') \<and> kernel_inv k' \<and>
       sem_state k' s = (scount (scb k s) - 1, sem_waiters k s))) \<and>
    (scount (scb k s) = 0 \<and> timeout = HR_NO_WAIT \<longrightarrow>
       hr_semaphore_take (Some s) timeout k = Some (Returned HR_ERROR_SEMAPHORE_EMPTY, k)) \<and>
    (scount (scb k s) = 0 \<and> timeout \<noteq> HR_NO_WAIT \<longrightarrow>
       (\<exists>k'. hr_semaphore_take (Some s) timeout k = Some (Blocked t, k') \<and> kernel_inv k' \<and> pendsv k' \<and>
         tstate (tcb k' t) = HR_TASK_STATE_BLOCKED \<and>
         sem_state k' s = (0, insert_fifo (npriority (kmem k)) (WaitNode t) (sem_waiters k s))))"
proof (intro conjI impI)
  assume "0 < scount (scb k s)"
  with take_token [OF assms(1-3), of timeout] assms(4)
  show "\<exists>k'. hr_semaphore_take (Some s) timeout k = Some (Returned HR_OK, k') \<and> kernel_inv k' \<and>
      sem_state k' s = (scount (scb k s) - 1, sem_waiters k s)" by (simp add: may_block_def sem_state_def)
next
  assume "scount (scb k s) = 0 \<and> timeout = HR_NO_WAIT"
  then show "hr_semaphore_take (Some s) timeout k = Some (Returned HR_ERROR_SEMAPHORE_EMPTY, k)"
    using assms by (simp add: hr_semaphore_take_def hr_port_is_inside_isr_def hr_port_enter_critical_def hr_port_exit_critical_def)
next
  assume e: "scount (scb k s) = 0 \<and> timeout \<noteq> HR_NO_WAIT"
  then have e: "scount (scb k s) = 0" "timeout \<noteq> HR_NO_WAIT" by simp_all
  show "\<exists>k'. hr_semaphore_take (Some s) timeout k = Some (Blocked t, k') \<and> kernel_inv k' \<and> pendsv k' \<and>
      tstate (tcb k' t) = HR_TASK_STATE_BLOCKED \<and>
      sem_state k' s = (0, insert_fifo (npriority (kmem k)) (WaitNode t) (sem_waiters k s))"
    by (rule take_blocks [OF assms(1-3) e assms(4)]) (auto simp: sem_state_def e sem_block_tcb_def block_tcb_def)
qed

theorem take_cases_witness:
  "\<exists>k k'. kernel_inv k \<and> hr_semaphore_take (Some 1) 7 k = Some (Blocked 2, k') \<and> tstate (tcb k' 2) = HR_TASK_STATE_BLOCKED"
proof -
  obtain k where k: "kernel_inv k" "may_block k 2" "\<not> inside_isr k" "scb k 1 = app_sem" by (rule app_running)
  have s: "hr_semaphore_is_valid (Some 1) k" "scount (scb k 1) = 0" using k(4) by (simp_all add: hr_semaphore_is_valid_def app_sem_def)
  show ?thesis using take_cases [OF k(1) s(1) k(3,2), of 7] k(1) s(2) by auto
qed

text \<open>
  C7: A queue is a first-in first-out buffer of items. If no receiver waits and there is room,
  \<open>hr_queue_send\<close> appends the bytes of the item to the content; if no sender waits and there is
  an item, \<open>hr_queue_receive\<close> copies the oldest item out and removes it. The caller's buffers are
  required not to overlap the storage of the queue.
\<close>

theorem queue_fifo:
  assumes "kernel_inv k" and "hr_queue_is_valid (Some q) k" and "\<not> inside_isr k" and "qstorage (qcb k q) = Some st"
    and "apart item (qitem_size (qcb k q)) st (qitem_size (qcb k q) * qcapacity (qcb k q))"
    and "g_kernel_state k = HR_KERNEL_STATE_RUNNING"
  shows "(qcount (qcb k q) < qcapacity (qcb k q) \<and> receive_waiters k q = [] \<longrightarrow>
       (\<exists>k'. hr_queue_send (Some q) (Some item) timeout k = Some (Returned HR_OK, k') \<and> kernel_inv k' \<and>
         queue_items k' q = queue_items k q @ [item_at (bytes k) item (qitem_size (qcb k q))])) \<and>
    (0 < qcount (qcb k q) \<and> send_waiters k q = [] \<longrightarrow>
       (\<exists>k'. hr_queue_receive (Some q) (Some item) timeout k = Some (Returned HR_OK, k') \<and> kernel_inv k' \<and>
         queue_items k q = item_at (bytes k') item (qitem_size (qcb k q)) # queue_items k' q))"
proof -
  define k0 where "k0 = k\<lparr>primask := 1\<rparr>"
  have a: "kernel_inv k0" "hr_queue_is_valid (Some q) k0" and f: "qcb k0 = qcb k" "bytes k0 = bytes k" "kmem k0 = kmem k"
    using assms(1,2) by (simp_all add: k0_def hr_queue_is_valid_def Let_def)
  have st: "qstorage (qcb k0 q) = Some st" using assms(4) f by simp
  have ring: "queue_inv (qcb k q) [] []"
    using queue_valid(4) [OF kernel_invD(3) [OF assms(1)] assms(2)] by (simp add: queue_inv_def)
  note u = hr_port_is_inside_isr_def hr_port_enter_critical_def Let_def queue_call_return_def hr_kernel_is_running_def k0_def [symmetric]
  have i: "queue_items (hr_port_exit_critical b k1) q = queue_items k1 q" "bytes (hr_port_exit_critical b k1) = bytes k1" for b k1
    by (simp_all add: hr_port_exit_critical_def queue_items_def)
  show ?thesis
  proof (intro conjI impI)
    assume "qcount (qcb k q) < qcapacity (qcb k q) \<and> receive_waiters k q = []"
    then have r: "receive_waiters k0 q = []" "qcount (qcb k0 q) < qcapacity (qcb k0 q)" using f by simp_all
    note s = send_room(1) [OF a r st, of item timeout True False] send_room(2) [OF a r st, of item]
    have "hr_queue_send (Some q) (Some item) timeout k =
        Some (Returned HR_OK, hr_port_exit_critical (primask k) (queue_append q st item k0))"
      using s(1) assms(2,3,6) by (simp add: hr_queue_send_def u)
    moreover have "queue_items (queue_append q st item k0) q = queue_items k0 q @ [item_at (bytes k0) item (qitem_size (qcb k0 q))]"
      by (rule append_items) (use ring r(2) st assms(5) f in simp_all)
    ultimately show "\<exists>k'. hr_queue_send (Some q) (Some item) timeout k = Some (Returned HR_OK, k') \<and> kernel_inv k' \<and>
        queue_items k' q = queue_items k q @ [item_at (bytes k) item (qitem_size (qcb k q))]"
      using s(2) f by (simp add: i items_cong [of k0 k])
  next
    assume "0 < qcount (qcb k q) \<and> send_waiters k q = []"
    then have r: "0 < qcount (qcb k0 q)" "send_waiters k0 q = []" using f by simp_all
    note s = receive_no_sender(1) [OF a r(1) st r(2), of item timeout True "Some False"] receive_no_sender(2) [OF a r(1) st r(2), of item]
    let ?c = "hr_queue_copy item (hr_queue_slot st (qcb k0 q) (qhead (qcb k0 q))) (qitem_size (qcb k0 q)) k0"
    have h: "qhead (qcb k q) < qcapacity (qcb k q)" using ring by (simp add: queue_inv_def)
    have "hr_queue_receive (Some q) (Some item) timeout k =
        Some (Returned HR_OK, hr_port_exit_critical (primask k) (take_head q st item k0))"
      using s(1) assms(2,3,6) by (simp add: hr_queue_receive_def u)
    moreover have "queue_items k0 q = queue_items ?c q" by (rule items_copy_out [symmetric, OF _ st]) (use ring assms(5) f in simp_all)
    moreover have "queue_items ?c q = item_at (bytes ?c) (hr_queue_slot st (qcb ?c q) (qhead (qcb ?c q))) (qitem_size (qcb ?c q)) #
        queue_items (queue_drop q ?c) q"
      by (rule drop_items) (use ring r(1) st f in simp_all)
    moreover have "item_at (bytes ?c) item (qitem_size (qcb k0 q)) =
        item_at (bytes ?c) (hr_queue_slot st (qcb k0 q) (qhead (qcb k0 q))) (qitem_size (qcb k0 q))"
      using item_copied [OF slot_apart(1) [OF assms(5) h]] item_kept [OF slot_apart(1) [OF assms(5) h]] f by simp
    ultimately show "\<exists>k'. hr_queue_receive (Some q) (Some item) timeout k = Some (Returned HR_OK, k') \<and> kernel_inv k' \<and>
        queue_items k q = item_at (bytes k') item (qitem_size (qcb k q)) # queue_items k' q"
      using s(2) f by (simp add: i items_cong [of k0 k] take_head_def queue_drop_def)
  qed
qed

theorem queue_fifo_witness:
  "\<exists>k k'. kernel_inv k \<and> hr_queue_send (Some 1) (Some (2, 0)) 0 k = Some (Returned HR_OK, k') \<and>
    queue_items k' 1 = queue_items k 1 @ [item_at (bytes k) (2, 0) 4]"
proof -
  obtain k where k: "kernel_inv k" "may_block k 2" "\<not> inside_isr k" "qcb k 1 = app_queue" and nb: "\<And>t. \<not> blocked (tcb k t)"
    by (rule app_running) blast
  have v: "hr_queue_is_valid (Some 1) k" using k(4) by (simp add: hr_queue_is_valid_def app_queue_def Let_def)
  have e: "receive_waiters k 1 = []"
    by (rule no_waiters [OF k(1) nb _ queue_valid(3) [OF kernel_invD(3) [OF k(1)] v]]) simp
  have a: "qstorage (qcb k 1) = Some (1, 0)" "g_kernel_state k = HR_KERNEL_STATE_RUNNING"
    "apart (2, 0) (qitem_size (qcb k 1)) (1, 0) (qitem_size (qcb k 1) * qcapacity (qcb k 1))"
    using k(2,4) by (simp_all add: app_queue_def apart_def may_block_def)
  show ?thesis using queue_fifo [OF k(1) v k(3) a(1,3,2), of 0] k(1,4) e by (auto simp: app_queue_def)
qed

text \<open>
  C12: Sending to a queue where tasks wait to receive hands the item over: the first receiver's
  buffer holds the bytes of the item, the receiver becomes READY (or stays suspended) with HR_OK,
  and the queue stays empty.
\<close>

theorem send_hands_over:
  assumes "kernel_inv k" and "hr_queue_is_valid (Some q) k" and "\<not> inside_isr k" and "g_kernel_state k = HR_KERNEL_STATE_RUNNING"
    and "receive_waiters k q = WaitNode t # ns" and "twait_buffer (tcb k t) = Some buf"
    and "apart buf (qitem_size (qcb k q)) item (qitem_size (qcb k q))"
  shows "\<exists>k'. hr_queue_send (Some q) (Some item) timeout k = Some (Returned HR_OK, k') \<and> kernel_inv k' \<and>
    item_at (bytes k') buf (qitem_size (qcb k q)) = item_at (bytes k) item (qitem_size (qcb k q)) \<and>
    receive_waiters k' q = ns \<and> woken_as (tcb k t) (tcb k' t) \<and> twait_result (tcb k' t) = HR_OK \<and> qcb k' q = qcb k q"
proof -
  define k0 where "k0 = k\<lparr>primask := 1\<rparr>"
  have a: "kernel_inv k0" "hr_queue_is_valid (Some q) k0" and f: "qcb k0 = qcb k" "bytes k0 = bytes k" "kmem k0 = kmem k" "tcb k0 = tcb k"
    using assms(1,2) by (simp_all add: k0_def hr_queue_is_valid_def Let_def)
  have r: "receive_waiters k0 q = WaitNode t # ns" using assms(5) f by simp
  note u = hr_queue_send_def hr_port_is_inside_isr_def hr_port_enter_critical_def Let_def queue_call_return_def hr_kernel_is_running_def
    k0_def [symmetric]
  have g: "kmem (hr_port_exit_critical b k1) = kmem k1" "tcb (hr_port_exit_critical b k1) = tcb k1"
    "bytes (hr_port_exit_critical b k1) = bytes k1" "qcb (hr_port_exit_critical b k1) = qcb k1"
    "kmem (hr_port_request_context_switch k1) = kmem k1" "tcb (hr_port_request_context_switch k1) = tcb k1"
    "bytes (hr_port_request_context_switch k1) = bytes k1" "qcb (hr_port_request_context_switch k1) = qcb k1" for b k1
    by (simp_all add: hr_port_exit_critical_def hr_port_request_context_switch_def)
  show ?thesis
  proof (rule send_to_receiver [OF a r, where item = item and timeout = timeout and allow = True and w = False])
    fix t' buf' k' assume t: "WaitNode t = WaitNode t'" "twait_buffer (tcb k0 t') = Some buf'"
      and s: "hr_queue_send_locked q item timeout True (Some False) k0 =
        Some ((HR_OK, None, Some (\<not> suspended_wait (tcb k0 t') \<and> outranks k' t')), k')"
      and k': "kernel_inv k'" "receive_waiters k' q = ns" "woke t' (hr_queue_copy buf' item (qitem_size (qcb k0 q)) k0) k'"
    have e: "t' = t" "buf' = buf" using t assms(6) f by simp_all
    have b: "bytes k' = bytes (hr_queue_copy buf item (qitem_size (qcb k q)) k0)" "qcb k' = qcb k"
      "woken_as (tcb k t) (tcb k' t)" "twait_result (tcb k' t) = HR_OK"
      using k'(3) f by (simp_all add: e woke_def same_objects_def)
    then have "item_at (bytes k') buf (qitem_size (qcb k q)) = item_at (bytes k) item (qitem_size (qcb k q))"
      using item_copied [OF assms(7), of k0] f by simp
    then show ?thesis using s assms(2-4) k' b by (auto simp: u g)
  qed
qed

theorem send_hands_over_witness:
  "\<exists>k k' t ns. kernel_inv k \<and> receive_waiters k 1 = WaitNode t # ns \<and>
    hr_queue_send (Some 1) (Some (2, 0)) 0 k = Some (Returned HR_OK, k') \<and> receive_waiters k' 1 = ns"
proof -
  obtain k where k: "kernel_inv k" "may_block k 2" "\<not> inside_isr k" "qcb k 1 = app_queue" and nb: "\<And>t. \<not> blocked (tcb k t)"
    by (rule app_running) blast
  have v: "hr_queue_is_valid (Some 1) k" using k(4) by (simp add: hr_queue_is_valid_def app_queue_def Let_def)
  note l = queue_valid(3) [OF kernel_invD(3) [OF k(1)] v]
  have e: "receive_waiters k 1 = []" by (rule no_waiters [OF k(1) nb _ l]) simp
  have w: "may_wait k (ReceiveWaiters 1)" "(5 :: hr_tick) \<noteq> HR_NO_WAIT" using k(4) by (simp_all add: may_wait_def app_queue_def)
  have d: "ReceiveWaiters 1 = SendWaiters 1 \<and> HR_TASK_WAIT_QUEUE_RECEIVE = HR_TASK_WAIT_QUEUE_SEND \<or>
      ReceiveWaiters 1 = ReceiveWaiters 1 \<and> HR_TASK_WAIT_QUEUE_RECEIVE = HR_TASK_WAIT_QUEUE_RECEIVE" by simp
  show ?thesis
  proof (rule queue_blocks [OF k(1,2) l w(2,1) d, where item = "(3, 0)" and failed = HR_ERROR_QUEUE_EMPTY and woken = None])
    fix k0 assume k0: "kernel_inv k0" "same_objects k k0" "entered 2 (Some (ReceiveWaiters 1)) 5 (kmem k) (kmem k0)"
      and tc: "tcb k0 = (tcb k)(2 := block_tcb (ReceiveWaiters 1) (Obj_queue 1) HR_TASK_WAIT_QUEUE_RECEIVE (Some (3, 0)) 5 None
        (g_kernel_tick k) (tcb k 2))"
    have r: "receive_waiters k0 1 = WaitNode 2 # []" using k0(3) l e by (simp add: entered_def)
    have b: "twait_buffer (tcb k0 2) = Some (3, 0)" using tc by (simp add: block_tcb_def)
    have f: "hr_queue_is_valid (Some 1) k0" "\<not> inside_isr k0" "g_kernel_state k0 = HR_KERNEL_STATE_RUNNING"
      using v k(2,3) k0(2) by (simp_all add: hr_queue_is_valid_def Let_def same_objects_def may_block_def)
    have "apart (3, 0) (qitem_size (qcb k0 1)) (2, 0) (qitem_size (qcb k0 1))" by (simp add: apart_def)
    from send_hands_over [OF k0(1) f r b this, of 0] k0(1) r show ?thesis by blast
  qed
qed

section \<open>Mutexes\<close>

text \<open>
  C9: A mutex excludes: locking a free mutex makes the calling task its owner; while another task
  owns it, a call that does not wait returns HR_ERROR_MUTEX_BUSY and changes nothing, and a call
  that waits blocks without changing any ownership; and unlocking a mutex that the caller does not
  own returns HR_ERROR_NOT_OWNER and changes nothing.
\<close>

theorem mutex_excludes:
  assumes "kernel_inv k" and "hr_mutex_is_valid (Some x) k" and "\<not> inside_isr k" and "may_block k t"
  shows "(mowner (mcb k x) = None \<longrightarrow>
       (\<exists>k'. hr_mutex_lock (Some x) timeout k = Some (Returned HR_OK, k') \<and> kernel_inv k' \<and>
         mowner (mcb k' x) = Some t \<and> mrecursion_count (mcb k' x) = 1 \<and> (\<forall>y. y \<noteq> x \<longrightarrow> mcb k' y = mcb k y))) \<and>
    (mowner (mcb k x) \<noteq> None \<and> mowner (mcb k x) \<noteq> Some t \<and> timeout = HR_NO_WAIT \<longrightarrow>
       hr_mutex_lock (Some x) timeout k = Some (Returned HR_ERROR_MUTEX_BUSY, k)) \<and>
    (mowner (mcb k x) \<noteq> None \<and> mowner (mcb k x) \<noteq> Some t \<and> timeout \<noteq> HR_NO_WAIT \<longrightarrow>
       (\<exists>k'. hr_mutex_lock (Some x) timeout k = Some (Blocked t, k') \<and> kernel_inv k' \<and> mcb k' = mcb k)) \<and>
    (mowner (mcb k x) \<noteq> Some t \<longrightarrow> hr_mutex_unlock (Some x) k = Some (HR_ERROR_NOT_OWNER, k))"
proof -
  define k0 where "k0 = k\<lparr>primask := 1\<rparr>"
  have k0: "kernel_inv k0" "mmagic (mcb k0 x) = HR_CFG_MUTEX_MAGIC" "may_block k0 t" and f: "mcb k0 = mcb k"
    using assms mutex_valid [OF assms(1)] by (simp_all add: k0_def may_block_def)
  obtain t' where t': "g_current_task k = Some t'" "registered k t'" "tmagic (tcb k t') = HR_CFG_TASK_MAGIC"
    by (rule current_registered [OF kernel_invD(1) [OF assms(1)]]) (use assms(4) in \<open>simp add: may_block_def\<close>)
  then have t: "g_current_task k = Some t" "registered k0 t" "tmagic (tcb k t) = HR_CFG_TASK_MAGIC"
    "g_kernel_state k = HR_KERNEL_STATE_RUNNING" using assms(4) by (auto simp: may_block_def k0_def)
  note u = hr_mutex_lock_def hr_mutex_unlock_def hr_port_is_inside_isr_def hr_kernel_is_running_def hr_task_current_def
    hr_kernel_current_task_internal_def hr_port_enter_critical_def k0_def [symmetric] Let_def mutex_lock_locked_def f
  have e: "hr_port_exit_critical (primask k) k0 = k" by (simp add: k0_def hr_port_exit_critical_def)
  have g: "mcb (hr_port_exit_critical b k1) = mcb k1" "mcb (hr_port_request_context_switch k1) = mcb k1" for b k1
    by (simp_all add: hr_port_exit_critical_def hr_port_request_context_switch_def)
  show ?thesis
  proof (intro conjI impI)
    assume free: "mowner (mcb k x) = None"
    obtain m where m: "hr_mutex_attach_owner (Some x) (Some t) k0 = Some (HR_OK, attach x t m k0)" "kernel_inv (attach x t m k0)"
      by (rule attach_inv [OF k0(1,2) _ t(2)]) (use free f in auto)
    then show "\<exists>k'. hr_mutex_lock (Some x) timeout k = Some (Returned HR_OK, k') \<and> kernel_inv k' \<and>
         mowner (mcb k' x) = Some t \<and> mrecursion_count (mcb k' x) = 1 \<and> (\<forall>y. y \<noteq> x \<longrightarrow> mcb k' y = mcb k y)"
      using free assms(2,3) t by (simp add: u g attach_def)
  next
    assume "mowner (mcb k x) \<noteq> None \<and> mowner (mcb k x) \<noteq> Some t \<and> timeout = HR_NO_WAIT"
    then show "hr_mutex_lock (Some x) timeout k = Some (Returned HR_ERROR_MUTEX_BUSY, k)"
      using assms(2,3) t e by (auto simp: u)
  next
    assume a: "mowner (mcb k x) \<noteq> None \<and> mowner (mcb k x) \<noteq> Some t \<and> timeout \<noteq> HR_NO_WAIT"
    then obtain ow where ow: "mowner (mcb k0 x) = Some ow" "ow \<noteq> t" "timeout \<noteq> HR_NO_WAIT" using f by auto
    show "\<exists>k'. hr_mutex_lock (Some x) timeout k = Some (Blocked t, k') \<and> kernel_inv k' \<and> mcb k' = mcb k"
    proof (rule lock_blocks [OF k0(1,2) ow k0(3)])
      fix st k1 k2 k' assume "mutex_lock_locked x t timeout k0 = Some ((st, True), k')" "kernel_inv k'" "mcb k' = mcb k0"
      then show ?thesis using assms(2,3) t f by (simp add: hr_mutex_lock_def hr_port_is_inside_isr_def hr_kernel_is_running_def
          hr_task_current_def hr_kernel_current_task_internal_def hr_port_enter_critical_def k0_def [symmetric] Let_def g)
    qed
  next
    assume "mowner (mcb k x) \<noteq> Some t"
    then show "hr_mutex_unlock (Some x) k = Some (HR_ERROR_NOT_OWNER, k)"
      using assms(2,3) t e by (simp add: u)
  qed
qed

theorem mutex_excludes_witness:
  "\<exists>k k'. kernel_inv k \<and> hr_mutex_lock (Some 1) 0 k = Some (Returned HR_OK, k') \<and> mowner (mcb k' 1) = Some 2"
proof -
  obtain k where k: "kernel_inv k" "may_block k 2" "\<not> inside_isr k" "mcb k 1 = app_mutex" by (rule app_running)
  have v: "hr_mutex_is_valid (Some 1) k" "mowner (mcb k 1) = None" using k(4) mutex_valid [OF k(1)] by (simp_all add: app_mutex_def)
  show ?thesis using mutex_excludes [OF k(1) v(1) k(3,2), of 0] k(1) v(2) by blast
qed

text \<open>
  C10: Unlocking a mutex for which tasks wait makes the first waiter its owner: that task becomes
  READY (or stays suspended) with HR_OK and the others keep waiting.
\<close>

theorem unlock_hands_over:
  assumes "kernel_inv k" and "hr_mutex_is_valid (Some x) k" and "\<not> inside_isr k" and "may_block k t" and "mowner (mcb k x) = Some t"
    and "\<not> (mrecursive (mcb k x) \<and> mrecursion_count (mcb k x) > 1)" and "waiters k x = WaitNode u # ns"
  shows "\<exists>st k'. hr_mutex_unlock (Some x) k = Some (st, k') \<and> kernel_inv k' \<and> mowner (mcb k' x) = Some u \<and>
    mrecursion_count (mcb k' x) = 1 \<and> woken_as (tcb k u) (tcb k' u) \<and> twait_result (tcb k' u) = HR_OK \<and>
    set (waiters k' x) = set ns"
proof -
  define k0 where "k0 = k\<lparr>primask := 1\<rparr>"
  have k0: "kernel_inv k0" "owns k0 t x" and f: "mcb k0 = mcb k" "kmem k0 = kmem k" "tcb k0 = tcb k"
    using assms mutex_valid [OF assms(1)] by (simp_all add: k0_def owns_def)
  have w: "waiters k0 x = WaitNode u # ns" using assms(7) f by simp
  have t: "g_current_task k = Some t" "tmagic (tcb k t) = HR_CFG_TASK_MAGIC"
    using assms(4) owned_mutex(4) [OF kernel_invD(1) [OF k0(1)] k0(2)] f by (simp_all add: may_block_def)
  have g: "mcb (hr_port_exit_critical b k1) = mcb k1" "mcb (hr_port_request_context_switch k1) = mcb k1"
    "tcb (hr_port_exit_critical b k1) = tcb k1" "tcb (hr_port_request_context_switch k1) = tcb k1"
    "kmem (hr_port_exit_critical b k1) = kmem k1" "kmem (hr_port_request_context_switch k1) = kmem k1" for b k1
    by (simp_all add: hr_port_exit_critical_def hr_port_request_context_switch_def)
  show ?thesis
  proof (rule release_waiter [OF k0 w])
    fix u' m k1 b st k' assume u': "WaitNode u = WaitNode u'"
      and r: "mutex_release x k0 = Some (Inr (st, b \<or> hr_kernel_current_should_preempt k'), k')" "kernel_inv k'"
      and wk: "woke u' (attach x u' m (detach x t k0)) k1" "waiters k1 x = ns" and rp: "repri k1 k'" and i1: "kernel_inv k1"
    have e: "u' = u" using u' by simp
    have 1: "mcb k' = mcb (attach x u m (detach x t k0))" using wk(1) repri_frame(1) [OF rp] by (simp add: e woke_def same_objects_def)
    have "tstate (tcb (attach x u m (detach x t k0)) u) = tstate (tcb k u)" by (simp add: attach_def detach_def f)
    then have 2: "woken_as (tcb k u) (tcb k' u)"
      using wk(1) repri_same(5,7) [OF rp, of u] by (auto simp: e woke_def woken_as_def woken_tcb_def)
    have "tcb k' u = (tcb k1 u)\<lparr>teffective_priority := teffective_priority (tcb k' u)\<rparr>" by (rule repriD(4) [OF rp])
    from arg_cong [OF this, of twait_result] have 3: "twait_result (tcb k' u) = HR_OK" using wk(1) by (simp add: e woke_def)
    have "mmagic (mcb k1 x) = HR_CFG_MUTEX_MAGIC" using wk(1) k0(2) by (simp add: woke_def same_objects_def attach_def detach_def owns_def)
    then have "inited (kmem k1) (MutexWaiters x)" using owners_okD(2) [OF kinvD(3) [OF kernel_invD(1) [OF i1]]] by blast
    then have 4: "set (waiters k' x) = set ns" using repriD(7) [OF rp, of "MutexWaiters x"] wk(2) by simp
    have "mowner (mcb k' x) = Some u" "mrecursion_count (mcb k' x) = 1" by (simp_all add: 1 attach_def)
    then show ?thesis
      using unlock_release [OF assms(2,3) t assms(5,6) r(1) [unfolded k0_def]] r(2) 2 3 4 by (simp add: g)
  qed
qed

theorem unlock_hands_over_witness:
  "\<exists>k st k' ns. kernel_inv k \<and> waiters k 1 = WaitNode 2 # ns \<and> hr_mutex_unlock (Some 1) k = Some (st, k') \<and>
    mowner (mcb k' 1) = Some 2 \<and> twait_result (tcb k' 2) = HR_OK"
proof -
  obtain k where k: "kernel_inv k" "may_block k 3" "\<not> inside_isr k" "mowner (mcb k 1) = Some 3" "hr_mutex_is_valid (Some 1) k"
    "\<not> mrecursive (mcb k 1)" "set (waiters k 1) = {WaitNode 2}" by (rule app_handover)
  obtain ns where w: "waiters k 1 = WaitNode 2 # ns" using k(7) by (cases "waiters k 1") auto
  have "\<not> (mrecursive (mcb k 1) \<and> mrecursion_count (mcb k 1) > 1)" using k(6) by simp
  from unlock_hands_over [OF k(1,5,3,2,4) this w] k(1) w show ?thesis by blast
qed



text \<open>
  C4: Unlocking gives the borrowed priority back: when \<open>hr_mutex_unlock\<close> releases a mutex with
  HR_OK, the former owner has exactly the priority that the mutexes it still owns ask for, and its
  own base priority if nobody waits for them.
\<close>

theorem unlock_restores:
  assumes "kernel_inv k" and "hr_mutex_is_valid (Some x) k" and "\<not> inside_isr k" and "may_block k t" and "mowner (mcb k x) = Some t"
    and "\<not> (mrecursive (mcb k x) \<and> mrecursion_count (mcb k x) > 1)" and "hr_mutex_unlock (Some x) k = Some (HR_OK, k')"
  shows "inherited k' t \<and>
    ((\<forall>y u. owns k' t y \<longrightarrow> \<not> waits_on k' u y) \<longrightarrow> teffective_priority (tcb k' t) = tbase_priority (tcb k' t))"
proof -
  define k0 where "k0 = k\<lparr>primask := 1\<rparr>"
  have k0: "kernel_inv k0" "owns k0 t x" and f: "mcb k0 = mcb k" "tcb k0 = tcb k" "g_current_task k0 = g_current_task k"
    using assms mutex_valid [OF assms(1)] by (simp_all add: k0_def owns_def)
  note kv = kernel_invD(1) [OF k0(1)]
  have t: "g_current_task k = Some t" "tmagic (tcb k t) = HR_CFG_TASK_MAGIC" "registered k0 t" "\<not> blocked (tcb k0 t)"
    using assms(4) owned_mutex(3,4) [OF kv k0(2)] f by (simp_all add: may_block_def blocked_def suspended_wait_def)
  have ok: "st = HR_OK" and fin: "inherited k1 t \<Longrightarrow> inherited k' t" if "mutex_release x k0 = Some (Inr (st, w), k1)" for st w k1
  proof -
    note u = unlock_release [OF assms(2,3) t(1,2) assms(5,6) that [unfolded k0_def]]
    then show "st = HR_OK" using assms(7) by simp
    have "tcb k' = tcb k1" "mcb k' = mcb k1" "kmem k' = kmem k1"
      using u assms(7) by (auto simp: hr_port_exit_critical_def hr_port_request_context_switch_def split: if_splits)
    then show "inherited k1 t \<Longrightarrow> inherited k' t" using chain_cong(2) by metis
  qed
  have "inherited k' t"
  proof (cases "waiters k0 x")
    case Nil
    show ?thesis
    proof (rule release_no_waiter [OF k0 Nil])
      fix st k1 assume r: "mutex_release x k0 = Some (Inr (st, hr_kernel_current_should_preempt k1), k1)"
        and s: "settle (Some t) None (detach x t k0) = Some (st, k1)"
      have "registered (detach x t k0) t" using t(3) detach_ok(2) [OF kv k0(2)] by (simp add: ownership_def)
      then show ?thesis
        using settle_inherits(1) [OF kernel_invD(1) [OF release_free [OF k0 Nil]]] s ok [OF r] fin [OF r] by auto
    qed
  next
    case (Cons n ns)
    show ?thesis
    proof (rule release_waiter [OF k0 Cons])
      fix u m k1 b st k2 assume r: "mutex_release x k0 = Some (Inr (st, b \<or> hr_kernel_current_should_preempt k2), k2)"
        and n: "n = WaitNode u"
        and wk: "woke u (attach x u m (detach x t k0)) k1" and i1: "kernel_inv k1" and s: "settle (Some t) (Some u) k1 = Some (st, k2)"
      have l: "inited (kmem k0) (MutexWaiters x)" by (rule owned_mutex(1) [OF kv k0(2)])
      have "vwait (view (kmem k0) u) = Some (MutexWaiters x)" using linked_wait [OF kinvD(1) [OF kv] l, of u] Cons n by simp
      then have ut: "u \<noteq> t" using waiter_blocked(2) [OF kv] t(4) by blast
      note ri = registered_iff [OF kernel_invD(1) [OF i1]]
      have "tstate (tcb k1 t) = HR_TASK_STATE_RUNNING"
        using wk ut assms(4) f(2) by (simp add: woke_def attach_def detach_def may_block_def)
      then have reg: "registered k1 t" using ri [of t] by simp
      have "woken_tcb (tcb k1 u)" using wk by (simp add: woke_def woken_as_def)
      then have "registered k1 u \<and> \<not> blocked (tcb k1 u) \<and> u \<noteq> t"
        using ri [of u] ut by (auto simp: woken_tcb_def blocked_def suspended_wait_def)
      then show ?thesis using settle_inherits(1) [OF kernel_invD(1) [OF i1] reg] s ok [OF r] fin [OF r] by auto
    qed
  qed
  then show ?thesis by (auto simp: inherited_def)
qed

lemma unlock_alone:
  assumes "kernel_inv k" and "hr_mutex_is_valid (Some x) k" and "\<not> inside_isr k" and "may_block k t" and "mowner (mcb k x) = Some t"
    and "\<not> (mrecursive (mcb k x) \<and> mrecursion_count (mcb k x) > 1)" and "waiters k x = []" and "tbase_priority (tcb k t) < HR_CFG_IDLE_PRIORITY"
  shows "\<exists>k'. hr_mutex_unlock (Some x) k = Some (HR_OK, k')"
proof -
  define k0 where "k0 = k\<lparr>primask := 1\<rparr>"
  have k0: "kernel_inv k0" "owns k0 t x" "waiters k0 x = []" and f: "tcb k0 = tcb k"
    using assms mutex_valid [OF assms(1)] by (simp_all add: k0_def owns_def)
  note kv = kernel_invD(1) [OF k0(1)] and o = owned_mutex(3,4) [OF kernel_invD(1) [OF k0(1)] k0(2)]
  have t: "g_current_task k = Some t" "tmagic (tcb k t) = HR_CFG_TASK_MAGIC" using assms(4) o(2) f by (simp_all add: may_block_def)
  have d: "registered (detach x t k0) t" "\<not> blocked (tcb (detach x t k0) t)" "tbase_priority (tcb (detach x t k0) t) < HR_CFG_IDLE_PRIORITY"
    using o(1) detach_ok(2) [OF kv k0(2)] assms(4,8) f
    by (simp_all add: ownership_def, simp_all add: detach_def blocked_def suspended_wait_def may_block_def)
  show ?thesis
  proof (rule release_no_waiter [OF k0])
    fix st k' assume r: "mutex_release x k0 = Some (Inr (st, hr_kernel_current_should_preempt k'), k')"
      and s: "settle (Some t) None (detach x t k0) = Some (st, k')"
    have "st = HR_OK"
      using recompute_unblocked [OF kernel_invD(1) [OF release_free [OF k0]] d, of HR_CFG_MAX_TASKS] s
      by (auto simp: settle_def hr_mutex_recompute_task_priority_def)
    then show ?thesis using unlock_release [OF assms(2,3) t assms(5,6) r [unfolded k0_def]] by blast
  qed
qed

theorem unlock_restores_witness:
  "\<exists>k k'. kernel_inv k \<and> hr_mutex_unlock (Some 1) k = Some (HR_OK, k') \<and> inherited k' 2"
proof -
  obtain k where k: "kernel_inv k" "may_block k 2" "\<not> inside_isr k" "mcb k 1 = app_mutex" "tbase_priority (tcb k 2) = 2"
    and nb: "\<And>t. \<not> blocked (tcb k t)" by (rule app_running) blast
  have m: "mmagic (mcb k 1) = HR_CFG_MUTEX_MAGIC" "mowner (mcb k 1) = None" "\<not> mrecursive (mcb k 1)" using k(4) by (simp_all add: app_mutex_def)
  have r: "registered k 2" using registered_iff [OF kernel_invD(1) [OF k(1)], of 2] k(2) by (simp add: may_block_def)
  obtain n where a: "kernel_inv (attach 1 2 n k)" by (rule attach_inv [OF k(1) m(1,2) r])
  define k1 where "k1 = attach 1 2 n k"
  have f: "mowner (mcb k1 1) = Some 2" "mmagic (mcb k1 1) = HR_CFG_MUTEX_MAGIC" "\<not> mrecursive (mcb k1 1)" "may_block k1 2" "\<not> inside_isr k1"
    "\<And>u. \<not> blocked (tcb k1 u)" "tbase_priority (tcb k1 2) = 2"
    using m k nb by (simp_all add: k1_def attach_def blocked_def suspended_wait_def may_block_def)
  note i = a [folded k1_def]
  have v: "hr_mutex_is_valid (Some 1) k1" using mutex_valid [OF i] f(2) by blast
  have l: "inited (kmem k1) (MutexWaiters 1)" using f(2) owners_okD(2) [OF kinvD(3) [OF kernel_invD(1) [OF i]]] by blast
  have w: "waiters k1 1 = []" by (rule no_waiters [OF i f(6) _ l]) simp
  have rc: "\<not> (mrecursive (mcb k1 1) \<and> mrecursion_count (mcb k1 1) > 1)" using f(3) by simp
  obtain k' where k': "hr_mutex_unlock (Some 1) k1 = Some (HR_OK, k')"
    using unlock_alone [OF i v f(5,4,1) rc w] f(7) by (auto simp: word_less_nat_alt)
  from unlock_restores [OF i v f(5,4,1) rc k'] k' i show ?thesis by blast
qed

text \<open>
  C15: The recursion over the owners always ends, also when tasks wait for each other in a circle:
  a circle, like any chain of owners longer than the depth limit, ends with an error instead of a
  success.
\<close>

theorem recompute_terminates:
  assumes "kernel_inv k" and "registered k t"
  shows "\<exists>st k'. hr_mutex_recompute_task_priority (Some t) depth k = Some (st, k') \<and> kernel_inv k' \<and>
    (owner_chain (HR_CFG_MAX_TASKS + 1 - depth) k t = None \<longrightarrow> st \<noteq> HR_OK)"
proof -
  obtain st k' where r: "hr_mutex_recompute_task_priority (Some t) depth k = Some (st, k')" "kernel_inv k'"
      "repri k k'" "registered k' t = registered k t"
    by (rule recompute_task_inv [OF assms, where depth = depth and u = t])
  have "owner_chain (HR_CFG_MAX_TASKS + 1 - depth) k t \<noteq> None" if "st = HR_OK"
  proof -
    have "recompute_loop (HR_CFG_MAX_TASKS + 1 - depth) (Some t) k = Some (HR_OK, k')"
      using r(1) unfolding that by (simp only: hr_mutex_recompute_task_priority_def)
    from recompute_chain [OF kernel_invD(1) [OF assms(1)] assms(2) this] show ?thesis by blast
  qed
  then show ?thesis using r(1,2) by (intro exI conjI impI notI) simp_all
qed

theorem recompute_terminates_witness:
  "\<exists>k st k'. kernel_inv k \<and> hr_mutex_recompute_task_priority (Some 2) 0 k = Some (st, k') \<and> kernel_inv k'"
proof -
  obtain k where k: "kernel_inv k" "may_block k 2" by (rule app_running)
  have "registered k 2" using registered_iff [OF kernel_invD(1) [OF k(1)], of 2] k(2) by (simp add: may_block_def)
  from recompute_terminates [OF k(1) this, of 0] k(1) show ?thesis by blast
qed

section \<open>Software timers\<close>

text \<open>
  C6: A periodic timer does not drift: started with period \<open>p\<close>, it has expired exactly
  \<open>n div p\<close> times after any sequence of context switches and \<open>n\<close> system ticks, across every
  wrap-around of the tick counter, and it is still active.
\<close>

theorem periodic_timer_exact:
  assumes "kernel_inv k" and "g_kernel_state k = HR_KERNEL_STATE_RUNNING" and "\<not> inside_isr k" and "hr_timer_is_valid (Some x) k"
    and "\<not> tmactive (tmcb k x)" and "tmauto_reload (tmcb k x)" and "list_all clock_step ops"
    and "count_list ops Tick div unat (tmperiod_ticks (tmcb k x)) \<le> unat UINT32_MAX"
  shows "\<exists>k0 k'. hr_timer_start (Some x) k = Some (HR_OK, k0) \<and> run_ops cbs ops k0 = Some k' \<and> kernel_inv k' \<and>
    hr_timer_is_active (Some x) k' \<and>
    unat (tmpending_count (tmcb k' x)) = count_list ops Tick div unat (tmperiod_ticks (tmcb k x))"
proof (rule timer_start_ok [OF assms(1,4,3,5)])
  fix k0 assume s: "hr_timer_start (Some x) k = Some (HR_OK, k0)" "kernel_inv k0" "armed_for x (tmperiod_ticks (tmcb k x)) k0"
    and c: "tmcb k0 x = (tmcb k x)\<lparr>tmactive := True, tmpending_count := 0\<rparr>" and st: "g_kernel_state k0 = g_kernel_state k"
  let ?p = "tmperiod_ticks (tmcb k x)"
  have "periodic x ?p 0 ?p k0"
    using s(2,3) c st assms(2,4,6) by (simp add: periodic_def armed_for_def hr_timer_is_active_def hr_timer_is_valid_def)
  moreover have p: "?p \<noteq> 0" using assms(4) by (simp add: hr_timer_is_valid_def word_gt_0)
  moreover have e: "expiries (unat ?p) (unat ?p) (count_list ops Tick) = count_list ops Tick div unat ?p" by (simp add: expiries_def)
  ultimately have "\<exists>k' r'. run_ops cbs ops k0 = Some k' \<and> periodic x ?p (0 + count_list ops Tick div unat ?p) r' k'"
    using periodic_run [OF _ p order_refl assms(7), of x 0 k0 cbs, unfolded e] assms(8) by (simp only: add_0)
  then show ?thesis using s(1) by (auto simp: periodic_def)
qed

theorem periodic_timer_exact_witness:
  "\<exists>k k0 k'. kernel_inv k \<and> hr_timer_start (Some 1) k = Some (HR_OK, k0) \<and>
    run_ops no_callbacks [Tick, Tick, PendSV, Tick, Tick] k0 = Some k' \<and> unat (tmpending_count (tmcb k' 1)) = 1"
proof -
  obtain k where k: "kernel_inv k" "may_block k 2" "\<not> inside_isr k" "tmcb k 1 = new_tmcb (Some ''t'') 3 True (Some 0) 0" by (rule app_running)
  have v: "hr_timer_is_valid (Some 1) k" "\<not> tmactive (tmcb k 1)" "tmauto_reload (tmcb k 1)" "tmperiod_ticks (tmcb k 1) = 3"
    "g_kernel_state k = HR_KERNEL_STATE_RUNNING"
    using k(2,4) by (simp_all add: hr_timer_is_valid_def new_tmcb_def may_block_def)
  have c: "list_all clock_step [Tick, Tick, PendSV, Tick, Tick]"
    "count_list [Tick, Tick, PendSV, Tick, Tick] Tick div unat (tmperiod_ticks (tmcb k 1)) = 1" using v(4) by simp_all
  have "1 \<le> unat UINT32_MAX" by simp
  from periodic_timer_exact [OF k(1) v(5) k(3) v(1-3) c(1), of no_callbacks, unfolded c(2), OF this] k(1) show ?thesis by blast
qed

section \<open>Errors\<close>

text \<open>
  C18: Calls that belong to task level are refused inside an interrupt handler: on valid objects
  they return HR_ERROR_FROM_ISR (or HR_ERROR_INVALID_STATE for a delay) and leave the kernel as it
  was.
\<close>

theorem isr_calls_refused:
  assumes "inside_isr k" and "hr_semaphore_is_valid (Some s) k" and "hr_queue_is_valid (Some q) k" and "hr_mutex_is_valid (Some x) k"
    and "hr_timer_is_valid (Some y) k"
  shows "hr_semaphore_take (Some s) timeout k = Some (Returned HR_ERROR_FROM_ISR, k) \<and>
    hr_semaphore_give (Some s) k = Some (HR_ERROR_FROM_ISR, k) \<and>
    hr_queue_send (Some q) (Some item) timeout k = Some (Returned HR_ERROR_FROM_ISR, k) \<and>
    hr_queue_receive (Some q) (Some item) timeout k = Some (Returned HR_ERROR_FROM_ISR, k) \<and>
    hr_mutex_lock (Some x) timeout k = Some (Returned HR_ERROR_FROM_ISR, k) \<and>
    hr_mutex_unlock (Some x) k = Some (HR_ERROR_FROM_ISR, k) \<and>
    hr_timer_start (Some y) k = Some (HR_ERROR_FROM_ISR, k) \<and> hr_timer_stop (Some y) k = Some (HR_ERROR_FROM_ISR, k) \<and>
    hr_task_delay d k = Some (HR_ERROR_INVALID_STATE, k)"
  using assms by (simp add: hr_semaphore_take_def hr_semaphore_give_def hr_queue_send_def hr_queue_receive_def hr_mutex_lock_def
      hr_mutex_unlock_def hr_timer_start_def hr_timer_stop_def hr_task_delay_def hr_port_is_inside_isr_def)

theorem isr_calls_refused_witness:
  "\<exists>k. inside_isr k \<and> kernel_inv k \<and> hr_mutex_lock (Some 1) 5 k = Some (Returned HR_ERROR_FROM_ISR, k)"
proof -
  obtain k where k: "kernel_inv k" "scb k 1 = app_sem" "qcb k 1 = app_queue" "mcb k 1 = app_mutex"
    "tmcb k 1 = new_tmcb (Some ''t'') 3 True (Some 0) 0" by (rule app_running)
  let ?k = "k\<lparr>inside_isr := True\<rparr>"
  have i: "kernel_inv ?k" "inside_isr ?k" using k(1) by simp_all
  have v: "hr_semaphore_is_valid (Some 1) ?k" "hr_queue_is_valid (Some 1) ?k" "hr_mutex_is_valid (Some 1) ?k" "hr_timer_is_valid (Some 1) ?k"
    using k mutex_valid [OF i(1)]
    by (simp_all add: hr_semaphore_is_valid_def app_sem_def hr_queue_is_valid_def app_queue_def Let_def app_mutex_def hr_timer_is_valid_def new_tmcb_def)
  from isr_calls_refused [OF i(2) v] i show ?thesis by blast
qed

section \<open>Suspending and resuming\<close>

lemma lists_kept_trans: "lists_kept m m1 \<Longrightarrow> lists_kept m1 m2 \<Longrightarrow> lists_kept m m2"
  using same_others_trans same_timeouts_trans by (auto simp: lists_kept_def same_timeouts_def)

lemma resume_suspended:
  assumes "kernel_inv k1" and "may_resume k1 u"
  obtains c k2 where "hr_kernel_resume_task (Some u) (Some False) k1 = Some ((HR_OK, Some c), k2)" and "kernel_inv k2"
    and "tcb k2 u = resume_tcb (tcb k1 u)" and "lists_kept (kmem k1) (kmem k2)"
proof -
  note kv = kernel_invD(1) [OF assms(1)]
  obtain st sw k' where i: "hr_kernel_resume_task (Some u) (Some False) k1 = Some ((st, sw), k')" "kernel_inv k'"
    by (rule resume_task_inv [OF assms(1)])
  show thesis
  proof (cases "tsuspended_resume_state (tcb k1 u) = HR_TASK_STATE_BLOCKED")
    case True
    note r = resume_blocked_ok(2) [OF kv assms(2) True, where sw = "Some False"]
    show thesis by (rule that [of False k']) (use r i in \<open>auto simp: lists_kept_def\<close>)
  next
    case False
    show thesis
    proof (rule resume_ready_ok [OF kv assms(2) False, where sw = "Some False"])
      fix m k2 assume r: "hr_kernel_resume_task (Some u) (Some False) k1 = Some ((HR_OK, map_option (\<lambda>_. outranks k2 u) (Some False)), k2)"
        "kmem k2 = m" "tcb k2 = (tcb k1)(u := resume_tcb (tcb k1 u))" "lists_kept (kmem k1) m"
      show thesis by (rule that [of "outranks k2 u" k2]) (use r i in auto)
    qed
  qed
qed

text \<open>
  C17: Resuming undoes suspending: a task that was READY is READY again, with a full time slice; a
  task that was BLOCKED is BLOCKED again, with every other field of its control block as before;
  and the wait lists and the timeouts are those from before.
\<close>

theorem suspend_resume:
  assumes "kernel_inv k" and "may_suspend k u" and "tstate (tcb k u) \<noteq> HR_TASK_STATE_RUNNING"
  shows "\<exists>k1 k2 b c. hr_kernel_suspend_task (Some u) (Some False) k = Some ((HR_OK, Some b), k1) \<and>
    tstate (tcb k1 u) = HR_TASK_STATE_SUSPENDED \<and>
    hr_kernel_resume_task (Some u) (Some False) k1 = Some ((HR_OK, Some c), k2) \<and> kernel_inv k2 \<and>
    tcb k2 u = (if tstate (tcb k u) = HR_TASK_STATE_READY
      then (tcb k u)\<lparr>tsuspended_resume_state := HR_TASK_STATE_INVALID, ttime_slice_remaining := HR_CFG_TIME_SLICE_TICKS\<rparr>
      else (tcb k u)\<lparr>tsuspended_resume_state := HR_TASK_STATE_INVALID\<rparr>) \<and> lists_kept (kmem k) (kmem k2)"
proof (rule suspend_ok [OF kernel_invD(1) [OF assms(1)] assms(2), where sw = "Some False"])
  fix m k1 assume s: "hr_kernel_suspend_task (Some u) (Some False) k =
      Some ((HR_OK, map_option (\<lambda>_. tstate (tcb k u) = HR_TASK_STATE_RUNNING) (Some False)), k1)"
    and k1: "kmem k1 = m" "tcb k1 = (tcb k)(u := suspend_tcb (tcb k u))" "lists_kept (kmem k) m"
    and "k1 = k\<lparr>kmem := m, tcb := tcb k1, g_switch_reasons := g_switch_reasons k1\<rparr>"
  from arg_cong [OF this(5), of g_kernel_state] have ks: "g_kernel_state k1 = g_kernel_state k" by simp
  obtain st sw k' where "hr_kernel_suspend_task (Some u) (Some False) k = Some ((st, sw), k')" "kernel_inv k'"
    by (rule suspend_task_inv [OF assms(1)])
  then have i: "kernel_inv k1" using s by simp
  have st: "tstate (tcb k u) = HR_TASK_STATE_READY \<or> tstate (tcb k u) = HR_TASK_STATE_BLOCKED"
    using assms(2,3) by (auto simp: may_suspend_def)
  have c1: "tcb k1 u = suspend_tcb (tcb k u)" using k1(2) by simp
  have m: "may_resume k1 u" "tstate (tcb k1 u) = HR_TASK_STATE_SUSPENDED"
    using assms(2) ks c1 st by (auto simp: may_resume_def may_suspend_def suspend_tcb_def)
  show ?thesis
  proof (rule resume_suspended [OF i m(1)])
    fix c k2 assume r: "hr_kernel_resume_task (Some u) (Some False) k1 = Some ((HR_OK, Some c), k2)" "kernel_inv k2"
      "tcb k2 u = resume_tcb (tcb k1 u)" "lists_kept (kmem k1) (kmem k2)"
    have "tcb k2 u = (if tstate (tcb k u) = HR_TASK_STATE_READY
        then (tcb k u)\<lparr>tsuspended_resume_state := HR_TASK_STATE_INVALID, ttime_slice_remaining := HR_CFG_TIME_SLICE_TICKS\<rparr>
        else (tcb k u)\<lparr>tsuspended_resume_state := HR_TASK_STATE_INVALID\<rparr>)"
      unfolding r(3) c1 using st by (auto simp: suspend_tcb_def resume_tcb_def)
    moreover have "lists_kept (kmem k) (kmem k2)" using lists_kept_trans [OF k1(3)] r(4) k1(1) by simp
    ultimately show ?thesis using s r(1,2) m(2) by (intro exI conjI) (simp_all only: option.map)
  qed
qed

theorem suspend_resume_witness:
  "\<exists>k k1 k2 b c. kernel_inv k \<and> hr_kernel_suspend_task (Some 3) (Some False) k = Some ((HR_OK, Some b), k1) \<and>
    hr_kernel_resume_task (Some 3) (Some False) k1 = Some ((HR_OK, Some c), k2)"
proof -
  obtain k where k: "kernel_inv k" "may_block k 2" "tstate (tcb k 3) = HR_TASK_STATE_READY" by (rule app_running)
  then have "may_suspend k 3" "tstate (tcb k 3) \<noteq> HR_TASK_STATE_RUNNING" by (simp_all add: may_suspend_def may_block_def)
  from suspend_resume [OF k(1) this] k(1) show ?thesis by blast
qed

end
