(* ===== verification/Spec2Isabelle.thy ===== *)
theory Spec2Isabelle
  imports HR_Data_Properties HR_Kernel_Properties
begin

text \<open>
  A model of the hairtos kernel (\<open>src/kernel\<close> with the Cortex-M3 port under
  \<open>src/arch/arm/cortex-m3\<close>).
\<close>

end
